(* ===== verification/Prelude.thy ===== *)
theory Prelude
  imports Complex_Main "HOL-Library.Word" "HOL-Library.Monad_Syntax"
    "HOL-Library.AList"
begin

text \<open>
  The vocabulary every component theory of the development shares:
  \<^item> Go's machine types (\<open>byte\<close>, \<open>u16\<close>, \<open>u64\<close>, \<open>pubkey\<close>), and the zero value of a key;
  \<^item> the outcome of a Go function that may return an error or panic:
    \<open>('e + 'a) option\<close>, where \<open>None\<close> is a run-time panic (an index or a slice out of range),
    \<open>Some (Inl e)\<close> an error return and \<open>Some (Inr x)\<close> a normal return;
  \<^item> slices and little-endian integers (\<open>encoding/binary\<close>), with their round trips;
  \<^item> tables keyed by a primary key, and lookups into Go maps that return the zero value;
  \<^item> generic lemmas on lists and maps that several components use.
\<close>

section \<open>Collections of rewrite rules\<close>

named_theorems go_reads \<open>reads of a byte slice that are in range\<close>
named_theorems go_sizes \<open>the length of an encoded value\<close>

section \<open>Go's machine types\<close>

type_synonym byte = "8 word"
type_synonym u16 = "16 word"
type_synonym u32 = "32 word"
type_synonym u64 = "64 word"

text \<open>A public key is Go's \<open>[32]byte\<close>; its zero value is 32 zero bytes.\<close>

type_synonym pubkey = "byte list"

definition zero_key :: pubkey where
  "zero_key = replicate 32 0"

lemma length_zero_key [simp]: "length zero_key = 32"
  by (simp add: zero_key_def)

text \<open>
  An IEEE-754 double on the wire is its 64-bit pattern: \<open>math.Float64frombits\<close> and
  \<open>math.Float64bits\<close> are the two directions of the constructor.
\<close>

datatype float64 = Float64frombits (Float64bits: u64)

text \<open>
  A double that is computed with: a finite value is taken as the exact real number (rounding
  is not modelled), the three special values are kept apart because the code tests for them.
\<close>

datatype gofloat = Finite real | PosInf | NegInf | NaN

text \<open>Reading a Go map at an absent key gives the zero value of its value type.\<close>

definition map_get :: "'v \<Rightarrow> ('k \<rightharpoonup> 'v) \<Rightarrow> 'k \<Rightarrow> 'v" where
  "map_get z m k = (case m k of None \<Rightarrow> z | Some v \<Rightarrow> v)"

lemma map_get_simps [simp]:
  "m k = None \<Longrightarrow> map_get z m k = z"
  "m k = Some v \<Longrightarrow> map_get z m k = v"
  "map_get z (m(k \<mapsto> v)) k = v"
  "k' \<noteq> k \<Longrightarrow> map_get z (m(k \<mapsto> v)) k' = map_get z m k'"
  by (simp_all add: map_get_def)

section \<open>Slices\<close>

text \<open>\<open>bs[off : off+n]\<close>: a panic when the range leaves the slice.\<close>

definition go_slice :: "nat \<Rightarrow> nat \<Rightarrow> 'a list \<Rightarrow> 'a list option" where
  "go_slice off n bs = (if off + n \<le> length bs then Some (take n (drop off bs)) else None)"

text \<open>\<open>bs[off:]\<close>.\<close>

definition go_slice_from :: "nat \<Rightarrow> 'a list \<Rightarrow> 'a list option" where
  "go_slice_from off bs = (if off \<le> length bs then Some (drop off bs) else None)"

text \<open>\<open>bs[i]\<close>.\<close>

definition go_index :: "'a list \<Rightarrow> nat \<Rightarrow> 'a option" where
  "go_index bs i = (if i < length bs then Some (bs ! i) else None)"

lemma go_slice_in [go_reads]: "off + n \<le> length bs \<Longrightarrow> go_slice off n bs = Some (take n (drop off bs))"
  by (simp add: go_slice_def)

lemma go_slice_from_in [go_reads]: "off \<le> length bs \<Longrightarrow> go_slice_from off bs = Some (drop off bs)"
  by (simp add: go_slice_from_def)

lemma go_index_in [go_reads]: "i < length bs \<Longrightarrow> go_index bs i = Some (bs ! i)"
  by (simp add: go_index_def)

lemma go_slice_None_iff: "go_slice off n bs = None \<longleftrightarrow> length bs < off + n"
  by (auto simp: go_slice_def)

section \<open>Little-endian integers\<close>

fun le_nat :: "byte list \<Rightarrow> nat" where
  "le_nat [] = 0"
| "le_nat (b # bs) = unat b + 256 * le_nat bs"

text \<open>\<open>le_bytes n x\<close>: the \<open>n\<close> low bytes of \<open>x\<close>, least significant first.\<close>

fun le_bytes :: "nat \<Rightarrow> nat \<Rightarrow> byte list" where
  "le_bytes 0 x = []"
| "le_bytes (Suc n) x = of_nat x # le_bytes n (x div 256)"

lemma length_le_bytes [simp, go_sizes]: "length (le_bytes n x) = n"
  by (induction n arbitrary: x) auto

lemma le_nat_less: "le_nat bs < 256 ^ length bs"
proof (induction bs)
  case Nil
  then show ?case by simp
next
  case (Cons b bs)
  have "unat b < 256" using unsigned_less [of b] by simp
  moreover have "le_nat bs + 1 \<le> 256 ^ length bs" using Cons.IH by simp
  then have "256 * (le_nat bs + 1) \<le> 256 * 256 ^ length bs" by (rule mult_le_mono2)
  ultimately show ?case by simp
qed

lemma unat_of_nat_byte: "unat (of_nat x :: byte) = x mod 256"
  by (simp add: unat_of_nat)

lemma le_nat_le_bytes: "le_nat (le_bytes n x) = x mod 256 ^ n"
proof (induction n arbitrary: x)
  case 0
  then show ?case by simp
next
  case (Suc n)
  have "x mod 256 + 256 * ((x div 256) mod 256 ^ n) = x mod (256 * 256 ^ n)"
    by (simp add: mod_mult2_eq)
  with Suc show ?case by (simp add: unat_of_nat_byte)
qed

lemma le_bytes_le_nat: "le_bytes (length bs) (le_nat bs) = bs"
proof (induction bs)
  case Nil
  then show ?case by simp
next
  case (Cons b bs)
  have "unat b < 256" using unsigned_less [of b] by simp
  then have "(unat b + 256 * le_nat bs) div 256 = le_nat bs" by simp
  moreover have "(of_nat (unat b + 256 * le_nat bs) :: byte) = b"
  proof (rule word_unat_eq_iff [THEN iffD2])
    show "unat (of_nat (unat b + 256 * le_nat bs) :: byte) = unat b"
      unfolding unat_of_nat_byte using \<open>unat b < 256\<close> by simp
  qed
  ultimately show ?case using Cons by simp
qed

text \<open>\<open>binary.LittleEndian.Uint16 / Uint64\<close>: both index the last byte first, so a short slice panics.\<close>

definition le_u16 :: "byte list \<Rightarrow> u16 option" where
  "le_u16 bs = (if 2 \<le> length bs then Some (of_nat (le_nat (take 2 bs))) else None)"

definition le_u32 :: "byte list \<Rightarrow> u32 option" where
  "le_u32 bs = (if 4 \<le> length bs then Some (of_nat (le_nat (take 4 bs))) else None)"

definition le_u64 :: "byte list \<Rightarrow> u64 option" where
  "le_u64 bs = (if 8 \<le> length bs then Some (of_nat (le_nat (take 8 bs))) else None)"

text \<open>\<open>binary.LittleEndian.PutUint16 / PutUint64\<close>: the bytes written.\<close>

definition put_u16 :: "u16 \<Rightarrow> byte list" where
  "put_u16 x = le_bytes 2 (unat x)"

definition put_u64 :: "u64 \<Rightarrow> byte list" where
  "put_u64 x = le_bytes 8 (unat x)"

lemma length_put [simp, go_sizes]: "length (put_u16 x) = 2" "length (put_u64 y) = 8"
  by (simp_all add: put_u16_def put_u64_def)

lemma le_u16_put [simp]: "le_u16 (put_u16 x @ rest) = Some x"
proof -
  have "unat x < 65536" using unsigned_less [of x] by simp
  then show ?thesis by (simp add: le_u16_def put_u16_def le_nat_le_bytes)
qed

lemma le_u64_put [simp]: "le_u64 (put_u64 x @ rest) = Some x"
proof -
  have "unat x < 256 ^ 8" using unsigned_less [of x] by simp
  then show ?thesis by (simp add: le_u64_def put_u64_def le_nat_le_bytes)
qed

lemma le_u64_put_nil [simp]: "le_u64 (put_u64 x) = Some x"
  using le_u64_put [of x "[]"] by simp

text \<open>The value a successful read of 8 bytes gives, as a total function.\<close>

definition u64_at :: "byte list \<Rightarrow> nat \<Rightarrow> u64" where
  "u64_at bs off = of_nat (le_nat (take 8 (drop off bs)))"

definition u16_at :: "byte list \<Rightarrow> nat \<Rightarrow> u16" where
  "u16_at bs off = of_nat (le_nat (take 2 (drop off bs)))"

lemma le_u64_in [go_reads]: "8 \<le> length bs \<Longrightarrow> le_u64 bs = Some (u64_at bs 0)"
  by (simp add: le_u64_def u64_at_def)

lemma le_u16_in [go_reads]: "2 \<le> length bs \<Longrightarrow> le_u16 bs = Some (u16_at bs 0)"
  by (simp add: le_u16_def u16_at_def)

lemma u64_at_slice [simp]: "n \<ge> 8 \<Longrightarrow> u64_at (take n (drop off bs)) 0 = u64_at bs off"
  by (simp add: u64_at_def min_def)

lemma u16_at_slice [simp]: "n \<ge> 2 \<Longrightarrow> u16_at (take n (drop off bs)) 0 = u16_at bs off"
  by (simp add: u16_at_def min_def)

lemma u64_at_drop [simp]: "u64_at (drop m bs) off = u64_at bs (m + off)"
  by (simp add: u64_at_def add.commute)

lemma u64_at_put: "length xs = off \<Longrightarrow> u64_at (xs @ put_u64 x @ rest) off = x"
proof -
  assume "length xs = off"
  then have "u64_at (xs @ put_u64 x @ rest) off = u64_at (put_u64 x @ rest) 0"
    by (simp add: u64_at_def)
  also have "\<dots> = x"
    using le_u64_put [of x rest] le_u64_in [of "put_u64 x @ rest"] by simp
  finally show ?thesis .
qed

section \<open>Folds over lists with an error exit\<close>

text \<open>A Go loop that returns on the first error.\<close>

fun fold_err :: "('a \<Rightarrow> 's \<Rightarrow> 'e + 's) \<Rightarrow> 'a list \<Rightarrow> 's \<Rightarrow> 'e + 's" where
  "fold_err f [] s = Inr s"
| "fold_err f (x # xs) s = (case f x s of Inl e \<Rightarrow> Inl e | Inr s' \<Rightarrow> fold_err f xs s')"

lemma fold_err_append:
  "fold_err f (xs @ ys) s = (case fold_err f xs s of Inl e \<Rightarrow> Inl e | Inr s' \<Rightarrow> fold_err f ys s')"
  by (induction xs arbitrary: s) (auto split: sum.splits)

lemma fold_err_invariant:
  assumes "fold_err f xs s = Inr t" and "P s"
    and "\<And>x s s'. x \<in> set xs \<Longrightarrow> P s \<Longrightarrow> f x s = Inr s' \<Longrightarrow> P s'"
  shows "P t"
  using assms
proof (induction xs arbitrary: s)
  case Nil
  then show ?case by simp
next
  case (Cons x xs)
  from Cons.prems(1) obtain s' where s': "f x s = Inr s'" "fold_err f xs s' = Inr t"
    by (auto split: sum.splits)
  have "P s'" using Cons.prems(2,3) s'(1) by auto
  then show ?case using Cons.IH [OF s'(2)] Cons.prems(3) by auto
qed

lemma fold_invariant:
  assumes "P s" and "\<And>x s. x \<in> set xs \<Longrightarrow> P s \<Longrightarrow> P (f x s)"
  shows "P (fold f xs s)"
  using assms by (induction xs arbitrary: s) auto

section \<open>Association lists\<close>

lemma set_alist_update: "set (AList.update k v al) \<subseteq> insert (k, v) (set al)"
  by (induction al) auto

lemma set_alist_delete: "set (AList.delete k al) \<subseteq> set al"
  by (auto simp: AList.delete_eq)

lemma alist_delete_update_new: "k \<notin> fst ` set al \<Longrightarrow> AList.delete k (AList.update k v al) = al"
  by (simp add: delete_update_same delete_id)

lemma map_get_default: "k \<notin> fst ` set al \<Longrightarrow> map_get z (map_of al) k = z"
  by (simp add: map_get_def map_of_eq_None_iff split: option.splits) (metis map_of_eq_None_iff not_None_eq)

section \<open>Signed columns\<close>

text \<open>\<open>int64(x)\<close> of an unsigned value and \<open>uint64(y)\<close> of a signed one: SQLite stores 64-bit signed integers.\<close>

definition to_int64 :: "u64 \<Rightarrow> int" where
  "to_int64 x = sint x"

definition to_uint64 :: "int \<Rightarrow> u64" where
  "to_uint64 y = word_of_int y"

lemma to_uint64_int64 [simp]: "to_uint64 (to_int64 x) = x"
  by (simp add: to_uint64_def to_int64_def)

section \<open>Decimal numerals\<close>

text \<open>\<open>fmt.Sprintf\<close> with the verb for decimal integers, on an unsigned value.\<close>

fun dec :: "nat \<Rightarrow> string" where
  "dec n = (if n < 10 then [char_of (48 + n)] else dec (n div 10) @ [char_of (48 + n mod 10)])"

declare dec.simps [simp del]

definition undec :: "string \<Rightarrow> nat" where
  "undec s = foldl (\<lambda>n c. n * 10 + (of_char c - 48)) 0 s"

lemma undec_dec: "undec (dec n) = n"
proof (induction n rule: dec.induct)
  case (1 n)
  show ?case
  proof (cases "n < 10")
    case True
    then show ?thesis by (subst dec.simps) (simp add: undec_def of_char_of)
  next
    case False
    with 1 have "undec (dec (n div 10)) = n div 10" by simp
    with False show ?thesis by (subst dec.simps) (simp add: undec_def of_char_of)
  qed
qed

lemma dec_inject [simp]: "dec m = dec n \<longleftrightarrow> m = n"
  by (metis undec_dec)

section \<open>Loops that build a list\<close>

text \<open>The panics of the single steps are the panics of the loop.\<close>

definition is_digit :: "char \<Rightarrow> bool" where
  "is_digit c = (48 \<le> (of_char c :: nat) \<and> (of_char c :: nat) \<le> 57)"

lemma dec_digits: "list_all is_digit (dec n) \<and> dec n \<noteq> []"
proof (induction n rule: dec.induct)
  case (1 n)
  have "is_digit (char_of (48 + m :: nat))" if "m < 10" for m using that by (simp add: is_digit_def)
  then show ?case using 1 by (subst (1 2) dec.simps) simp
qed

text \<open>\<open>strings.Join\<close>, with the separator first.\<close>

fun join :: "string \<Rightarrow> string list \<Rightarrow> string" where
  "join sep [] = []"
| "join sep [x] = x"
| "join sep (x # xs) = x @ sep @ join sep xs"

lemma those_map_Some: "(\<And>x. x \<in> set xs \<Longrightarrow> f x = Some (g x)) \<Longrightarrow> those (map f xs) = Some (map g xs)"
  by (induction xs) auto

section \<open>Reads at an offset\<close>

text \<open>\<open>binary.LittleEndian.Uint64(bs[off : off+8])\<close> and its companions.\<close>

definition read_u64 :: "byte list \<Rightarrow> nat \<Rightarrow> u64 option" where
  "read_u64 bs off = do { s \<leftarrow> go_slice off 8 bs; le_u64 s }"

definition read_u16 :: "byte list \<Rightarrow> nat \<Rightarrow> u16 option" where
  "read_u16 bs off = do { s \<leftarrow> go_slice off 2 bs; le_u16 s }"

definition read_f64 :: "byte list \<Rightarrow> nat \<Rightarrow> float64 option" where
  "read_f64 bs off = do { x \<leftarrow> read_u64 bs off; Some (Float64frombits x) }"

lemma read_u64_in [go_reads]: "off + 8 \<le> length bs \<Longrightarrow> read_u64 bs off = Some (u64_at bs off)"
  by (simp add: read_u64_def go_slice_in le_u64_in)

lemma read_u16_in [go_reads]: "off + 2 \<le> length bs \<Longrightarrow> read_u16 bs off = Some (u16_at bs off)"
  by (simp add: read_u16_def go_slice_in le_u16_in)

lemma read_f64_in [go_reads]: "off + 8 \<le> length bs \<Longrightarrow> read_f64 bs off = Some (Float64frombits (u64_at bs off))"
  by (simp add: read_f64_def read_u64_in)

text \<open>Reading back what was written: the fields of a concatenation.\<close>

named_theorems wire_fields \<open>fields of an encoded record\<close>

lemma u64_at_append [wire_fields]: "length xs \<le> off \<Longrightarrow> u64_at (xs @ ys) off = u64_at ys (off - length xs)"
  by (simp add: u64_at_def)

lemma u64_at_hd [wire_fields]: "u64_at (put_u64 x @ ys) 0 = x"
  using u64_at_put [of "[]" 0 x ys] by simp

lemma u64_at_hd' [wire_fields]: "u64_at (put_u64 x) 0 = x"
  using u64_at_hd [of x "[]"] by simp

lemma u16_at_append [wire_fields]: "length xs \<le> off \<Longrightarrow> u16_at (xs @ ys) off = u16_at ys (off - length xs)"
  by (simp add: u16_at_def)

lemma u16_at_hd [wire_fields]: "u16_at (put_u16 x @ ys) 0 = x"
  using le_u16_put [of x ys] le_u16_in [of "put_u16 x @ ys"] by simp

lemma nth_append_right [wire_fields]: "length xs \<le> i \<Longrightarrow> (xs @ ys) ! i = ys ! (i - length xs)"
  by (simp add: nth_append)

lemma u64_at_Cons [wire_fields]: "u64_at (x # ys) (Suc off) = u64_at ys off"
  by (simp add: u64_at_def)

text \<open>The \<open>i\<close>-th record of a sequence of records of one size.\<close>

lemma drop_concat:
  assumes "\<And>x. x \<in> set xs \<Longrightarrow> length (f x) = k"
  shows "drop (k * i) (concat (map f xs)) = concat (map f (drop i xs))"
  using assms
proof (induction xs arbitrary: i)
  case Nil
  then show ?case by simp
next
  case (Cons x xs)
  then show ?case by (cases i) simp_all
qed

lemma length_concat_const: "(\<And>x. x \<in> set xs \<Longrightarrow> length (f x) = k) \<Longrightarrow> length (concat (map f xs)) = k * length xs"
  by (induction xs) (simp_all add: algebra_simps)

lemma drop_record:
  assumes "\<And>x. x \<in> set xs \<Longrightarrow> length (f x) = k" and "i < length xs"
  shows "\<exists>rest. drop (k * i) (concat (map f xs)) = f (xs ! i) @ rest"
proof -
  have "drop (k * i) (concat (map f xs)) = concat (map f (xs ! i # drop (Suc i) xs))"
    unfolding Cons_nth_drop_Suc [OF assms(2)] by (rule drop_concat [OF assms(1)])
  then show ?thesis by auto
qed

section \<open>Slices of a fixed size\<close>

text \<open>Consecutive slices of at most \<open>n\<close> elements from offset \<open>off\<close> on.\<close>

function chunks_from :: "nat \<Rightarrow> nat \<Rightarrow> 'a list \<Rightarrow> 'a list list" where
  "chunks_from n off data =
     (if 0 < n \<and> off < length data then take (min (off + n) (length data) - off) (drop off data) # chunks_from n (off + n) data
      else [])"
  by auto
termination by (relation "measure (\<lambda>(n, off, data). length data - off)") auto

declare chunks_from.simps [simp del]

lemma chunks_from_concat: "0 < n \<Longrightarrow> concat (chunks_from n off data) = drop off data"
proof (induction n off data rule: chunks_from.induct)
  case (1 n off data)
  show ?case
  proof (cases "off < length data")
    case True
    have "take (min (off + n) (length data) - off) (drop off data) = take n (drop off data)"
      using True by (cases "off + n \<le> length data") (auto simp: min_def)
    then have "chunks_from n off data = take n (drop off data) # chunks_from n (off + n) data"
      using 1(2) True by (subst chunks_from.simps) simp
    then have "concat (chunks_from n off data) = take n (drop off data) @ drop n (drop off data)"
      using 1 True by (simp add: add.commute)
    then show ?thesis by (simp only: append_take_drop_id)
  next
    case False
    then show ?thesis by (subst chunks_from.simps) simp
  qed
qed

lemma chunks_from_nonempty: "b \<in> set (chunks_from n off data) \<Longrightarrow> b \<noteq> []"
proof (induction n off data rule: chunks_from.induct)
  case (1 n off data)
  show ?case
  proof (cases "0 < n \<and> off < length data")
    case True
    then have "chunks_from n off data = take (min (off + n) (length data) - off) (drop off data) # chunks_from n (off + n) data"
      by (subst chunks_from.simps) simp
    with 1 True show ?thesis by auto
  next
    case False
    then have "chunks_from n off data = []" by (subst chunks_from.simps) simp
    with 1(2) show ?thesis by simp
  qed
qed

lemma chunks_from_bound: "b \<in> set (chunks_from n off data) \<Longrightarrow> length b \<le> n"
proof (induction n off data rule: chunks_from.induct)
  case (1 n off data)
  show ?case
  proof (cases "0 < n \<and> off < length data")
    case True
    then have "chunks_from n off data = take (min (off + n) (length data) - off) (drop off data) # chunks_from n (off + n) data"
      by (subst chunks_from.simps) simp
    with 1 True show ?thesis by auto
  next
    case False
    then have "chunks_from n off data = []" by (subst chunks_from.simps) simp
    with 1(2) show ?thesis by simp
  qed
qed

lemma alist_update_new: "k \<notin> fst ` set al \<Longrightarrow> AList.update k v al = al @ [(k, v)]"
  by (induction al) auto

lemma concat_map_if: "concat (map (\<lambda>x. if P x then [] else [f x]) xs) = map f (filter (\<lambda>x. \<not> P x) xs)"
  by (induction xs) auto

end
