(* ===== verification/PriceGraph.thy ===== *)
theory PriceGraph
  imports Prelude
begin

text \<open>
  The price graph of \<open>src/prefetch/graph.go\<close>: a directed multigraph of mints whose edge weights
  are negated log prices, and the negative-cycle search \<open>BellmanFord\<close> on it.
  Weights are exact reals (\<open>math.Log\<close> is \<open>ln\<close>). Go iterates over a map in an arbitrary order
  that may differ from one loop to the next: the order of the \<open>i\<close>-th iteration is the argument
  \<open>ord i\<close>, any enumeration of the keys. Following the predecessor map back to the start of the
  cycle is a loop with no evident bound, so it is a \<^theory_text>\<open>partial_function\<close> whose \<open>None\<close> means
  that the loop does not return; that it always returns is proved.
\<close>

section \<open>The data model\<close>

record edge =
  To :: pubkey
  Weight :: real
  Pool :: pubkey
  Program :: string

record price_graph =
  edges :: "pubkey \<rightharpoonup> edge list"

definition NewPriceGraph :: price_graph where
  "NewPriceGraph = \<lparr>edges = Map.empty\<rparr>"

definition addNode :: "pubkey \<Rightarrow> price_graph \<Rightarrow> price_graph" where
  "addNode n g = (if edges g n = None then g\<lparr>edges := (edges g)(n \<mapsto> [])\<rparr> else g)"



definition NodeCount :: "price_graph \<Rightarrow> nat" where
  "NodeCount g = card (dom (edges g))"

text \<open>The sum over the map, in the order the map is iterated.\<close>

definition EdgeCount :: "pubkey list \<Rightarrow> price_graph \<Rightarrow> nat" where
  "EdgeCount ks g = fold (\<lambda>k n. n + length (map_get [] (edges g) k)) ks 0"

section \<open>The search for a negative cycle\<close>

record search =
  dist :: "pubkey \<Rightarrow> real" \<comment> \<open>reads of an absent key give 0, the initial value\<close>
  prev :: "pubkey \<rightharpoonup> pubkey"
  changed :: bool

text \<open>The edges in the order the two nested loops visit them.\<close>

definition edge_list :: "price_graph \<Rightarrow> pubkey list \<Rightarrow> (pubkey \<times> edge) list" where
  "edge_list g ks = concat (map (\<lambda>k. map (Pair k) (map_get [] (edges g) k)) ks)"

fun relax :: "pubkey \<times> edge \<Rightarrow> search \<Rightarrow> search" where
  "relax (from, e) s =
     (let nd = dist s from + Weight e
      in if nd < dist s (To e)
         then s\<lparr>dist := (dist s)(To e := nd), prev := (prev s)(To e \<mapsto> from), changed := True\<rparr>
         else s)"

definition pass :: "price_graph \<Rightarrow> pubkey list \<Rightarrow> search \<Rightarrow> search" where
  "pass g ks s = fold relax (edge_list g ks) (s\<lparr>changed := False\<rparr>)"

text \<open>The first loop: \<open>None\<close> when a pass changes nothing and the function returns early.\<close>

fun passes :: "price_graph \<Rightarrow> (nat \<Rightarrow> pubkey list) \<Rightarrow> nat \<Rightarrow> nat \<Rightarrow> search \<Rightarrow> search option" where
  "passes g ord i 0 s = Some s"
| "passes g ord i (Suc n) s =
     (let s' = pass g (ord i) s
      in if changed s' then passes g ord (Suc i) n s' else None)"

text \<open>The detection loop with its two \<open>break\<close>s: the first edge that can still be relaxed.\<close>

definition detect :: "price_graph \<Rightarrow> pubkey list \<Rightarrow> search \<Rightarrow> (pubkey \<times> edge) option" where
  "detect g ks s = find (\<lambda>(from, e). dist s from + Weight e < dist s (To e)) (edge_list g ks)"

text \<open>\<open>prev[x]\<close>: the zero key when \<open>x\<close> has no predecessor.\<close>

definition prev_of :: "(pubkey \<rightharpoonup> pubkey) \<Rightarrow> pubkey \<Rightarrow> pubkey" where
  "prev_of p x = map_get zero_key p x"

text \<open>\<open>for x = prev[start]; x != start; x = prev[x] { path = append(path, x) }\<close>\<close>

partial_function (option) walk_back ::
  "(pubkey \<rightharpoonup> pubkey) \<Rightarrow> pubkey \<Rightarrow> pubkey \<Rightarrow> pubkey list \<Rightarrow> pubkey list option" where
  "walk_back p start x path =
     (if x = start then Some path else walk_back p start (prev_of p x) (path @ [x]))"

text \<open>The in-place reversal by two indices.\<close>

function swap_ends :: "nat \<Rightarrow> nat \<Rightarrow> 'a list \<Rightarrow> 'a list" where
  "swap_ends i j xs =
     (if i < j then swap_ends (i + 1) (j - 1) (xs[i := xs ! j, j := xs ! i]) else xs)"
  by pat_completeness auto
termination
  by (relation "measure (\<lambda>(i, j, xs). j - i)") auto

definition BellmanFord :: "price_graph \<Rightarrow> (nat \<Rightarrow> pubkey list) \<Rightarrow> (pubkey list \<times> bool) option" where
  "BellmanFord g ord =
     (let numNodes = NodeCount g
      in case passes g ord 0 (numNodes - 1) \<lparr>dist = (\<lambda>_. 0), prev = Map.empty, changed = False\<rparr> of
           None \<Rightarrow> Some ([], False)
         | Some s \<Rightarrow>
             (case detect g (ord numNodes) s of
                None \<Rightarrow> Some ([], False)
              | Some (from, e) \<Rightarrow>
                  (let p = (prev s)(To e \<mapsto> from);
                       start = (prev_of p ^^ numNodes) (To e)
                   in do {
                        path \<leftarrow> walk_back p start (prev_of p start) [start];
                        let path = path @ [start];
                        Some (swap_ends 0 (length path - 1) path, True)
                      })))"

section \<open>The graph of all liquid pools\<close>








section \<open>Well-formed graphs and walks\<close>

definition wf_graph :: "price_graph \<Rightarrow> bool" where
  "wf_graph g \<longleftrightarrow> finite (dom (edges g)) \<and>
     (\<forall>u es. edges g u = Some es \<longrightarrow> (\<forall>e \<in> set es. To e \<in> dom (edges g)))"

text \<open>Every map iteration visits each key exactly once.\<close>

definition iterations :: "price_graph \<Rightarrow> (nat \<Rightarrow> pubkey list) \<Rightarrow> bool" where
  "iterations g ord \<longleftrightarrow> (\<forall>i. distinct (ord i) \<and> set (ord i) = dom (edges g))"

definition is_edge :: "price_graph \<Rightarrow> pubkey \<Rightarrow> pubkey \<Rightarrow> real \<Rightarrow> bool" where
  "is_edge g u v w \<longleftrightarrow> (\<exists>e \<in> set (map_get [] (edges g) u). To e = v \<and> Weight e = w)"

text \<open>\<open>walk g xs W\<close>: \<open>xs\<close> are the mints along a walk of total weight \<open>W\<close>.\<close>

fun walk :: "price_graph \<Rightarrow> pubkey list \<Rightarrow> real \<Rightarrow> bool" where
  "walk g [] W = False"
| "walk g [x] W = (W = 0)"
| "walk g (x # y # ys) W = (\<exists>w. is_edge g x y w \<and> walk g (y # ys) (W - w))"

text \<open>A closed walk of negative weight: an arbitrage loop.\<close>

definition negative_cycle :: "price_graph \<Rightarrow> pubkey list \<Rightarrow> bool" where
  "negative_cycle g xs \<longleftrightarrow> 2 \<le> length xs \<and> hd xs = last xs \<and> (\<exists>W < 0. walk g xs W)"


section \<open>Graph construction keeps the graph well formed\<close>

lemma wf_NewPriceGraph [simp]: "wf_graph NewPriceGraph"
  by (simp add: wf_graph_def NewPriceGraph_def)

lemma dom_addNode [simp]: "dom (edges (addNode n g)) = insert n (dom (edges g))"
  by (auto simp: addNode_def)



lemma get_edgesE:
  assumes "e \<in> set (map_get [] (edges g) u)"
  obtains es where "edges g u = Some es" and "e \<in> set es"
  using assms by (cases "edges g u") auto




lemma is_edge_addNode [simp]: "is_edge (addNode n g) u v w \<longleftrightarrow> is_edge g u v w"
  by (auto simp: is_edge_def addNode_def map_get_def split: option.splits)

lemma is_edge_dom:
  assumes "wf_graph g" and "is_edge g u v w"
  shows "u \<in> dom (edges g)" and "v \<in> dom (edges g)"
proof -
  from assms(2) obtain e es where "edges g u = Some es" "e \<in> set es" "To e = v"
    by (auto simp: is_edge_def elim: get_edgesE)
  then show "u \<in> dom (edges g)" and "v \<in> dom (edges g)"
    using assms(1) by (auto simp: wf_graph_def)
qed

section \<open>Walks\<close>

lemma walk_append:
  assumes "walk g xs W" and "walk g ys V" and "is_edge g (last xs) (hd ys) w"
  shows "walk g (xs @ ys) (W + w + V)"
  using assms
proof (induction xs arbitrary: W)
  case Nil
  then show ?case by simp
next
  case (Cons x xs)
  show ?case
  proof (cases xs)
    case Nil
    with Cons.prems show ?thesis by (cases ys) auto
  next
    case (Cons y zs)
    with Cons.prems(1) obtain u where u: "is_edge g x y u" "walk g xs (W - u)" by auto
    have "last xs = last (x # xs)" using Cons by simp
    then have "walk g (xs @ ys) ((W - u) + w + V)"
      using Cons.IH [OF u(2)] Cons.prems(2,3) by simp
    then have "walk g (y # zs @ ys) ((W + w + V) - u)"
      using Cons by (simp add: algebra_simps)
    with u(1) Cons show ?thesis by auto
  qed
qed

lemma walk_snocD:
  assumes "walk g (xs @ [y]) W" and "xs \<noteq> []"
  obtains w where "is_edge g (last xs) y w" and "walk g xs (W - w)"
proof -
  have "\<exists>w. is_edge g (last xs) y w \<and> walk g xs (W - w)"
    using assms
  proof (induction xs arbitrary: W)
    case Nil
    then show ?case by simp
  next
    case (Cons x xs)
    show ?case
    proof (cases xs)
      case Nil
      with Cons.prems show ?thesis by auto
    next
      case (Cons z zs)
      with Cons.prems(1) obtain u where u: "is_edge g x z u" "walk g (xs @ [y]) (W - u)" by auto
      then obtain w where w: "is_edge g (last xs) y w" "walk g xs (W - u - w)"
        using Cons.IH [OF u(2)] Cons by auto
      have "walk g (x # xs) (W - w)" using u(1) w(2) Cons by (auto simp: algebra_simps)
      with w(1) Cons show ?thesis by auto
    qed
  qed
  with that show ?thesis by blast
qed

text \<open>A potential that no edge can lower makes every walk at least as heavy as its drop.\<close>

lemma walk_potential:
  assumes "\<And>u v w. is_edge g u v w \<Longrightarrow> d v \<le> d u + w" and "walk g xs W"
  shows "d (last xs) - d (hd xs) \<le> W"
  using assms(2)
proof (induction xs arbitrary: W)
  case Nil
  then show ?case by simp
next
  case (Cons x xs)
  show ?case
  proof (cases xs)
    case Nil
    with Cons.prems show ?thesis by simp
  next
    case (Cons y ys)
    with Cons.prems obtain w where w: "is_edge g x y w" "walk g xs (W - w)" by auto
    from Cons.IH [OF w(2)] Cons have "d (last xs) - d y \<le> W - w" by simp
    with assms(1) [OF w(1)] Cons show ?thesis by simp
  qed
qed

section \<open>Predecessor chains\<close>

text \<open>A chain lists mints in trade order: each is the recorded predecessor of the next.\<close>

fun chain :: "(pubkey \<rightharpoonup> pubkey) \<Rightarrow> pubkey list \<Rightarrow> bool" where
  "chain p [] = False"
| "chain p [x] = True"
| "chain p (x # y # ys) = (p y = Some x \<and> chain p (y # ys))"

lemma chain_append_iff:
  "xs \<noteq> [] \<Longrightarrow> ys \<noteq> [] \<Longrightarrow>
   chain p (xs @ ys) \<longleftrightarrow> chain p xs \<and> chain p ys \<and> p (hd ys) = Some (last xs)"
proof (induction xs)
  case Nil
  then show ?case by simp
next
  case (Cons x xs)
  then show ?case by (cases xs; cases ys) auto
qed

lemma chain_upd_other: "v \<notin> set (tl xs) \<Longrightarrow> chain (p(v \<mapsto> u)) xs \<longleftrightarrow> chain p xs"
proof (induction xs)
  case Nil
  then show ?case by simp
next
  case (Cons x xs)
  show ?case
  proof (cases xs)
    case Nil
    then show ?thesis by simp
  next
    case (Cons y ys)
    with Cons.prems have "v \<noteq> y" "v \<notin> set (tl xs)" by auto
    with Cons.IH Cons show ?thesis by simp
  qed
qed

text \<open>What the search keeps true of the recorded predecessors.\<close>

definition tight :: "price_graph \<Rightarrow> search \<Rightarrow> bool" where
  "tight g s \<longleftrightarrow>
     (\<forall>v u. prev s v = Some u \<longrightarrow> (\<exists>w. is_edge g u v w \<and> dist s u + w \<le> dist s v)) \<and>
     (\<forall>v. prev s v = None \<longrightarrow> dist s v = 0)"

text \<open>Every simple cycle of predecessors has negative weight.\<close>

definition cycles_negative :: "price_graph \<Rightarrow> (pubkey \<rightharpoonup> pubkey) \<Rightarrow> bool" where
  "cycles_negative g p \<longleftrightarrow>
     (\<forall>xs. chain p xs \<and> 2 \<le> length xs \<and> hd xs = last xs \<and> distinct (tl xs) \<longrightarrow>
        negative_cycle g xs)"

lemma chain_walk:
  assumes "tight g s" and "chain (prev s) xs"
  shows "\<exists>W. walk g xs W \<and> W \<le> dist s (last xs) - dist s (hd xs)"
  using assms(2)
proof (induction xs)
  case Nil
  then show ?case by simp
next
  case (Cons x xs)
  show ?case
  proof (cases xs)
    case Nil
    then show ?thesis by auto
  next
    case (Cons y ys)
    with Cons.prems have "prev s y = Some x" "chain (prev s) xs" by auto
    moreover obtain w where w: "is_edge g x y w" "dist s x + w \<le> dist s y"
      using assms(1) \<open>prev s y = Some x\<close> unfolding tight_def by blast
    ultimately obtain W where W: "walk g xs W" "W \<le> dist s (last xs) - dist s (hd xs)"
      using Cons.IH by blast
    with w have "walk g (x # xs) (W + w)" "W + w \<le> dist s (last (x # xs)) - dist s (hd (x # xs))"
      using Cons by auto
    then show ?thesis by blast
  qed
qed

text \<open>The heart of the matter: recording a predecessor that lowers a distance closes only negative cycles.\<close>

lemma cycles_negative_upd:
  assumes "tight g s" and "cycles_negative g (prev s)"
    and e: "is_edge g u v w" "dist s u + w < dist s v"
  shows "cycles_negative g ((prev s)(v \<mapsto> u))"
  unfolding cycles_negative_def
proof (intro allI impI, elim conjE)
  fix xs
  assume c: "chain ((prev s)(v \<mapsto> u)) xs" and len: "2 \<le> length xs"
    and cl: "hd xs = last xs" and d: "distinct (tl xs)"
  show "negative_cycle g xs"
  proof (cases "v \<in> set (tl xs)")
    case False
    then show ?thesis
      using assms(2) c len cl d by (auto simp: cycles_negative_def chain_upd_other)
  next
    case True
    then obtain as bs where tl: "tl xs = as @ v # bs" by (meson split_list)
    define ys where "ys = hd xs # as"
    have xs: "xs = ys @ v # bs" using len tl by (cases xs) (auto simp: ys_def)
    have vn: "v \<notin> set (tl ys)" "v \<notin> set (tl (v # bs))" using d tl by (auto simp: ys_def)
    have cc: "chain ((prev s)(v \<mapsto> u)) ys" "chain ((prev s)(v \<mapsto> u)) (v # bs)" "last ys = u"
    proof -
      have "ys \<noteq> []" by (simp add: ys_def)
      then have "chain ((prev s)(v \<mapsto> u)) ys \<and> chain ((prev s)(v \<mapsto> u)) (v # bs) \<and> last ys = u"
        using c chain_append_iff [of ys "v # bs" "(prev s)(v \<mapsto> u)"] unfolding xs by fastforce
      then show "chain ((prev s)(v \<mapsto> u)) ys" "chain ((prev s)(v \<mapsto> u)) (v # bs)" "last ys = u"
        by blast+
    qed
    have "chain (prev s) ys" "chain (prev s) (v # bs)"
      using cc chain_upd_other [OF vn(1)] chain_upd_other [OF vn(2)] by auto
    then obtain W1 W2 where W:
      "walk g ys W1" "W1 \<le> dist s (last ys) - dist s (hd ys)"
      "walk g (v # bs) W2" "W2 \<le> dist s (last (v # bs)) - dist s v"
      using chain_walk [OF assms(1)] list.sel(1) by metis
    have "walk g (ys @ v # bs) (W1 + w + W2)"
      using W(1,3) e(1) cc(3) by (intro walk_append) auto
    moreover have "hd ys = hd xs" by (simp add: ys_def)
    moreover have "last xs = last (v # bs)" by (subst xs) simp
    ultimately have "walk g xs (W1 + w + W2)" "hd ys = last (v # bs)" using cl by (simp_all flip: xs)
    moreover from this have "W1 + w + W2 < 0" using W(2,4) e(2) cc(3) by simp
    ultimately show ?thesis using len cl by (auto simp: negative_cycle_def)
  qed
qed

lemma tight_upd:
  assumes "tight g s" and "is_edge g u v w" and "dist s u + w < dist s v"
  shows "tight g (s\<lparr>dist := (dist s)(v := dist s u + w), prev := (prev s)(v \<mapsto> u), changed := c\<rparr>)"
proof -
  define d' where "d' = (dist s)(v := dist s u + w)"
  have le: "d' x \<le> dist s x" for x using assms(3) by (simp add: d'_def)
  have "\<exists>w'. is_edge g y x w' \<and> d' y + w' \<le> d' x" if "((prev s)(v \<mapsto> u)) x = Some y" for x y
  proof (cases "x = v")
    case True
    with that have "y = u" by simp
    have "d' u + w \<le> d' v" using le [of u] by (simp add: d'_def)
    with assms(2) True \<open>y = u\<close> show ?thesis by blast
  next
    case False
    with that have "prev s x = Some y" by simp
    with assms(1) obtain w' where w': "is_edge g y x w'" "dist s y + w' \<le> dist s x"
      unfolding tight_def by blast
    have "d' y + w' \<le> d' x" using w'(2) le [of y] False by (simp add: d'_def)
    with w'(1) show ?thesis by blast
  qed
  moreover have "d' x = 0" if "((prev s)(v \<mapsto> u)) x = None" for x
    using that assms(1) by (auto simp: tight_def d'_def split: if_splits)
  ultimately show ?thesis by (simp add: tight_def d'_def)
qed


section \<open>What the passes establish\<close>

lemma edge_list_iff:
  assumes "set ks = dom (edges g)"
  shows "(u, e) \<in> set (edge_list g ks) \<longleftrightarrow> e \<in> set (map_get [] (edges g) u)"
proof -
  have "u \<in> set ks" if "e \<in> set (map_get [] (edges g) u)"
    using that assms by (auto elim: get_edgesE)
  then show ?thesis by (auto simp: edge_list_def)
qed

lemma edge_list_is_edge:
  assumes "set ks = dom (edges g)"
  shows "is_edge g u v w \<longleftrightarrow> (\<exists>e. (u, e) \<in> set (edge_list g ks) \<and> To e = v \<and> Weight e = w)"
  using assms by (auto simp: is_edge_def edge_list_iff)

definition search_inv :: "price_graph \<Rightarrow> search \<Rightarrow> bool" where
  "search_inv g s \<longleftrightarrow> tight g s \<and> cycles_negative g (prev s)"

lemma relax_inv:
  assumes "search_inv g s" and "is_edge g u (To e) (Weight e)"
  shows "search_inv g (relax (u, e) s)"
proof (cases "dist s u + Weight e < dist s (To e)")
  case True
  then show ?thesis
    using assms tight_upd [OF _ assms(2) True, of True] cycles_negative_upd [OF _ _ assms(2) True]
    by (simp add: search_inv_def Let_def)
next
  case False
  then show ?thesis using assms by (simp add: Let_def)
qed

lemma relax_dist_le: "dist (relax x s) v \<le> dist s v"
  by (cases x) (simp add: Let_def)

lemma fold_relax_dist_le: "dist (fold relax es s) v \<le> dist s v"
proof (induction es arbitrary: s)
  case Nil
  then show ?case by simp
next
  case (Cons x es)
  have "dist (fold relax es (relax x s)) v \<le> dist (relax x s) v" by (rule Cons.IH)
  also have "\<dots> \<le> dist s v" by (rule relax_dist_le)
  finally show ?case by simp
qed

lemma fold_relax_relaxed:
  assumes "(u, e) \<in> set es"
  shows "dist (fold relax es s) (To e) \<le> dist s u + Weight e"
proof -
  from assms obtain as bs where es: "es = as @ (u, e) # bs" by (meson split_list)
  define t where "t = fold relax as s"
  have "dist (fold relax bs (relax (u, e) t)) (To e) \<le> dist (relax (u, e) t) (To e)"
    by (rule fold_relax_dist_le)
  also have "\<dots> \<le> dist t u + Weight e" by (simp add: Let_def)
  also have "dist t u \<le> dist s u" unfolding t_def by (rule fold_relax_dist_le)
  finally show ?thesis by (simp add: es t_def)
qed

lemma fold_relax_changed: "changed s \<Longrightarrow> changed (fold relax es s)"
  by (induction es arbitrary: s) (auto simp: Let_def)

lemma fold_relax_unchanged:
  "\<not> changed (fold relax es s) \<Longrightarrow>
   fold relax es s = s \<and> (\<forall>(u, e) \<in> set es. dist s (To e) \<le> dist s u + Weight e)"
proof (induction es arbitrary: s)
  case Nil
  then show ?case by simp
next
  case (Cons x es)
  obtain u e where x: "x = (u, e)" by (cases x)
  from Cons.prems have nc: "\<not> changed (fold relax es (relax x s))" by simp
  have stable: "\<not> dist s u + Weight e < dist s (To e)"
  proof
    assume "dist s u + Weight e < dist s (To e)"
    then have "changed (relax x s)" by (simp add: x Let_def)
    with nc fold_relax_changed show False by blast
  qed
  then have "relax x s = s" by (simp add: x Let_def)
  with Cons.IH [OF nc] stable show ?case by (auto simp: x)
qed

text \<open>After \<open>k\<close> passes no walk of at most \<open>k\<close> edges is lighter than the distance of its end.\<close>

definition optimal :: "price_graph \<Rightarrow> nat \<Rightarrow> search \<Rightarrow> bool" where
  "optimal g k s \<longleftrightarrow> (\<forall>xs W. walk g xs W \<longrightarrow> length xs \<le> Suc k \<longrightarrow> dist s (last xs) \<le> W)"

lemma pass_inv:
  assumes "search_inv g s" and "set ks = dom (edges g)"
  shows "search_inv g (pass g ks s)"
  unfolding pass_def
proof (rule fold_invariant)
  show "search_inv g (s\<lparr>changed := False\<rparr>)"
    using assms(1) by (simp add: search_inv_def tight_def)
next
  fix x t
  assume "x \<in> set (edge_list g ks)" and "search_inv g t"
  moreover obtain u e where "x = (u, e)" by (cases x)
  ultimately show "search_inv g (relax x t)"
    using edge_list_is_edge [OF assms(2), of u "To e" "Weight e"] relax_inv [of g t u e] by blast
qed

lemma pass_optimal:
  assumes "optimal g k s" and "set ks = dom (edges g)"
  shows "optimal g (Suc k) (pass g ks s)"
  unfolding optimal_def
proof (intro allI impI)
  fix xs W
  assume w: "walk g xs W" and len: "length xs \<le> Suc (Suc k)"
  define s0 where "s0 = s\<lparr>changed := False\<rparr>"
  have p: "pass g ks s = fold relax (edge_list g ks) s0" by (simp add: pass_def s0_def)
  show "dist (pass g ks s) (last xs) \<le> W"
  proof (cases "length xs \<le> Suc k")
    case True
    have "dist (pass g ks s) (last xs) \<le> dist s0 (last xs)" unfolding p by (rule fold_relax_dist_le)
    with True w assms(1) show ?thesis by (force simp: optimal_def s0_def)
  next
    case False
    have ne: "butlast xs \<noteq> []" using False len by (cases xs rule: rev_cases) auto
    have xs: "xs = butlast xs @ [last xs]" using ne by (metis append_butlast_last_id butlast.simps(1))
    with w ne obtain v where v: "is_edge g (last (butlast xs)) (last xs) v" "walk g (butlast xs) (W - v)"
      by (metis walk_snocD)
    from v(1) obtain e where e: "(last (butlast xs), e) \<in> set (edge_list g ks)" "To e = last xs" "Weight e = v"
      using edge_list_is_edge [OF assms(2)] by blast
    have "dist (pass g ks s) (last xs) \<le> dist s0 (last (butlast xs)) + v"
      using fold_relax_relaxed [OF e(1), of s0] e(2,3) by (simp add: p)
    also have "dist s0 (last (butlast xs)) \<le> W - v"
      using assms(1) v(2) len by (simp add: optimal_def s0_def)
    finally show ?thesis by simp
  qed
qed

lemma passes_inv:
  assumes "passes g ord i n s = Some s'" and "search_inv g s" and "optimal g k s"
    and "iterations g ord"
  shows "search_inv g s' \<and> optimal g (k + n) s'"
  using assms(1,2,3)
proof (induction n arbitrary: i k s)
  case 0
  then show ?case by simp
next
  case (Suc n)
  have ks: "set (ord i) = dom (edges g)" using assms(4) by (simp add: iterations_def)
  from Suc.prems(1) have "passes g ord (Suc i) n (pass g (ord i) s) = Some s'"
    by (auto simp: Let_def split: if_splits)
  from Suc.IH [OF this pass_inv [OF Suc.prems(2) ks] pass_optimal [OF Suc.prems(3) ks]]
  show ?case by simp
qed

text \<open>A pass that changes nothing leaves no edge to relax.\<close>

lemma passes_None:
  assumes "passes g ord i n s = None" and "iterations g ord"
  shows "\<exists>d. \<forall>u v w. is_edge g u v w \<longrightarrow> d v \<le> d u + w"
  using assms(1)
proof (induction n arbitrary: i s)
  case 0
  then show ?case by simp
next
  case (Suc n)
  have ks: "set (ord i) = dom (edges g)" using assms(2) by (simp add: iterations_def)
  show ?case
  proof (cases "changed (pass g (ord i) s)")
    case True
    with Suc.prems have "passes g ord (Suc i) n (pass g (ord i) s) = None" by (simp add: Let_def)
    then show ?thesis by (rule Suc.IH)
  next
    case False
    then have "\<forall>(u, e) \<in> set (edge_list g (ord i)). dist s (To e) \<le> dist s u + Weight e"
      using fold_relax_unchanged by (fastforce simp: pass_def)
    then have "\<forall>u v w. is_edge g u v w \<longrightarrow> dist s v \<le> dist s u + w"
      using edge_list_is_edge [OF ks] by fastforce
    then show ?thesis by blast
  qed
qed


section \<open>Orbits of the predecessor map\<close>

lemma funpow_mult_return: "(f ^^ k) y = y \<Longrightarrow> (f ^^ (k + i)) y = (f ^^ i) y"
  by (induction i) auto

lemma orbit_in: "x \<in> S \<Longrightarrow> f ` S \<subseteq> S \<Longrightarrow> (f ^^ i) x \<in> S"
  by (induction i) auto

text \<open>On a finite set, enough steps of a function land on a cycle of it.\<close>

lemma orbit_returns:
  assumes "finite S" and "x \<in> S" and "f ` S \<subseteq> S" and "card S \<le> Suc n"
  shows "\<exists>k > 0. (f ^^ k) ((f ^^ n) x) = (f ^^ n) x"
proof -
  have "\<not> inj_on (\<lambda>i. (f ^^ i) x) {..Suc n}"
  proof
    assume "inj_on (\<lambda>i. (f ^^ i) x) {..Suc n}"
    then have "card {..Suc n} = card ((\<lambda>i. (f ^^ i) x) ` {..Suc n})" by (simp add: card_image)
    also have "\<dots> \<le> card S"
      using assms(1) orbit_in [OF assms(2,3)] by (intro card_mono) auto
    finally show False using assms(4) by simp
  qed
  then obtain i j where ij: "i < j" "j \<le> Suc n" "(f ^^ i) x = (f ^^ j) x"
    by (auto simp: inj_on_def) (metis linorder_neqE_nat)
  have "(f ^^ (j - i)) ((f ^^ n) x) = (f ^^ (n - i)) ((f ^^ j) x)"
    using ij(1,2) by (simp add: add.commute flip: funpow_add comp_apply [of "f ^^ _" "f ^^ _"])
  also have "\<dots> = (f ^^ (n - i)) ((f ^^ i) x)" by (simp add: ij(3))
  also have "\<dots> = (f ^^ n) x"
    using ij(1,2) by (simp flip: funpow_add comp_apply [of "f ^^ _" "f ^^ _"])
  finally show ?thesis using ij(1) by (intro exI [of _ "j - i"]) simp
qed

text \<open>The orbit up to its first return.\<close>

definition orbit :: "('a \<Rightarrow> 'a) \<Rightarrow> 'a \<Rightarrow> nat \<Rightarrow> 'a list" where
  "orbit f x n = map (\<lambda>i. (f ^^ i) x) [0..<n]"

lemma orbit_0 [simp]: "orbit f x 0 = []"
  by (simp add: orbit_def)

lemma length_orbit [simp]: "length (orbit f x n) = n"
  by (simp add: orbit_def)

lemma orbit_Suc: "orbit f x (Suc n) = x # orbit f (f x) n"
proof -
  have "orbit f x (Suc n) = (f ^^ 0) x # map (\<lambda>i. (f ^^ Suc i) x) [0..<n]"
    unfolding orbit_def by (simp add: upt_conv_Cons map_Suc_upt [symmetric] del: upt_Suc funpow.simps)
  also have "\<dots> = x # orbit f (f x) n" by (simp add: orbit_def funpow_swap1)
  finally show ?thesis .
qed

lemma orbit_snoc: "orbit f x (Suc n) = orbit f x n @ [(f ^^ n) x]"
  by (simp add: orbit_def)

lemma walk_back_orbit:
  assumes "(prev_of p ^^ n) x = start" and "\<And>i. i < n \<Longrightarrow> (prev_of p ^^ i) x \<noteq> start"
  shows "walk_back p start x path = Some (path @ orbit (prev_of p) x n)"
  using assms
proof (induction n arbitrary: x path)
  case 0
  then show ?case by (simp add: walk_back.simps)
next
  case (Suc n)
  have "x \<noteq> start" using Suc.prems(2) [of 0] by simp
  moreover have "(prev_of p ^^ n) (prev_of p x) = start" using Suc.prems(1) by (simp add: funpow_swap1)
  moreover have "(prev_of p ^^ i) (prev_of p x) \<noteq> start" if "i < n" for i
    using Suc.prems(2) [of "Suc i"] that by (simp add: funpow_swap1)
  ultimately show ?case using Suc.IH by (simp add: walk_back.simps orbit_Suc)
qed

lemma first_return_distinct:
  assumes "(f ^^ Suc m) x = x" and "\<And>i. i < m \<Longrightarrow> (f ^^ Suc i) x \<noteq> x"
  shows "distinct (orbit f x (Suc m))"
proof -
  have False if "i < j" "j < Suc m" "(f ^^ i) x = (f ^^ j) x" for i j
  proof -
    have "(f ^^ (Suc m - j)) ((f ^^ i) x) = (f ^^ (Suc m - j)) ((f ^^ j) x)" using that by simp
    also have "\<dots> = (f ^^ Suc m) x"
      using that(2) by (simp del: funpow.simps flip: funpow_add comp_apply [of "f ^^ _" "f ^^ _"])
    finally have "(f ^^ (Suc m - j + i)) x = x" using assms(1) by (simp add: funpow_add)
    moreover have "Suc m - j + i = Suc (m - j + i)" "m - j + i < m" using that by auto
    ultimately show False using assms(2) by metis
  qed
  then have "inj_on (\<lambda>i. (f ^^ i) x) (set [0..<Suc m])"
    by (auto simp: inj_on_def simp del: upt_Suc) (metis linorder_neqE_nat)
  then show ?thesis by (simp add: orbit_def distinct_map del: upt_Suc)
qed

lemma orbit_chain:
  assumes "\<And>i. i < n \<Longrightarrow> p ((prev_of p ^^ i) x) \<noteq> None"
  shows "chain p (rev (orbit (prev_of p) x (Suc n)))"
  using assms
proof (induction n)
  case 0
  then show ?case by (simp add: orbit_Suc)
next
  case (Suc n)
  define y where "y = (prev_of p ^^ n) x"
  have "p y \<noteq> None" using Suc.prems [of n] by (simp add: y_def)
  then have "p y = Some (prev_of p y)" by (auto simp: prev_of_def)
  moreover have "rev (orbit (prev_of p) x (Suc n)) = y # rev (orbit (prev_of p) x n)"
    by (simp add: orbit_snoc y_def)
  moreover have "chain p (rev (orbit (prev_of p) x (Suc n)))" using Suc by simp
  ultimately show ?case by (simp add: orbit_snoc [of _ _ "Suc n"] y_def)
qed

lemma swap_ends_rev_mid:
  "length xs = length ys \<Longrightarrow>
   swap_ends (length xs) (length xs + length mid - 1) (xs @ mid @ ys) = xs @ rev mid @ ys"
proof (induction "length mid" arbitrary: xs mid ys rule: less_induct)
  case less
  show ?case
  proof (cases "length mid \<le> 1")
    case True
    then have "rev mid = mid" by (cases mid) auto
    moreover have "\<not> length xs < length xs + length mid - 1" using True by arith
    ultimately show ?thesis by (subst swap_ends.simps) simp
  next
    case False
    then obtain a b m where mid: "mid = a # m @ [b]"
      by (cases mid; cases "tl mid" rule: rev_cases) auto
    have "swap_ends (length xs) (length xs + length mid - 1) (xs @ mid @ ys) =
          swap_ends (length (xs @ [b])) (length (xs @ [b]) + length m - 1) ((xs @ [b]) @ m @ (a # ys))"
      by (subst swap_ends.simps) (simp add: mid nth_append list_update_append)
    also have "\<dots> = (xs @ [b]) @ rev m @ (a # ys)"
      using less.hyps [of m "xs @ [b]" "a # ys"] less.prems by (simp add: mid)
    finally show ?thesis by (simp add: mid)
  qed
qed

lemma swap_ends_rev: "swap_ends 0 (length xs - 1) xs = rev xs"
  using swap_ends_rev_mid [of "[]" "[]" xs] by simp


section \<open>The search returns, and returns the right answer\<close>

abbreviation initial_search :: search where
  "initial_search \<equiv> \<lparr>dist = (\<lambda>_. 0), prev = Map.empty, changed = False\<rparr>"

lemma initial_search_inv: "search_inv g initial_search"
proof -
  have "\<not> chain Map.empty xs" if "2 \<le> length xs" for xs
    using that by (cases xs; cases "tl xs") auto
  then show ?thesis by (auto simp: search_inv_def tight_def cycles_negative_def)
qed

lemma initial_search_optimal: "optimal g 0 initial_search"
  unfolding optimal_def
proof (intro allI impI)
  fix xs W
  assume "walk g xs W" and "length xs \<le> Suc 0"
  then show "dist initial_search (last xs) \<le> W" by (cases xs; cases "tl xs") auto
qed

text \<open>An orbit that leaves the map is free of repetitions up to that point.\<close>

lemma orbit_escape:
  assumes "p ((prev_of p ^^ i) v) = None"
  obtains m where "p ((prev_of p ^^ m) v) = None" and "\<And>i. i < m \<Longrightarrow> p ((prev_of p ^^ i) v) \<noteq> None"
    and "distinct (orbit (prev_of p) v (Suc m))"
proof -
  define f where "f = prev_of p"
  define m where "m = (LEAST i. p ((f ^^ i) v) = None)"
  have m: "p ((f ^^ m) v) = None" unfolding m_def f_def by (rule LeastI) fact
  have before: "p ((f ^^ i) v) \<noteq> None" if "i < m" for i
    using that not_less_Least unfolding m_def by blast
  have "inj_on (\<lambda>i. (f ^^ i) v) (set [0..<Suc m])"
  proof -
    have False if "i < j" "j \<le> m" "(f ^^ i) v = (f ^^ j) v" for i j
    proof -
      have "(f ^^ (m - j + i)) v = (f ^^ (m - j)) ((f ^^ j) v)" using that(3) by (simp add: funpow_add)
      also have "\<dots> = (f ^^ m) v"
        using that(2) by (simp flip: funpow_add comp_apply [of "f ^^ _" "f ^^ _"])
      finally have "p ((f ^^ (m - j + i)) v) = None" using m by simp
      moreover have "m - j + i < m" using that(1,2) by arith
      ultimately show False using before by blast
    qed
    then show ?thesis
      by (auto simp: inj_on_def less_Suc_eq_le simp del: upt_Suc) (metis linorder_neqE_nat)
  qed
  then have "distinct (orbit f v (Suc m))" by (simp add: orbit_def distinct_map del: upt_Suc)
  with m before show ?thesis using that unfolding f_def by blast
qed

lemma upd_prev_edge:
  assumes "tight g s" and "is_edge g u v w" and "((prev s)(v \<mapsto> u)) b = Some a"
  shows "\<exists>w. is_edge g a b w"
proof (cases "b = v")
  case True
  with assms show ?thesis by auto
next
  case False
  with assms(1,3) show ?thesis unfolding tight_def by (metis fun_upd_other)
qed

lemma chain_dom:
  assumes "wf_graph g" and "\<And>a b. p b = Some a \<Longrightarrow> \<exists>w. is_edge g a b w"
  shows "chain p xs \<Longrightarrow> 2 \<le> length xs \<Longrightarrow> set xs \<subseteq> dom (edges g)"
proof (induction xs)
  case Nil
  then show ?case by simp
next
  case (Cons x xs)
  then obtain y ys where xs: "xs = y # ys" by (cases xs) auto
  with Cons.prems assms have "x \<in> dom (edges g)" "y \<in> dom (edges g)"
    by (metis chain.simps(3) is_edge_dom(1)) (metis Cons.prems(1) assms chain.simps(3) is_edge_dom(2) xs)
  with Cons xs show ?case by (cases ys) auto
qed

text \<open>
  Following predecessors from the mint relaxed last never falls off the map: otherwise the chain
  from a mint without predecessor would be a lighter walk than \<open>NodeCount g - 1\<close> passes allow.
\<close>

lemma detected_has_prev:
  assumes wf: "wf_graph g" and inv: "search_inv g s" and opt: "optimal g (NodeCount g - 1) s"
    and e: "is_edge g u v w" "dist s u + w < dist s v"
  defines "p \<equiv> (prev s)(v \<mapsto> u)"
  shows "p ((prev_of p ^^ i) v) \<noteq> None"
proof
  assume "p ((prev_of p ^^ i) v) = None"
  then obtain m where m: "p ((prev_of p ^^ m) v) = None"
    and before: "\<And>i. i < m \<Longrightarrow> p ((prev_of p ^^ i) v) \<noteq> None"
    and dist: "distinct (orbit (prev_of p) v (Suc m))"
    by (rule orbit_escape) blast
  have tight: "tight g s" using inv by (simp add: search_inv_def)
  have "m \<noteq> 0" using m by (intro notI) (simp add: p_def)
  then obtain k where k: "m = Suc k" by (cases m) auto
  define ys where "ys = rev (orbit (prev_of p) (prev_of p v) m)"
  have full: "rev (orbit (prev_of p) v (Suc m)) = ys @ [v]" by (simp add: orbit_Suc ys_def)
  have distinct: "distinct (ys @ [v])" using dist full by (metis distinct_rev)
  have "prev_of p v = u" by (simp add: p_def prev_of_def)
  then have ys: "ys \<noteq> []" "last ys = u" by (simp_all add: ys_def k orbit_Suc)
  have hd: "hd ys = (prev_of p ^^ m) v" by (simp add: ys_def k orbit_snoc funpow_swap1)
  have ch: "chain p (ys @ [v])" using orbit_chain [of m p v, OF before] unfolding full by blast
  have "set (ys @ [v]) \<subseteq> dom (edges g)"
  proof (rule chain_dom [OF wf _ ch])
    show "\<exists>w. is_edge g a b w" if "p b = Some a" for a b
      using upd_prev_edge [OF tight e(1)] that unfolding p_def by blast
    show "2 \<le> length (ys @ [v])" using ys(1) by (cases ys) auto
  qed
  with distinct have bound: "length (ys @ [v]) \<le> Suc (NodeCount g - 1)"
    using wf card_mono [of "dom (edges g)" "set (ys @ [v])"] distinct_card [of "ys @ [v]"]
    by (simp add: NodeCount_def wf_graph_def)
  have "chain p ys" using ch ys(1) chain_append_iff [of ys "[v]" p] by simp
  then have "chain (prev s) ys"
    using chain_upd_other [of v ys "prev s" u] ys(1) distinct by (metis distinct.simps(2) distinct_append list.set_sel(2) list.set_intros(1) disjoint_iff p_def)
  then obtain W where W: "walk g ys W" "W \<le> dist s u - dist s (hd ys)"
    using chain_walk [OF tight, of ys] ys by metis
  have "hd ys \<noteq> v" using ys(1) distinct hd_in_set by fastforce
  with m hd have "dist s (hd ys) = 0" using tight by (simp add: tight_def p_def)
  moreover have "walk g (ys @ [v]) (W + w)"
    using walk_append [OF W(1), of "[v]" 0 w] e(1) ys(2) by simp
  with opt bound have "dist s v \<le> W + w" unfolding optimal_def by fastforce
  ultimately show False using W(2) e(2) by simp
qed


text \<open>The last part of the function, from the first relaxable edge to the reversed path.\<close>

lemma walk_back_cycle:
  assumes "finite N" and "dom p \<subseteq> N" and "ran p \<subseteq> N" and "v \<in> N" and "card N = n"
  defines "start \<equiv> (prev_of p ^^ n) v"
  obtains m where "walk_back p start (prev_of p start) [start] = Some (orbit (prev_of p) start (Suc m))"
    and "(prev_of p ^^ Suc m) start = start" and "distinct (orbit (prev_of p) start (Suc m))"
proof -
  define f where "f = prev_of p"
  have "prev_of p x \<in> insert zero_key N" for x
    using assms(3) by (cases "p x") (auto simp: prev_of_def ran_def)
  then have "\<exists>k > 0. (f ^^ k) start = start"
    unfolding start_def f_def
    using assms(1,4,5) by (intro orbit_returns [of "insert zero_key N"]) (auto simp: card_insert_if)
  then obtain k where "(f ^^ Suc k) start = start" by (metis gr0_implies_Suc)
  define m where "m = (LEAST k. (f ^^ Suc k) start = start)"
  have m: "(f ^^ Suc m) start = start" unfolding m_def by (rule LeastI) fact
  have before: "(f ^^ Suc i) start \<noteq> start" if "i < m" for i
    using that not_less_Least unfolding m_def by blast
  have "walk_back p start (f start) [start] = Some ([start] @ orbit f (f start) m)"
    using m before unfolding f_def by (intro walk_back_orbit) (simp_all add: funpow_swap1)
  then show ?thesis
    using that [of m] m first_return_distinct [OF m before] by (simp add: f_def orbit_Suc)
qed

lemma detect_None:
  assumes "detect g ks s = None" and "set ks = dom (edges g)"
  shows "\<forall>u v w. is_edge g u v w \<longrightarrow> dist s v \<le> dist s u + w"
  using assms(1) edge_list_is_edge [OF assms(2)] by (fastforce simp: detect_def find_None_iff)

lemma detect_Some:
  assumes "detect g ks s = Some (u, e)" and "set ks = dom (edges g)"
  shows "is_edge g u (To e) (Weight e)" and "dist s u + Weight e < dist s (To e)"
proof -
  from assms(1) have "(u, e) \<in> set (edge_list g ks)" "dist s u + Weight e < dist s (To e)"
    by (auto simp: detect_def find_Some_iff in_set_conv_nth)
  then show "is_edge g u (To e) (Weight e)" and "dist s u + Weight e < dist s (To e)"
    using edge_list_is_edge [OF assms(2)] by blast+
qed

lemma no_negative_cycle:
  assumes "\<forall>u v w. is_edge g u v w \<longrightarrow> d v \<le> d u + w"
  shows "\<not> negative_cycle g xs"
proof
  assume "negative_cycle g xs"
  then obtain W where "W < 0" "walk g xs W" "hd xs = last xs" by (auto simp: negative_cycle_def)
  with walk_potential [of g d xs W] assms show False by force
qed

text \<open>A search that ends with a relaxable edge returns a negative cycle.\<close>

lemma found_cycle:
  assumes wf: "wf_graph g" and inv: "search_inv g s" and opt: "optimal g (NodeCount g - 1) s"
    and e: "is_edge g u v w" "dist s u + w < dist s v"
  defines "p \<equiv> (prev s)(v \<mapsto> u)"
  defines "start \<equiv> (prev_of p ^^ NodeCount g) v"
  shows "\<exists>path. walk_back p start (prev_of p start) [start] = Some path \<and> negative_cycle g (rev (path @ [start]))"
proof -
  have edge: "\<exists>w. is_edge g a b w" if "p b = Some a" for a b
    using upd_prev_edge [OF _ e(1)] inv that unfolding p_def search_inv_def by blast
  then have "dom p \<subseteq> dom (edges g)" "ran p \<subseteq> dom (edges g)"
    using is_edge_dom [OF wf] by (auto simp: ran_def) blast+
  moreover have "finite (dom (edges g))" "v \<in> dom (edges g)" "card (dom (edges g)) = NodeCount g"
    using wf is_edge_dom(2) [OF wf e(1)] by (simp_all add: wf_graph_def NodeCount_def)
  ultimately obtain m where m: "walk_back p start (prev_of p start) [start] = Some (orbit (prev_of p) start (Suc m))"
      "(prev_of p ^^ Suc m) start = start" "distinct (orbit (prev_of p) start (Suc m))"
    unfolding start_def by (metis walk_back_cycle)
  define xs where "xs = rev (orbit (prev_of p) start (Suc m) @ [start])"
  have xs: "xs = rev (orbit (prev_of p) start (Suc (Suc m)))"
    using m(2) by (simp add: xs_def orbit_snoc [of _ _ "Suc m"])
  have "p ((prev_of p ^^ i) start) \<noteq> None" for i
    using detected_has_prev [OF wf inv opt e, folded p_def, of "i + NodeCount g"]
    by (simp add: start_def funpow_add)
  then have "chain p xs" unfolding xs by (rule orbit_chain)
  moreover have "2 \<le> length xs" "hd xs = last xs" "distinct (tl xs)"
    using m(3) by (simp_all add: xs_def orbit_Suc)
  moreover have "cycles_negative g p"
    using cycles_negative_upd [OF _ _ e] inv by (simp add: p_def search_inv_def)
  ultimately have "negative_cycle g xs" by (simp add: cycles_negative_def)
  with m(1) show ?thesis by (auto simp: xs_def)
qed

lemma BellmanFord_cases:
  assumes "wf_graph g" and "iterations g ord"
  shows "(BellmanFord g ord = Some ([], False) \<and> (\<forall>xs. \<not> negative_cycle g xs)) \<or>
         (\<exists>cycle. BellmanFord g ord = Some (cycle, True) \<and> negative_cycle g cycle)"
proof (cases "passes g ord 0 (NodeCount g - 1) initial_search")
  case None
  then have "BellmanFord g ord = Some ([], False)" by (simp add: BellmanFord_def)
  moreover obtain d where "\<forall>u v w. is_edge g u v w \<longrightarrow> d v \<le> (d u :: real) + w"
    using passes_None [OF None assms(2)] by blast
  ultimately show ?thesis using no_negative_cycle by blast
next
  case (Some s)
  have ks: "set (ord (NodeCount g)) = dom (edges g)" using assms(2) by (simp add: iterations_def)
  have s: "search_inv g s" "optimal g (NodeCount g - 1) s"
    using passes_inv [OF Some initial_search_inv initial_search_optimal assms(2)] by simp_all
  show ?thesis
  proof (cases "detect g (ord (NodeCount g)) s")
    case None
    then show ?thesis
      using Some no_negative_cycle [OF detect_None [OF None ks]] by (simp add: BellmanFord_def)
  next
    case (Some ue)
    obtain u e where ue: "ue = (u, e)" by (cases ue)
    note d = detect_Some [OF Some [unfolded ue] ks]
    define p where "p = (prev s)(To e \<mapsto> u)"
    define start where "start = (prev_of p ^^ NodeCount g) (To e)"
    obtain path where path: "walk_back p start (prev_of p start) [start] = Some path"
      "negative_cycle g (rev (path @ [start]))"
      using found_cycle [OF assms(1) s d] unfolding p_def start_def by blast
    have "BellmanFord g ord = Some (swap_ends 0 (length (path @ [start]) - 1) (path @ [start]), True)"
      using \<open>passes g ord 0 (NodeCount g - 1) initial_search = Some s\<close> Some path(1)
      unfolding BellmanFord_def Let_def ue p_def [symmetric]
      by (simp add: start_def p_def)
    then show ?thesis using path(2) unfolding swap_ends_rev by blast
  qed
qed


section \<open>Properties of the search\<close>


text \<open>(C2) Completeness: whenever the graph holds a negative cycle anywhere, \<open>BellmanFord\<close> returns
  and reports one.\<close>

theorem BellmanFord_complete:
  assumes "wf_graph g" and "iterations g ord" and "negative_cycle g xs"
  shows "\<exists>cycle. BellmanFord g ord = Some (cycle, True)"
  using BellmanFord_cases [OF assms(1,2)] assms(3) by auto

text \<open>(C27) Termination: the unbounded loop that follows predecessors back to its start always
  returns, so \<open>BellmanFord\<close> does.\<close>

theorem BellmanFord_terminates:
  assumes "wf_graph g" and "iterations g ord"
  shows "\<exists>cycle ok. BellmanFord g ord = Some (cycle, ok)"
  using BellmanFord_cases [OF assms] by auto

section \<open>A graph with an arbitrage loop\<close>

abbreviation loop_graph :: price_graph where
  "loop_graph \<equiv> \<lparr>edges =
     [[1] \<mapsto> [\<lparr>To = [2], Weight = - 1, Pool = [9], Program = ''amm''\<rparr>],
      [2] \<mapsto> [\<lparr>To = [1], Weight = 0, Pool = [9], Program = ''orca''\<rparr>]]\<rparr>"


lemma loop_graph_ok: "wf_graph loop_graph \<and> iterations loop_graph (\<lambda>_. [[1], [2]])"
  by (auto simp: wf_graph_def iterations_def)

lemma loop_graph_cycle: "negative_cycle loop_graph [[1], [2], [1]]"
proof -
  have "walk loop_graph [[1], [2], [1]] (- 1)"
    by (simp add: is_edge_def map_get_def)
  then show ?thesis unfolding negative_cycle_def
    by (intro conjI exI [of _ "- 1"]) simp_all
qed



theorem BellmanFord_complete_witness: "\<exists>cycle. BellmanFord loop_graph (\<lambda>_. [[1], [2]]) = Some (cycle, True)"
  using BellmanFord_complete [OF _ _ loop_graph_cycle] loop_graph_ok by blast

theorem BellmanFord_terminates_witness: "\<exists>cycle ok. BellmanFord loop_graph (\<lambda>_. [[2], [1]]) = Some (cycle, ok)"
  by (rule BellmanFord_terminates) (auto simp: wf_graph_def iterations_def)

section \<open>Properties of the construction\<close>

text \<open>Every edge has a reciprocal: the same pool crossed the other way.\<close>

definition reciprocal :: "price_graph \<Rightarrow> bool" where
  "reciprocal g \<longleftrightarrow> (\<forall>u v w. is_edge g u v w \<longrightarrow> is_edge g v u (- w))"



definition built :: "price_graph \<Rightarrow> bool" where
  "built g \<longleftrightarrow> wf_graph g \<and> reciprocal g"

lemma built_NewPriceGraph [simp]: "built NewPriceGraph"
  by (simp add: built_def reciprocal_def is_edge_def NewPriceGraph_def wf_graph_def)













end
