(* ===== verification/Subscribe.thy ===== *)
theory Subscribe
  imports Prelude
begin

text \<open>
  The subscription tracker of \<open>src/util/subscribe.go\<close>: roots queued for subscription, roots sent
  and awaiting their ack, a cap on the latter, and the report that everything has been quiet for
  long enough.

  The doubly linked list \<open>ds/list.Generic\<close> comes from another module, so its operations are a
  parameter (\<open>glist\<close>) and what the code relies on are the laws of the locale \<open>generic_list\<close>, as
  the comment in \<open>Check\<close> states them: \<open>Append\<close> adds at the tail, \<open>Shift\<close> takes the head, \<open>Pop\<close> the
  tail. The graph's \<open>Subscribe\<close> call is logged in \<open>sent\<close>; the ack channel it returns is named by
  the number of the call. Which channels are readable during one \<open>Check\<close> is its argument \<open>ready\<close>.
\<close>

section \<open>The list of the utility module\<close>

record ('a, 'q) glist =
  Append :: "'q \<Rightarrow> 'a \<Rightarrow> 'q"
  Shift :: "'q \<Rightarrow> ('a \<times> 'q) option"
  Pop :: "'q \<Rightarrow> ('a \<times> 'q) option"
  Size :: "'q \<Rightarrow> nat"

locale generic_list =
  fixes L :: "('a, 'q) glist" and elems :: "'q \<Rightarrow> 'a list"
  assumes elems_Append: "elems (Append L q x) = elems q @ [x]"
    and Shift_None: "Shift L q = None \<longleftrightarrow> elems q = []"
    and Shift_Some: "Shift L q = Some (x, q') \<Longrightarrow> elems q = x # elems q'"
    and Pop_None: "Pop L q = None \<longleftrightarrow> elems q = []"
    and Pop_Some: "Pop L q = Some (x, q') \<Longrightarrow> elems q = elems q' @ [x]"
    and Size_elems: "Size L q = length (elems q)"

section \<open>State\<close>

record pending_subscription =
  root :: pubkey
  weight :: u32
  depth :: u32

record ack_receive =
  ackC :: nat
  ackRoot :: pubkey

record ('qs, 'qa) pss =
  count :: int
  inFlight :: int
  listSub :: 'qs
  listAck :: 'qa
  maxInFlight :: int
  mDedup :: "pubkey set"
  quietSlots :: u64
  doneSlot :: u64
  sent :: "pending_subscription list"

definition CreatePendingSubscriptionList :: "'qs \<Rightarrow> 'qa \<Rightarrow> int \<Rightarrow> u64 \<Rightarrow> ('qs, 'qa) pss" where
  "CreatePendingSubscriptionList emptySub emptyAck mx quiet =
     \<lparr>count = 0, inFlight = 0, listSub = emptySub, listAck = emptyAck, maxInFlight = mx,
      mDedup = {}, quietSlots = quiet, doneSlot = 0, sent = []\<rparr>"

section \<open>Operations\<close>

definition Subscribe ::
  "(pending_subscription, 'qs) glist \<Rightarrow> pending_subscription \<Rightarrow> ('qs, 'qa) pss \<Rightarrow> ('qs, 'qa) pss" where
  "Subscribe LS r p =
     (if root r \<in> mDedup p then p
      else p\<lparr>mDedup := insert (root r) (mDedup p), count := count p + 1,
             listSub := Append LS (listSub p) r\<rparr>)"

definition Count :: "(pending_subscription, 'qs) glist \<Rightarrow> ('qs, 'qa) pss \<Rightarrow> int \<times> int \<times> int" where
  "Count LS p = (count p, inFlight p, int (Size LS (listSub p)))"

text \<open>The first loop of \<open>Check\<close>: \<open>n\<close> rounds, each taking the head and putting it back if it has no ack yet.\<close>

fun drain_acks ::
  "(ack_receive, 'qa) glist \<Rightarrow> (nat \<Rightarrow> bool) \<Rightarrow> nat \<Rightarrow> ('qs, 'qa) pss \<Rightarrow> ('qs, 'qa) pss" where
  "drain_acks LA ready 0 p = p"
| "drain_acks LA ready (Suc n) p =
     (case Shift LA (listAck p) of
        None \<Rightarrow> p
      | Some (x, q) \<Rightarrow>
          if ready (ackC x)
          then drain_acks LA ready n (p\<lparr>listAck := q, count := count p - 1, inFlight := inFlight p - 1\<rparr>)
          else drain_acks LA ready n (p\<lparr>listAck := Append LA q x\<rparr>))"

text \<open>The second loop: send queued subscriptions while fewer than the maximum are in flight.\<close>

function send_queued ::
  "(pending_subscription, 'qs) glist \<Rightarrow> (ack_receive, 'qa) glist \<Rightarrow> ('qs, 'qa) pss \<Rightarrow> ('qs, 'qa) pss" where
  "send_queued LS LA p =
     (if inFlight p < maxInFlight p
      then case Pop LS (listSub p) of
             None \<Rightarrow> p
           | Some (x, q) \<Rightarrow>
               send_queued LS LA
                 (p\<lparr>listSub := q, sent := sent p @ [x],
                    listAck := Append LA (listAck p) \<lparr>ackC = length (sent p), ackRoot = root x\<rparr>,
                    inFlight := inFlight p + 1\<rparr>)
      else p)"
  by pat_completeness auto
termination
  by (relation "measure (\<lambda>(LS, LA, p). nat (maxInFlight p - inFlight p))") auto

declare send_queued.simps [simp del]

definition Check ::
  "(pending_subscription, 'qs) glist \<Rightarrow> (ack_receive, 'qa) glist \<Rightarrow> (nat \<Rightarrow> bool) \<Rightarrow> u64 \<Rightarrow>
   ('qs, 'qa) pss \<Rightarrow> bool \<times> ('qs, 'qa) pss" where
  "Check LS LA ready slot p =
     (let p = drain_acks LA ready (Size LA (listAck p)) p;
          p = send_queued LS LA p
      in if count p \<noteq> 0 \<or> inFlight p \<noteq> 0 \<or> 0 < Size LA (listAck p) \<or> 0 < Size LS (listSub p)
         then (False, p\<lparr>doneSlot := 0\<rparr>)
         else let p = (if doneSlot p = 0 then p\<lparr>doneSlot := slot\<rparr> else p)
              in (doneSlot p + quietSlots p \<le> slot, p))"

definition PendingRoots :: "('qa \<Rightarrow> ack_receive list) \<Rightarrow> ('qs, 'qa) pss \<Rightarrow> pubkey list" where
  "PendingRoots iterate p = map ackRoot (iterate (listAck p))"

section \<open>Invariant\<close>

text \<open>
  What the comments promise: \<open>count\<close> counts everything queued or in flight, \<open>inFlight\<close> what is
  awaiting an ack, the cap holds, no root is ever requested twice, and every entry in flight names
  the call it waits for. \<open>esub\<close> and \<open>eack\<close> read the two lists.
\<close>

definition tracker_inv ::
  "('qs \<Rightarrow> pending_subscription list) \<Rightarrow> ('qa \<Rightarrow> ack_receive list) \<Rightarrow> ('qs, 'qa) pss \<Rightarrow> bool" where
  "tracker_inv esub eack p \<longleftrightarrow>
     count p = int (length (esub (listSub p))) + inFlight p \<and>
     inFlight p = int (length (eack (listAck p))) \<and>
     inFlight p \<le> max 0 (maxInFlight p) \<and>
     distinct (map root (sent p @ esub (listSub p))) \<and>
     root ` set (sent p @ esub (listSub p)) = mDedup p \<and>
     (\<forall>x \<in> set (eack (listAck p)). ackC x < length (sent p) \<and> root (sent p ! ackC x) = ackRoot x)"

text \<open>One round of the second loop.\<close>

definition send_one ::
  "(ack_receive, 'qa) glist \<Rightarrow> pending_subscription \<Rightarrow> 'qs \<Rightarrow> ('qs, 'qa) pss \<Rightarrow> ('qs, 'qa) pss" where
  "send_one LA x q p =
     p\<lparr>listSub := q, sent := sent p @ [x],
       listAck := Append LA (listAck p) \<lparr>ackC = length (sent p), ackRoot = root x\<rparr>,
       inFlight := inFlight p + 1\<rparr>"

lemma send_queued_rule:
  assumes "P p"
    and "\<And>p x q. P p \<Longrightarrow> inFlight p < maxInFlight p \<Longrightarrow> Pop LS (listSub p) = Some (x, q) \<Longrightarrow> P (send_one LA x q p)"
  shows "P (send_queued LS LA p) \<and>
    (inFlight (send_queued LS LA p) < maxInFlight (send_queued LS LA p) \<longrightarrow>
     Pop LS (listSub (send_queued LS LA p)) = None)"
  using assms
proof (induction LS LA p rule: send_queued.induct)
  case (1 LS LA p)
  show ?case
  proof (cases "inFlight p < maxInFlight p \<and> Pop LS (listSub p) \<noteq> None")
    case True
    then obtain x q where x: "inFlight p < maxInFlight p" "Pop LS (listSub p) = Some (x, q)" by auto
    have "send_queued LS LA p = send_queued LS LA (send_one LA x q p)"
      using x by (simp add: send_queued.simps [of LS LA p] send_one_def)
    with "1.IH" [OF x(1) x(2) refl] "1.prems" x show ?thesis by (simp add: send_one_def)
  next
    case False
    then have "send_queued LS LA p = p"
      by (auto simp: send_queued.simps [of LS LA p] split: option.splits)
    with False "1.prems" show ?thesis by (cases "Pop LS (listSub p)") auto
  qed
qed

section \<open>The laws of the list at work\<close>

text \<open>Two lists: the queue \<open>LS\<close> of requests and the list \<open>LA\<close> of requests in flight.\<close>

locale tracker_lists =
  S: generic_list LS esub + A: generic_list LA eack
  for LS :: "(pending_subscription, 'qs) glist" and esub :: "'qs \<Rightarrow> pending_subscription list"
    and LA :: "(ack_receive, 'qa) glist" and eack :: "'qa \<Rightarrow> ack_receive list"
begin

lemma Subscribe_inv: "tracker_inv esub eack p \<Longrightarrow> tracker_inv esub eack (Subscribe LS r p)"
  by (auto simp: tracker_inv_def Subscribe_def S.elems_Append)

text \<open>A full lap over the acks inspects every entry once and keeps the others in order.\<close>

lemma drain_acks_lap:
  assumes "eack (listAck p) = xs @ ys"
  shows "\<exists>q. drain_acks LA ready (length xs) p =
      p\<lparr>listAck := q,
        count := count p - int (length (filter (\<lambda>x. ready (ackC x)) xs)),
        inFlight := inFlight p - int (length (filter (\<lambda>x. ready (ackC x)) xs))\<rparr> \<and>
    eack q = ys @ filter (\<lambda>x. \<not> ready (ackC x)) xs"
  using assms
proof (induction xs arbitrary: p ys)
  case Nil
  then show ?case by (intro exI [of _ "listAck p"]) simp
next
  case (Cons x xs)
  from Cons.prems have "Shift LA (listAck p) \<noteq> None" by (simp add: A.Shift_None)
  then obtain x' r where sh: "Shift LA (listAck p) = Some (x', r)" by auto
  with A.Shift_Some Cons.prems have x': "x' = x" "eack r = xs @ ys" by fastforce+
  show ?case
  proof (cases "ready (ackC x)")
    case True
    have "eack (listAck (p\<lparr>listAck := r, count := count p - 1, inFlight := inFlight p - 1\<rparr>)) = xs @ ys"
      using x' by simp
    from Cons.IH [OF this] sh x' True show ?thesis by (auto simp: diff_diff_eq)
  next
    case False
    have "eack (listAck (p\<lparr>listAck := Append LA r x\<rparr>)) = xs @ (ys @ [x])"
      by (simp add: A.elems_Append x')
    from Cons.IH [OF this] sh x' False show ?thesis by auto
  qed
qed

lemma drain_acks_eq:
  obtains q where "drain_acks LA ready (Size LA (listAck p)) p =
      p\<lparr>listAck := q,
        count := count p - int (length (filter (\<lambda>x. ready (ackC x)) (eack (listAck p)))),
        inFlight := inFlight p - int (length (filter (\<lambda>x. ready (ackC x)) (eack (listAck p))))\<rparr>"
    and "eack q = filter (\<lambda>x. \<not> ready (ackC x)) (eack (listAck p))"
  using drain_acks_lap [of p "eack (listAck p)" "[]" ready] by (auto simp: A.Size_elems)

lemma drain_acks_inv:
  assumes "tracker_inv esub eack p"
  shows "tracker_inv esub eack (drain_acks LA ready (Size LA (listAck p)) p)"
proof -
  obtain q where q: "drain_acks LA ready (Size LA (listAck p)) p =
      p\<lparr>listAck := q,
        count := count p - int (length (filter (\<lambda>x. ready (ackC x)) (eack (listAck p)))),
        inFlight := inFlight p - int (length (filter (\<lambda>x. ready (ackC x)) (eack (listAck p))))\<rparr>"
    "eack q = filter (\<lambda>x. \<not> ready (ackC x)) (eack (listAck p))"
    by (rule drain_acks_eq)
  have "length (eack (listAck p)) =
    length (filter (\<lambda>x. ready (ackC x)) (eack (listAck p))) +
    length (filter (\<lambda>x. \<not> ready (ackC x)) (eack (listAck p)))"
    by (rule sum_length_filter_compl [symmetric])
  with assms show ?thesis unfolding q(1) by (auto simp: tracker_inv_def q(2))
qed

lemma send_one_inv:
  assumes "tracker_inv esub eack p" and "inFlight p < maxInFlight p" and "Pop LS (listSub p) = Some (x, q)"
  shows "tracker_inv esub eack (send_one LA x q p)"
  using assms S.Pop_Some [OF assms(3)]
  by (auto simp: tracker_inv_def send_one_def A.elems_Append nth_append)

lemma send_queued_inv: "tracker_inv esub eack p \<Longrightarrow> tracker_inv esub eack (send_queued LS LA p)"
  using send_queued_rule [of "tracker_inv esub eack"] send_one_inv by blast

lemma doneSlot_inv [simp]: "tracker_inv esub eack (p\<lparr>doneSlot := d\<rparr>) = tracker_inv esub eack p"
  by (simp add: tracker_inv_def)

lemma Check_inv: "tracker_inv esub eack p \<Longrightarrow> tracker_inv esub eack (snd (Check LS LA ready slot p))"
  by (simp add: Check_def Let_def drain_acks_inv send_queued_inv)

text \<open>The second loop takes the newest \<open>k\<close> requests, newest first, until the cap or the end of the queue.\<close>

lemma send_queued_eq:
  "\<exists>k. k = min (length (esub (listSub p))) (nat (maxInFlight p - inFlight p)) \<and>
     esub (listSub (send_queued LS LA p)) = take (length (esub (listSub p)) - k) (esub (listSub p)) \<and>
     sent (send_queued LS LA p) = sent p @ rev (drop (length (esub (listSub p)) - k) (esub (listSub p))) \<and>
     eack (listAck (send_queued LS LA p)) = eack (listAck p) @
       map (\<lambda>i. \<lparr>ackC = i, ackRoot = root (sent (send_queued LS LA p) ! i)\<rparr>) [length (sent p)..<length (sent p) + k] \<and>
     count (send_queued LS LA p) = count p \<and> inFlight (send_queued LS LA p) = inFlight p + int k \<and>
     maxInFlight (send_queued LS LA p) = maxInFlight p \<and> mDedup (send_queued LS LA p) = mDedup p \<and>
     quietSlots (send_queued LS LA p) = quietSlots p \<and> doneSlot (send_queued LS LA p) = doneSlot p"
proof (induction "nat (maxInFlight p - inFlight p)" arbitrary: p rule: less_induct)
  case less
  show ?case
  proof (cases "inFlight p < maxInFlight p \<and> esub (listSub p) \<noteq> []")
    case False
    then have "\<not> inFlight p < maxInFlight p \<or> Pop LS (listSub p) = None" using S.Pop_None [of "listSub p"] by auto
    then have "send_queued LS LA p = p" by (auto simp: send_queued.simps [of LS LA p])
    with False show ?thesis by (auto simp: min_def)
  next
    case True
    then obtain x q where pop: "Pop LS (listSub p) = Some (x, q)" using S.Pop_None by fastforce
    note q = S.Pop_Some [OF pop]
    have step: "send_queued LS LA p = send_queued LS LA (send_one LA x q p)"
      using True pop by (simp add: send_queued.simps [of LS LA p] send_one_def)
    have "nat (maxInFlight (send_one LA x q p) - inFlight (send_one LA x q p)) < nat (maxInFlight p - inFlight p)"
      using True by (simp add: send_one_def)
    from less.hyps [OF this] obtain k where
      k: "k = min (length (esub q)) (nat (maxInFlight p - inFlight p - 1))" and
      IH: "esub (listSub (send_queued LS LA p)) = take (length (esub q) - k) (esub q)"
      "sent (send_queued LS LA p) = (sent p @ [x]) @ rev (drop (length (esub q) - k) (esub q))"
      "eack (listAck (send_queued LS LA p)) = (eack (listAck p) @ [\<lparr>ackC = length (sent p), ackRoot = root x\<rparr>]) @
         map (\<lambda>i. \<lparr>ackC = i, ackRoot = root (sent (send_queued LS LA p) ! i)\<rparr>) [Suc (length (sent p))..<Suc (length (sent p)) + k]"
      "count (send_queued LS LA p) = count p" "inFlight (send_queued LS LA p) = inFlight p + 1 + int k"
      "maxInFlight (send_queued LS LA p) = maxInFlight p" "mDedup (send_queued LS LA p) = mDedup p"
      "quietSlots (send_queued LS LA p) = quietSlots p" "doneSlot (send_queued LS LA p) = doneSlot p"
      unfolding step by (auto simp: send_one_def A.elems_Append diff_diff_eq)
    have kk: "Suc k = min (length (esub (listSub p))) (nat (maxInFlight p - inFlight p))"
      using True k q by auto
    have "k \<le> length (esub q)" using k by simp
    moreover have "root x = root (sent (send_queued LS LA p) ! length (sent p))"
      unfolding IH(2) by (simp add: nth_append)
    ultimately show ?thesis
      by (intro exI [of _ "Suc k"] conjI kk) (simp_all add: IH q upt_conv_Cons [of "length (sent p)"] del: upt_Suc)
  qed
qed

text \<open>What one \<open>Check\<close> does to the two lists.\<close>

lemma Check_lists:
  fixes ready :: "nat \<Rightarrow> bool" and p :: "('qs, 'qa) pss" and slot :: u64
  assumes "tracker_inv esub eack p"
  defines "waiting \<equiv> filter (\<lambda>x. \<not> ready (ackC x)) (eack (listAck p))"
  defines "k \<equiv> min (length (esub (listSub p))) (nat (maxInFlight p) - length waiting)"
  defines "p' \<equiv> snd (Check LS LA ready slot p)"
  shows "esub (listSub p') = take (length (esub (listSub p)) - k) (esub (listSub p)) \<and>
    sent p' = sent p @ rev (drop (length (esub (listSub p)) - k) (esub (listSub p))) \<and>
    eack (listAck p') = waiting @ map (\<lambda>i. \<lparr>ackC = i, ackRoot = root (sent p' ! i)\<rparr>) [length (sent p)..<length (sent p) + k] \<and>
    maxInFlight p' = maxInFlight p \<and> mDedup p' = mDedup p \<and> quietSlots p' = quietSlots p"
proof -
  define d where "d = drain_acks LA ready (Size LA (listAck p)) p"
  define f where "f = send_queued LS LA d"
  have d: "listSub d = listSub p" "sent d = sent p" "maxInFlight d = maxInFlight p" "mDedup d = mDedup p"
    "quietSlots d = quietSlots p" "eack (listAck d) = waiting"
  proof -
    obtain q where "d = p\<lparr>listAck := q,
        count := count p - int (length (filter (\<lambda>x. ready (ackC x)) (eack (listAck p)))),
        inFlight := inFlight p - int (length (filter (\<lambda>x. ready (ackC x)) (eack (listAck p))))\<rparr>"
      "eack q = waiting"
      unfolding d_def waiting_def by (rule drain_acks_eq)
    then show "listSub d = listSub p" "sent d = sent p" "maxInFlight d = maxInFlight p" "mDedup d = mDedup p"
      "quietSlots d = quietSlots p" "eack (listAck d) = waiting"
      by simp_all
  qed
  have "tracker_inv esub eack d" unfolding d_def by (rule drain_acks_inv) fact
  then have "inFlight d = int (length waiting)" using d(6) by (simp add: tracker_inv_def)
  then have k: "k = min (length (esub (listSub d))) (nat (maxInFlight d - inFlight d))"
    by (simp add: k_def d nat_diff_distrib')
  have p': "listSub p' = listSub f" "sent p' = sent f" "listAck p' = listAck f" "maxInFlight p' = maxInFlight f"
    "mDedup p' = mDedup f" "quietSlots p' = quietSlots f"
    by (simp_all add: p'_def Check_def Let_def f_def d_def)
  show ?thesis
    using send_queued_eq [of d] unfolding f_def [symmetric] k [symmetric]
    by (simp add: p' d)
qed

lemma Check_done_empty:
  assumes "fst (Check LS LA ready slot p)"
  shows "esub (listSub (snd (Check LS LA ready slot p))) = [] \<and> eack (listAck (snd (Check LS LA ready slot p))) = []"
  using assms by (auto simp: Check_def Let_def S.Size_elems A.Size_elems split: if_splits)


lemma Create_inv:
  "esub emptySub = [] \<Longrightarrow> eack emptyAck = [] \<Longrightarrow>
   tracker_inv esub eack (CreatePendingSubscriptionList emptySub emptyAck mx quiet)"
  by (simp add: tracker_inv_def CreatePendingSubscriptionList_def)

lemma Check_count_inv:
  assumes "tracker_inv esub eack p"
  shows "count (snd (Check LS LA ready slot p)) =
    int (length (esub (listSub (snd (Check LS LA ready slot p)))) + length (eack (listAck (snd (Check LS LA ready slot p)))))"
  using Check_inv [OF assms, of ready slot] by (simp add: tracker_inv_def)

text \<open>A check at which every outstanding ack has arrived moves on to the next batch.\<close>

lemma Check_all_ready:
  assumes "tracker_inv esub eack p" and "1 \<le> maxInFlight p" and "\<forall>i < length (sent p). ready i"
  defines "n \<equiv> \<lambda>p. length (esub (listSub p))"
  shows "n (snd (Check LS LA ready slot p)) = n p - nat (maxInFlight p)"
    and "n p = 0 \<Longrightarrow> count (snd (Check LS LA ready slot p)) = 0"
proof -
  have w: "filter (\<lambda>x. \<not> ready (ackC x)) (eack (listAck p)) = []"
    using assms(1,3) by (auto simp: tracker_inv_def filter_empty_conv)
  have "n (snd (Check LS LA ready slot p)) = n p - min (n p) (nat (maxInFlight p))"
    using Check_lists [OF assms(1), of ready slot] by (simp add: n_def w)
  then show "n (snd (Check LS LA ready slot p)) = n p - nat (maxInFlight p)" by simp
  show "count (snd (Check LS LA ready slot p)) = 0" if "n p = 0"
    using Check_lists [OF assms(1), of ready slot] Check_count_inv [OF assms(1), of ready slot] that
    by (simp add: n_def w)
qed

end

section \<open>The interface a handler relies on\<close>

text \<open>
  The event handlers see only \<open>Subscribe\<close> and \<open>Check\<close>: requests are remembered for good, and a
  report that the fetch is done means that nothing is queued or in flight.
\<close>

locale subscription_tracker =
  fixes subscribe :: "pending_subscription \<Rightarrow> 't \<Rightarrow> 't"
    and check :: "(nat \<Rightarrow> bool) \<Rightarrow> u64 \<Rightarrow> 't \<Rightarrow> bool \<times> 't"
    and inv :: "'t \<Rightarrow> bool" and known :: "'t \<Rightarrow> pubkey set" and pending :: "'t \<Rightarrow> pubkey set"
  assumes subscribe_inv: "inv t \<Longrightarrow> inv (subscribe r t)"
    and check_inv: "inv t \<Longrightarrow> inv (snd (check ready slot t))"
    and known_subscribe: "known (subscribe r t) = insert (root r) (known t)"
    and known_check: "inv t \<Longrightarrow> known (snd (check ready slot t)) = known t"
    and pending_subscribe: "pending t \<subseteq> pending (subscribe r t)"
    and check_done: "fst (check ready slot t) \<Longrightarrow> pending (snd (check ready slot t)) = {}"
begin

definition subscribe_all :: "pending_subscription list \<Rightarrow> 't \<Rightarrow> 't" where
  "subscribe_all rs t = fold subscribe rs t"

lemma subscribe_all_inv: "inv t \<Longrightarrow> inv (subscribe_all rs t)"
  unfolding subscribe_all_def by (rule fold_invariant) (auto intro: subscribe_inv)

lemma known_subscribe_all: "known (subscribe_all rs t) = known t \<union> root ` set rs"
  by (induction rs arbitrary: t) (auto simp: subscribe_all_def known_subscribe)

lemma known_mono: "known t \<subseteq> known (subscribe_all rs t)"
  by (auto simp: known_subscribe_all)

end

definition pending_roots ::
  "('qs \<Rightarrow> pending_subscription list) \<Rightarrow> ('qa \<Rightarrow> ack_receive list) \<Rightarrow> ('qs, 'qa) pss \<Rightarrow> pubkey set" where
  "pending_roots esub eack p = root ` set (esub (listSub p)) \<union> ackRoot ` set (eack (listAck p))"

sublocale tracker_lists \<subseteq> subscription_tracker "Subscribe LS" "Check LS LA" "tracker_inv esub eack"
  mDedup "pending_roots esub eack"
proof unfold_locales
  fix r t ready slot
  show "tracker_inv esub eack t \<Longrightarrow> tracker_inv esub eack (Subscribe LS r t)" by (rule Subscribe_inv)
  show "tracker_inv esub eack t \<Longrightarrow> tracker_inv esub eack (snd (Check LS LA ready slot t))" by (rule Check_inv)
  show "mDedup (Subscribe LS r t) = insert (root r) (mDedup t)" by (auto simp: Subscribe_def)
  show "tracker_inv esub eack t \<Longrightarrow> mDedup (snd (Check LS LA ready slot t)) = mDedup t" using Check_lists by blast
  show "pending_roots esub eack t \<subseteq> pending_roots esub eack (Subscribe LS r t)"
    by (auto simp: pending_roots_def Subscribe_def S.elems_Append)
  show "fst (Check LS LA ready slot t) \<Longrightarrow> pending_roots esub eack (snd (Check LS LA ready slot t)) = {}"
    using Check_done_empty by (simp add: pending_roots_def)
qed

text \<open>An implementation of the list by HOL lists, the head first.\<close>

definition hol_list :: "('a, 'a list) glist" where
  "hol_list =
     \<lparr>Append = (\<lambda>q x. q @ [x]),
      Shift = (\<lambda>q. case q of [] \<Rightarrow> None | x # xs \<Rightarrow> Some (x, xs)),
      Pop = (\<lambda>q. if q = [] then None else Some (last q, butlast q)),
      Size = length\<rparr>"

interpretation pssl: tracker_lists hol_list id hol_list id
  by unfold_locales (auto simp: hol_list_def split: list.splits if_splits)

section \<open>Runs of the tracker\<close>

datatype tracker_event = ESubscribe pending_subscription | ECheck u64 "nat \<Rightarrow> bool"

inductive tracker_reachable ::
  "(pending_subscription, 'qs) glist \<Rightarrow> (ack_receive, 'qa) glist \<Rightarrow> ('qs, 'qa) pss \<Rightarrow> ('qs, 'qa) pss \<Rightarrow> bool"
  for LS LA p0 where
  reach_start: "tracker_reachable LS LA p0 p0"
| reach_subscribe: "tracker_reachable LS LA p0 p \<Longrightarrow> tracker_reachable LS LA p0 (Subscribe LS r p)"
| reach_check: "tracker_reachable LS LA p0 p \<Longrightarrow> tracker_reachable LS LA p0 (snd (Check LS LA ready slot p))"

lemma reachable_inv:
  assumes "tracker_lists LS esub LA eack" and "tracker_reachable LS LA p0 p" and "tracker_inv esub eack p0"
  shows "tracker_inv esub eack p \<and> maxInFlight p = maxInFlight p0"
  using assms(2,3)
proof (induction rule: tracker_reachable.induct)
  case reach_start
  then show ?case by simp
next
  case (reach_subscribe p r)
  then show ?case using tracker_lists.Subscribe_inv [OF assms(1)] by (auto simp: Subscribe_def)
next
  case (reach_check p ready slot)
  then show ?case
    using tracker_lists.Check_inv [OF assms(1)] tracker_lists.Check_lists [OF assms(1)] by metis
qed

text \<open>(C5) In every state the tracker reaches, \<open>count\<close> is the number of roots queued or in flight,
  \<open>inFlight\<close> never exceeds the maximum, and no root is ever sent to the server twice.\<close>

theorem tracker_counts:
  assumes "tracker_lists LS esub LA eack" and "esub emptySub = []" and "eack emptyAck = []" and "0 \<le> mx"
    and "tracker_reachable LS LA (CreatePendingSubscriptionList emptySub emptyAck mx quiet) p"
  shows "count p = int (length (esub (listSub p)) + length (eack (listAck p))) \<and>
    inFlight p = int (length (eack (listAck p))) \<and> inFlight p \<le> mx \<and> distinct (map root (sent p))"
proof -
  have "tracker_inv esub eack p \<and> maxInFlight p = mx"
    using reachable_inv [OF assms(1,5)] tracker_lists.Create_inv [OF assms(1-3)]
    by (simp add: CreatePendingSubscriptionList_def)
  with assms(4) show ?thesis by (auto simp: tracker_inv_def)
qed

abbreviation req :: "byte \<Rightarrow> pending_subscription" where
  "req b \<equiv> \<lparr>root = [b], weight = 0, depth = 1\<rparr>"

abbreviation pss0 :: "(pending_subscription list, ack_receive list) pss" where
  "pss0 \<equiv> CreatePendingSubscriptionList [] [] 2 10"

theorem tracker_counts_witness:
  "distinct (map root (sent (snd (Check hol_list hol_list (\<lambda>_. False) 7 (Subscribe hol_list (req 1) pss0))))) \<and>
   inFlight (snd (Check hol_list hol_list (\<lambda>_. False) 7 (Subscribe hol_list (req 1) pss0))) \<le> 2"
  using tracker_counts [OF pssl.tracker_lists_axioms, of "[]" "[]" 2 10
      "snd (Check hol_list hol_list (\<lambda>_. False) 7 (Subscribe hol_list (req 1) pss0))"]
    reach_check [OF reach_subscribe [OF reach_start], of hol_list hol_list pss0 "\<lambda>_. False" 7 "req 1"]
  by simp

text \<open>One \<open>Check\<close> inspects every outstanding ack exactly once: the acked entries leave, all
  others stay in their order, and the newest queued requests are sent until the cap is reached.\<close>

theorem Check_inspects_every_ack:
  assumes "tracker_lists LS esub LA eack" and "tracker_inv esub eack p"
    and "waiting = filter (\<lambda>x. \<not> ready (ackC x)) (eack (listAck p))"
    and "k = min (length (esub (listSub p))) (nat (maxInFlight p) - length waiting)"
    and "Check LS LA ready slot p = (done, p')"
  shows "esub (listSub p') = take (length (esub (listSub p)) - k) (esub (listSub p)) \<and>
    sent p' = sent p @ rev (drop (length (esub (listSub p)) - k) (esub (listSub p))) \<and>
    eack (listAck p') = waiting @
      map (\<lambda>i. \<lparr>ackC = i, ackRoot = root (sent p' ! i)\<rparr>) [length (sent p)..<length (sent p) + k]"
  using tracker_lists.Check_lists [OF assms(1,2), of ready slot] assms(3,4,5) by simp

abbreviation pss_busy :: "(pending_subscription list, ack_receive list) pss" where
  "pss_busy \<equiv> \<lparr>count = 4, inFlight = 2, listSub = [req 3, req 4],
     listAck = [\<lparr>ackC = 0, ackRoot = [1]\<rparr>, \<lparr>ackC = 1, ackRoot = [2]\<rparr>], maxInFlight = 2,
     mDedup = {[1], [2], [3], [4]}, quietSlots = 10, doneSlot = 0, sent = [req 1, req 2]\<rparr>"

theorem Check_inspects_every_ack_witness:
  "listSub (snd (Check hol_list hol_list (\<lambda>c. c = 1) 7 pss_busy)) = [req 3] \<and>
   listAck (snd (Check hol_list hol_list (\<lambda>c. c = 1) 7 pss_busy)) =
     [\<lparr>ackC = 0, ackRoot = [1]\<rparr>, \<lparr>ackC = 2, ackRoot = [4]\<rparr>]"
proof -
  have inv: "tracker_inv id id pss_busy" by (auto simp: tracker_inv_def)
  obtain d p' where c: "Check hol_list hol_list (\<lambda>c. c = 1) 7 pss_busy = (d, p')" by fastforce
  from Check_inspects_every_ack [OF pssl.tracker_lists_axioms inv refl refl c]
  show ?thesis unfolding c by (simp add: upt_rec nth_append)
qed

definition all_acked ::
  "(pending_subscription, 'qs) glist \<Rightarrow> (ack_receive, 'qa) glist \<Rightarrow> u64 list \<Rightarrow> ('qs, 'qa) pss \<Rightarrow> ('qs, 'qa) pss" where
  "all_acked LS LA slots p = fold (\<lambda>slot p. snd (Check LS LA (\<lambda>_. True) slot p)) slots p"

text \<open>(C30) Liveness: as long as the server acks every subscription before the next check, one more
  check than there are queued roots drains the tracker completely.\<close>

theorem tracker_drains:
  assumes "tracker_lists LS esub LA eack" and "tracker_inv esub eack p" and "1 \<le> maxInFlight p"
    and "length (esub (listSub p)) < length slots"
  shows "count (all_acked LS LA slots p) = 0"
  using assms(2-4)
proof (induction slots arbitrary: p)
  case Nil
  then show ?case by simp
next
  case (Cons slot slots)
  let ?p = "snd (Check LS LA (\<lambda>_. True) slot p)"
  have "\<forall>i < length (sent p). True" by simp
  note step = tracker_lists.Check_all_ready [OF assms(1) Cons.prems(1,2) this, of slot]
  have p: "tracker_inv esub eack ?p" "maxInFlight ?p = maxInFlight p"
    using tracker_lists.Check_inv [OF assms(1)] tracker_lists.Check_lists [OF assms(1)] Cons.prems(1) by blast+
  show ?case
  proof (cases "slots = []")
    case True
    with Cons.prems(3) step(2) show ?thesis by (simp add: all_acked_def)
  next
    case False
    have "nat (maxInFlight p) \<ge> 1" using Cons.prems(2) by simp
    moreover have "0 < length slots" using False by simp
    ultimately have "length (esub (listSub ?p)) < length slots"
      using step(1) Cons.prems(3) unfolding length_Cons by linarith
    with Cons.IH [of ?p] p Cons.prems(2) show ?thesis by (simp add: all_acked_def)
  qed
qed

theorem tracker_drains_witness: "count (all_acked hol_list hol_list [1, 2, 3] pss_busy) = 0"
proof -
  have "tracker_inv id id pss_busy" by (auto simp: tracker_inv_def)
  from tracker_drains [OF pssl.tracker_lists_axioms this, of "[1, 2, 3]"] show ?thesis by simp
qed

section \<open>The quiet period\<close>

text \<open>A run records, for every check, its slot and whether it left nothing pending.\<close>

definition nothing_pending ::
  "(pending_subscription, 'qs) glist \<Rightarrow> (ack_receive, 'qa) glist \<Rightarrow> ('qs, 'qa) pss \<Rightarrow> bool" where
  "nothing_pending LS LA p \<longleftrightarrow>
     count p = 0 \<and> inFlight p = 0 \<and> Size LA (listAck p) = 0 \<and> Size LS (listSub p) = 0"

fun observe ::
  "(pending_subscription, 'qs) glist \<Rightarrow> (ack_receive, 'qa) glist \<Rightarrow> tracker_event list \<Rightarrow>
   ('qs, 'qa) pss \<times> (u64 \<times> bool) list \<Rightarrow> ('qs, 'qa) pss \<times> (u64 \<times> bool) list" where
  "observe LS LA [] (p, obs) = (p, obs)"
| "observe LS LA (ESubscribe r # es) (p, obs) = observe LS LA es (Subscribe LS r p, obs)"
| "observe LS LA (ECheck slot ready # es) (p, obs) =
     (let p' = snd (Check LS LA ready slot p)
      in observe LS LA es (p', obs @ [(slot, nothing_pending LS LA p')]))"

definition quiet_since :: "u64 \<Rightarrow> (u64 \<times> bool) list \<Rightarrow> bool" where
  "quiet_since d obs \<longleftrightarrow>
     (\<exists>before after. obs = before @ after \<and> after \<noteq> [] \<and> fst (hd after) = d \<and> (\<forall>c \<in> set after. snd c))"

lemma quiet_since_snoc: "quiet_since d obs \<Longrightarrow> quiet_since d (obs @ [(slot, True)])"
proof -
  assume "quiet_since d obs"
  then obtain before after where "obs = before @ after" "after \<noteq> []" "fst (hd after) = d" "\<forall>c \<in> set after. snd c"
    unfolding quiet_since_def by blast
  then have "obs @ [(slot, True)] = before @ (after @ [(slot, True)])" "after @ [(slot, True)] \<noteq> []"
    "fst (hd (after @ [(slot, True)])) = d" "\<forall>c \<in> set (after @ [(slot, True)]). snd c"
    by auto
  then show ?thesis unfolding quiet_since_def by blast
qed

lemma quiet_since_now: "quiet_since slot (obs @ [(slot, True)])"
  unfolding quiet_since_def by (intro exI [of _ obs] exI [of _ "[(slot, True)]"]) simp

lemma drain_acks_slots: "doneSlot (drain_acks LA ready n p) = doneSlot p \<and> quietSlots (drain_acks LA ready n p) = quietSlots p"
  by (induction LA ready n p rule: drain_acks.induct) (auto split: option.splits)

lemma send_queued_slots: "doneSlot (send_queued LS LA p) = doneSlot p \<and> quietSlots (send_queued LS LA p) = quietSlots p"
  using send_queued_rule [of "\<lambda>q. doneSlot q = doneSlot p \<and> quietSlots q = quietSlots p" p LS LA]
  by (simp add: send_one_def)

lemma Check_quiet:
  fixes LS :: "(pending_subscription, 'qs) glist" and LA :: "(ack_receive, 'qa) glist"
    and ready :: "nat \<Rightarrow> bool" and slot :: u64
  assumes "doneSlot p \<noteq> 0 \<longrightarrow> quiet_since (doneSlot p) obs"
  defines "p' \<equiv> snd (Check LS LA ready slot p)"
  defines "obs' \<equiv> obs @ [(slot, nothing_pending LS LA p')]"
  shows "(doneSlot p' \<noteq> 0 \<longrightarrow> quiet_since (doneSlot p') obs') \<and> quietSlots p' = quietSlots p \<and>
    (fst (Check LS LA ready slot p) \<longrightarrow> (\<exists>d. quiet_since d obs' \<and> d + quietSlots p \<le> slot))"
proof -
  define f where "f = send_queued LS LA (drain_acks LA ready (Size LA (listAck p)) p)"
  have f: "doneSlot f = doneSlot p" "quietSlots f = quietSlots p"
    by (simp_all add: f_def send_queued_slots drain_acks_slots)
  show ?thesis
  proof (cases "nothing_pending LS LA f")
    case False
    then have "Check LS LA ready slot p = (False, f\<lparr>doneSlot := 0\<rparr>)"
      by (auto simp: Check_def f_def nothing_pending_def Let_def)
    then show ?thesis by (simp add: p'_def f)
  next
    case True
    define d where "d = (if doneSlot p = 0 then slot else doneSlot p)"
    have c: "Check LS LA ready slot p = (d + quietSlots p \<le> slot, f\<lparr>doneSlot := d\<rparr>)"
      using True f by (cases f) (auto simp: Check_def nothing_pending_def Let_def d_def simp flip: f_def)
    then have "obs' = obs @ [(slot, True)]"
      using True by (simp add: obs'_def p'_def nothing_pending_def)
    then have "quiet_since d obs'"
      using assms(1) quiet_since_snoc quiet_since_now by (auto simp: d_def)
    with c f show ?thesis by (auto simp: p'_def)
  qed
qed

lemma observe_quiet:
  "doneSlot p \<noteq> 0 \<longrightarrow> quiet_since (doneSlot p) obs \<Longrightarrow> observe LS LA es (p, obs) = (q, obs') \<Longrightarrow>
   (doneSlot q \<noteq> 0 \<longrightarrow> quiet_since (doneSlot q) obs') \<and> quietSlots q = quietSlots p"
proof (induction es arbitrary: p obs)
  case Nil
  then show ?case by simp
next
  case (Cons e es)
  show ?case
  proof (cases e)
    case (ESubscribe r)
    have "doneSlot (Subscribe LS r p) = doneSlot p" "quietSlots (Subscribe LS r p) = quietSlots p"
      by (simp_all add: Subscribe_def)
    with Cons.IH [of "Subscribe LS r p" obs] Cons.prems ESubscribe show ?thesis by simp
  next
    case (ECheck slot ready)
    let ?p = "snd (Check LS LA ready slot p)"
    note c = Check_quiet [OF Cons.prems(1), of LS LA ready slot]
    have "observe LS LA es (?p, obs @ [(slot, nothing_pending LS LA ?p)]) = (q, obs')"
      using Cons.prems(2) ECheck by (simp add: Let_def)
    from Cons.IH [OF c [THEN conjunct1] this] c show ?thesis by simp
  qed
qed

text \<open>\<open>Check\<close> reports done only after a quiet period: there is a check \<open>quietSlots\<close> or more slots
  earlier since which every check, up to and including this one, has found nothing pending.\<close>

theorem Check_done_after_quiet:
  assumes "observe LS LA es (CreatePendingSubscriptionList emptySub emptyAck mx quiet, []) = (p, obs)"
    and "Check LS LA ready slot p = (True, p')"
  shows "\<exists>d. quiet_since d (obs @ [(slot, nothing_pending LS LA p')]) \<and> d + quiet \<le> slot"
proof -
  have "(doneSlot p \<noteq> 0 \<longrightarrow> quiet_since (doneSlot p) obs) \<and> quietSlots p = quiet"
    using observe_quiet [OF _ assms(1)] by (simp add: CreatePendingSubscriptionList_def)
  with Check_quiet [of p obs LS LA ready slot] assms(2) show ?thesis by auto
qed

theorem Check_done_after_quiet_witness:
  "\<exists>d. quiet_since d ([(5, True)] @ [(15, True)]) \<and> d + 10 \<le> (15 :: u64)"
proof -
  have "observe hol_list hol_list [ECheck 5 (\<lambda>_. True)] (pss0, []) =
    (pss0\<lparr>doneSlot := 5\<rparr>, [(5, True)])"
    by (simp add: Check_def hol_list_def send_queued.simps CreatePendingSubscriptionList_def nothing_pending_def Let_def)
  moreover have "Check hol_list hol_list (\<lambda>_. True) 15 (pss0\<lparr>doneSlot := 5\<rparr>) = (True, pss0\<lparr>doneSlot := 5\<rparr>)"
    by (simp add: Check_def hol_list_def send_queued.simps CreatePendingSubscriptionList_def Let_def)
  ultimately have "\<exists>d. quiet_since d ([(5, True)] @ [(15, nothing_pending hol_list hol_list (pss0\<lparr>doneSlot := 5\<rparr>))]) \<and>
      d + 10 \<le> (15 :: u64)"
    by (rule Check_done_after_quiet)
  then show ?thesis by (simp add: nothing_pending_def hol_list_def CreatePendingSubscriptionList_def)
qed

end
