(* ===== verification/Treasury.thy ===== *)
theory Treasury
  imports Subscribe
begin

text \<open>
  The treasury of \<open>src/harness/treasury.go\<close>, \<open>treasuryevent.go\<close> and \<open>harness.go\<close>: the balances of a
  parent wallet and its children as the chain pushes them (\<open>OnSol\<close>, \<open>OnToken\<close>, \<open>OnDelete\<close>), and the
  budget operations that turn those balances into transactions.

  A Go map that the code iterates over is an association list; every permutation of it is another
  state for the same map, so a theorem about all states covers all iteration orders. Key
  derivation (\<open>derive\<close>, \<open>pub\<close>), the transaction builder (addresses of associated token accounts,
  the size estimate) and the subscription flags come from other modules and are parameters.
  A transaction is the list of its instructions.
\<close>

section \<open>State\<close>

type_synonym token_map = "(pubkey \<times> u64) list"

record single_store =
  sid :: pubkey
  spubkey :: pubkey
  sol :: u64
  mTokenByAccount :: "(pubkey \<times> token_map) list"
  mToken :: token_map
  positionCloser :: "nat option" \<comment> \<open>the closer that is registered, if any\<close>

record ('t, 'sk) treasury =
  parent :: single_store
  mChild :: "pubkey \<rightharpoonup> single_store"
  mAccountWallet :: "pubkey \<rightharpoonup> pubkey"
  te_g :: "'t option" \<comment> \<open>\<open>nil\<close> until the hook's \<open>Init\<close> has run\<close>
  parentKey :: 'sk
  builderKeys :: "'sk list"
  locked :: bool
  hookSlot :: u64
  readyClosed :: bool \<comment> \<open>\<open>readyC\<close> has been closed\<close>

text \<open>A pointer to a store: the parent's or a child's.\<close>

datatype store_ref = ParentRef | ChildRef pubkey

definition createSingleStore :: "pubkey \<Rightarrow> pubkey \<Rightarrow> single_store" where
  "createSingleStore i pk =
     \<lparr>sid = i, spubkey = pk, sol = 0, mTokenByAccount = [], mToken = [], positionCloser = None\<rparr>"

text \<open>\<open>createStore\<close> and the fields \<open>Create\<close> sets before the hook runs; \<open>sysID\<close> is \<open>SystemProgramID\<close>.\<close>

definition createStore :: "('sk \<Rightarrow> pubkey) \<Rightarrow> pubkey \<Rightarrow> 'sk \<Rightarrow> ('t, 'sk) treasury" where
  "createStore pub sysID key =
     \<lparr>parent = createSingleStore sysID (pub key), mChild = Map.empty, mAccountWallet = Map.empty,
      te_g = None, parentKey = key, builderKeys = [key], locked = False, hookSlot = 0,
      readyClosed = False\<rparr>"

definition get_store :: "('t, 'sk) treasury \<Rightarrow> store_ref \<Rightarrow> single_store option" where
  "get_store te r = (case r of ParentRef \<Rightarrow> Some (parent te) | ChildRef i \<Rightarrow> mChild te i)"

definition map_store ::
  "store_ref \<Rightarrow> (single_store \<Rightarrow> single_store) \<Rightarrow> ('t, 'sk) treasury \<Rightarrow> ('t, 'sk) treasury" where
  "map_store r f te =
     (case r of
        ParentRef \<Rightarrow> te\<lparr>parent := f (parent te)\<rparr>
      | ChildRef i \<Rightarrow> te\<lparr>mChild := (mChild te)(i := map_option f (mChild te i))\<rparr>)"

definition storeByID :: "('t, 'sk) treasury \<Rightarrow> pubkey \<Rightarrow> store_ref option" where
  "storeByID te i =
     (if sid (parent te) = i then Some ParentRef
      else if mChild te i = None then None else Some (ChildRef i))"

definition storeByOwner :: "('t, 'sk) treasury \<Rightarrow> pubkey \<Rightarrow> store_ref option" where
  "storeByOwner te owner =
     (if spubkey (parent te) = owner then Some ParentRef
      else case mAccountWallet te owner of
             None \<Rightarrow> None
           | Some i \<Rightarrow> if mChild te i = None then None else Some (ChildRef i))"

lemma storeByID_wallets [simp]: "storeByID (te\<lparr>mAccountWallet := m\<rparr>) i = storeByID te i"
  by (simp add: storeByID_def)

section \<open>Token balances\<close>

text \<open>\<open>mToken[mint] += amount\<close>\<close>

definition add_amount :: "pubkey \<times> u64 \<Rightarrow> token_map \<Rightarrow> token_map" where
  "add_amount ma m = AList.update (fst ma) (map_get 0 (map_of m) (fst ma) + snd ma) m"

definition token_totals :: "(pubkey \<times> token_map) list \<Rightarrow> token_map" where
  "token_totals byAccount = fold add_amount (concat (map snd byAccount)) []"

definition recomputeTokenTotals :: "single_store \<Rightarrow> single_store" where
  "recomputeTokenTotals s = s\<lparr>mToken := token_totals (mTokenByAccount s)\<rparr>"

definition TokenBalance :: "single_store \<Rightarrow> pubkey \<Rightarrow> u64 option" where
  "TokenBalance s = map_of (mToken s)"

text \<open>The first account, in iteration order, that is known to hold the mint.\<close>

definition tokenAccountFor :: "single_store \<Rightarrow> pubkey \<Rightarrow> pubkey option" where
  "tokenAccountFor s mint =
     map_option fst (find (\<lambda>(account, byMint). map_of byMint mint \<noteq> None) (mTokenByAccount s))"

section \<open>Events\<close>

definition OnDelete :: "pubkey \<Rightarrow> ('t, 'sk) treasury \<Rightarrow> ('t, 'sk) treasury" where
  "OnDelete pk te =
     (case mAccountWallet te pk of
        None \<Rightarrow> te
      | Some i \<Rightarrow>
          let te = te\<lparr>mAccountWallet := (mAccountWallet te)(pk := None)\<rparr>
          in case storeByID te i of
               None \<Rightarrow> te
             | Some r \<Rightarrow>
                 map_store r
                   (\<lambda>s. if spubkey s = pk then s\<lparr>sol := 0\<rparr>
                        else recomputeTokenTotals (s\<lparr>mTokenByAccount := AList.delete pk (mTokenByAccount s)\<rparr>))
                   te)"

definition OnSol :: "pubkey \<Rightarrow> u64 \<Rightarrow> ('t, 'sk) treasury \<Rightarrow> ('t, 'sk) treasury" where
  "OnSol pk lamports te =
     (if spubkey (parent te) = pk then map_store ParentRef (\<lambda>s. s\<lparr>sol := lamports\<rparr>) te
      else let lookupKey = map_get zero_key (mAccountWallet te) pk
           in map_store (ChildRef lookupKey) (\<lambda>s. s\<lparr>sol := lamports\<rparr>) te)"

definition record_amount :: "pubkey \<Rightarrow> pubkey \<Rightarrow> u64 \<Rightarrow> single_store \<Rightarrow> single_store" where
  "record_amount account mint amount s =
     s\<lparr>mTokenByAccount :=
         AList.update account
           (AList.update mint amount (map_get [] (map_of (mTokenByAccount s)) account))
           (mTokenByAccount s)\<rparr>"

definition OnToken :: "pubkey \<Rightarrow> pubkey \<Rightarrow> pubkey \<Rightarrow> u64 \<Rightarrow> ('t, 'sk) treasury \<Rightarrow> ('t, 'sk) treasury" where
  "OnToken account owner mint amount te =
     (case storeByOwner te owner of
        None \<Rightarrow> te
      | Some r \<Rightarrow>
          (case get_store te r of
             None \<Rightarrow> te
           | Some s \<Rightarrow>
               map_store r (\<lambda>s. recomputeTokenTotals (record_amount account mint amount s))
                 (te\<lparr>mAccountWallet := (mAccountWallet te)(account \<mapsto> sid s)\<rparr>)))"

section \<open>Commits\<close>

text \<open>\<open>None\<close>: the call blocks, because the lock is held.\<close>

definition CommitStart :: "u64 \<Rightarrow> ('t, 'sk) treasury \<Rightarrow> ('t, 'sk) treasury option" where
  "CommitStart slot te = (if locked te then None else Some (te\<lparr>locked := True, hookSlot := slot\<rparr>))"

definition CommitFinish ::
  "(u64 \<Rightarrow> 't \<Rightarrow> bool \<times> 't) \<Rightarrow> ('t, 'sk) treasury \<Rightarrow> bool \<times> ('t, 'sk) treasury" where
  "CommitFinish check te =
     (let te = (case te_g te of None \<Rightarrow> te | Some g \<Rightarrow> te\<lparr>te_g := Some (snd (check (hookSlot te) g))\<rparr>)
      in (False, te\<lparr>locked := False\<rparr>))"

text \<open>\<open>Init\<close>: \<open>None\<close> when the lock is held, or when \<open>readyC\<close> is closed a second time, which panics.
  \<open>newTracker\<close> is \<open>CreatePendingSubscriptionList(ctx, g, 10, 10)\<close>; \<open>flags\<close> is
  \<open>WeightDirect|WeightSPLTokenOwner\<close>.\<close>

definition Init ::
  "('sk \<Rightarrow> pubkey) \<Rightarrow> u32 \<Rightarrow> 't \<Rightarrow> (pending_subscription \<Rightarrow> 't \<Rightarrow> 't) \<Rightarrow> ('t, 'sk) treasury \<Rightarrow> ('t, 'sk) treasury option" where
  "Init pub flags newTracker subscribe te =
     (if locked te \<or> readyClosed te then None
      else Some (te\<lparr>te_g := Some (subscribe \<lparr>root = pub (parentKey te), weight = flags, depth = 2\<rparr> newTracker),
                    readyClosed := True\<rparr>))"

section \<open>Children\<close>

text \<open>\<open>None\<close>: a nil-pointer panic, because the hook's \<open>Init\<close> has not run yet.\<close>

definition getOrCreateChild ::
  "('sk \<Rightarrow> pubkey \<Rightarrow> 'sk) \<Rightarrow> ('sk \<Rightarrow> pubkey) \<Rightarrow> u32 \<Rightarrow> (pending_subscription \<Rightarrow> 't \<Rightarrow> 't) \<Rightarrow>
   pubkey \<Rightarrow> ('t, 'sk) treasury \<Rightarrow> ('t, 'sk) treasury option" where
  "getOrCreateChild derive pub flags subscribe i te =
     (case mChild te i of
        Some s \<Rightarrow> Some te
      | None \<Rightarrow>
          let key = derive (parentKey te) i; x = createSingleStore i (pub key)
          in case te_g te of
               None \<Rightarrow> None
             | Some g \<Rightarrow>
                 Some (te\<lparr>builderKeys := builderKeys te @ [key],
                          mChild := (mChild te)(i \<mapsto> x),
                          te_g := Some (subscribe \<lparr>root = spubkey x, weight = flags, depth = 2\<rparr> g),
                          mAccountWallet := (mAccountWallet te)(spubkey x \<mapsto> i)\<rparr>))"

definition Children :: "('t, 'sk) treasury \<Rightarrow> pubkey set" where
  "Children te = dom (mChild te)"

section \<open>Budgets\<close>

datatype instr =
    TransferSOL pubkey pubkey u64
  | ATACreate pubkey pubkey
  | TransferToken pubkey pubkey pubkey u64
  | TokenClose pubkey pubkey pubkey

definition SolDelta :: u64 where
  "SolDelta = drop_bit 3 1000000000"

definition SetPositionCloser :: "nat \<Rightarrow> single_store \<Rightarrow> single_store" where
  "SetPositionCloser c s = s\<lparr>positionCloser := Some c\<rparr>"

text \<open>Each operation gives the transaction it submits, \<open>None\<close> when it submits none; \<open>helperOK\<close>
  is whether the builder hands out a transaction helper.\<close>

definition SetSOL :: "bool \<Rightarrow> u64 \<Rightarrow> single_store \<Rightarrow> single_store \<Rightarrow> instr list option" where
  "SetSOL helperOK budget par child =
     (let current = sol child; parentSOL = sol par
      in if current \<ge> budget \<or> budget - current \<le> SolDelta then None
         else let topUp = budget - current
              in if parentSOL < topUp then None
                 else if \<not> helperOK then None
                 else Some [TransferSOL (spubkey par) (spubkey child) topUp])"

definition Fund ::
  "(pubkey \<Rightarrow> pubkey \<Rightarrow> pubkey) \<Rightarrow> bool \<Rightarrow> pubkey \<Rightarrow> u64 \<Rightarrow> single_store \<Rightarrow> single_store \<Rightarrow> instr list option" where
  "Fund ata helperOK mint amount par child =
     (case tokenAccountFor par mint of
        None \<Rightarrow> None
      | Some from \<Rightarrow>
          if \<not> helperOK then None
          else (case tokenAccountFor child mint of
                  Some to \<Rightarrow> Some [TransferToken (spubkey par) from to amount]
                | None \<Rightarrow> Some [ATACreate (spubkey child) mint,
                                TransferToken (spubkey par) from (ata (spubkey child) mint) amount]))"

definition Sweep ::
  "(pubkey \<Rightarrow> pubkey \<Rightarrow> pubkey) \<Rightarrow> bool \<Rightarrow> pubkey \<Rightarrow> u64 \<Rightarrow> single_store \<Rightarrow> single_store \<Rightarrow> instr list option" where
  "Sweep ata helperOK mint minAmount par child =
     (let balance = map_get 0 (map_of (mToken child)) mint
      in case tokenAccountFor child mint of
           None \<Rightarrow> None
         | Some from \<Rightarrow>
             if balance \<le> minAmount then None
             else if \<not> helperOK then None
             else (case tokenAccountFor par mint of
                     Some to \<Rightarrow> Some [TransferToken (spubkey child) from to (balance - minAmount)]
                   | None \<Rightarrow> Some [ATACreate (spubkey par) mint,
                                   TransferToken (spubkey child) from (ata (spubkey par) mint) (balance - minAmount)]))"

text \<open>\<open>mMint[mint] = mintInfo{account, amount}\<close> over all accounts: the last account of a mint wins.\<close>

definition mint_infos :: "(pubkey \<times> token_map) list \<Rightarrow> (pubkey \<times> pubkey \<times> u64) list" where
  "mint_infos byAccount =
     fold (\<lambda>(account, byMint) m. fold (\<lambda>(mint, amount). AList.update mint (account, amount)) byMint m) byAccount []"

definition account_by_mint :: "(pubkey \<times> token_map) list \<Rightarrow> pubkey \<rightharpoonup> pubkey" where
  "account_by_mint byAccount =
     fold (\<lambda>(account, byMint) m. fold (\<lambda>(mint, _) m. m(mint \<mapsto> account)) byMint m) byAccount Map.empty"

text \<open>The loop over the mints: it stops when the transaction has outgrown its maximum size.\<close>

definition close_mint ::
  "(pubkey \<Rightarrow> pubkey \<Rightarrow> pubkey) \<Rightarrow> pubkey \<Rightarrow> pubkey \<Rightarrow> pubkey \<times> pubkey \<times> u64 \<Rightarrow>
   (pubkey \<rightharpoonup> pubkey) \<Rightarrow> instr list \<Rightarrow> (pubkey \<rightharpoonup> pubkey) \<times> instr list" where
  "close_mint ata cpk ppk info dest tx =
     (let (mint, account, amount) = info;
          (to, tx) = (case dest mint of Some a \<Rightarrow> (a, tx) | None \<Rightarrow> (ata ppk mint, tx @ [ATACreate ppk mint]));
          tx = tx @ (if amount > 0 then [TransferToken cpk account to amount] else [])
      in (dest(mint \<mapsto> to), tx @ [TokenClose cpk account ppk]))"

fun close_mints ::
  "(pubkey \<Rightarrow> pubkey \<Rightarrow> pubkey) \<Rightarrow> (instr list \<Rightarrow> nat) \<Rightarrow> nat \<Rightarrow> pubkey \<Rightarrow> pubkey \<Rightarrow>
   (pubkey \<times> pubkey \<times> u64) list \<Rightarrow> (pubkey \<rightharpoonup> pubkey) \<Rightarrow> instr list \<Rightarrow> instr list" where
  "close_mints ata sizeOf txMax cpk ppk [] dest tx = tx"
| "close_mints ata sizeOf txMax cpk ppk (info # ms) dest tx =
     (if txMax < sizeOf tx then tx
      else let (dest, tx) = close_mint ata cpk ppk info dest tx
           in close_mints ata sizeOf txMax cpk ppk ms dest tx)"

datatype close_error = CloserFailed | HelperFailed

text \<open>\<open>closerFails c\<close>: closer \<open>c\<close> returns an error. \<open>reorder\<close> is the order in which the map of mints is
  iterated. The result is the transaction submitted, if any.\<close>

definition Close ::
  "(nat \<Rightarrow> bool) \<Rightarrow> (pubkey \<Rightarrow> pubkey \<Rightarrow> pubkey) \<Rightarrow> (instr list \<Rightarrow> nat) \<Rightarrow> nat \<Rightarrow> bool \<Rightarrow>
   ((pubkey \<times> pubkey \<times> u64) list \<Rightarrow> (pubkey \<times> pubkey \<times> u64) list) \<Rightarrow>
   single_store \<Rightarrow> single_store \<Rightarrow> close_error + instr list option" where
  "Close closerFails ata sizeOf txMax helperOK reorder par child =
     (if (case positionCloser child of None \<Rightarrow> False | Some c \<Rightarrow> closerFails c) then Inl CloserFailed
      else
        let mMint = mint_infos (mTokenByAccount child)
        in if mMint = [] \<and> sol child = 0 then Inr None
           else if \<not> helperOK then Inl HelperFailed
           else
             let tx = close_mints ata sizeOf txMax (spubkey child) (spubkey par) (reorder mMint)
                        (account_by_mint (mTokenByAccount par)) []
             in Inr (Some (tx @ (if sol child > 0 then [TransferSOL (spubkey child) (spubkey par) (sol child)] else []))))"

section \<open>Balances are the sums over the accounts\<close>

definition amount_at :: "single_store \<Rightarrow> pubkey \<Rightarrow> pubkey \<Rightarrow> u64" where
  "amount_at s account mint = map_get 0 (map_of (map_get [] (map_of (mTokenByAccount s)) account)) mint"

definition wf_store :: "single_store \<Rightarrow> bool" where
  "wf_store s \<longleftrightarrow>
     distinct (map fst (mTokenByAccount s)) \<and>
     (\<forall>(account, byMint) \<in> set (mTokenByAccount s). distinct (map fst byMint)) \<and>
     mToken s = token_totals (mTokenByAccount s)"

lemma wf_createSingleStore [simp]: "wf_store (createSingleStore i pk)"
  by (simp add: wf_store_def createSingleStore_def token_totals_def)

lemma add_amount_get:
  "map_get 0 (map_of (add_amount ma m)) mint =
   map_get 0 (map_of m) mint + (if fst ma = mint then snd ma else 0)"
  by (simp add: add_amount_def update_conv' map_get_def)

lemma fold_add_amount_get:
  "map_get 0 (map_of (fold add_amount mas m)) mint =
   map_get 0 (map_of m) mint + (\<Sum>ma \<leftarrow> mas. if fst ma = mint then snd ma else 0)"
  by (induction mas arbitrary: m) (simp_all add: add_amount_get add.assoc)

lemma sum_list_alist:
  "distinct (map fst m) \<Longrightarrow> (\<Sum>ma \<leftarrow> m. if fst ma = k then snd ma else (0 :: u64)) = map_get 0 (map_of m) k"
proof (induction m)
  case Nil
  then show ?case by simp
next
  case (Cons ma m)
  have "(\<Sum>ma \<leftarrow> m. if fst ma = k then snd ma else (0 :: u64)) = 0" if "k \<notin> fst ` set m"
    using that by (induction m) auto
  with Cons show ?case by (cases ma) (auto simp: map_get_def)
qed

lemma token_totals_get:
  assumes "\<forall>(account, byMint) \<in> set byAccount. distinct (map fst byMint)"
  shows "map_get 0 (map_of (token_totals byAccount)) mint = (\<Sum>(account, byMint) \<leftarrow> byAccount. map_get 0 (map_of byMint) mint)"
proof -
  have "(\<Sum>ma \<leftarrow> concat (map snd byAccount). if fst ma = mint then snd ma else (0 :: u64)) =
    (\<Sum>(account, byMint) \<leftarrow> byAccount. map_get 0 (map_of byMint) mint)"
    using assms by (induction byAccount) (auto simp: sum_list_alist)
  then show ?thesis by (simp add: token_totals_def fold_add_amount_get)
qed

lemma wf_store_sum:
  assumes "wf_store s"
  shows "map_get 0 (TokenBalance s) mint = (\<Sum>account \<in> fst ` set (mTokenByAccount s). amount_at s account mint)"
proof -
  define l where "l = mTokenByAccount s"
  have d: "distinct (map fst l)" and t: "\<forall>(account, byMint) \<in> set l. distinct (map fst byMint)"
    using assms by (auto simp: wf_store_def l_def)
  have "(\<Sum>(account, byMint) \<leftarrow> l. map_get 0 (map_of byMint) mint) =
    (\<Sum>p \<in> set l. map_get 0 (map_of (snd p)) mint)"
    using d by (simp add: case_prod_beta sum_list_distinct_conv_sum_set distinct_map)
  also have "\<dots> = (\<Sum>account \<in> fst ` set l. map_get 0 (map_of (map_get [] (map_of l) account)) mint)"
    using d by (subst sum.reindex) (auto simp: distinct_map intro!: sum.cong)
  finally show ?thesis
    using assms token_totals_get [OF t, of mint] by (simp add: TokenBalance_def wf_store_def l_def amount_at_def)
qed

lemma wf_record_amount:
  assumes "wf_store s"
  shows "wf_store (recomputeTokenTotals (record_amount account mint amount s))"
proof -
  have "distinct (map fst (map_get [] (map_of (mTokenByAccount s)) account))"
    using assms by (cases "map_of (mTokenByAccount s) account") (auto simp: wf_store_def dest!: map_of_SomeD)
  then have new: "distinct (map fst (AList.update mint amount (map_get [] (map_of (mTokenByAccount s)) account)))"
    by (rule distinct_update)
  have "distinct (map fst byMint)"
    if "(a, byMint) \<in> set (AList.update account (AList.update mint amount
         (map_get [] (map_of (mTokenByAccount s)) account)) (mTokenByAccount s))" for a byMint
    using subsetD [OF set_alist_update that] new assms by (auto simp: wf_store_def)
  with assms show ?thesis
    by (auto simp: wf_store_def recomputeTokenTotals_def record_amount_def distinct_update)
qed

lemma wf_delete_account:
  assumes "wf_store s"
  shows "wf_store (recomputeTokenTotals (s\<lparr>mTokenByAccount := AList.delete pk (mTokenByAccount s)\<rparr>))"
  using assms set_alist_delete [of pk "mTokenByAccount s"]
  by (auto simp: wf_store_def recomputeTokenTotals_def distinct_delete)

lemma wf_sol [simp]: "wf_store (s\<lparr>sol := x\<rparr>) = wf_store s"
  by (simp add: wf_store_def)

lemma wf_positionCloser [simp]: "wf_store (s\<lparr>positionCloser := c\<rparr>) = wf_store s"
  by (simp add: wf_store_def)

section \<open>The invariant of the treasury\<close>

definition treasury_inv :: "('sk \<Rightarrow> pubkey \<Rightarrow> 'sk) \<Rightarrow> ('sk \<Rightarrow> pubkey) \<Rightarrow> ('t, 'sk) treasury \<Rightarrow> bool" where
  "treasury_inv derive pub te \<longleftrightarrow>
     wf_store (parent te) \<and> spubkey (parent te) = pub (parentKey te) \<and>
     (\<forall>i s. mChild te i = Some s \<longrightarrow> wf_store s \<and> sid s = i \<and> spubkey s = pub (derive (parentKey te) i))"

lemma map_store_inv:
  assumes "treasury_inv derive pub te"
    and "\<And>s. wf_store s \<Longrightarrow> wf_store (f s) \<and> sid (f s) = sid s \<and> spubkey (f s) = spubkey s"
  shows "treasury_inv derive pub (map_store r f te)"
  using assms by (cases r) (auto simp: treasury_inv_def map_store_def)

lemma treasury_inv_wallets [simp]:
  "treasury_inv derive pub (te\<lparr>mAccountWallet := m\<rparr>) = treasury_inv derive pub te"
  by (simp add: treasury_inv_def)

lemma OnSol_inv: "treasury_inv derive pub te \<Longrightarrow> treasury_inv derive pub (OnSol pk lamports te)"
  by (simp add: OnSol_def Let_def map_store_inv)

lemma recomputeTokenTotals_frame [simp]:
  "sid (recomputeTokenTotals s) = sid s" "spubkey (recomputeTokenTotals s) = spubkey s"
  "sol (recomputeTokenTotals s) = sol s" "mTokenByAccount (recomputeTokenTotals s) = mTokenByAccount s"
  by (simp_all add: recomputeTokenTotals_def)

lemma record_amount_frame [simp]:
  "sid (record_amount a m x s) = sid s" "spubkey (record_amount a m x s) = spubkey s"
  "sol (record_amount a m x s) = sol s"
  by (simp_all add: record_amount_def)

lemma OnDelete_inv: "treasury_inv derive pub te \<Longrightarrow> treasury_inv derive pub (OnDelete pk te)"
  by (simp add: OnDelete_def Let_def map_store_inv wf_delete_account split: option.split)

lemma OnToken_inv: "treasury_inv derive pub te \<Longrightarrow> treasury_inv derive pub (OnToken a owner mint amount te)"
  by (simp add: OnToken_def map_store_inv wf_record_amount split: option.split)

lemma getOrCreateChild_inv:
  assumes "treasury_inv derive pub te" and "getOrCreateChild derive pub flags subscribe i te = Some te'"
  shows "treasury_inv derive pub te'"
proof (cases "mChild te i")
  case None
  with assms(2) obtain g where "te' = te\<lparr>builderKeys := builderKeys te @ [derive (parentKey te) i],
      mChild := (mChild te)(i \<mapsto> createSingleStore i (pub (derive (parentKey te) i))),
      te_g := g,
      mAccountWallet := (mAccountWallet te)(pub (derive (parentKey te) i) \<mapsto> i)\<rparr>"
    by (auto simp: getOrCreateChild_def Let_def createSingleStore_def split: option.splits)
  moreover have "sid (createSingleStore i pk) = i" "spubkey (createSingleStore i pk) = pk" for pk
    by (simp_all add: createSingleStore_def)
  ultimately show ?thesis using assms(1) by (simp add: treasury_inv_def)
next
  case (Some s)
  with assms show ?thesis by (simp add: getOrCreateChild_def)
qed

text \<open>The steps the treasury takes: chain events between commits, and calls of its clients.\<close>

inductive treasury_step ::
  "('sk \<Rightarrow> pubkey \<Rightarrow> 'sk) \<Rightarrow> ('sk \<Rightarrow> pubkey) \<Rightarrow> u32 \<Rightarrow> (pending_subscription \<Rightarrow> 't \<Rightarrow> 't) \<Rightarrow> ((nat \<Rightarrow> bool) \<Rightarrow> u64 \<Rightarrow> 't \<Rightarrow> bool \<times> 't) \<Rightarrow> 't \<Rightarrow>
   ('t, 'sk) treasury \<Rightarrow> ('t, 'sk) treasury \<Rightarrow> bool"
  for derive pub flags subscribe check newTracker where
  step_init: "Init pub flags newTracker subscribe te = Some te' \<Longrightarrow>
    treasury_step derive pub flags subscribe check newTracker te te'"
| step_start: "CommitStart slot te = Some te' \<Longrightarrow> treasury_step derive pub flags subscribe check newTracker te te'"
| step_sol: "locked te \<Longrightarrow> treasury_step derive pub flags subscribe check newTracker te (OnSol pk lamports te)"
| step_token: "locked te \<Longrightarrow>
    treasury_step derive pub flags subscribe check newTracker te (OnToken account owner mint amount te)"
| step_delete: "locked te \<Longrightarrow> treasury_step derive pub flags subscribe check newTracker te (OnDelete pk te)"
| step_finish: "locked te \<Longrightarrow>
    treasury_step derive pub flags subscribe check newTracker te (snd (CommitFinish (check ready) te))"
| step_child: "\<not> locked te \<Longrightarrow> getOrCreateChild derive pub flags subscribe i te = Some te' \<Longrightarrow>
    treasury_step derive pub flags subscribe check newTracker te te'"
| step_closer: "\<not> locked te \<Longrightarrow>
    treasury_step derive pub flags subscribe check newTracker te (map_store (ChildRef i) (SetPositionCloser c) te)"

inductive_simps treasury_step_from: "treasury_step derive pub flags subscribe check newTracker te te'"

lemma treasury_step_inv:
  assumes "treasury_step derive pub flags subscribe check newTracker te te'" and "treasury_inv derive pub te"
  shows "treasury_inv derive pub te'"
  using assms
proof (induction rule: treasury_step.induct)
  case (step_init te te')
  then show ?case by (auto simp: Init_def treasury_inv_def split: if_splits)
next
  case (step_start slot te te')
  then show ?case by (auto simp: CommitStart_def treasury_inv_def split: if_splits)
next
  case (step_finish te ready)
  then show ?case by (auto simp: CommitFinish_def Let_def treasury_inv_def split: option.split)
next
  case (step_closer te i c)
  then show ?case by (simp add: map_store_inv SetPositionCloser_def)
qed (auto intro: OnSol_inv OnToken_inv OnDelete_inv getOrCreateChild_inv)

inductive treasury_reachable ::
  "('sk \<Rightarrow> pubkey \<Rightarrow> 'sk) \<Rightarrow> ('sk \<Rightarrow> pubkey) \<Rightarrow> u32 \<Rightarrow> (pending_subscription \<Rightarrow> 't \<Rightarrow> 't) \<Rightarrow> ((nat \<Rightarrow> bool) \<Rightarrow> u64 \<Rightarrow> 't \<Rightarrow> bool \<times> 't) \<Rightarrow> 't \<Rightarrow>
   ('t, 'sk) treasury \<Rightarrow> bool"
  for derive pub flags subscribe check newTracker where
  treasury_start: "treasury_reachable derive pub flags subscribe check newTracker (createStore pub sysID key)"
| treasury_next: "treasury_reachable derive pub flags subscribe check newTracker te \<Longrightarrow>
    treasury_step derive pub flags subscribe check newTracker te te' \<Longrightarrow>
    treasury_reachable derive pub flags subscribe check newTracker te'"

lemma treasury_reachable_inv:
  "treasury_reachable derive pub flags subscribe check newTracker te \<Longrightarrow> treasury_inv derive pub te"
proof (induction rule: treasury_reachable.induct)
  case (treasury_start sysID key)
  show ?case by (simp add: createStore_def treasury_inv_def) (simp add: createSingleStore_def)
next
  case (treasury_next te te')
  then show ?case by (blast intro: treasury_step_inv)
qed

section \<open>The treasury as a client of the subscription tracker\<close>

text \<open>Once the hook is initialised, the tracker knows every wallet; before that there are no children.\<close>

definition wallets_known :: "('t \<Rightarrow> bool) \<Rightarrow> ('t \<Rightarrow> pubkey set) \<Rightarrow> ('t, 'sk) treasury \<Rightarrow> bool" where
  "wallets_known tinv known te \<longleftrightarrow>
     (case te_g te of
        None \<Rightarrow> mChild te = Map.empty
      | Some g \<Rightarrow> tinv g \<and> readyClosed te \<and> spubkey (parent te) \<in> known g \<and>
          (\<forall>i s. mChild te i = Some s \<longrightarrow> spubkey s \<in> known g))"

lemma wallets_known_map_store:
  assumes "wallets_known tinv known te" and "\<And>s. spubkey (f s) = spubkey s"
  shows "wallets_known tinv known (map_store r f te)"
  using assms by (cases r) (auto simp: wallets_known_def map_store_def split: option.splits)

lemma wallets_known_wallets [simp]:
  "wallets_known tinv known (te\<lparr>mAccountWallet := m\<rparr>) = wallets_known tinv known te"
  by (simp add: wallets_known_def split: option.split)

context subscription_tracker
begin

lemma init_known:
  assumes "spubkey (parent te) = pub (parentKey te)" "te_g te = None \<Longrightarrow> mChild te = Map.empty"
    and "wallets_known inv known te" and "inv newTracker"
    and "Init pub flags newTracker subscribe te = Some te'"
  shows "wallets_known inv known te'"
  using assms by (auto simp: wallets_known_def Init_def subscribe_inv known_subscribe split: option.splits if_splits)

lemma child_known:
  assumes "wallets_known inv known te" and "getOrCreateChild derive pub flags subscribe i te = Some te'"
  shows "wallets_known inv known te'"
  using assms
  by (auto simp: wallets_known_def getOrCreateChild_def Let_def subscribe_inv known_subscribe split: option.splits if_splits)

lemma finish_known:
  "wallets_known inv known te \<Longrightarrow> wallets_known inv known (snd (CommitFinish (check ready) te))"
  by (auto simp: wallets_known_def CommitFinish_def Let_def check_inv known_check split: option.splits)

lemma treasury_wallets_known:
  assumes "inv newTracker" and "treasury_reachable derive pub flags subscribe check newTracker te"
  shows "wallets_known inv known te"
  using assms(2)
proof (induction rule: treasury_reachable.induct)
  case (treasury_start sysID key)
  show ?case by (simp add: wallets_known_def createStore_def)
next
  case (treasury_next te te')
  have i: "treasury_inv derive pub te" by (rule treasury_reachable_inv [OF treasury_next.hyps(1)])
  from treasury_next.hyps(2) treasury_next.IH i show ?case
  proof (induction rule: treasury_step.induct)
    case (step_init te te')
    then show ?case
      using init_known [OF _ _ _ assms(1), of te pub flags te']
      by (auto simp: treasury_inv_def wallets_known_def split: option.splits)
  next
    case (step_start slot te te')
    then show ?case by (auto simp: CommitStart_def wallets_known_def split: if_splits option.splits)
  next
    case (step_sol te pk lamports)
    then show ?case by (simp add: OnSol_def Let_def wallets_known_map_store)
  next
    case (step_token te account owner mint amount)
    then show ?case by (simp add: OnToken_def wallets_known_map_store split: option.split)
  next
    case (step_delete te pk)
    then show ?case by (simp add: OnDelete_def Let_def wallets_known_map_store split: option.split)
  next
    case (step_finish te ready)
    then show ?case by (simp add: finish_known)
  next
    case (step_child te i te')
    then show ?case by (blast intro: child_known)
  next
    case (step_closer te i c)
    then show ?case by (simp add: wallets_known_map_store SetPositionCloser_def)
  qed
qed

end

context tracker_lists
begin

lemma tracked_wallets_known:
  assumes "tracker_inv esub eack p"
    and "treasury_reachable derive pub flags (Subscribe LS) (Check LS LA) p te"
  shows "wallets_known (tracker_inv esub eack) mDedup te"
  using assms by (rule treasury_wallets_known)

end

text \<open>The tracker the treasury starts with, on lists of the utility module.\<close>

abbreviation treasury_runs ::
  "(pending_subscription, 'qs) glist \<Rightarrow> (ack_receive, 'qa) glist \<Rightarrow> 'qs \<Rightarrow> 'qa \<Rightarrow>
   ('sk \<Rightarrow> pubkey \<Rightarrow> 'sk) \<Rightarrow> ('sk \<Rightarrow> pubkey) \<Rightarrow> u32 \<Rightarrow> (('qs, 'qa) pss, 'sk) treasury \<Rightarrow> bool" where
  "treasury_runs LS LA emptySub emptyAck derive pub flags \<equiv>
     treasury_reachable derive pub flags (Subscribe LS) (Check LS LA)
       (CreatePendingSubscriptionList emptySub emptyAck 10 10)"

section \<open>Properties of the treasury\<close>


abbreviation te0 :: "((pending_subscription list, ack_receive list) pss, nat) treasury" where
  "te0 \<equiv> createStore (\<lambda>k. [of_nat k]) zero_key 1"


text \<open>A token account that appears and is deleted again leaves no trace: the state is exactly the
  one before.\<close>

theorem OnToken_OnDelete:
  assumes "storeByOwner te owner = Some r" and "get_store te r = Some s" and "wf_store s"
    and "storeByID te (sid s) = Some r" and "mAccountWallet te account = None"
    and "account \<notin> fst ` set (mTokenByAccount s)" and "account \<noteq> spubkey s"
  shows "OnDelete account (OnToken account owner mint amount te) = te"
proof -
  let ?f = "\<lambda>s. recomputeTokenTotals (record_amount account mint amount s)"
  let ?te = "map_store r ?f (te\<lparr>mAccountWallet := (mAccountWallet te)(account \<mapsto> sid s)\<rparr>)"
  have on: "OnToken account owner mint amount te = ?te" using assms(1,2) by (simp add: OnToken_def)
  have w: "mAccountWallet ?te account = Some (sid s)" by (cases r) (simp_all add: map_store_def)
  have byid: "storeByID (map_store r ?f te) (sid s) = Some r"
    using assms(2,4) by (cases r) (auto simp: storeByID_def map_store_def get_store_def split: if_splits)
  have undo: "recomputeTokenTotals ((?f s)\<lparr>mTokenByAccount := AList.delete account (mTokenByAccount (?f s))\<rparr>) = s"
    using assms(3,6) by (simp add: wf_store_def record_amount_def recomputeTokenTotals_def alist_delete_update_new)
  have m: "(mAccountWallet te)(account := None) = mAccountWallet te" using assms(5) by auto
  show ?thesis
  proof (cases r)
    case ParentRef
    then have "s = parent te" using assms(2) by (simp add: get_store_def)
    then show ?thesis
      unfolding on OnDelete_def w using byid assms(7) undo m ParentRef by (simp add: Let_def map_store_def)
  next
    case (ChildRef i)
    then have "mChild te i = Some s" using assms(2) by (simp add: get_store_def)
    then have "(mChild te)(i \<mapsto> s) = mChild te" by auto
    with \<open>mChild te i = Some s\<close> show ?thesis
      unfolding on OnDelete_def w using byid assms(7) undo m ChildRef by (simp add: Let_def map_store_def)
  qed
qed

theorem OnToken_OnDelete_witness: "OnDelete [7] (OnToken [7] [1] [9] 50 te0) = te0"
  by (rule OnToken_OnDelete [where r = ParentRef and s = "parent te0"])
    (simp_all add: createStore_def createSingleStore_def storeByOwner_def storeByID_def get_store_def
      wf_store_def token_totals_def)

text \<open>Every wallet the treasury has handed out is known to its subscription tracker, so that the
  next checks request its accounts from the graph: no wallet is tracked without being subscribed.\<close>

theorem treasury_subscribed:
  assumes "tracker_lists LS esub LA eack" and "esub emptySub = []" and "eack emptyAck = []"
    and "treasury_runs LS LA emptySub emptyAck derive pub flags te"
    and "te_g te = Some g" and "get_store te r = Some s"
  shows "spubkey s \<in> mDedup g"
proof -
  have "tracker_inv esub eack (CreatePendingSubscriptionList emptySub emptyAck 10 10)"
    by (rule tracker_lists.Create_inv [OF assms(1-3)])
  then have "wallets_known (tracker_inv esub eack) mDedup te"
    using assms(4) by (rule tracker_lists.tracked_wallets_known [OF assms(1)])
  with assms(5,6) show ?thesis by (cases r) (auto simp: wallets_known_def get_store_def)
qed

theorem treasury_subscribed_witness:
  "[1] \<in> mDedup (the (te_g (the (Init (\<lambda>k. [of_nat k]) 3 (CreatePendingSubscriptionList [] [] 10 10)
                                  (Subscribe hol_list) te0))))"
proof -
  let ?p = "\<lambda>k :: nat. [of_nat k :: byte]" and ?d = "\<lambda>(k :: nat) (i :: pubkey). k + 1"
  let ?g = "Subscribe hol_list \<lparr>root = [1], weight = 3, depth = 2\<rparr> (CreatePendingSubscriptionList [] [] 10 10)"
  let ?te = "te0\<lparr>te_g := Some ?g, readyClosed := True\<rparr>"
  have i: "Init ?p 3 (CreatePendingSubscriptionList [] [] 10 10) (Subscribe hol_list) te0 = Some ?te"
    by (simp add: Init_def createStore_def)
  then have "treasury_runs hol_list hol_list [] [] ?d ?p 3 ?te"
    by (rule treasury_next [OF treasury_start step_init])
  from treasury_subscribed [OF pssl.tracker_lists_axioms _ _ this, of ?g ParentRef "parent te0"]
  show ?thesis unfolding i by (simp add: get_store_def createStore_def createSingleStore_def)
qed

text \<open>\<open>SetSOL\<close> sends a transfer exactly when the child is more than \<open>SolDelta\<close> below its budget and
  the parent can cover the gap; the transfer then brings the child to its budget exactly and
  never asks for more than the parent holds.\<close>

theorem SetSOL_reaches_budget:
  "SetSOL True budget par child = Some tx \<longleftrightarrow>
     (\<exists>topUp. tx = [TransferSOL (spubkey par) (spubkey child) topUp] \<and>
        unat (sol child) + unat topUp = unat budget \<and> SolDelta < topUp \<and> topUp \<le> sol par)"
proof -
  have sub: "unat (sol child) + unat t = unat budget \<longleftrightarrow> sol child \<le> budget \<and> t = budget - sol child" for t
  proof
    assume a: "unat (sol child) + unat t = unat budget"
    then have le: "sol child \<le> budget" by (simp add: word_le_nat_alt)
    have "unat (budget - sol child) = unat t" using a le by (simp add: unat_sub)
    then show "sol child \<le> budget \<and> t = budget - sol child" using le by (simp add: word_unat_eq_iff)
  next
    assume "sol child \<le> budget \<and> t = budget - sol child"
    then show "unat (sol child) + unat t = unat budget" by (simp add: unat_sub word_le_nat_alt)
  qed
  have "SolDelta \<noteq> 0" by (simp add: SolDelta_def)
  show ?thesis
    unfolding SetSOL_def Let_def sub by (auto simp: not_le not_less intro: less_imp_le)
qed

section \<open>Closing a child wallet\<close>

text \<open>What a transaction does to the amounts on token accounts: a transfer needs its amount on the
  source, \<open>CloseAccount\<close> needs a zero balance, a failing instruction fails the transaction.\<close>

definition move_tokens :: "pubkey \<Rightarrow> pubkey \<Rightarrow> nat \<Rightarrow> (pubkey \<Rightarrow> nat) \<Rightarrow> pubkey \<Rightarrow> nat" where
  "move_tokens from to n b = (let b = b(from := b from - n) in b(to := b to + n))"

fun exec_tokens :: "instr list \<Rightarrow> (pubkey \<Rightarrow> nat) \<Rightarrow> (pubkey \<Rightarrow> nat) option" where
  "exec_tokens [] b = Some b"
| "exec_tokens (TransferToken w from to x # is) b =
     (if unat x \<le> b from then exec_tokens is (move_tokens from to (unat x) b) else None)"
| "exec_tokens (TokenClose w a to # is) b = (if b a = 0 then exec_tokens is b else None)"
| "exec_tokens (TransferSOL w to x # is) b = exec_tokens is b"
| "exec_tokens (ATACreate w m # is) b = exec_tokens is b"









abbreviation close_child :: single_store where
  "close_child \<equiv> \<lparr>sid = [2], spubkey = [3], sol = 9, mTokenByAccount = [([7], [([8], 5)])], mToken = [([8], 5)],
     positionCloser = None\<rparr>"


text \<open>A second account of the same mint is left behind, although everything fits: \<open>mMint\<close> has one
  entry per mint.\<close>

lemma Close_leaves_second_account:
  "\<exists>tx. Close (\<lambda>_. False) (\<lambda>w m. [20]) length 100 True id (createSingleStore zero_key [1])
     (close_child\<lparr>mTokenByAccount := [([7], [([8], 5)]), ([6], [([8], 4)])]\<rparr>) = Inr (Some tx) \<and>
     TokenClose [3] [6] [1] \<in> set tx \<and> TokenClose [3] [7] [1] \<notin> set tx"
  by (simp add: Close_def mint_infos_def account_by_mint_def close_mint_def createSingleStore_def)

section \<open>Sweeping one mint\<close>

lemma tokenAccountFor_amount:
  assumes "tokenAccountFor s mint = Some a"
  shows "a \<in> fst ` set (mTokenByAccount s)"
proof -
  obtain e where e: "find (\<lambda>(account, byMint). map_of byMint mint \<noteq> None) (mTokenByAccount s) = Some e" "fst e = a"
    using assms by (auto simp: tokenAccountFor_def)
  then have "e \<in> set (mTokenByAccount s)" by (metis find_Some_iff nth_mem)
  with e(2) show ?thesis by blast
qed

text \<open>When one token account of the child holds all of a mint, \<open>Sweep\<close> moves everything above
  \<open>minAmount\<close> out of that account, so that exactly \<open>minAmount\<close> stays; at or below \<open>minAmount\<close> it submits
  nothing.\<close>

theorem Sweep_leaves_min:
  assumes "wf_store child" and "tokenAccountFor child mint = Some from"
    and "\<forall>a. a \<noteq> from \<longrightarrow> amount_at child a mint = 0"
  shows "Sweep ata True mint minAmount par child =
    (if amount_at child from mint \<le> minAmount then None
     else let x = amount_at child from mint - minAmount
          in Some (case tokenAccountFor par mint of
               Some to \<Rightarrow> [TransferToken (spubkey child) from to x]
             | None \<Rightarrow> [ATACreate (spubkey par) mint, TransferToken (spubkey child) from (ata (spubkey par) mint) x]))"
proof -
  have "map_get 0 (TokenBalance child) mint = amount_at child from mint"
    unfolding wf_store_sum [OF assms(1)]
    using assms(3) tokenAccountFor_amount [OF assms(2)]
    by (subst sum.remove [of _ "from"]) (auto intro!: sum.neutral)
  then show ?thesis
    using assms(2) by (auto simp: Sweep_def TokenBalance_def Let_def split: option.split)
qed

theorem Sweep_leaves_min_witness:
  "Sweep (\<lambda>w m. [20]) True [8] 2 (createSingleStore zero_key [1]) close_child =
     Some [ATACreate [1] [8], TransferToken [3] [7] [20] 3]"
  using Sweep_leaves_min [of close_child "[8]" "[7]" "\<lambda>w m. [20]" 2 "createSingleStore zero_key [1]"]
  by (simp add: wf_store_def token_totals_def add_amount_def tokenAccountFor_def amount_at_def createSingleStore_def
      map_get_def)

text \<open>With the mint spread over two accounts, the transfer asks one of them for more than it holds.\<close>

lemma Sweep_overdraws:
  "\<exists>child tx. wf_store child \<and> Sweep (\<lambda>w m. [20]) True [8] 0 (createSingleStore zero_key [1]) child = Some tx \<and>
     exec_tokens tx (\<lambda>a. unat (amount_at child a [8])) = None"
  by (rule exI [of _ "close_child\<lparr>mTokenByAccount := [([7], [([8], 5)]), ([6], [([8], 4)])], mToken := [([8], 9)]\<rparr>"])
    (simp add: wf_store_def token_totals_def add_amount_def tokenAccountFor_def amount_at_def createSingleStore_def
      map_get_def Sweep_def)

section \<open>A deleted wallet\<close>

text \<open>After the wallet account of a child has been deleted (a wallet drained to zero), the
  treasury is deaf for it: later SOL balances of that wallet are ignored, and asking for the child
  again does not register it again.\<close>

theorem deleted_wallet_ignored:
  assumes "mChild te i = Some s" and "mAccountWallet te (spubkey s) = Some i"
    and "sid (parent te) \<noteq> i" and "spubkey (parent te) \<noteq> spubkey s" and "mChild te zero_key = None"
  defines "te' \<equiv> OnDelete (spubkey s) te"
  shows "OnSol (spubkey s) lamports te' = te' \<and> mChild te' i = Some (s\<lparr>sol := 0\<rparr>) \<and>
    getOrCreateChild derive pub flags subscribe i te' = Some te'"
proof -
  have te': "te' = te\<lparr>mAccountWallet := (mAccountWallet te)(spubkey s := None), mChild := (mChild te)(i \<mapsto> s\<lparr>sol := 0\<rparr>)\<rparr>"
    using assms(1-3) by (simp add: te'_def OnDelete_def Let_def storeByID_def map_store_def)
  have "i \<noteq> zero_key" using assms(1,5) by auto
  then have "(mChild te')(zero_key := map_option f (mChild te' zero_key)) = mChild te'" for f
    using assms(5) by (auto simp: te')
  then have "OnSol (spubkey s) lamports te' = te'"
    using assms(4) by (simp add: OnSol_def te' map_store_def map_get_def)
  then show ?thesis by (simp add: te' getOrCreateChild_def)
qed

abbreviation te_child :: "((pending_subscription list, ack_receive list) pss, nat) treasury" where
  "te_child \<equiv> te0\<lparr>mChild := [[2] \<mapsto> close_child], mAccountWallet := [[3] \<mapsto> [2]]\<rparr>"

theorem deleted_wallet_ignored_witness:
  "OnSol [3] 100 (OnDelete [3] te_child) = OnDelete [3] te_child"
proof -
  have "zero_key \<noteq> [2]" using length_zero_key by (metis One_nat_def length_Cons list.size(3) numeral_eq_one_iff semiring_norm(85))
  then show ?thesis
    using deleted_wallet_ignored [of te_child "[2]" close_child 100 "\<lambda>k i. k" "\<lambda>k. []" 0 "\<lambda>r t. t"]
    by (simp add: createStore_def createSingleStore_def)
qed

text \<open>\<open>CommitFinish\<close> releases the lock that \<open>CommitStart\<close> took, and never ends the stream.\<close>

lemma commit_unlocks:
  assumes "CommitStart slot te = Some te'"
  shows "fst (CommitFinish check te') = False" and "\<not> locked (snd (CommitFinish check te'))"
  using assms by (auto simp: CommitFinish_def Let_def)

end
