(* ===== verification/Snapshots.thy ===== *)
theory Snapshots
  imports Prelude "HOL-Library.Product_Lexorder"
begin

text \<open>
  Snapshot tables: the append-only SQL tables behind \<open>src/prefetch/obligation/store.go\<close> and
  \<open>src/prefetch/pnl/store.go\<close>. A table is the list of its rows in insertion order. The contract the
  two \<open>RecordIfChanged\<close> functions share (insert only when the amount differs from the latest row of
  the key) is the locale \<open>snapshot_store\<close>; what follows from it about a whole history of calls is
  proved there once, and each store interprets it.
\<close>

section \<open>Queries\<close>

text \<open>\<open>ORDER BY f LIMIT 1\<close>: ties go to the row that is scanned first.\<close>

definition limit1 :: "('r \<Rightarrow> 'o :: linorder) \<Rightarrow> 'r list \<Rightarrow> 'r option" where
  "limit1 f rows = (case sort_key f rows of [] \<Rightarrow> None | r # _ \<Rightarrow> Some r)"

lemma limit1_None [simp]: "limit1 f rows = None \<longleftrightarrow> rows = []"
proof -
  have "sort_key f rows = [] \<longleftrightarrow> rows = []" by (metis length_0_conv length_sort)
  then show ?thesis by (auto simp: limit1_def split: list.split)
qed

lemma limit1_Some:
  assumes "limit1 f rows = Some r"
  shows "r \<in> set rows" and "\<And>r'. r' \<in> set rows \<Longrightarrow> f r \<le> f r'"
proof -
  obtain rs where s: "sort_key f rows = r # rs" using assms by (auto simp: limit1_def split: list.splits)
  have set: "set rows = set (r # rs)" using set_sort [of f rows] s by simp
  then show "r \<in> set rows" by simp
  have "sorted (map f (r # rs))" using sorted_sort_key [of f rows] s by simp
  then show "f r \<le> f r'" if "r' \<in> set rows" for r' using that set by auto
qed

lemma limit1_eqI:
  assumes "r \<in> set rows" and "\<And>r'. r' \<in> set rows \<Longrightarrow> r' \<noteq> r \<Longrightarrow> f r < f r'"
  shows "limit1 f rows = Some r"
proof (cases "limit1 f rows")
  case None
  with assms(1) show ?thesis by simp
next
  case (Some r')
  with limit1_Some [OF Some] assms show ?thesis by (metis leD)
qed

text \<open>\<open>WHERE key = k ORDER BY time DESC, id DESC LIMIT 1\<close>\<close>

definition latest_row ::
  "('r \<Rightarrow> nat) \<Rightarrow> ('r \<Rightarrow> int) \<Rightarrow> ('r \<Rightarrow> 'k) \<Rightarrow> 'k \<Rightarrow> 'r list \<Rightarrow> 'r option" where
  "latest_row rid rtime rkey k rows =
     limit1 (\<lambda>r. (- rtime r, - int (rid r))) (filter (\<lambda>r. rkey r = k) rows)"

text \<open>The \<open>AUTOINCREMENT\<close> id of the next row: no row of these tables is ever deleted.\<close>

definition next_id :: "'r list \<Rightarrow> nat" where
  "next_id rows = Suc (length rows)"

section \<open>The contract of a snapshot store\<close>

text \<open>\<open>recordIf qf insf s t\<close>: \<open>qf\<close> and \<open>insf\<close> say whether the query and the insert fail.\<close>

locale snapshot_store =
  fixes rid :: "'r \<Rightarrow> nat" and rtime :: "'r \<Rightarrow> int" and rkey :: "'r \<Rightarrow> 'k" and rval :: "'r \<Rightarrow> u64"
    and stime :: "'s \<Rightarrow> int" and skey :: "'s \<Rightarrow> 'k" and sval :: "'s \<Rightarrow> u64"
    and recordIf :: "bool \<Rightarrow> bool \<Rightarrow> 's \<Rightarrow> 'r list \<Rightarrow> ('e + bool) \<times> 'r list"
  assumes record_error: "qf \<or> (insf \<and> map_option rval (latest_row rid rtime rkey (skey s) t) \<noteq> Some (sval s)) \<Longrightarrow>
      isl (fst (recordIf qf insf s t)) \<and> snd (recordIf qf insf s t) = t"
    and record_skip: "map_option rval (latest_row rid rtime rkey (skey s) t) = Some (sval s) \<Longrightarrow>
      recordIf False insf s t = (Inr False, t)"
    and record_insert: "map_option rval (latest_row rid rtime rkey (skey s) t) \<noteq> Some (sval s) \<Longrightarrow>
      \<exists>r. recordIf False False s t = (Inr True, t @ [r]) \<and> rid r = next_id t \<and>
        rtime r = stime s \<and> rkey r = skey s \<and> rval r = sval s"
begin

text \<open>The rows of a key, oldest first, with ids that grow with insertion and times that do not go back.\<close>

definition in_order :: "'r list \<Rightarrow> bool" where
  "in_order t \<longleftrightarrow> (\<forall>i < length t. rid (t ! i) = Suc i) \<and> sorted (map rtime t)"

definition history :: "'k \<Rightarrow> 'r list \<Rightarrow> u64 list" where
  "history k t = map rval (filter (\<lambda>r. rkey r = k) t)"

lemma in_order_snoc:
  assumes "in_order t" and "rid r = next_id t" and "\<forall>r' \<in> set t. rtime r' \<le> rtime r"
  shows "in_order (t @ [r])"
  using assms by (auto simp: in_order_def next_id_def nth_append sorted_append less_Suc_eq)

lemma in_order_latest:
  assumes "in_order t"
  shows "latest_row rid rtime rkey k t =
    (if filter (\<lambda>r. rkey r = k) t = [] then None else Some (last (filter (\<lambda>r. rkey r = k) t)))"
  using assms
proof (induction t rule: rev_induct)
  case Nil
  then show ?case by (simp add: latest_row_def)
next
  case (snoc r t)
  have o: "in_order t"
    using snoc.prems by (auto simp: in_order_def nth_append sorted_append split: if_splits)
  have newid: "rid r = Suc (length t)"
    using snoc.prems by (auto simp: in_order_def dest: spec [of _ "length t"])
  have older: "- rtime r \<le> - rtime r' \<and> - int (rid r) < - int (rid r')" if mem: "r' \<in> set t" for r'
  proof -
    obtain i where "i < length t" "r' = t ! i" using mem by (metis in_set_conv_nth)
    then have "rid r' = Suc i" using o by (simp add: in_order_def)
    moreover have "rtime r' \<le> rtime r" using snoc.prems mem by (auto simp: in_order_def sorted_append)
    ultimately show ?thesis using newid \<open>i < length t\<close> by simp
  qed
  show ?case
  proof (cases "rkey r = k")
    case True
    have "limit1 (\<lambda>r. (- rtime r, - int (rid r))) (filter (\<lambda>r. rkey r = k) (t @ [r])) = Some r"
      by (rule limit1_eqI) (use True older in \<open>fastforce simp: less_prod_def\<close>)+
    with True show ?thesis by (simp add: latest_row_def)
  next
    case False
    with snoc.IH [OF o] show ?thesis by (simp add: latest_row_def)
  qed
qed

lemma latest_history:
  assumes "in_order t"
  shows "map_option rval (latest_row rid rtime rkey k t) =
    (if history k t = [] then None else Some (last (history k t)))"
  using in_order_latest [OF assms] by (simp add: history_def last_map)

lemma remdups_adj_snoc:
  "remdups_adj (xs @ [x]) = (if xs \<noteq> [] \<and> last xs = x then remdups_adj xs else remdups_adj xs @ [x])"
  by (simp add: remdups_adj_append' [of xs "[x]"] remdups_adj_append_two) (cases xs rule: rev_cases; simp add: remdups_adj_append_two)

text \<open>A history of calls that succeed, with times that do not go back.\<close>

definition recorded :: "'s list \<Rightarrow> 'r list" where
  "recorded ss = fold (\<lambda>s t. snd (recordIf False False s t)) ss []"

lemma recorded_history:
  assumes "sorted (map stime ss)"
  shows "in_order (recorded ss) \<and> (\<forall>r \<in> set (recorded ss). \<exists>s \<in> set ss. rtime r = stime s) \<and>
    (\<forall>k. history k (recorded ss) = remdups_adj (map sval (filter (\<lambda>s. skey s = k) ss)))"
  using assms
proof (induction ss rule: rev_induct)
  case Nil
  then show ?case by (simp add: recorded_def in_order_def history_def)
next
  case (snoc s ss)
  let ?t = "recorded ss"
  have IH: "in_order ?t" "\<forall>r \<in> set ?t. \<exists>s \<in> set ss. rtime r = stime s"
    "\<And>k. history k ?t = remdups_adj (map sval (filter (\<lambda>s. skey s = k) ss))"
    using snoc by (auto simp: sorted_append)
  have step: "recorded (ss @ [s]) = snd (recordIf False False s ?t)" by (simp add: recorded_def)
  have times: "\<forall>r \<in> set ?t. rtime r \<le> stime s" using IH(2) snoc.prems by (force simp: sorted_append)
  let ?h = "map sval (filter (\<lambda>s'. skey s' = skey s) ss)"
  have same: "map_option rval (latest_row rid rtime rkey (skey s) ?t) = Some (sval s) \<longleftrightarrow> ?h \<noteq> [] \<and> last ?h = sval s"
    unfolding latest_history [OF IH(1)] IH(3) by simp
  show ?case
  proof (cases "?h \<noteq> [] \<and> last ?h = sval s")
    case True
    then have "snd (recordIf False False s ?t) = ?t" using same record_skip by simp
    with IH True show ?thesis unfolding step by (auto simp: remdups_adj_snoc)
  next
    case False
    then obtain r where r: "snd (recordIf False False s ?t) = ?t @ [r]" "rid r = next_id ?t" "rtime r = stime s"
      "rkey r = skey s" "rval r = sval s"
      using same record_insert by (metis snd_conv)
    have "in_order (?t @ [r])" by (rule in_order_snoc [OF IH(1) r(2)]) (use times r(3) in simp)
    moreover have "history k (?t @ [r]) = remdups_adj (map sval (filter (\<lambda>s. skey s = k) (ss @ [s])))" for k
      using IH(3) [of k] False r(4,5) by (auto simp: history_def remdups_adj_snoc)
    ultimately show ?thesis unfolding step r(1) using IH(2) r(3) by auto
  qed
qed

text \<open>After such a history the latest row of a key holds the value recorded last for it.\<close>

lemma in_order_distinct:
  assumes "in_order t" and "r \<in> set t" and "r' \<in> set t" and "rid r = rid r'"
  shows "r = r'"
  using assms by (auto simp: in_order_def in_set_conv_nth)

lemma recorded_last:
  assumes "sorted (map stime ss)"
  shows "r \<in> set (recorded ss) \<Longrightarrow>
      map_option rid (latest_row rid rtime rkey (rkey r) (recorded ss)) = Some (rid r) \<Longrightarrow>
      rkey r \<in> skey ` set ss \<and> rval r = last (map sval (filter (\<lambda>s. skey s = rkey r) ss))"
    and "k \<in> skey ` set ss \<Longrightarrow>
      \<exists>r \<in> set (recorded ss). rkey r = k \<and>
        map_option rid (latest_row rid rtime rkey k (recorded ss)) = Some (rid r) \<and>
        rval r = last (map sval (filter (\<lambda>s. skey s = k) ss))"
proof -
  let ?t = "recorded ss"
  have o: "in_order ?t" and h: "history k ?t = remdups_adj (map sval (filter (\<lambda>s. skey s = k) ss))" for k
    using recorded_history [OF assms] by blast+
  have latest: "latest_row rid rtime rkey k ?t =
      (if filter (\<lambda>r. rkey r = k) ?t = [] then None else Some (last (filter (\<lambda>r. rkey r = k) ?t)))" for k
    by (rule in_order_latest [OF o])
  have lastval: "rval (last (filter (\<lambda>r. rkey r = k) ?t)) = last (map sval (filter (\<lambda>s. skey s = k) ss))"
    if "filter (\<lambda>r. rkey r = k) ?t \<noteq> []" for k
  proof -
    have "rval (last (filter (\<lambda>r. rkey r = k) ?t)) = last (history k ?t)" using that by (simp add: history_def last_map)
    then show ?thesis unfolding h by simp
  qed
  have keys: "filter (\<lambda>r. rkey r = k) ?t \<noteq> [] \<longleftrightarrow> k \<in> skey ` set ss" for k
  proof -
    have "filter (\<lambda>r. rkey r = k) ?t \<noteq> [] \<longleftrightarrow> history k ?t \<noteq> []" by (simp add: history_def)
    also have "\<dots> \<longleftrightarrow> filter (\<lambda>s. skey s = k) ss \<noteq> []" unfolding h by simp
    also have "\<dots> \<longleftrightarrow> k \<in> skey ` set ss" by (auto simp: filter_empty_conv)
    finally show ?thesis .
  qed
  {
    assume r: "r \<in> set ?t" "map_option rid (latest_row rid rtime rkey (rkey r) ?t) = Some (rid r)"
    let ?f = "filter (\<lambda>r'. rkey r' = rkey r) ?t"
    have ne: "?f \<noteq> []" using r(1) by (auto simp: filter_empty_conv)
    then have "last ?f \<in> set ?t" using last_in_set [of ?f] by auto
    moreover have "rid (last ?f) = rid r" using r(2) ne latest [of "rkey r"] by auto
    ultimately have "r = last ?f" using in_order_distinct [OF o r(1)] by simp
    then show "rkey r \<in> skey ` set ss \<and> rval r = last (map sval (filter (\<lambda>s. skey s = rkey r) ss))"
      using keys lastval [OF ne] ne by metis
  }
  {
    assume k: "k \<in> skey ` set ss"
    let ?f = "filter (\<lambda>r'. rkey r' = k) ?t"
    have ne: "?f \<noteq> []" using k keys by simp
    then have "last ?f \<in> set ?f" by (rule last_in_set)
    then have "last ?f \<in> set ?t" "rkey (last ?f) = k" by auto
    then show "\<exists>r \<in> set ?t. rkey r = k \<and> map_option rid (latest_row rid rtime rkey k ?t) = Some (rid r) \<and>
        rval r = last (map sval (filter (\<lambda>s. skey s = k) ss))"
      using ne latest [of k] lastval [OF ne] by (intro bexI [of _ "last ?f"]) auto
  }
qed

end

end
