(* ===== verification/Obligation.thy ===== *)
theory Obligation
  imports Snapshots "HOL-Library.List_Lexorder" "HOL-Library.Char_ord"
begin

text \<open>
  Lending obligations (\<open>src/prefetch/obligation\<close>): the parsers of the Solend and Kamino obligation
  accounts (\<open>parse.go\<close>), the addresses of the tracked obligations (\<open>address.go\<close>) and the snapshot
  table of deposits and borrows (\<open>store.go\<close>).

  \<open>math/big\<close> is part of Go's standard library and is modelled: an integer is a \<open>nat\<close>, a quotient of
  two floats is rounded to nearest-even at the precision \<open>Quo\<close> chooses, and \<open>Uint64\<close> truncates and
  saturates. \<open>PublicKeyFromBytes\<close>, \<open>CreateWithSeed\<close> and \<open>FindProgramAddress\<close> belong to another module
  and are parameters.
\<close>

section \<open>Big numbers\<close>

text \<open>\<open>big.Int.SetBytes\<close> reads big-endian bytes.\<close>

definition SetBytes :: "byte list \<Rightarrow> nat" where
  "SetBytes bs = foldl (\<lambda>n b. n * 256 + unat b) 0 bs"

fun BitLen :: "nat \<Rightarrow> nat" where
  "BitLen n = (if n = 0 then 0 else Suc (BitLen (n div 2)))"

declare BitLen.simps [simp del]

definition round_half_even :: "nat \<Rightarrow> nat \<Rightarrow> nat" where
  "round_half_even n d =
     (let q = n div d; r = n mod d in if 2 * r < d \<or> (2 * r = d \<and> even q) then q else Suc q)"

text \<open>\<open>new(big.Float).Quo(new(big.Float).SetInt(x), y)\<close> for an integer \<open>y\<close> of at most 64 bits: the
  precision is that of \<open>x\<close>, which \<open>SetInt\<close> takes as \<open>max(x.BitLen(), 64)\<close>. The result is
  \<open>m / 2^s\<close>, as the pair \<open>(m, s)\<close>; the mantissa has the precision's number of bits.\<close>

definition float_quo :: "nat \<Rightarrow> nat \<Rightarrow> nat \<times> nat" where
  "float_quo x y =
     (let prec = max (BitLen x) 64; s0 = prec + BitLen y - BitLen x;
          s = (if x * 2 ^ s0 div y \<ge> 2 ^ prec then s0 - 1 else s0)
      in (round_half_even (x * 2 ^ s) y, s))"

text \<open>\<open>Uint64()\<close>: truncated towards zero, the largest value when it does not fit.\<close>

definition float_uint64 :: "nat \<times> nat \<Rightarrow> u64" where
  "float_uint64 v = (case v of (m, s) \<Rightarrow> of_nat (min (m div 2 ^ s) (2 ^ 64 - 1)))"

section \<open>Parsing\<close>

record obl_entry =
  Reserve :: pubkey
  Amount :: u64

record obl_parsed =
  Deposits :: "obl_entry list"
  Borrows :: "obl_entry list"

datatype obl_error =
    SolendTooShort nat
  | SolendTooShortFor nat nat nat
  | KaminoTooShort nat
  | UnknownProtocol string
  | AddressFailed
  | QueryFailed
  | InsertFailed

definition solendOffDepositsLen :: nat where "solendOffDepositsLen = 202"
definition solendOffBorrowsLen :: nat where "solendOffBorrowsLen = 203"
definition solendOffDataFlat :: nat where "solendOffDataFlat = 204"
definition solendCollateralLen :: nat where "solendCollateralLen = 88"
definition solendOffDepositReserve :: nat where "solendOffDepositReserve = 0"
definition solendOffDepositedAmount :: nat where "solendOffDepositedAmount = 32"
definition solendLiquidityLen :: nat where "solendLiquidityLen = 112"
definition solendOffBorrowReserve :: nat where "solendOffBorrowReserve = 0"
definition solendOffBorrowedAmountWads :: nat where "solendOffBorrowedAmountWads = 48"

lemmas solend_layout = solendOffDepositsLen_def solendOffBorrowsLen_def solendOffDataFlat_def
  solendCollateralLen_def solendOffDepositReserve_def solendOffDepositedAmount_def solendLiquidityLen_def
  solendOffBorrowReserve_def solendOffBorrowedAmountWads_def

text \<open>\<open>SetFloat64(1e18)\<close> is exact: \<open>5^18\<close> has fewer than 53 bits.\<close>

definition wadScale :: nat where
  "wadScale = 10 ^ 18"

fun isZero :: "byte list \<Rightarrow> bool" where
  "isZero [] = True"
| "isZero (v # vs) = (if v \<noteq> 0 then False else isZero vs)"

definition reverse :: "byte list \<Rightarrow> byte list" where
  "reverse le = fold (\<lambda>i be. be[length le - 1 - i := le ! i]) [0..<length le] (replicate (length le) 0)"

definition ParseSolend :: "(byte list \<Rightarrow> pubkey) \<Rightarrow> byte list \<Rightarrow> (obl_error + obl_parsed) option" where
  "ParseSolend pkfb body =
     (if length body < solendOffDataFlat then Some (Inl (SolendTooShort (length body)))
      else do {
        dl \<leftarrow> go_index body solendOffDepositsLen;
        bl \<leftarrow> go_index body solendOffBorrowsLen;
        let depositsLen = unat dl;
        let borrowsLen = unat bl;
        let depositsEnd = solendOffDataFlat + depositsLen * solendCollateralLen;
        let borrowsEnd = depositsEnd + borrowsLen * solendLiquidityLen;
        if length body < borrowsEnd then Some (Inl (SolendTooShortFor depositsLen borrowsLen (length body)))
        else do {
          deposits \<leftarrow> those (map (\<lambda>i. let base = solendOffDataFlat + i * solendCollateralLen in do {
            reserve \<leftarrow> go_slice (base + solendOffDepositReserve) 32 body;
            amt \<leftarrow> go_slice (base + solendOffDepositedAmount) 8 body;
            amount \<leftarrow> le_u64 amt;
            Some \<lparr>Reserve = pkfb reserve, Amount = amount\<rparr> }) [0..<depositsLen]);
          borrows \<leftarrow> those (map (\<lambda>i. let base = depositsEnd + i * solendLiquidityLen in do {
            wads \<leftarrow> go_slice (base + solendOffBorrowedAmountWads) 16 body;
            let wad = SetBytes (reverse wads);
            let amount = float_uint64 (float_quo wad wadScale);
            reserve \<leftarrow> go_slice (base + solendOffBorrowReserve) 32 body;
            Some \<lparr>Reserve = pkfb reserve, Amount = amount\<rparr> }) [0..<borrowsLen]);
          Some (Inr \<lparr>Deposits = deposits, Borrows = borrows\<rparr>) } })"

definition kaminoOffDeposits :: nat where "kaminoOffDeposits = 96"
definition kaminoDepositsCount :: nat where "kaminoDepositsCount = 8"
definition kaminoCollateralLen :: nat where "kaminoCollateralLen = 136"
definition kaminoOffDepositReserve :: nat where "kaminoOffDepositReserve = 0"
definition kaminoOffDepositedAmount :: nat where "kaminoOffDepositedAmount = 32"
definition kaminoOffBorrows :: nat where "kaminoOffBorrows = 1208"
definition kaminoBorrowsCount :: nat where "kaminoBorrowsCount = 5"
definition kaminoLiquidityLen :: nat where "kaminoLiquidityLen = 200"
definition kaminoOffBorrowReserve :: nat where "kaminoOffBorrowReserve = 0"
definition kaminoOffBorrowedAmtSF :: nat where "kaminoOffBorrowedAmtSF = 88"
definition kaminoMinLen :: nat where "kaminoMinLen = kaminoOffBorrows + kaminoBorrowsCount * kaminoLiquidityLen"

lemmas kamino_layout = kaminoOffDeposits_def kaminoDepositsCount_def kaminoCollateralLen_def
  kaminoOffDepositReserve_def kaminoOffDepositedAmount_def kaminoOffBorrows_def kaminoBorrowsCount_def
  kaminoLiquidityLen_def kaminoOffBorrowReserve_def kaminoOffBorrowedAmtSF_def kaminoMinLen_def

definition sfScale :: nat where
  "sfScale = push_bit 60 1"

text \<open>A slot whose reserve is all zero is unused (\<open>continue\<close>), here an empty list.\<close>

definition ParseKamino :: "(byte list \<Rightarrow> pubkey) \<Rightarrow> byte list \<Rightarrow> (obl_error + obl_parsed) option" where
  "ParseKamino pkfb body =
     (if length body < kaminoMinLen then Some (Inl (KaminoTooShort (length body)))
      else do {
        deposits \<leftarrow> those (map (\<lambda>i. let base = kaminoOffDeposits + i * kaminoCollateralLen in do {
          reserve \<leftarrow> go_slice (base + kaminoOffDepositReserve) 32 body;
          if isZero reserve then Some []
          else do {
            amt \<leftarrow> go_slice (base + kaminoOffDepositedAmount) 8 body;
            amount \<leftarrow> le_u64 amt;
            Some [\<lparr>Reserve = pkfb reserve, Amount = amount\<rparr>] } }) [0..<kaminoDepositsCount]);
        borrows \<leftarrow> those (map (\<lambda>i. let base = kaminoOffBorrows + i * kaminoLiquidityLen in do {
          reserve \<leftarrow> go_slice (base + kaminoOffBorrowReserve) 32 body;
          if isZero reserve then Some []
          else do {
            sfs \<leftarrow> go_slice (base + kaminoOffBorrowedAmtSF) 16 body;
            let sf = SetBytes (reverse sfs);
            let amount = float_uint64 (float_quo sf sfScale);
            Some [\<lparr>Reserve = pkfb reserve, Amount = amount\<rparr>] } }) [0..<kaminoBorrowsCount]);
        Some (Inr \<lparr>Deposits = concat deposits, Borrows = concat borrows\<rparr>) })"

section \<open>Addresses\<close>

definition TrackedObligations :: "(string \<times> string \<times> byte) list" where
  "TrackedObligations =
     [(''pair'', ''solend'', 1), (''pair'', ''kamino'', 2), (''directional'', ''solend'', 2),
      (''directional'', ''kamino'', 3), (''hawkes'', ''solend'', 3), (''hawkes'', ''kamino'', 4)]"

definition solendObligationSeed :: "byte \<Rightarrow> string" where
  "solendObligationSeed i = (if i = 0 then ''solend-obligation'' else ''solend-obligation-'' @ dec (unat i))"

definition SolendObligationAddress ::
  "(pubkey \<Rightarrow> string \<Rightarrow> obl_error + pubkey) \<Rightarrow> pubkey \<Rightarrow> byte \<Rightarrow> obl_error + pubkey" where
  "SolendObligationAddress createWithSeed owner i = createWithSeed owner (solendObligationSeed i)"

definition kaminoSeeds :: "pubkey \<Rightarrow> pubkey \<Rightarrow> byte \<Rightarrow> byte list list" where
  "kaminoSeeds mainMarket owner i = [[0], [i], owner, mainMarket, zero_key, zero_key]"

definition KaminoObligationAddress ::
  "(byte list list \<Rightarrow> obl_error + pubkey) \<Rightarrow> pubkey \<Rightarrow> pubkey \<Rightarrow> byte \<Rightarrow> obl_error + pubkey" where
  "KaminoObligationAddress findPDA mainMarket owner i = findPDA (kaminoSeeds mainMarket owner i)"

definition Address ::
  "(pubkey \<Rightarrow> string \<Rightarrow> obl_error + pubkey) \<Rightarrow> (byte list list \<Rightarrow> obl_error + pubkey) \<Rightarrow> pubkey \<Rightarrow>
   pubkey \<Rightarrow> string \<Rightarrow> byte \<Rightarrow> obl_error + pubkey" where
  "Address createWithSeed findPDA mainMarket owner protocol i =
     (if protocol = ''solend'' then SolendObligationAddress createWithSeed owner i
      else if protocol = ''kamino'' then KaminoObligationAddress findPDA mainMarket owner i
      else Inl (UnknownProtocol protocol))"

section \<open>The snapshot table\<close>

record obl_snapshot =
  Time :: int
  Wallet :: pubkey
  Protocol :: string
  TradeType :: string
  ObligationID :: byte
  Kind :: string
  SReserve :: pubkey
  SAmount :: u64

text \<open>A row of \<open>obligation_position_snapshot\<close>; the amount column is a signed integer.\<close>

record obl_row =
  row_id :: nat
  time :: int
  wallet :: "byte list"
  protocol :: string
  trade_type :: string
  obligation_id :: int
  kind :: string
  reserve :: "byte list"
  amount :: int

type_synonym obl_key = "byte list \<times> string \<times> string \<times> byte list \<times> string"

definition row_key :: "obl_row \<Rightarrow> obl_key" where
  "row_key r = (wallet r, protocol r, trade_type r, reserve r, kind r)"

definition snap_key :: "obl_snapshot \<Rightarrow> obl_key" where
  "snap_key s = (Wallet s, Protocol s, TradeType s, SReserve s, Kind s)"

definition RecordIfChanged ::
  "bool \<Rightarrow> bool \<Rightarrow> obl_snapshot \<Rightarrow> obl_row list \<Rightarrow> (obl_error + bool) \<times> obl_row list" where
  "RecordIfChanged queryFails insertFails s t =
     (if queryFails then (Inl QueryFailed, t)
      else if (case latest_row row_id time row_key (snap_key s) t of
                 None \<Rightarrow> False | Some r \<Rightarrow> to_uint64 (amount r) = SAmount s)
      then (Inr False, t)
      else if insertFails then (Inl InsertFailed, t)
      else (Inr True, t @ [\<lparr>row_id = next_id t, time = Time s, wallet = Wallet s, protocol = Protocol s,
              trade_type = TradeType s, obligation_id = uint (ObligationID s), kind = Kind s,
              reserve = SReserve s, amount = to_int64 (SAmount s)\<rparr>]))"

record current_entry =
  CProtocol :: string
  CTradeType :: string
  CKind :: string
  CReserve :: pubkey
  CAmount :: u64
  CTime :: int

definition Current :: "(byte list \<Rightarrow> pubkey) \<Rightarrow> pubkey \<Rightarrow> obl_row list \<Rightarrow> current_entry list" where
  "Current pkfb w t =
     map (\<lambda>r. \<lparr>CProtocol = protocol r, CTradeType = trade_type r, CKind = kind r, CReserve = pkfb (reserve r),
               CAmount = to_uint64 (amount r), CTime = time r\<rparr>)
       (sort_key (\<lambda>r. (trade_type r, protocol r, kind r, reserve r))
         (filter (\<lambda>r. wallet r = w \<and>
            map_option row_id (latest_row row_id time row_key (row_key r) t) = Some (row_id r)) t))"

section \<open>The division of big floats\<close>

lemma BitLen_le: "n < 2 ^ BitLen n"
proof (induction n rule: BitLen.induct)
  case (1 n)
  show ?case
  proof (cases "n = 0")
    case False
    with 1 have "n div 2 < 2 ^ BitLen (n div 2)" by simp
    with False show ?thesis by (subst BitLen.simps) auto
  qed simp
qed

lemma round_half_even_cases:
  assumes "0 < d"
  shows "round_half_even n d = n div d \<or> (round_half_even n d = Suc (n div d) \<and> d \<le> 2 * (n mod d))"
  by (auto simp: round_half_even_def Let_def)

text \<open>Rounding never carries the quotient to the next integer: the distance to it is at least
  \<open>1 / y\<close>, and the precision resolves more than half of that.\<close>

lemma round_half_even_floor:
  assumes "0 < y" and "y < 2 ^ Suc s"
  shows "round_half_even (x * 2 ^ s) y div 2 ^ s = x div y"
proof -
  let ?N = "x * 2 ^ s"
  have low: "(?N div y) div 2 ^ s = x div y"
    by (metis div_mult2_eq mult.commute nonzero_mult_div_cancel_right power_eq_0_iff zero_neq_numeral)
  have "Suc (?N div y) div 2 ^ s = x div y" if r: "y \<le> 2 * (?N mod y)"
  proof (rule ccontr)
    assume ne: "Suc (?N div y) div 2 ^ s \<noteq> x div y"
    have "Suc (?N div y) mod 2 ^ s = 0"
    proof (rule ccontr)
      assume "Suc (?N div y) mod 2 ^ s \<noteq> 0"
      then have "Suc (?N div y) div 2 ^ s = ?N div y div 2 ^ s" by (simp add: div_Suc)
      with ne low show False by simp
    qed
    then have "Suc (?N div y) div 2 ^ s = Suc (x div y)" using low by (simp add: div_Suc)
    then have m: "Suc (?N div y) = Suc (x div y) * 2 ^ s"
      using \<open>Suc (?N div y) mod 2 ^ s = 0\<close> by (metis add.right_neutral div_mult_mod_eq)
    have "x < y * Suc (x div y)" using assms(1) by (simp add: dividend_less_times_div)
    then have "x + 1 \<le> y * Suc (x div y)" by simp
    then have "(x + 1) * 2 ^ s \<le> y * Suc (x div y) * 2 ^ s" by (rule mult_le_mono1)
    also have "\<dots> = y * (?N div y) + y" using m by (metis mult.assoc mult_Suc_right add.commute)
    finally have "?N + 2 ^ s \<le> y * (?N div y) + y" by simp
    moreover have "y * (?N div y) + ?N mod y = ?N" by simp
    ultimately have "2 ^ s + ?N mod y \<le> y" by linarith
    with r have "2 * 2 ^ s \<le> y" by linarith
    with assms(2) show False by simp
  qed
  with low round_half_even_cases [OF assms(1), of ?N] show ?thesis by auto
qed

lemma float_quo_floor:
  assumes "0 < y"
  shows "float_uint64 (float_quo x y) = of_nat (min (x div y) (2 ^ 64 - 1))"
proof -
  obtain m s where q: "float_quo x y = (m, s)" by fastforce
  have m: "m = round_half_even (x * 2 ^ s) y" using q by (auto simp: float_quo_def Let_def)
  have "s = max (BitLen x) 64 + BitLen y - BitLen x - 1 \<or> s = max (BitLen x) 64 + BitLen y - BitLen x"
    using q by (auto simp: float_quo_def Let_def)
  then have s: "max (BitLen x) 64 + BitLen y - BitLen x - 1 \<le> s" by auto
  have "BitLen y \<le> Suc s" using s by linarith
  then have "y < 2 ^ Suc s" using BitLen_le [of y] by (meson less_le_trans one_le_numeral power_increasing)
  then show ?thesis using round_half_even_floor [OF assms] by (simp add: q m float_uint64_def)
qed

lemma fold_set_rev:
  assumes "n \<le> length le"
  shows "fold (\<lambda>i be. be[length le - 1 - i := le ! i]) [0..<n] (replicate (length le) 0) =
    replicate (length le - n) (0 :: byte) @ rev (take n le)"
  using assms
proof (induction n)
  case 0
  then show ?case by simp
next
  case (Suc n)
  have "length le - n = Suc (length le - Suc n)" using Suc.prems by simp
  then have r: "replicate (length le - n) (0 :: byte) = replicate (length le - Suc n) 0 @ [0]"
    by (simp add: replicate_append_same)
  have "rev (take (Suc n) le) = le ! n # rev (take n le)" using Suc.prems by (simp add: take_Suc_conv_app_nth)
  with Suc r show ?case by (simp add: list_update_append)
qed

lemma reverse_rev: "reverse le = rev le"
  using fold_set_rev [of "length le" le] by (simp add: reverse_def)

lemma SetBytes_reverse: "SetBytes (reverse le) = le_nat le"
  by (induction le) (simp_all add: reverse_rev SetBytes_def algebra_simps)

lemma isZero_iff: "isZero bs \<longleftrightarrow> (\<forall>b \<in> set bs. b = 0)"
  by (induction bs) auto

lemma float_quo_wad: "float_uint64 (float_quo (SetBytes (reverse bs)) wadScale) = of_nat (min (le_nat bs div 10 ^ 18) (2 ^ 64 - 1))"
  unfolding SetBytes_reverse by (subst float_quo_floor) (simp_all add: wadScale_def)

lemma float_quo_sf: "float_uint64 (float_quo (SetBytes (reverse bs)) sfScale) = of_nat (min (le_nat bs div 2 ^ 60) (2 ^ 64 - 1))"
  unfolding SetBytes_reverse by (subst float_quo_floor) (simp_all add: sfScale_def)

section \<open>What the parsers read\<close>

definition solend_deposit :: "(byte list \<Rightarrow> pubkey) \<Rightarrow> byte list \<Rightarrow> nat \<Rightarrow> obl_entry" where
  "solend_deposit pkfb body i =
     \<lparr>Reserve = pkfb (take 32 (drop (204 + 88 * i) body)), Amount = u64_at body (204 + 88 * i + 32)\<rparr>"

definition solend_borrow :: "(byte list \<Rightarrow> pubkey) \<Rightarrow> byte list \<Rightarrow> nat \<Rightarrow> nat \<Rightarrow> obl_entry" where
  "solend_borrow pkfb body first i =
     \<lparr>Reserve = pkfb (take 32 (drop (first + 112 * i) body)),
      Amount = of_nat (min (le_nat (take 16 (drop (first + 112 * i + 48) body)) div 10 ^ 18) (2 ^ 64 - 1))\<rparr>"

text \<open>\<open>ParseSolend\<close> never panics, whatever the bytes: a body that is too short for its own counts
  is an error, any other gives exactly the counted entries, a borrow's amount being its WAD value
  divided by \<open>10^18\<close> rounded down (the big-float division never rounds it up), capped at the
  largest 64-bit value.\<close>

theorem ParseSolend_reads:
  "ParseSolend pkfb body = Some
     (if length body < 204 then Inl (SolendTooShort (length body))
      else let d = unat (body ! 202); b = unat (body ! 203)
           in if length body < 204 + 88 * d + 112 * b then Inl (SolendTooShortFor d b (length body))
              else Inr \<lparr>Deposits = map (solend_deposit pkfb body) [0..<d],
                        Borrows = map (solend_borrow pkfb body (204 + 88 * d)) [0..<b]\<rparr>)"
proof (cases "length body < 204")
  case True
  then show ?thesis by (simp add: ParseSolend_def solend_layout)
next
  case False
  define d b where "d = unat (body ! 202)" and "b = unat (body ! 203)"
  have ix: "go_index body 202 = Some (body ! 202)" "go_index body 203 = Some (body ! 203)"
    using False by (simp_all add: go_index_in)
  show ?thesis
  proof (cases "length body < 204 + d * 88 + b * 112")
    case True
    with False ix show ?thesis by (simp add: ParseSolend_def solend_layout Let_def mult.commute flip: d_def b_def)
  next
    case long: False
    let ?dep = "\<lambda>i. do {
            reserve \<leftarrow> go_slice (204 + i * 88) 32 body; amt \<leftarrow> go_slice (204 + i * 88 + 32) 8 body;
            amount \<leftarrow> le_u64 amt; Some \<lparr>Reserve = pkfb reserve, Amount = amount\<rparr> }"
    have "?dep i = Some (solend_deposit pkfb body i)" if "i \<in> set [0..<d]" for i
      using that long by (simp add: go_slice_in le_u64_in solend_deposit_def mult.commute)
    then have dep: "those (map ?dep [0..<d]) = Some (map (solend_deposit pkfb body) [0..<d])"
      by (rule those_map_Some)
    let ?bor = "\<lambda>i. do {
            wads \<leftarrow> go_slice (204 + d * 88 + i * 112 + 48) 16 body;
            reserve \<leftarrow> go_slice (204 + d * 88 + i * 112) 32 body;
            Some \<lparr>Reserve = pkfb reserve, Amount = float_uint64 (float_quo (SetBytes (reverse wads)) wadScale)\<rparr> }"
    have "?bor i = Some (solend_borrow pkfb body (204 + 88 * d) i)" if "i \<in> set [0..<b]" for i
      using that long by (simp add: go_slice_in solend_borrow_def float_quo_wad mult.commute)
    then have bor: "those (map ?bor [0..<b]) = Some (map (solend_borrow pkfb body (204 + 88 * d)) [0..<b])"
      by (rule those_map_Some)
    show ?thesis
      using False long ix dep bor
      by (simp add: ParseSolend_def solend_layout Let_def mult.commute flip: d_def b_def)
  qed
qed

definition kamino_deposit :: "(byte list \<Rightarrow> pubkey) \<Rightarrow> byte list \<Rightarrow> nat \<Rightarrow> obl_entry" where
  "kamino_deposit pkfb body i =
     \<lparr>Reserve = pkfb (take 32 (drop (96 + 136 * i) body)), Amount = u64_at body (96 + 136 * i + 32)\<rparr>"

definition kamino_borrow :: "(byte list \<Rightarrow> pubkey) \<Rightarrow> byte list \<Rightarrow> nat \<Rightarrow> obl_entry" where
  "kamino_borrow pkfb body i =
     \<lparr>Reserve = pkfb (take 32 (drop (1208 + 200 * i) body)),
      Amount = of_nat (min (le_nat (take 16 (drop (1208 + 200 * i + 88) body)) div 2 ^ 60) (2 ^ 64 - 1))\<rparr>"

definition slot_used :: "byte list \<Rightarrow> nat \<Rightarrow> bool" where
  "slot_used body off \<longleftrightarrow> (\<exists>b \<in> set (take 32 (drop off body)). b \<noteq> 0)"

text \<open>\<open>ParseKamino\<close> never panics; a body of full length gives, in slot order, exactly the slots
  with a non-zero reserve, a borrow's amount being its SF value divided by \<open>2^60\<close> rounded down.\<close>

theorem ParseKamino_reads:
  "ParseKamino pkfb body = Some
     (if length body < 2208 then Inl (KaminoTooShort (length body))
      else Inr \<lparr>Deposits = map (kamino_deposit pkfb body) (filter (\<lambda>i. slot_used body (96 + 136 * i)) [0..<8]),
                Borrows = map (kamino_borrow pkfb body) (filter (\<lambda>i. slot_used body (1208 + 200 * i)) [0..<5])\<rparr>)"
proof (cases "length body < 2208")
  case True
  then show ?thesis by (simp add: ParseKamino_def kamino_layout)
next
  case False
  let ?dep = "\<lambda>i. do {
          reserve \<leftarrow> go_slice (96 + i * 136) 32 body;
          if isZero reserve then Some []
          else do { amt \<leftarrow> go_slice (96 + i * 136 + 32) 8 body; amount \<leftarrow> le_u64 amt;
                    Some [\<lparr>Reserve = pkfb reserve, Amount = amount\<rparr>] } }"
  have "?dep i = Some (if \<not> slot_used body (96 + 136 * i) then [] else [kamino_deposit pkfb body i])"
    if "i \<in> set [0..<8]" for i
    using that False by (simp add: go_slice_in le_u64_in kamino_deposit_def slot_used_def isZero_iff mult.commute)
  then have dep: "those (map ?dep [0..<8]) =
      Some (map (\<lambda>i. if \<not> slot_used body (96 + 136 * i) then [] else [kamino_deposit pkfb body i]) [0..<8])"
    by (rule those_map_Some)
  let ?bor = "\<lambda>i. do {
          reserve \<leftarrow> go_slice (1208 + i * 200) 32 body;
          if isZero reserve then Some []
          else do { sfs \<leftarrow> go_slice (1208 + i * 200 + 88) 16 body;
                    Some [\<lparr>Reserve = pkfb reserve, Amount = float_uint64 (float_quo (SetBytes (reverse sfs)) sfScale)\<rparr>] } }"
  have "?bor i = Some (if \<not> slot_used body (1208 + 200 * i) then [] else [kamino_borrow pkfb body i])"
    if "i \<in> set [0..<5]" for i
    using that False
    by (simp add: go_slice_in kamino_borrow_def float_quo_sf slot_used_def isZero_iff mult.commute del: power_numeral)
  then have bor: "those (map ?bor [0..<5]) =
      Some (map (\<lambda>i. if \<not> slot_used body (1208 + 200 * i) then [] else [kamino_borrow pkfb body i]) [0..<5])"
    by (rule those_map_Some)
  have "ParseKamino pkfb body = do { deposits \<leftarrow> those (map ?dep [0..<8]); borrows \<leftarrow> those (map ?bor [0..<5]);
      Some (Inr \<lparr>Deposits = concat deposits, Borrows = concat borrows\<rparr>) }"
    using False unfolding ParseKamino_def kamino_layout Let_def by simp
  then show ?thesis using False unfolding dep bor by (simp add: concat_map_if del: upt_rec_numeral)
qed

section \<open>Tracked obligations\<close>

lemma solendObligationSeed_inject: "solendObligationSeed i = solendObligationSeed j \<longleftrightarrow> i = j"
  by (auto simp: solendObligationSeed_def dest: word_unat_eq_iff [THEN iffD2])

text \<open>No two tracked obligations of an owner have the same address: trade types that share a
  protocol have different ids and different ids give different seeds, so that (address derivation
  being free of collisions) one strategy never reads another one's obligation.\<close>

theorem TrackedObligations_distinct:
  assumes "(tt, pr, i) \<in> set TrackedObligations" and "(tt', pr, j) \<in> set TrackedObligations" and "tt \<noteq> tt'"
    and collision_free: "\<forall>s s' a. createWithSeed owner s = Inr a \<and> createWithSeed owner s' = Inr a \<longrightarrow> s = s'"
      "\<forall>s s' a. findPDA s = Inr a \<and> findPDA s' = Inr a \<longrightarrow> s = s'"
    and "Address createWithSeed findPDA mainMarket owner pr i = Inr a"
    and "Address createWithSeed findPDA mainMarket owner pr j = Inr b"
  shows "a \<noteq> b"
proof -
  have "i \<noteq> j" and p: "pr = ''solend'' \<or> pr = ''kamino''" using assms(1-3) by (auto simp: TrackedObligations_def)
  then have "solendObligationSeed i \<noteq> solendObligationSeed j"
    "kaminoSeeds mainMarket owner i \<noteq> kaminoSeeds mainMarket owner j"
    by (simp_all add: solendObligationSeed_inject kaminoSeeds_def)
  with p assms(4-) show ?thesis
    by (auto simp: Address_def SolendObligationAddress_def KaminoObligationAddress_def)
qed

theorem TrackedObligations_distinct_witness: "([0] :: byte list) \<noteq> [1]"
proof (rule TrackedObligations_distinct [where tt = "''pair''" and tt' = "''hawkes''" and pr = "''solend''" and i = 1 and j = 3
      and createWithSeed = "\<lambda>ow s. if s = ''solend-obligation-1'' then Inr [0]
                             else if s = ''solend-obligation-3'' then Inr [1] else Inl AddressFailed"
      and findPDA = "\<lambda>s. Inl AddressFailed" and mainMarket = "[]" and owner = "[]"])
qed (simp_all add: TrackedObligations_def Address_def SolendObligationAddress_def solendObligationSeed_def dec.simps
    char_of_def bit_0)

section \<open>The history of an obligation\<close>

interpretation obl: snapshot_store row_id time row_key "\<lambda>r. to_uint64 (amount r)" Time snap_key SAmount RecordIfChanged
  by unfold_locales
    (auto simp: RecordIfChanged_def row_key_def snap_key_def split: option.splits)

text \<open>(C31) Recording a sequence of snapshots (their times not going back) keeps, for every key, exactly
  the changes of its amount: the rows are the recorded amounts with repetitions collapsed, and the
  signed column gives every 64-bit amount back.\<close>

theorem obligation_history:
  assumes "sorted (map Time ss)"
  shows "map (\<lambda>r. to_uint64 (amount r))
      (filter (\<lambda>r. row_key r = k) (fold (\<lambda>s t. snd (RecordIfChanged False False s t)) ss [])) =
    remdups_adj (map SAmount (filter (\<lambda>s. snap_key s = k) ss))"
  using obl.recorded_history [OF assms, THEN conjunct2, THEN conjunct2, rule_format, of k]
  by (simp add: obl.history_def obl.recorded_def)

abbreviation snap :: "int \<Rightarrow> u64 \<Rightarrow> obl_snapshot" where
  "snap t a \<equiv> \<lparr>Time = t, Wallet = [1], Protocol = ''solend'', TradeType = ''pair'', ObligationID = 1,
     Kind = ''borrow'', SReserve = [2], SAmount = a\<rparr>"

theorem obligation_history_witness:
  "map (\<lambda>r. to_uint64 (amount r)) (filter (\<lambda>r. row_key r = snap_key (snap 1 0))
     (fold (\<lambda>s t. snd (RecordIfChanged False False s t)) [snap 1 (- 1), snap 2 (- 1), snap 3 7] [])) = [- 1, 7]"
  using obligation_history [of "[snap 1 (- 1), snap 2 (- 1), snap 3 7]" "snap_key (snap 1 0)"]
  by (simp add: snap_key_def)

text \<open>After such a history, \<open>Current\<close> lists for a wallet every key that was ever recorded, each
  exactly with the amount recorded last.\<close>

theorem Current_last_amounts:
  assumes "sorted (map Time ss)"
  shows "(\<lambda>e. (CProtocol e, CTradeType e, CKind e, CReserve e, CAmount e)) `
      set (Current pkfb w (fold (\<lambda>s t. snd (RecordIfChanged False False s t)) ss [])) =
    {(p, tt, kd, pkfb res, last (map SAmount (filter (\<lambda>s. snap_key s = (w, p, tt, res, kd)) ss))) | p tt kd res.
       (w, p, tt, res, kd) \<in> snap_key ` set ss}" (is "?L = ?R")
proof -
  define t where "t = fold (\<lambda>s t. snd (RecordIfChanged False False s t)) ss []"
  have t: "t = obl.recorded ss" by (simp add: t_def obl.recorded_def)
  note rows = obl.recorded_last [OF assms, folded t]
  let ?key = "\<lambda>r. (protocol r, trade_type r, kind r, pkfb (reserve r), to_uint64 (amount r))"
  have "?L = ?key ` {r \<in> set t. wallet r = w \<and>
      map_option row_id (latest_row row_id time row_key (row_key r) t) = Some (row_id r)}"
    by (force simp: Current_def t_def)
  also have "\<dots> = ?R"
  proof (intro set_eqI iffI)
    fix x assume "x \<in> ?key ` {r \<in> set t. wallet r = w \<and>
      map_option row_id (latest_row row_id time row_key (row_key r) t) = Some (row_id r)}"
    then obtain r where r: "r \<in> set t" "wallet r = w" "x = ?key r"
      "map_option row_id (latest_row row_id time row_key (row_key r) t) = Some (row_id r)" by blast
    with rows(1) [of r] show "x \<in> ?R" by (auto simp: row_key_def)
  next
    fix x assume "x \<in> ?R"
    then obtain p tt kd res where x: "x = (p, tt, kd, pkfb res, last (map SAmount (filter (\<lambda>s. snap_key s = (w, p, tt, res, kd)) ss)))"
      "(w, p, tt, res, kd) \<in> snap_key ` set ss" by blast
    from rows(2) [OF x(2)] obtain r where "r \<in> set t" "row_key r = (w, p, tt, res, kd)"
      "map_option row_id (latest_row row_id time row_key (w, p, tt, res, kd) t) = Some (row_id r)"
      "to_uint64 (amount r) = last (map SAmount (filter (\<lambda>s. snap_key s = (w, p, tt, res, kd)) ss))" by blast
    then show "x \<in> ?key ` {r \<in> set t. wallet r = w \<and>
      map_option row_id (latest_row row_id time row_key (row_key r) t) = Some (row_id r)}"
      using x(1) by (intro image_eqI [of _ _ r]) (auto simp: row_key_def)
  qed
  finally show ?thesis .
qed

theorem Current_last_amounts_witness:
  "(\<lambda>e. (CProtocol e, CTradeType e, CKind e, CReserve e, CAmount e)) `
     set (Current id [1] (fold (\<lambda>s t. snd (RecordIfChanged False False s t)) [snap 1 5, snap 2 7] [])) =
   {(''solend'', ''pair'', ''borrow'', [2], 7)}"
  using Current_last_amounts [of "[snap 1 5, snap 2 7]" id "[1]"] by (auto simp: snap_key_def)

end
