(* ===== verification/Pnl.thy ===== *)
theory Pnl
  imports Snapshots "HOL-Library.List_Lexorder"
begin

text \<open>
  Mark-to-market positions (\<open>src/prefetch/pnl/store.go\<close>): the table of balance snapshots of trading
  wallets, its only writer \<open>RecordIfChanged\<close>, and the readers \<open>Positions\<close> and \<open>PositionsBetween\<close> that
  compare the value of a mint at two ends of its history. Prices are real numbers; which queries
  fail is an argument. The order of the table is the order in which SQL scans it.
\<close>

section \<open>The table\<close>

record snapshot =
  Time :: int
  Wallet :: pubkey
  Mint :: pubkey
  Balance :: u64
  Decimals :: "byte option"
  USDPrice :: "real option"

record pnl_row =
  row_id :: nat
  time :: int
  wallet :: "byte list"
  mint :: "byte list"
  balance :: int
  decimals :: "int option"
  usd_price :: "real option"

datatype pnl_query = LastBalance | ListWallets | ListMints | SnapAt "byte list" string | SnapBefore "byte list" int

datatype pnl_error = QueryFailed pnl_query | InsertFailed | InvalidOrder string

definition row_key :: "pnl_row \<Rightarrow> byte list \<times> byte list" where
  "row_key r = (wallet r, mint r)"

definition snap_key :: "snapshot \<Rightarrow> byte list \<times> byte list" where
  "snap_key s = (Wallet s, Mint s)"

definition nullableUint8 :: "byte option \<Rightarrow> int option" where
  "nullableUint8 v = (case v of None \<Rightarrow> None | Some x \<Rightarrow> Some (uint x))"

definition nullableFloat64 :: "real option \<Rightarrow> real option" where
  "nullableFloat64 v = (case v of None \<Rightarrow> None | Some x \<Rightarrow> Some x)"

definition RecordIfChanged :: "bool \<Rightarrow> bool \<Rightarrow> snapshot \<Rightarrow> pnl_row list \<Rightarrow> (pnl_error + bool) \<times> pnl_row list" where
  "RecordIfChanged queryFails insertFails s t =
     (if queryFails then (Inl (QueryFailed LastBalance), t)
      else if (case latest_row row_id time row_key (snap_key s) t of
                 None \<Rightarrow> False | Some r \<Rightarrow> to_uint64 (balance r) = Balance s)
      then (Inr False, t)
      else if insertFails then (Inl InsertFailed, t)
      else (Inr True, t @ [\<lparr>row_id = next_id t, time = Time s, wallet = Wallet s, mint = Mint s,
              balance = to_int64 (Balance s), decimals = nullableUint8 (Decimals s),
              usd_price = nullableFloat64 (USDPrice s)\<rparr>]))"

section \<open>Reading positions\<close>

record mint_position =
  PMint :: pubkey
  StartTime :: int
  StartBalance :: u64
  StartDecimals :: "byte option"
  StartUSDPrice :: "real option"
  StartUSDValue :: "real option"
  LatestTime :: int
  LatestBalance :: u64
  LatestDecimals :: "byte option"
  LatestUSDPrice :: "real option"
  LatestUSDValue :: "real option"
  DeltaUSDValue :: "real option"

definition Wallets :: "(byte list \<Rightarrow> pubkey) \<Rightarrow> (pnl_query \<Rightarrow> bool) \<Rightarrow> pnl_row list \<Rightarrow> pnl_error + pubkey list" where
  "Wallets pkfb fails t =
     (if fails ListWallets then Inl (QueryFailed ListWallets)
      else Inr (map pkfb (sort (remdups (map wallet t)))))"

definition listMints :: "(pnl_query \<Rightarrow> bool) \<Rightarrow> pubkey \<Rightarrow> pnl_row list \<Rightarrow> pnl_error + byte list list" where
  "listMints fails w t =
     (if fails ListMints then Inl (QueryFailed ListMints)
      else Inr (sort (remdups (map mint (filter (\<lambda>r. wallet r = w) t)))))"

text \<open>\<open>for range n { v *= 10 }\<close>\<close>

definition pow10 :: "byte \<Rightarrow> real" where
  "pow10 n = ((\<lambda>v. v * 10) ^^ unat n) 1"

definition usdValue :: "u64 \<Rightarrow> byte option \<Rightarrow> real option \<Rightarrow> real option" where
  "usdValue bal dcs price =
     (case (dcs, price) of
        (Some d, Some p) \<Rightarrow> Some (real (unat bal) / pow10 d * p)
      | _ \<Rightarrow> None)"

definition buildMintPosition ::
  "(byte list \<Rightarrow> pubkey) \<Rightarrow> byte list \<Rightarrow> snapshot option \<Rightarrow> snapshot option \<Rightarrow> mint_position option" where
  "buildMintPosition pkfb m start fin =
     (case (start, fin) of
        (Some s, Some e) \<Rightarrow>
          let sv = usdValue (Balance s) (Decimals s) (USDPrice s);
              ev = usdValue (Balance e) (Decimals e) (USDPrice e)
          in Some \<lparr>PMint = pkfb m, StartTime = Time s, StartBalance = Balance s, StartDecimals = Decimals s,
                   StartUSDPrice = USDPrice s, StartUSDValue = sv,
                   LatestTime = Time e, LatestBalance = Balance e, LatestDecimals = Decimals e,
                   LatestUSDPrice = USDPrice e, LatestUSDValue = ev,
                   DeltaUSDValue = (case (sv, ev) of (Some a, Some b) \<Rightarrow> Some (b - a) | _ \<Rightarrow> None)\<rparr>
      | _ \<Rightarrow> None)"

text \<open>The columns of a row as a snapshot; \<open>uint8\<close> of the decimals column wraps.\<close>

definition scan_row :: "(byte list \<Rightarrow> pubkey) \<Rightarrow> pubkey \<Rightarrow> byte list \<Rightarrow> pnl_row \<Rightarrow> snapshot" where
  "scan_row pkfb w m r =
     \<lparr>Time = time r, Wallet = w, Mint = pkfb m, Balance = to_uint64 (balance r),
      Decimals = map_option word_of_int (decimals r), USDPrice = usd_price r\<rparr>"

definition snapshotAt ::
  "(byte list \<Rightarrow> pubkey) \<Rightarrow> (pnl_query \<Rightarrow> bool) \<Rightarrow> pubkey \<Rightarrow> byte list \<Rightarrow> string \<Rightarrow> pnl_row list \<Rightarrow>
   pnl_error + snapshot option" where
  "snapshotAt pkfb fails w m order t =
     (let rows = filter (\<lambda>r. wallet r = w \<and> mint r = m) t
      in if order \<noteq> ''ASC'' \<and> order \<noteq> ''DESC'' then Inl (InvalidOrder order)
         else if fails (SnapAt m order) then Inl (QueryFailed (SnapAt m order))
         else Inr (map_option (scan_row pkfb w m)
           (if order = ''ASC'' then limit1 (\<lambda>r. (usd_price r = None, time r)) rows
            else limit1 (\<lambda>r. (usd_price r = None, - time r)) rows)))"

definition snapshotAtOrBefore ::
  "(byte list \<Rightarrow> pubkey) \<Rightarrow> (pnl_query \<Rightarrow> bool) \<Rightarrow> pubkey \<Rightarrow> byte list \<Rightarrow> int \<Rightarrow> pnl_row list \<Rightarrow>
   pnl_error + snapshot option" where
  "snapshotAtOrBefore pkfb fails w m cutoff t =
     (if fails (SnapBefore m cutoff) then Inl (QueryFailed (SnapBefore m cutoff))
      else Inr (map_option (scan_row pkfb w m)
        (limit1 (\<lambda>r. (usd_price r = None, - time r))
          (filter (\<lambda>r. wallet r = w \<and> mint r = m \<and> time r \<le> cutoff) t))))"

text \<open>The loops over the mints; they return on the first error and skip a mint without a position.\<close>

definition Positions ::
  "(byte list \<Rightarrow> pubkey) \<Rightarrow> (pnl_query \<Rightarrow> bool) \<Rightarrow> pubkey \<Rightarrow> pnl_row list \<Rightarrow> pnl_error + mint_position list" where
  "Positions pkfb fails w t =
     (case listMints fails w t of
        Inl e \<Rightarrow> Inl e
      | Inr mints \<Rightarrow> fold_err (\<lambda>m out.
          case snapshotAt pkfb fails w m ''ASC'' t of
            Inl e \<Rightarrow> Inl e
          | Inr start \<Rightarrow>
              (case snapshotAt pkfb fails w m ''DESC'' t of
                 Inl e \<Rightarrow> Inl e
               | Inr latest \<Rightarrow>
                   Inr (case buildMintPosition pkfb m start latest of None \<Rightarrow> out | Some pos \<Rightarrow> out @ [pos]))) mints [])"

definition PositionsBetween ::
  "(byte list \<Rightarrow> pubkey) \<Rightarrow> (pnl_query \<Rightarrow> bool) \<Rightarrow> pubkey \<Rightarrow> int \<Rightarrow> int \<Rightarrow> pnl_row list \<Rightarrow> pnl_error + mint_position list" where
  "PositionsBetween pkfb fails w start fin t =
     (case listMints fails w t of
        Inl e \<Rightarrow> Inl e
      | Inr mints \<Rightarrow> fold_err (\<lambda>m out.
          case snapshotAtOrBefore pkfb fails w m start t of
            Inl e \<Rightarrow> Inl e
          | Inr startSnap \<Rightarrow>
              (case snapshotAtOrBefore pkfb fails w m fin t of
                 Inl e \<Rightarrow> Inl e
               | Inr endSnap \<Rightarrow>
                   Inr (case buildMintPosition pkfb m startSnap endSnap of None \<Rightarrow> out | Some pos \<Rightarrow> out @ [pos]))) mints [])"

section \<open>The history of a position\<close>

interpretation pnl: snapshot_store row_id time row_key "\<lambda>r. to_uint64 (balance r)" Time snap_key Balance RecordIfChanged
  by unfold_locales
    (auto simp: RecordIfChanged_def row_key_def snap_key_def split: option.splits)

text \<open>The table holds, for every wallet and mint, exactly the changes of the balance: polling any
  number of times without a change adds no row, and no change is lost.\<close>

theorem position_history:
  assumes "sorted (map Time ss)"
  shows "map (\<lambda>r. to_uint64 (balance r))
      (filter (\<lambda>r. row_key r = k) (fold (\<lambda>s t. snd (RecordIfChanged False False s t)) ss [])) =
    remdups_adj (map Balance (filter (\<lambda>s. snap_key s = k) ss))"
  using pnl.recorded_history [OF assms, THEN conjunct2, THEN conjunct2, rule_format, of k]
  by (simp add: pnl.history_def pnl.recorded_def)

abbreviation pos_snap :: "int \<Rightarrow> u64 \<Rightarrow> real option \<Rightarrow> snapshot" where
  "pos_snap t b p \<equiv> \<lparr>Time = t, Wallet = [1], Mint = [2], Balance = b, Decimals = Some 0, USDPrice = p\<rparr>"

theorem position_history_witness:
  "map (\<lambda>r. to_uint64 (balance r)) (filter (\<lambda>r. row_key r = ([1], [2]))
     (fold (\<lambda>s t. snd (RecordIfChanged False False s t)) [pos_snap 1 (- 1) None, pos_snap 2 (- 1) None, pos_snap 3 7 None] [])) =
   [- 1, 7]"
  using position_history [of "[pos_snap 1 (- 1) None, pos_snap 2 (- 1) None, pos_snap 3 7 None]" "([1], [2])"]
  by (simp add: snap_key_def)

section \<open>What a position compares\<close>

lemma pow10_power: "pow10 n = 10 ^ unat n"
proof -
  have "((\<lambda>v. v * 10) ^^ k) (1 :: real) = 10 ^ k" for k by (induction k) simp_all
  then show ?thesis by (simp add: pow10_def)
qed

text \<open>The loop of \<open>Positions\<close> when no query fails: the positions of the mints, in order.\<close>

lemma fold_err_collect:
  "fold_err (\<lambda>m out. Inr (case f m of None \<Rightarrow> out | Some x \<Rightarrow> out @ [x])) ms out = Inr (out @ List.map_filter f ms)"
  by (induction ms arbitrary: out) (auto simp: map_filter_simps split: option.split)

definition the_snapshot :: "(byte list \<Rightarrow> pubkey) \<Rightarrow> pubkey \<Rightarrow> byte list \<Rightarrow> string \<Rightarrow> pnl_row list \<Rightarrow> snapshot option" where
  "the_snapshot pkfb w m order t = (case snapshotAt pkfb (\<lambda>_. False) w m order t of Inl _ \<Rightarrow> None | Inr s \<Rightarrow> s)"

lemma Positions_eq:
  "Positions pkfb (\<lambda>_. False) w t =
    Inr (List.map_filter (\<lambda>m. buildMintPosition pkfb m (the_snapshot pkfb w m ''ASC'' t) (the_snapshot pkfb w m ''DESC'' t))
      (sort (remdups (map mint (filter (\<lambda>r. wallet r = w) t)))))"
proof -
  have "snapshotAt pkfb (\<lambda>_. False) w m order t = Inr (the_snapshot pkfb w m order t)"
    if "order = ''ASC'' \<or> order = ''DESC''" for m order
    using that by (auto simp: snapshotAt_def the_snapshot_def Let_def)
  then show ?thesis by (simp add: Positions_def listMints_def fold_err_collect)
qed

lemma limit1_first:
  assumes "rows \<noteq> []" and "\<And>r. r \<in> set (tl rows) \<Longrightarrow> f (hd rows) < f r"
  shows "limit1 f rows = Some (hd rows)"
  by (rule limit1_eqI) (use assms in \<open>auto simp: neq_Nil_conv\<close>)

lemma limit1_last:
  assumes "rows \<noteq> []" and "\<And>r. r \<in> set (butlast rows) \<Longrightarrow> f (last rows) < f r"
  shows "limit1 f rows = Some (last rows)"
proof (rule limit1_eqI)
  fix r assume "r \<in> set rows" "r \<noteq> last rows"
  then have "r \<in> set (butlast rows)" using assms(1) by (metis append_butlast_last_id in_set_conv_decomp rotate1.simps(2) set_ConsD set_rotate1)
  then show "f (last rows) < f r" by (rule assms(2))
qed (use assms(1) in simp)

text \<open>For a mint whose snapshots are all priced and at increasing times, \<open>Positions\<close> reports the
  balance of the first snapshot against the balance of the last one, and as the change in value
  the difference of the two mark-to-market values.\<close>

theorem Positions_first_last:
  fixes w :: pubkey and m :: "byte list" and t :: "pnl_row list" and d d' :: int and p p' :: real
  defines "rows \<equiv> filter (\<lambda>r. wallet r = w \<and> mint r = m) t"
  assumes "rows \<noteq> []" and "sorted_wrt (<) (map time rows)" and "\<forall>r \<in> set rows. usd_price r \<noteq> None"
    and "decimals (hd rows) = Some d" and "decimals (last rows) = Some d'"
    and "usd_price (hd rows) = Some p" and "usd_price (last rows) = Some p'"
  shows "\<exists>ps pos. Positions pkfb (\<lambda>_. False) w t = Inr ps \<and> pos \<in> set ps \<and> PMint pos = pkfb m \<and>
    StartBalance pos = to_uint64 (balance (hd rows)) \<and> LatestBalance pos = to_uint64 (balance (last rows)) \<and>
    DeltaUSDValue pos = Some
      (real (unat (to_uint64 (balance (last rows)))) / 10 ^ unat (word_of_int d' :: byte) * p' -
       real (unat (to_uint64 (balance (hd rows)))) / 10 ^ unat (word_of_int d :: byte) * p)"
proof -
  have lt: "time (hd rows) < time r" if "r \<in> set (tl rows)" for r
    using that assms(2,3) by (cases rows) auto
  have gt: "time r < time (last rows)" if "r \<in> set (butlast rows)" for r
    using that assms(2,3) by (cases rows rule: rev_cases) (auto simp: sorted_wrt_append)
  have "limit1 (\<lambda>r. (usd_price r = None, time r)) rows = Some (hd rows)"
    by (rule limit1_first [OF assms(2)])
      (use lt assms(2,7) in \<open>auto simp: less_prod_def\<close>)
  moreover have "limit1 (\<lambda>r. (usd_price r = None, - time r)) rows = Some (last rows)"
    by (rule limit1_last [OF assms(2)])
      (use gt assms(2,8) in \<open>auto simp: less_prod_def\<close>)
  ultimately have snaps: "the_snapshot pkfb w m ''ASC'' t = Some (scan_row pkfb w m (hd rows))"
    "the_snapshot pkfb w m ''DESC'' t = Some (scan_row pkfb w m (last rows))"
    by (simp_all add: the_snapshot_def snapshotAt_def Let_def rows_def)
  obtain pos where pos: "buildMintPosition pkfb m (the_snapshot pkfb w m ''ASC'' t) (the_snapshot pkfb w m ''DESC'' t) = Some pos"
    "PMint pos = pkfb m" "StartBalance pos = to_uint64 (balance (hd rows))"
    "LatestBalance pos = to_uint64 (balance (last rows))"
    "DeltaUSDValue pos = Some
      (real (unat (to_uint64 (balance (last rows)))) / 10 ^ unat (word_of_int d' :: byte) * p' -
       real (unat (to_uint64 (balance (hd rows)))) / 10 ^ unat (word_of_int d :: byte) * p)"
    unfolding snaps using assms(5-8) by (simp add: buildMintPosition_def scan_row_def usdValue_def pow10_power Let_def)
  have "m \<in> mint ` set (filter (\<lambda>r. wallet r = w) t)"
    using assms(2) by (auto simp: rows_def filter_empty_conv)
  then have "pos \<in> set (List.map_filter (\<lambda>m. buildMintPosition pkfb m (the_snapshot pkfb w m ''ASC'' t) (the_snapshot pkfb w m ''DESC'' t))
      (sort (remdups (map mint (filter (\<lambda>r. wallet r = w) t)))))"
    using pos(1) by (force simp: map_filter_def)
  with pos show ?thesis unfolding Positions_eq by blast
qed

abbreviation prow :: "nat \<Rightarrow> int \<Rightarrow> int \<Rightarrow> real option \<Rightarrow> pnl_row" where
  "prow i t b p \<equiv> \<lparr>row_id = i, time = t, wallet = [1], mint = [2], balance = b, decimals = Some 0, usd_price = p\<rparr>"

theorem Positions_first_last_witness:
  "\<exists>ps pos. Positions id (\<lambda>_. False) [1] [prow 1 10 5 (Some 2), prow 2 20 8 (Some 3)] = Inr ps \<and> pos \<in> set ps \<and>
     DeltaUSDValue pos = Some 14"
  using Positions_first_last [of "[1]" "[2]" "[prow 1 10 5 (Some 2), prow 2 20 8 (Some 3)]" 0 0 2 3 id]
  by (simp add: to_uint64_def) blast

text \<open>A priced snapshot hides every later balance that has no price: however old it is, the latest
  snapshot \<open>Positions\<close> reads is the newest priced row, so a position that was closed afterwards still
  counts with its old balance.\<close>

theorem unpriced_change_hidden:
  assumes "r \<in> set t" and "wallet r = w" and "mint r = m" and "usd_price r \<noteq> None"
    and "\<forall>r' \<in> set t. wallet r' = w \<and> mint r' = m \<and> r' \<noteq> r \<longrightarrow> usd_price r' = None \<or> time r' < time r"
  shows "snapshotAt pkfb (\<lambda>_. False) w m ''DESC'' t = Inr (Some (scan_row pkfb w m r))"
proof -
  have "limit1 (\<lambda>r. (usd_price r = None, - time r)) (filter (\<lambda>r. wallet r = w \<and> mint r = m) t) = Some r"
    by (rule limit1_eqI) (use assms in \<open>auto simp: less_prod_def\<close>)
  then show ?thesis by (simp add: snapshotAt_def Let_def)
qed

theorem unpriced_change_hidden_witness:
  "snapshotAt id (\<lambda>_. False) [1] [2] ''DESC'' [prow 1 10 100 (Some 2), prow 2 1000 0 None] = Inr (Some (pos_snap 10 100 (Some 2)))"
  using unpriced_change_hidden [of "prow 1 10 100 (Some 2)" "[prow 1 10 100 (Some 2), prow 2 1000 0 None]" "[1]" "[2]" id]
  by (simp add: scan_row_def to_uint64_def)

end
