(* ===== verification/Wire.thy ===== *)
theory Wire
  imports Prelude
begin

text \<open>
  The messages between the Go brains and the bots they run: \<open>src/brain/xstockshealthv1/message.go\<close>,
  \<open>src/brain/marketwatchv1/message.go\<close> and \<open>src/brain/testperplatencyv1/message.go\<close>. A parser's result is
  \<open>None\<close> when an index or a slice would be out of range. Values of type \<open>float64\<close> are their bit patterns.
  A message is built by \<open>catmsg.FixedPair.From\<close>, which belongs to another module: the parameter \<open>From\<close>,
  whose failure the callers turn into a panic.
\<close>

section \<open>Health board\<close>

datatype wire_error = TooShort nat nat | NotAMultiple nat nat | WrongLength nat nat

text \<open>\<open>string(b)\<close> of a byte slice.\<close>

definition go_string :: "byte list \<Rightarrow> string" where
  "go_string bs = map (\<lambda>b. char_of (unat b)) bs"

definition KeyFlagWallet :: byte where "KeyFlagWallet = 3"

definition healthBoardEntrySize :: nat where
  "healthBoardEntrySize = 34"

definition tickerTable :: "string list" where
  "tickerTable = [''SPYx'', ''QQQx'', ''HOODx'', ''GOOGLx'', ''CRCLx'', ''TSLAx'', ''NVDAx'', ''AAPLx'', ''METAx'',
     ''MSTRx'', ''USDC'', ''cbBTC'', ''USDG'']"

definition tickerName :: "byte \<Rightarrow> string option" where
  "tickerName i = (if unat i \<ge> length tickerTable then Some ''?'' else go_index tickerTable (unat i))"

record health_entry =
  AccountID :: u64
  CollateralUSD :: float64
  DebtUSD :: float64
  HealthFactor :: float64
  CollateralTicker :: string
  DebtTicker :: string

definition parse_health_entry :: "byte list \<Rightarrow> nat \<Rightarrow> health_entry option" where
  "parse_health_entry rest base = do {
     i \<leftarrow> read_u64 rest base;
     c \<leftarrow> read_f64 rest (base + 8);
     d \<leftarrow> read_f64 rest (base + 16);
     h \<leftarrow> read_f64 rest (base + 24);
     cb \<leftarrow> go_index rest (base + 32);
     ct \<leftarrow> tickerName cb;
     db \<leftarrow> go_index rest (base + 33);
     dt \<leftarrow> tickerName db;
     Some \<lparr>AccountID = i, CollateralUSD = c, DebtUSD = d, HealthFactor = h, CollateralTicker = ct, DebtTicker = dt\<rparr> }"

definition ParseHealthBoard :: "byte list \<Rightarrow> (wire_error + u64 \<times> health_entry list) option" where
  "ParseHealthBoard value =
     (if length value < 8 then Some (Inl (TooShort (length value) 8))
      else do {
        totalTracked \<leftarrow> read_u64 value 0;
        rest \<leftarrow> go_slice_from 8 value;
        if length rest mod healthBoardEntrySize \<noteq> 0 then Some (Inl (NotAMultiple (length rest) healthBoardEntrySize))
        else do {
          let n = length rest div healthBoardEntrySize;
          entries \<leftarrow> those (map (\<lambda>i. parse_health_entry rest (i * healthBoardEntrySize)) [0..<n]);
          Some (Inr (totalTracked, entries)) } })"

section \<open>Liquidation events\<close>

definition liquidationEventSize :: nat where
  "liquidationEventSize = 8 + 8 + 8 + 8 + 8 + 8 + 8 + 64 + 1"

record liquidation_event =
  Obligation :: u64
  RepayTicker :: string
  WithdrawTicker :: string
  RepayUSD :: float64
  HealthFactorBefore :: float64
  EstimatedBonusUSD :: float64
  Slot :: u64
  Signature :: "byte list"
  SentOK :: bool

text \<open>The loop returns the prefix before the first zero byte, or all bytes.\<close>

fun trim_from :: "byte list \<Rightarrow> byte list \<Rightarrow> byte list" where
  "trim_from seen [] = seen"
| "trim_from seen (c # cs) = (if c = 0 then seen else trim_from (seen @ [c]) cs)"

definition trimTicker :: "byte list \<Rightarrow> string" where
  "trimTicker b = go_string (trim_from [] b)"

definition ParseLiquidationEvent :: "byte list \<Rightarrow> (wire_error + liquidation_event) option" where
  "ParseLiquidationEvent value =
     (if length value \<noteq> liquidationEventSize then Some (Inl (WrongLength (length value) liquidationEventSize))
      else do {
        sg \<leftarrow> go_slice 56 64 value;
        ob \<leftarrow> read_u64 value 0;
        rt \<leftarrow> go_slice 8 8 value;
        wt \<leftarrow> go_slice 16 8 value;
        ru \<leftarrow> read_f64 value 24;
        hf \<leftarrow> read_f64 value 32;
        eb \<leftarrow> read_f64 value 40;
        sl \<leftarrow> read_u64 value 48;
        ok \<leftarrow> go_index value 120;
        Some (Inr \<lparr>Obligation = ob, RepayTicker = trimTicker rt, WithdrawTicker = trimTicker wt, RepayUSD = ru,
          HealthFactorBefore = hf, EstimatedBonusUSD = eb, Slot = sl, Signature = sg, SentOK = (ok = 1)\<rparr>) })"

section \<open>DEX activity\<close>

definition dexActivityEntrySize :: nat where
  "dexActivityEntrySize = 1 + 8 + 1 + 8"

record dex_tick =
  Ticker :: string
  PriceUSD :: float64
  Up :: bool
  TSlot :: u64

definition parse_dex_tick :: "byte list \<Rightarrow> nat \<Rightarrow> dex_tick option" where
  "parse_dex_tick value base = do {
     tb \<leftarrow> go_index value base;
     t \<leftarrow> tickerName tb;
     p \<leftarrow> read_f64 value (base + 1);
     u \<leftarrow> go_index value (base + 9);
     s \<leftarrow> read_u64 value (base + 10);
     Some \<lparr>Ticker = t, PriceUSD = p, Up = (u = 1), TSlot = s\<rparr> }"

definition ParseDexActivity :: "byte list \<Rightarrow> (wire_error + dex_tick list) option" where
  "ParseDexActivity value =
     (if length value mod dexActivityEntrySize \<noteq> 0 then Some (Inl (NotAMultiple (length value) dexActivityEntrySize))
      else do {
        let n = length value div dexActivityEntrySize;
        out \<leftarrow> those (map (\<lambda>i. parse_dex_tick value (i * dexActivityEntrySize)) [0..<n]);
        Some (Inr out) })"

section \<open>Market overview\<close>

definition marketOverviewFixedSize :: nat where
  "marketOverviewFixedSize = 2 + 2 + 4 * 8 + 8 + 8 + 8"

definition marketOverviewTickerEntrySize :: nat where
  "marketOverviewTickerEntrySize = 1 + 8"

record arb_ticker_amount =
  ATicker :: string
  USD :: float64

record market_overview =
  ReservesMonitored :: u16
  PoolsMonitored :: u16
  RiskTierCounts :: "u64 list"
  ArbDetectedUSD :: float64
  LiquidationPnLUSD :: float64
  ArbDetectionCount :: u64
  ArbByTicker :: "arb_ticker_amount list"

definition parse_arb_ticker :: "byte list \<Rightarrow> nat \<Rightarrow> arb_ticker_amount option" where
  "parse_arb_ticker rest base = do {
     tb \<leftarrow> go_index rest base;
     t \<leftarrow> tickerName tb;
     u \<leftarrow> read_f64 rest (base + 1);
     Some \<lparr>ATicker = t, USD = u\<rparr> }"

definition ParseMarketOverview :: "byte list \<Rightarrow> (wire_error + market_overview) option" where
  "ParseMarketOverview value =
     (if length value < marketOverviewFixedSize then Some (Inl (TooShort (length value) marketOverviewFixedSize))
      else do {
        rest \<leftarrow> go_slice_from marketOverviewFixedSize value;
        if length rest mod marketOverviewTickerEntrySize \<noteq> 0
        then Some (Inl (NotAMultiple (length rest) marketOverviewTickerEntrySize))
        else do {
          r \<leftarrow> read_u16 value 0;
          p \<leftarrow> read_u16 value 2;
          tiers \<leftarrow> those (map (\<lambda>i. read_u64 value (4 + i * 8)) [0..<4]);
          a \<leftarrow> read_f64 value 36;
          l \<leftarrow> read_f64 value 44;
          c \<leftarrow> read_u64 value 52;
          let n = length rest div marketOverviewTickerEntrySize;
          arbs \<leftarrow> those (map (\<lambda>i. parse_arb_ticker rest (i * marketOverviewTickerEntrySize)) [0..<n]);
          Some (Inr \<lparr>ReservesMonitored = r, PoolsMonitored = p, RiskTierCounts = tiers, ArbDetectedUSD = a,
            LiquidationPnLUSD = l, ArbDetectionCount = c, ArbByTicker = arbs\<rparr>) } })"

definition DoWallet :: "(byte list \<Rightarrow> byte list \<Rightarrow> 'fp option) \<Rightarrow> byte list \<Rightarrow> 'fp option" where
  "DoWallet From key = (if length key \<noteq> 64 then None else From [KeyFlagWallet] key)"

section \<open>Market statistics\<close>

definition KeyFlagEchoRequest :: byte where "KeyFlagEchoRequest = 1"

definition DoEchoRequest :: "(byte list \<Rightarrow> byte list \<Rightarrow> 'fp option) \<Rightarrow> byte list \<Rightarrow> 'fp option" where
  "DoEchoRequest From payload = From [KeyFlagEchoRequest] payload"

definition TrackedSymbols :: "string list" where
  "TrackedSymbols = [''SOL'', ''JUP'', ''JTO'', ''BONK'', ''WIF'', ''RAY'']"

definition NSymbols :: nat where "NSymbols = length TrackedSymbols"

definition NPairs :: nat where "NPairs = NSymbols * (NSymbols - 1) div 2"

text \<open>Go's \<open>int\<close> as \<open>int\<close>; \<open>None\<close> when \<open>i \<ge> j\<close>.\<close>

definition PairIndex :: "int \<Rightarrow> int \<Rightarrow> int option" where
  "PairIndex i j =
     (if i \<ge> j then None
      else let idx = foldl (\<lambda>idx k. idx + (int NSymbols - 1 - k)) 0 [0..i - 1] in Some (idx + (j - i - 1)))"

definition marketStatsValueSize :: nat where
  "marketStatsValueSize = 8 + 8 + 8 + NSymbols * 8 + NSymbols * 8 + NPairs * 8"

record market_stats =
  MSlot :: u64
  UpdatesPerSec :: float64
  TotalUpdates :: u64
  Prices :: "float64 list"
  Volatilities :: "float64 list"
  Correlations :: "float64 list"

text \<open>\<open>0.0\<close> is the double with no bit set.\<close>

definition Correlation :: "market_stats \<Rightarrow> int \<Rightarrow> int \<Rightarrow> float64 option" where
  "Correlation s i j =
     (if i = j then Some (Float64frombits 0)
      else let (i, j) = (if i > j then (j, i) else (i, j))
           in do { k \<leftarrow> PairIndex i j; if k < 0 then None else go_index (Correlations s) (nat k) })"

text \<open>The closure \<open>u64\<close>: eight bytes shifted and or-ed together.\<close>

definition u64_bits :: "byte list \<Rightarrow> u64 option" where
  "u64_bits b = do {
     bs \<leftarrow> those (map (\<lambda>k. go_index b k) [0..<8]);
     Some (foldr (\<lambda>k acc. or (push_bit (8 * k) (ucast (bs ! k))) acc) [0..<8] 0) }"

definition stats_u64 :: "byte list \<Rightarrow> nat \<Rightarrow> u64 option" where
  "stats_u64 value i = do { s \<leftarrow> go_slice i 8 value; u64_bits s }"

definition stats_f64 :: "byte list \<Rightarrow> nat \<Rightarrow> float64 option" where
  "stats_f64 value i = do { x \<leftarrow> stats_u64 value i; Some (Float64frombits x) }"

definition Parse :: "byte list \<Rightarrow> (wire_error + nat \<times> market_stats) option" where
  "Parse value =
     (if length value < marketStatsValueSize then Some (Inl (TooShort (length value) marketStatsValueSize))
      else do {
        sl \<leftarrow> stats_u64 value 0;
        ups \<leftarrow> stats_f64 value 8;
        tot \<leftarrow> stats_u64 value 16;
        let i = 24;
        pr \<leftarrow> those (map (\<lambda>k. stats_f64 value (i + k * 8)) [0..<NSymbols]);
        let i = i + NSymbols * 8;
        vo \<leftarrow> those (map (\<lambda>k. stats_f64 value (i + k * 8)) [0..<NSymbols]);
        let i = i + NSymbols * 8;
        co \<leftarrow> those (map (\<lambda>k. stats_f64 value (i + k * 8)) [0..<NPairs]);
        let i = i + NPairs * 8;
        Some (Inr (i, \<lparr>MSlot = sl, UpdatesPerSec = ups, TotalUpdates = tot, Prices = pr, Volatilities = vo,
                       Correlations = co\<rparr>)) })"

section \<open>Target allocations\<close>

definition KeyFlagTargetAllocation :: byte where "KeyFlagTargetAllocation = 4"

text \<open>\<open>copy(dst, src)\<close> into a zeroed buffer of 16 bytes.\<close>

definition DoTargetAllocation ::
  "(byte list \<Rightarrow> byte list \<Rightarrow> 'fp option) \<Rightarrow> byte list \<Rightarrow> float64 \<Rightarrow> 'fp option" where
  "DoTargetAllocation From symbol allocationPct =
     (if length symbol > 16 then None
      else From [KeyFlagTargetAllocation]
             (symbol @ replicate (16 - length symbol) 0 @ put_u64 (Float64bits allocationPct)))"

section \<open>Totality of the parsers\<close>

definition ticker :: "byte \<Rightarrow> string" where
  "ticker i = (if unat i < 13 then tickerTable ! unat i else ''?'')"

lemma tickerName_total [go_reads]: "tickerName i = Some (ticker i)"
  by (simp add: tickerName_def ticker_def go_index_def tickerTable_def)

lemma record_in_range: "i < n div k \<Longrightarrow> n mod k = 0 \<Longrightarrow> 0 < k \<Longrightarrow> i * k + k \<le> (n :: nat)"
  by (metis Suc_leI add.commute add.right_neutral div_mult_mod_eq mult_Suc mult_le_mono1)

lemma parse_health_entry_in:
  "base + 34 \<le> length rest \<Longrightarrow> parse_health_entry rest base = Some
     \<lparr>AccountID = u64_at rest base, CollateralUSD = Float64frombits (u64_at rest (base + 8)),
      DebtUSD = Float64frombits (u64_at rest (base + 16)), HealthFactor = Float64frombits (u64_at rest (base + 24)),
      CollateralTicker = ticker (rest ! (base + 32)), DebtTicker = ticker (rest ! (base + 33))\<rparr>"
  by (simp add: parse_health_entry_def go_reads)

lemma parse_dex_tick_in:
  "base + 18 \<le> length v \<Longrightarrow> parse_dex_tick v base = Some
     \<lparr>Ticker = ticker (v ! base), PriceUSD = Float64frombits (u64_at v (base + 1)), Up = (v ! (base + 9) = 1),
      TSlot = u64_at v (base + 10)\<rparr>"
  by (simp add: parse_dex_tick_def go_reads)

lemma parse_arb_ticker_in:
  "base + 9 \<le> length rest \<Longrightarrow> parse_arb_ticker rest base = Some
     \<lparr>ATicker = ticker (rest ! base), USD = Float64frombits (u64_at rest (base + 1))\<rparr>"
  by (simp add: parse_arb_ticker_def go_reads)

lemma or_push_bit_byte: "or (ucast (b :: byte)) (push_bit 8 (x :: u64)) = ucast b + 256 * x"
proof -
  have "and (ucast b) (push_bit 8 x) = (0 :: u64)"
    by (rule bit_word_eqI) (auto simp: bit_simps dest: bit_imp_le_length)
  then have "or (ucast b) (push_bit 8 x) = ucast b + push_bit 8 x"
    by (simp add: disjunctive_add_eq_or)
  then show ?thesis by (simp add: push_bit_eq_mult mult.commute)
qed

lemma horner_le_nat: "foldr (\<lambda>b acc. or (ucast b) (push_bit 8 acc)) bs (0 :: u64) = of_nat (le_nat bs)"
  by (induction bs) (simp_all add: or_push_bit_byte)

lemma length_8: "length xs = 8 \<Longrightarrow> \<exists>b0 b1 b2 b3 b4 b5 b6 b7. xs = [b0, b1, b2, b3, b4, b5, b6, b7]"
  by (auto simp: numeral_eq_Suc length_Suc_conv)

lemma u64_bits_in [go_reads]:
  assumes "8 \<le> length b"
  shows "u64_bits b = Some (u64_at b 0)"
proof -
  have "those (map (\<lambda>k. go_index b k) [0..<8]) = Some (map (\<lambda>k. b ! k) [0..<8])"
    by (rule those_map_Some) (use assms in \<open>simp add: go_index_in\<close>)
  also have "map (\<lambda>k. b ! k) [0..<8] = take 8 b"
    using assms by (intro nth_equalityI) simp_all
  finally have t: "those (map (\<lambda>k. go_index b k) [0..<8]) = Some (take 8 b)" .
  have "length (take 8 b) = 8" using assms by simp
  then obtain b0 b1 b2 b3 b4 b5 b6 b7 where b: "take 8 b = [b0, b1, b2, b3, b4, b5, b6, b7]"
    using length_8 by blast
  have "foldr (\<lambda>k acc. or (push_bit (8 * k) (ucast (take 8 b ! k))) acc) [0..<8] (0 :: u64) =
    foldr (\<lambda>b acc. or (ucast b) (push_bit 8 acc)) (take 8 b) 0"
    unfolding b by (simp add: upt_rec push_bit_or push_bit_push_bit or.assoc)
  then show ?thesis by (simp add: u64_bits_def t horner_le_nat u64_at_def)
qed

lemma stats_u64_in [go_reads]: "i + 8 \<le> length v \<Longrightarrow> stats_u64 v i = Some (u64_at v i)"
  by (simp add: stats_u64_def go_slice_in u64_bits_in)

lemma stats_f64_in [go_reads]: "i + 8 \<le> length v \<Longrightarrow> stats_f64 v i = Some (Float64frombits (u64_at v i))"
  by (simp add: stats_f64_def stats_u64_in)

lemma ParseHealthBoard_reads:
  "8 \<le> length value \<Longrightarrow> (length value - 8) mod 34 = 0 \<Longrightarrow>
   ParseHealthBoard value = Some (Inr (u64_at value 0,
     map (\<lambda>i. the (parse_health_entry (drop 8 value) (i * 34))) [0..<(length value - 8) div 34]))"
proof -
  assume l: "8 \<le> length value" "(length value - 8) mod 34 = 0"
  have "those (map (\<lambda>i. parse_health_entry (drop 8 value) (i * 34)) [0..<(length value - 8) div 34]) =
    Some (map (\<lambda>i. the (parse_health_entry (drop 8 value) (i * 34))) [0..<(length value - 8) div 34])"
    by (rule those_map_Some) (use record_in_range [of _ "length value - 8" 34] l in \<open>auto simp: parse_health_entry_in\<close>)
  with l show ?thesis by (simp add: ParseHealthBoard_def healthBoardEntrySize_def go_reads Let_def)
qed

lemma ParseDexActivity_reads:
  "length value mod 18 = 0 \<Longrightarrow>
   ParseDexActivity value = Some (Inr (map (\<lambda>i. the (parse_dex_tick value (i * 18))) [0..<length value div 18]))"
proof -
  assume l: "length value mod 18 = 0"
  have "those (map (\<lambda>i. parse_dex_tick value (i * 18)) [0..<length value div 18]) =
    Some (map (\<lambda>i. the (parse_dex_tick value (i * 18))) [0..<length value div 18])"
    by (rule those_map_Some) (use record_in_range [of _ "length value" 18] l in \<open>auto simp: parse_dex_tick_in\<close>)
  with l show ?thesis by (simp add: ParseDexActivity_def dexActivityEntrySize_def Let_def)
qed

lemma ParseMarketOverview_reads:
  "60 \<le> length value \<Longrightarrow> (length value - 60) mod 9 = 0 \<Longrightarrow>
   ParseMarketOverview value = Some (Inr
     \<lparr>ReservesMonitored = u16_at value 0, PoolsMonitored = u16_at value 2,
      RiskTierCounts = map (\<lambda>i. u64_at value (4 + i * 8)) [0..<4],
      ArbDetectedUSD = Float64frombits (u64_at value 36), LiquidationPnLUSD = Float64frombits (u64_at value 44),
      ArbDetectionCount = u64_at value 52,
      ArbByTicker = map (\<lambda>i. the (parse_arb_ticker (drop 60 value) (i * 9))) [0..<(length value - 60) div 9]\<rparr>)"
proof -
  assume l: "60 \<le> length value" "(length value - 60) mod 9 = 0"
  have arbs: "those (map (\<lambda>i. parse_arb_ticker (drop 60 value) (i * 9)) [0..<(length value - 60) div 9]) =
    Some (map (\<lambda>i. the (parse_arb_ticker (drop 60 value) (i * 9))) [0..<(length value - 60) div 9])"
    by (rule those_map_Some) (use record_in_range [of _ "length value - 60" 9] l in \<open>auto simp: parse_arb_ticker_in\<close>)
  have tiers: "those (map (\<lambda>i. read_u64 value (4 + i * 8)) [0..<4]) = Some (map (\<lambda>i. u64_at value (4 + i * 8)) [0..<4])"
    by (rule those_map_Some) (use l in \<open>simp add: read_u64_in\<close>)
  show ?thesis
    using l unfolding ParseMarketOverview_def marketOverviewFixedSize_def marketOverviewTickerEntrySize_def
    by (simp add: go_reads Let_def arbs tiers del: upt_rec_numeral)
qed

lemma market_sizes: "NSymbols = 6" "NPairs = 15" "marketStatsValueSize = 240"
  by (simp_all add: NSymbols_def NPairs_def marketStatsValueSize_def TrackedSymbols_def)

lemma Parse_reads:
  assumes "240 \<le> length value"
  shows "Parse value = Some (Inr (240,
     \<lparr>MSlot = u64_at value 0, UpdatesPerSec = Float64frombits (u64_at value 8), TotalUpdates = u64_at value 16,
      Prices = map (\<lambda>k. Float64frombits (u64_at value (24 + k * 8))) [0..<6],
      Volatilities = map (\<lambda>k. Float64frombits (u64_at value (72 + k * 8))) [0..<6],
      Correlations = map (\<lambda>k. Float64frombits (u64_at value (120 + k * 8))) [0..<15]\<rparr>))"
proof -
  have rd: "those (map (\<lambda>k. stats_f64 value (i + k * 8)) [0..<n]) =
      Some (map (\<lambda>k. Float64frombits (u64_at value (i + k * 8))) [0..<n])" if "i + n * 8 \<le> 240" for i n
    by (rule those_map_Some) (use that assms in \<open>simp add: stats_f64_in\<close>)
  show ?thesis
    using assms rd [of 24 6] rd [of 72 6] rd [of 120 15]
    unfolding Parse_def market_sizes by (simp add: go_reads Let_def del: upt_rec_numeral)
qed

lemma ParseLiquidationEvent_total: "ParseLiquidationEvent value \<noteq> None"
  by (simp add: ParseLiquidationEvent_def liquidationEventSize_def go_reads)

lemma ParseHealthBoard_total: "ParseHealthBoard value \<noteq> None"
  using ParseHealthBoard_reads [of "value"]
  by (cases "8 \<le> length value \<and> (length value - 8) mod 34 = 0")
    (auto simp: ParseHealthBoard_def healthBoardEntrySize_def go_reads)

lemma ParseDexActivity_total: "ParseDexActivity value \<noteq> None"
  using ParseDexActivity_reads [of "value"]
  by (cases "length value mod 18 = 0") (auto simp: ParseDexActivity_def dexActivityEntrySize_def)

lemma ParseMarketOverview_total: "ParseMarketOverview value \<noteq> None"
  using ParseMarketOverview_reads [of "value"]
  by (cases "60 \<le> length value \<and> (length value - 60) mod 9 = 0")
    (auto simp: ParseMarketOverview_def marketOverviewFixedSize_def marketOverviewTickerEntrySize_def go_reads
      simp del: upt_rec_numeral)

lemma ParseStats_total: "Parse value \<noteq> None"
  using Parse_reads [of "value"] by (cases "240 \<le> length value") (auto simp: Parse_def market_sizes simp del: upt_rec_numeral)

lemmas parsers_total = ParseHealthBoard_total ParseLiquidationEvent_total ParseDexActivity_total ParseMarketOverview_total ParseStats_total

text \<open>None of the message parsers panics, on any bytes: every index and slice they take is guarded
  by their length checks.\<close>

theorem parsers_never_panic:
  "ParseHealthBoard value \<noteq> None \<and> ParseLiquidationEvent value \<noteq> None \<and> ParseDexActivity value \<noteq> None \<and>
   ParseMarketOverview value \<noteq> None \<and> Parse value \<noteq> None"
  by (intro conjI parsers_total)

section \<open>The encoded messages\<close>

text \<open>The wire layouts as the comments of \<open>message.go\<close> give them, as the bot writes them.\<close>

definition health_bytes :: "u64 \<times> u64 \<times> u64 \<times> u64 \<times> byte \<times> byte \<Rightarrow> byte list" where
  "health_bytes = (\<lambda>(i, c, d, h, ct, dt). put_u64 i @ put_u64 c @ put_u64 d @ put_u64 h @ [ct, dt])"

definition health_of :: "u64 \<times> u64 \<times> u64 \<times> u64 \<times> byte \<times> byte \<Rightarrow> health_entry" where
  "health_of = (\<lambda>(i, c, d, h, ct, dt).
     \<lparr>AccountID = i, CollateralUSD = Float64frombits c, DebtUSD = Float64frombits d, HealthFactor = Float64frombits h,
      CollateralTicker = ticker ct, DebtTicker = ticker dt\<rparr>)"

lemma length_health_bytes [simp, go_sizes]: "length (health_bytes e) = 34"
  by (cases e) (simp add: health_bytes_def)

lemma parse_health_bytes: "parse_health_entry (health_bytes e @ rest) 0 = Some (health_of e)"
  by (cases e) (simp add: parse_health_entry_in, simp add: health_bytes_def health_of_def wire_fields)

lemma parse_health_entry_drop:
  "base + 34 \<le> length rest \<Longrightarrow> parse_health_entry rest base = parse_health_entry (drop base rest) 0"
  by (simp add: parse_health_entry_in)

lemma parse_health_record:
  assumes "i < length es"
  shows "parse_health_entry (concat (map health_bytes es)) (i * 34) = Some (health_of (es ! i))"
proof -
  have "length (concat (map health_bytes es)) = 34 * length es" by (rule length_concat_const) simp
  then have le: "i * 34 + 34 \<le> length (concat (map health_bytes es))" using assms by simp
  have "\<exists>rest. drop (34 * i) (concat (map health_bytes es)) = health_bytes (es ! i) @ rest"
    by (rule drop_record [OF _ assms]) simp
  then obtain rest where d: "drop (i * 34) (concat (map health_bytes es)) = health_bytes (es ! i) @ rest"
    by (auto simp: mult.commute)
  show ?thesis unfolding parse_health_entry_drop [OF le] d by (rule parse_health_bytes)
qed

text \<open>A health board the bot encodes is decoded to the same total and the same entries in the same
  order, with every ticker index outside the table shown as an unknown ticker.\<close>

theorem ParseHealthBoard_decodes:
  "ParseHealthBoard (put_u64 tracked @ concat (map health_bytes es)) = Some (Inr (tracked, map health_of es))"
proof -
  let ?v = "put_u64 tracked @ concat (map health_bytes es)"
  have l: "length (concat (map health_bytes es)) = 34 * length es" by (rule length_concat_const) simp
  have "map (\<lambda>i. the (parse_health_entry (concat (map health_bytes es)) (i * 34))) [0..<length es] = map health_of es"
    by (rule nth_equalityI) (simp_all add: parse_health_record)
  then show ?thesis
    using ParseHealthBoard_reads [of ?v] l by (simp add: wire_fields)
qed

definition overview_bytes ::
  "u16 \<Rightarrow> u16 \<Rightarrow> u64 \<Rightarrow> u64 \<Rightarrow> u64 \<Rightarrow> u64 \<Rightarrow> u64 \<Rightarrow> u64 \<Rightarrow> u64 \<Rightarrow> (byte \<times> u64) list \<Rightarrow> byte list" where
  "overview_bytes r p t0 t1 t2 t3 a l c arbs =
     put_u16 r @ put_u16 p @ put_u64 t0 @ put_u64 t1 @ put_u64 t2 @ put_u64 t3 @ put_u64 a @ put_u64 l @ put_u64 c @
     concat (map (\<lambda>(t, usd). t # put_u64 usd) arbs)"

lemma parse_arb_record:
  assumes "i < length arbs"
  shows "parse_arb_ticker (concat (map (\<lambda>(t, usd). t # put_u64 usd) arbs)) (i * 9) =
    Some (case arbs ! i of (t, usd) \<Rightarrow> \<lparr>ATicker = ticker t, USD = Float64frombits usd\<rparr>)"
proof -
  let ?f = "\<lambda>(t, usd). t # put_u64 usd" and ?r = "concat (map (\<lambda>(t, usd). t # put_u64 usd) arbs)"
  obtain t usd where e: "arbs ! i = (t, usd)" by fastforce
  have l: "length ?r = 9 * length arbs" by (rule length_concat_const) auto
  then have le: "i * 9 + 9 \<le> length ?r" using assms by simp
  have "\<exists>rest. drop (9 * i) ?r = ?f (arbs ! i) @ rest" by (rule drop_record [OF _ assms]) auto
  then obtain rest where d: "drop (i * 9) ?r = t # put_u64 usd @ rest" by (auto simp: e mult.commute)
  have "?r ! (i * 9) = t" using arg_cong [OF d, of hd] le by (simp add: hd_drop_conv_nth)
  moreover have "u64_at ?r (i * 9 + 1) = usd"
    using arg_cong [OF d, of "\<lambda>bs. u64_at bs (Suc 0)"] by (simp add: wire_fields)
  ultimately show ?thesis using parse_arb_ticker_in [OF le] by (simp add: e)
qed

text \<open>A market overview the bot encodes (60 bytes and 9 per ticker) is decoded field by field.\<close>

theorem ParseMarketOverview_decodes:
  "ParseMarketOverview (overview_bytes r p t0 t1 t2 t3 a l c arbs) = Some (Inr
     \<lparr>ReservesMonitored = r, PoolsMonitored = p, RiskTierCounts = [t0, t1, t2, t3],
      ArbDetectedUSD = Float64frombits a, LiquidationPnLUSD = Float64frombits l, ArbDetectionCount = c,
      ArbByTicker = map (\<lambda>(t, usd). \<lparr>ATicker = ticker t, USD = Float64frombits usd\<rparr>) arbs\<rparr>)"
proof -
  let ?v = "overview_bytes r p t0 t1 t2 t3 a l c arbs" and ?r = "concat (map (\<lambda>(t, usd). t # put_u64 usd) arbs)"
  have len: "length ?r = 9 * length arbs" by (rule length_concat_const) auto
  then have lv: "length ?v = 60 + 9 * length arbs" by (simp add: overview_bytes_def)
  have dr: "drop 60 ?v = ?r" by (simp add: overview_bytes_def)
  have "map (\<lambda>i. the (parse_arb_ticker ?r (i * 9))) [0..<length arbs] =
    map (\<lambda>(t, usd). \<lparr>ATicker = ticker t, USD = Float64frombits usd\<rparr>) arbs"
    by (rule nth_equalityI) (simp_all add: parse_arb_record split: prod.split)
  moreover have "u16_at ?v 0 = r" "u16_at ?v 2 = p" "u64_at ?v 36 = a" "u64_at ?v 44 = l" "u64_at ?v 52 = c"
    by (simp_all add: overview_bytes_def wire_fields)
  moreover have "map (\<lambda>i. u64_at ?v (4 + i * 8)) [0..<4] = [t0, t1, t2, t3]"
    by (simp add: upt_rec overview_bytes_def wire_fields)
  ultimately show ?thesis
    using ParseMarketOverview_reads [of ?v] lv unfolding dr by simp
qed

lemma PairIndex_enumerates:
  "map (\<lambda>(i, j). PairIndex i j) (concat (map (\<lambda>i. map (\<lambda>j. (i, j)) [i + 1..5]) [0..5])) = map Some [0..14]"
  by code_simp

lemma Parse_correlations:
  assumes "Parse value = Some (Inr (n, s))"
  shows "Correlations s = map (\<lambda>k. Float64frombits (u64_at value (120 + k * 8))) [0..<15]"
proof (cases "240 \<le> length value")
  case True
  with Parse_reads assms show ?thesis by force
next
  case False
  with assms show ?thesis by (simp add: Parse_def market_sizes del: upt_rec_numeral)
qed

lemma PairIndex_range:
  assumes "0 \<le> i" and "i < j" and "j < 6"
  shows "\<exists>k < 15. PairIndex i j = Some (int k)"
proof -
  have "(i, j) \<in> set (concat (map (\<lambda>i. map (\<lambda>j. (i, j)) [i + 1..5]) [0..5]))"
    using assms by (auto intro!: bexI [of _ i])
  then have "PairIndex i j \<in> set (map (\<lambda>(i, j). PairIndex i j) (concat (map (\<lambda>i. map (\<lambda>j. (i, j)) [i + 1..5]) [0..5])))"
    by force
  then obtain k where "PairIndex i j = Some k" "0 \<le> k" "k \<le> 14" unfolding PairIndex_enumerates by auto
  then show ?thesis by (intro exI [of _ "nat k"]) auto
qed

text \<open>\<open>PairIndex\<close> numbers the pairs of symbols row by row from 0 to 14 without a gap, so that every
  correlation has its own slot; \<open>Correlation\<close> reads that slot of the message, in either order of its
  arguments, and never panics on tracked symbols.\<close>

theorem Correlation_reads_pair:
  assumes "Parse value = Some (Inr (n, s))" and "0 \<le> i" and "i < j" and "j < 6"
  shows "map (\<lambda>(i, j). PairIndex i j) (concat (map (\<lambda>i. map (\<lambda>j. (i, j)) [i + 1..5]) [0..5])) = map Some [0..14] \<and>
    (\<exists>k < 15. PairIndex i j = Some (int k) \<and>
      Correlation s i j = Some (Float64frombits (u64_at value (120 + k * 8))) \<and>
      Correlation s j i = Correlation s i j)"
proof -
  obtain k where k: "k < 15" "PairIndex i j = Some (int k)" using PairIndex_range [OF assms(2-4)] by blast
  then have "Correlation s i j = Some (Float64frombits (u64_at value (120 + k * 8)))"
    using assms(3) Parse_correlations [OF assms(1)]
    by (simp add: Correlation_def go_index_def del: upt_rec_numeral)
  moreover have "Correlation s j i = Correlation s i j" using assms(3) by (simp add: Correlation_def)
  ultimately show ?thesis using k PairIndex_enumerates by blast
qed

theorem Correlation_reads_pair_witness:
  "\<exists>s. Parse (replicate 240 0) = Some (Inr (240, s)) \<and> Correlation s 5 4 = Correlation s 4 5"
proof -
  obtain s where s: "Parse (replicate 240 0) = Some (Inr (240, s))"
    using Parse_reads [of "replicate 240 0"] by simp
  show ?thesis using Correlation_reads_pair [OF s, of 4 5] s by auto
qed

section \<open>Target allocations\<close>

text \<open>The message of \<open>DoTargetAllocation\<close>: 24 bytes, the symbol in the first 16, the value after it; no
  symbol of at most 16 bytes is cut.\<close>

lemma DoTargetAllocation_layout:
  assumes "length symbol \<le> 16"
  shows "\<exists>buf. DoTargetAllocation From symbol pct = From [4] buf \<and> length buf = 24 \<and>
    take (length symbol) buf = symbol \<and> u64_at buf 16 = Float64bits pct"
  using assms
  by (intro exI [of _ "symbol @ replicate (16 - length symbol) 0 @ put_u64 (Float64bits pct)"])
    (simp add: DoTargetAllocation_def KeyFlagTargetAllocation_def wire_fields)

text \<open>A ticker is read back up to its padding.\<close>

lemma trim_from_append: "0 \<notin> set xs \<Longrightarrow> trim_from seen (xs @ ys) = trim_from (seen @ xs) ys"
  by (induction xs arbitrary: seen) auto

lemma trimTicker_padded:
  assumes "0 \<notin> set xs"
  shows "trimTicker (xs @ replicate n 0) = go_string xs"
proof -
  have "trim_from [] (xs @ replicate n 0) = trim_from xs (replicate n 0)" by (simp add: trim_from_append [OF assms])
  also have "\<dots> = xs" by (cases n) simp_all
  finally have "trim_from [] (xs @ replicate n 0) = xs" .
  then show ?thesis by (simp add: trimTicker_def)
qed

end
