(* ===== verification/Bundler.thy ===== *)
theory Bundler
  imports Prelude
begin

text \<open>
  Bundler tips (\<open>src/bundler\<close>): the message that carries a bundler's tip state to the bot
  (\<open>message.go\<close>), the table that remembers the last good state (\<open>store.go\<close>), the broadcaster that polls
  the bundlers and falls back to that table, and the Astralane and Jito implementations of the
  interface. The result of a bundler's \<open>Tip\<close> and \<open>Distribution\<close> calls, and whether a statement on the
  database fails, are inputs; the messages sent are collected in order. The table is a map from
  the bundler code, its primary key.
\<close>

section \<open>Tip updates\<close>

type_synonym lamports5 = "u64 \<times> u64 \<times> u64 \<times> u64 \<times> u64"

record tip_update =
  BundlerCode :: byte
  TUp :: bool
  Addresses :: "pubkey list"
  Distribution :: lamports5

definition KeyFlagBundlerTipUpdate :: byte where
  "KeyFlagBundlerTipUpdate = 201"

definition lamports_list :: "lamports5 \<Rightarrow> u64 list" where
  "lamports_list = (\<lambda>(p25, p50, p75, p95, p99). [p25, p50, p75, p95, p99])"

text \<open>The bytes written into the value buffer, field after field.\<close>

definition tip_value :: "tip_update \<Rightarrow> byte list" where
  "tip_value u =
     [BundlerCode u] @ [if TUp u then 1 else 0] @ put_u16 (of_nat (length (Addresses u))) @
     concat (Addresses u) @ concat (map put_u64 (lamports_list (Distribution u)))"

definition DoBundlerTipUpdate :: "(byte list \<Rightarrow> byte list \<Rightarrow> 'fp option) \<Rightarrow> tip_update \<Rightarrow> 'fp option" where
  "DoBundlerTipUpdate From u = From [KeyFlagBundlerTipUpdate] (tip_value u)"

section \<open>The table of tips\<close>

record tip_row =
  addresses :: "byte list"
  p25 :: int
  p50 :: int
  p75 :: int
  p95 :: int
  p99 :: int

type_synonym tip_table = "byte \<rightharpoonup> tip_row"

datatype tip_error = ExecFailed | HighBitSet | QueryFailed | ScanFailed | BadAddresses nat | CtxDone | NoTipSnapshotYet | NotImplemented

text \<open>\<open>database/sql\<close> rejects an unsigned argument with its high bit set.\<close>

definition RecordTipUpdate :: "bool \<Rightarrow> tip_update \<Rightarrow> tip_table \<Rightarrow> tip_error option \<times> tip_table" where
  "RecordTipUpdate execFails u db =
     (if \<exists>x \<in> set (lamports_list (Distribution u)). 2 ^ 63 \<le> x then (Some HighBitSet, db)
      else if execFails then (Some ExecFailed, db)
      else case Distribution u of (a, b, c, d, e) \<Rightarrow>
        (None, db(BundlerCode u \<mapsto> \<lparr>addresses = concat (Addresses u), p25 = uint a, p50 = uint b, p75 = uint c,
                                    p95 = uint d, p99 = uint e\<rparr>)))"

text \<open>\<open>for i := 0; i < len; i += 32\<close>\<close>

function chunks32 :: "byte list \<Rightarrow> pubkey list" where
  "chunks32 bs = (if bs = [] then [] else take 32 bs # chunks32 (drop 32 bs))"
  by pat_completeness auto
termination by (relation "measure length") auto

declare chunks32.simps [simp del]

definition LoadTipUpdate :: "bool \<Rightarrow> tip_table \<Rightarrow> byte \<Rightarrow> tip_error + tip_update option" where
  "LoadTipUpdate queryFails db code =
     (if queryFails then Inl QueryFailed
      else case db code of
        None \<Rightarrow> Inr None
      | Some r \<Rightarrow>
          if p25 r < 0 \<or> p50 r < 0 \<or> p75 r < 0 \<or> p95 r < 0 \<or> p99 r < 0 then Inl ScanFailed
          else if length (addresses r) mod 32 \<noteq> 0 then Inl (BadAddresses (length (addresses r)))
          else Inr (Some \<lparr>BundlerCode = code, TUp = True, Addresses = chunks32 (addresses r),
                 Distribution = (word_of_int (p25 r), word_of_int (p50 r), word_of_int (p75 r),
                                 word_of_int (p95 r), word_of_int (p99 r))\<rparr>))"

section \<open>The broadcaster\<close>

text \<open>What one bundler answers to one poll, and which database statements fail during it.\<close>

record answer =
  acode :: byte
  aTip :: "tip_error + pubkey list"
  aDist :: "tip_error + lamports5"
  aQueryFails :: bool
  aExecFails :: bool

text \<open>The closure \<open>fallback\<close>; \<open>db\<close> is \<open>None\<close> for a nil database.\<close>

definition fallback :: "bool \<Rightarrow> tip_table option \<Rightarrow> byte \<Rightarrow> tip_update option" where
  "fallback queryFails db code =
     (case db of
        None \<Rightarrow> None
      | Some t \<Rightarrow> (case LoadTipUpdate queryFails t code of Inl e \<Rightarrow> None | Inr u \<Rightarrow> u))"

definition down :: "byte \<Rightarrow> tip_update" where
  "down code = \<lparr>BundlerCode = code, TUp = False, Addresses = [], Distribution = (0, 0, 0, 0, 0)\<rparr>"

definition fallback_or_down :: "bool \<Rightarrow> tip_table option \<Rightarrow> byte \<Rightarrow> tip_update" where
  "fallback_or_down queryFails db code = (case fallback queryFails db code of None \<Rightarrow> down code | Some u \<Rightarrow> u)"

definition poll_one :: "answer \<Rightarrow> tip_table option \<times> tip_update list \<Rightarrow> tip_table option \<times> tip_update list" where
  "poll_one a st =
     (case st of (db, sent) \<Rightarrow>
        case aTip a of
          Inl e \<Rightarrow> (db, sent @ [fallback_or_down (aQueryFails a) db (acode a)])
        | Inr addrs \<Rightarrow>
            (case aDist a of
               Inl e \<Rightarrow> (db, sent @ [fallback_or_down (aQueryFails a) db (acode a)])
             | Inr ds \<Rightarrow>
                 let u = \<lparr>BundlerCode = acode a, TUp = True, Addresses = addrs, Distribution = ds\<rparr>
                 in (map_option (\<lambda>t. snd (RecordTipUpdate (aExecFails a) u t)) db, sent @ [u])))"

definition poll :: "answer list \<Rightarrow> tip_table option \<times> tip_update list \<Rightarrow> tip_table option \<times> tip_update list" where
  "poll answers st = fold poll_one answers st"

text \<open>One poll at the start and one per tick until the context ends.\<close>

definition RunTipBroadcaster :: "answer list list \<Rightarrow> tip_table option \<Rightarrow> tip_table option \<times> tip_update list" where
  "RunTipBroadcaster rounds db = fold poll rounds (db, [])"

section \<open>Astralane and Jito\<close>

record internal =
  distribution :: lamports5
  haveSnapshot :: bool

definition applySnapshot :: "lamports5 \<Rightarrow> internal \<Rightarrow> internal" where
  "applySnapshot s st = st\<lparr>distribution := s, haveSnapshot := True\<rparr>"

text \<open>\<open>loopInternal\<close> runs the requests one after the other; here those of \<open>runTipStream\<close>.\<close>

definition loopInternal :: "lamports5 list \<Rightarrow> internal" where
  "loopInternal snapshots = fold applySnapshot snapshots \<lparr>distribution = (0, 0, 0, 0, 0), haveSnapshot = False\<rparr>"

definition astralane_Tip :: "pubkey list \<Rightarrow> tip_error + pubkey list" where
  "astralane_Tip listTipAddress = Inr listTipAddress"

definition astralane_Distribution :: "bool \<Rightarrow> internal \<Rightarrow> tip_error + lamports5" where
  "astralane_Distribution ctxDone st =
     (if ctxDone then Inl CtxDone
      else if \<not> haveSnapshot st then Inl NoTipSnapshotYet
      else Inr (distribution st))"

definition jito_Tip :: "tip_error + pubkey list" where "jito_Tip = Inl NotImplemented"

definition jito_Distribution :: "tip_error + lamports5" where "jito_Distribution = Inl NotImplemented"

definition astralane_answer :: "pubkey list \<Rightarrow> bool \<Rightarrow> bool \<Rightarrow> bool \<Rightarrow> internal \<Rightarrow> answer" where
  "astralane_answer tips ctxDone qf ef st =
     \<lparr>acode = 1, aTip = astralane_Tip tips, aDist = astralane_Distribution ctxDone st, aQueryFails = qf, aExecFails = ef\<rparr>"

definition jito_answer :: "bool \<Rightarrow> bool \<Rightarrow> answer" where
  "jito_answer qf ef = \<lparr>acode = 2, aTip = jito_Tip, aDist = jito_Distribution, aQueryFails = qf, aExecFails = ef\<rparr>"

section \<open>Round trips\<close>

lemma chunks32_concat: "\<forall>a \<in> set as. length a = 32 \<Longrightarrow> chunks32 (concat as) = as"
proof (induction as)
  case Nil
  then show ?case by (simp add: chunks32.simps)
next
  case (Cons a as)
  then have a: "length a = 32" by simp
  then have "a @ concat as \<noteq> []" by auto
  then have "chunks32 (a @ concat as) = take 32 (a @ concat as) # chunks32 (drop 32 (a @ concat as))"
    by (simp add: chunks32.simps [of "a @ concat as"])
  with Cons a show ?case by simp
qed

lemma length_concat32: "\<forall>a \<in> set as. length a = 32 \<Longrightarrow> length (concat as) = 32 * length as"
  using length_concat_const [of as id 32] by simp

definition storable :: "tip_update \<Rightarrow> bool" where
  "storable u \<longleftrightarrow> (\<forall>a \<in> set (Addresses u). length a = 32) \<and> (\<forall>x \<in> set (lamports_list (Distribution u)). x < 2 ^ 63)"

lemma record_load:
  assumes "storable u" and "TUp u"
  shows "fst (RecordTipUpdate False u db) = None \<and>
    LoadTipUpdate False (snd (RecordTipUpdate False u db)) (BundlerCode u) = Inr (Some u) \<and>
    (\<forall>c. c \<noteq> BundlerCode u \<longrightarrow> LoadTipUpdate False (snd (RecordTipUpdate False u db)) c = LoadTipUpdate False db c)"
proof -
  obtain a b c d e where dist: "Distribution u = (a, b, c, d, e)" by (cases "Distribution u")
  have no: "\<not> (\<exists>x \<in> set (lamports_list (Distribution u)). 2 ^ 63 \<le> x)"
    using assms(1) by (auto simp: storable_def not_le)
  have addr: "chunks32 (concat (Addresses u)) = Addresses u" "length (concat (Addresses u)) mod 32 = 0"
    using assms(1) by (simp_all add: storable_def chunks32_concat length_concat32)
  have rec: "RecordTipUpdate False u db = (None, db(BundlerCode u \<mapsto>
      \<lparr>addresses = concat (Addresses u), p25 = uint a, p50 = uint b, p75 = uint c, p95 = uint d, p99 = uint e\<rparr>))"
    unfolding RecordTipUpdate_def using no dist by simp
  show ?thesis unfolding rec using addr dist assms(2) by (simp add: LoadTipUpdate_def)
qed

text \<open>What \<open>RecordTipUpdate\<close> stores, \<open>LoadTipUpdate\<close> gives back: the same addresses and percentiles,
  marked up; the rows of other bundlers are untouched.\<close>

theorem Load_Record:
  assumes "storable u" and "TUp u"
  shows "fst (RecordTipUpdate False u db) = None \<and>
    LoadTipUpdate False (snd (RecordTipUpdate False u db)) (BundlerCode u) = Inr (Some u) \<and>
    (\<forall>c. c \<noteq> BundlerCode u \<longrightarrow> LoadTipUpdate False (snd (RecordTipUpdate False u db)) c = LoadTipUpdate False db c)"
  using assms by (rule record_load)

abbreviation tip1 :: tip_update where
  "tip1 \<equiv> \<lparr>BundlerCode = 1, TUp = True, Addresses = [replicate 32 7], Distribution = (1, 2, 3, 4, 5)\<rparr>"

theorem Load_Record_witness:
  "LoadTipUpdate False (snd (RecordTipUpdate False tip1 Map.empty)) 1 = Inr (Some tip1)"
  using Load_Record [of tip1 Map.empty] by (simp add: storable_def lamports_list_def)

section \<open>What the bot receives\<close>

text \<open>The reader of the message, after the layout in the comment of \<open>DoBundlerTipUpdate\<close>.\<close>

definition tip_of_bytes :: "byte list \<Rightarrow> tip_update" where
  "tip_of_bytes bs =
     (let n = unat (u16_at bs 2); d = 4 + 32 * n
      in \<lparr>BundlerCode = bs ! 0, TUp = (bs ! 1 = 1), Addresses = map (\<lambda>i. take 32 (drop (4 + 32 * i) bs)) [0..<n],
          Distribution = (u64_at bs d, u64_at bs (d + 8), u64_at bs (d + 16), u64_at bs (d + 24), u64_at bs (d + 32))\<rparr>)"

text \<open>The tip message is decoded to the update it was built from, for every number of addresses
  the 16-bit count can hold.\<close>

theorem tip_value_decodes:
  assumes "\<forall>a \<in> set (Addresses u). length a = 32" and "length (Addresses u) < 65536"
  shows "tip_of_bytes (tip_value u) = u \<and> length (tip_value u) = 44 + 32 * length (Addresses u)"
proof -
  obtain a b c d e where dist: "Distribution u = (a, b, c, d, e)" by (cases "Distribution u")
  let ?as = "Addresses u" and ?n = "length (Addresses u)"
  let ?h = "[BundlerCode u] @ [if TUp u then 1 else 0] @ put_u16 (of_nat ?n)"
  let ?t = "put_u64 a @ put_u64 b @ put_u64 c @ put_u64 d @ put_u64 e"
  have v: "tip_value u = ?h @ concat ?as @ ?t" by (simp add: tip_value_def dist lamports_list_def)
  have lc: "length (concat ?as) = 32 * ?n" using assms(1) by (rule length_concat32)
  have "u16_at (tip_value u) 2 = of_nat ?n"
    unfolding v using u16_at_append [of "[BundlerCode u, if TUp u then 1 else 0]" 2] by (simp add: wire_fields)
  then have n: "unat (u16_at (tip_value u) 2) = ?n" using assms(2) by (simp add: unat_of_nat)
  have drop4: "drop (4 + k) (tip_value u) = drop k (concat ?as @ ?t)" for k
  proof -
    have "drop (4 + k) (h @ xs) = drop k xs" if "length h = 4" for h xs :: "byte list" using that by simp
    from this [of ?h "concat ?as @ ?t"] show ?thesis unfolding v by simp
  qed
  have addr: "take 32 (drop (4 + 32 * i) (tip_value u)) = ?as ! i" if lt: "i < ?n" for i
  proof -
    obtain rest where "drop (32 * i) (concat ?as) = ?as ! i @ rest"
      using drop_record [of ?as id 32 i] assms(1) lt by auto
    moreover have "32 * i \<le> length (concat ?as)" using lt lc by simp
    moreover have "length (?as ! i) = 32" using assms(1) lt by simp
    ultimately show ?thesis unfolding drop4 by simp
  qed
  then have "map (\<lambda>i. take 32 (drop (4 + 32 * i) (tip_value u))) [0..<?n] = ?as"
    by (intro nth_equalityI) simp_all
  moreover have at: "u64_at (tip_value u) (4 + 32 * ?n + k) = u64_at ?t k" for k
    by (simp add: u64_at_def add.assoc lc drop4)
  then have "u64_at (tip_value u) (4 + 32 * ?n) = a" "u64_at (tip_value u) (4 + 32 * ?n + 8) = b"
    "u64_at (tip_value u) (4 + 32 * ?n + 16) = c" "u64_at (tip_value u) (4 + 32 * ?n + 24) = d"
    "u64_at (tip_value u) (4 + 32 * ?n + 32) = e"
    using at [of 0] at [of 8] at [of 16] at [of 24] at [of 32] by (simp_all add: wire_fields)
  moreover have "tip_value u ! 0 = BundlerCode u" "tip_value u ! 1 = 1 \<longleftrightarrow> TUp u" by (simp_all add: v)
  moreover have "length (tip_value u) = 44 + 32 * ?n" unfolding v by (simp add: lc)
  ultimately show ?thesis unfolding tip_of_bytes_def n Let_def using dist by simp
qed

theorem tip_value_decodes_witness: "tip_of_bytes (tip_value tip1) = tip1"
  using tip_value_decodes [of tip1] by simp

section \<open>The broadcaster sends the last good state\<close>

definition good :: "answer \<Rightarrow> tip_update option" where
  "good a =
     (case (aTip a, aDist a) of
        (Inr as, Inr ds) \<Rightarrow> Some \<lparr>BundlerCode = acode a, TUp = True, Addresses = as, Distribution = ds\<rparr>
      | _ \<Rightarrow> None)"

definition reliable :: "answer \<Rightarrow> bool" where
  "reliable a \<longleftrightarrow> \<not> aQueryFails a \<and> \<not> aExecFails a \<and> (case good a of None \<Rightarrow> True | Some u \<Rightarrow> storable u)"

text \<open>The abstract state: the last good update of a bundler, after a sequence of answers.\<close>

definition last_good :: "answer list \<Rightarrow> byte \<Rightarrow> tip_update option" where
  "last_good as c = fold (\<lambda>a g. if acode a = c \<and> good a \<noteq> None then good a else g) as None"

definition tip_state :: "answer list \<Rightarrow> byte \<Rightarrow> tip_update" where
  "tip_state as c = (case last_good as c of None \<Rightarrow> down c | Some u \<Rightarrow> u)"

lemma good_code: "good a = Some u \<Longrightarrow> BundlerCode u = acode a \<and> TUp u"
  by (auto simp: good_def split: sum.splits)

lemma poll_one_cases:
  "poll_one a (Some t, sent) =
     (case good a of
        None \<Rightarrow> (Some t, sent @ [fallback_or_down (aQueryFails a) (Some t) (acode a)])
      | Some u \<Rightarrow> (Some (snd (RecordTipUpdate (aExecFails a) u t)), sent @ [u]))"
  by (auto simp: poll_one_def good_def Let_def split: sum.split)

lemma RunTipBroadcaster_concat: "RunTipBroadcaster rounds db = fold poll_one (concat rounds) (db, [])"
proof -
  have "fold poll rounds st = fold poll_one (concat rounds) st" for st
    by (induction rounds arbitrary: st) (simp_all add: poll_def)
  then show ?thesis by (simp add: RunTipBroadcaster_def)
qed

lemma fold_poll_one:
  assumes "\<forall>a \<in> set as. reliable a"
  shows "\<exists>t. fold poll_one as (Some Map.empty, []) =
      (Some t, map (\<lambda>k. tip_state (take (Suc k) as) (acode (as ! k))) [0..<length as]) \<and>
    (\<forall>c. LoadTipUpdate False t c = Inr (last_good as c))"
  using assms
proof (induction as rule: rev_induct)
  case Nil
  then show ?case by (simp add: LoadTipUpdate_def last_good_def)
next
  case (snoc a as)
  then obtain t where t: "fold poll_one as (Some Map.empty, []) =
      (Some t, map (\<lambda>k. tip_state (take (Suc k) as) (acode (as ! k))) [0..<length as])"
    "\<And>c. LoadTipUpdate False t c = Inr (last_good as c)" by auto
  have r: "\<not> aQueryFails a" "\<not> aExecFails a" "case good a of None \<Rightarrow> True | Some u \<Rightarrow> storable u"
    using snoc.prems by (simp_all add: reliable_def)
  have upto: "map (\<lambda>k. tip_state (take (Suc k) (as @ [a])) (acode ((as @ [a]) ! k))) [0..<length as] =
    map (\<lambda>k. tip_state (take (Suc k) as) (acode (as ! k))) [0..<length as]"
    by (simp add: nth_append)
  show ?case
  proof (cases "good a")
    case None
    then have g: "last_good (as @ [a]) c = last_good as c" for c by (simp add: last_good_def)
    have "fallback_or_down False (Some t) (acode a) = tip_state (as @ [a]) (acode a)"
      using t(2) g by (simp add: fallback_or_down_def fallback_def tip_state_def)
    with None t g r upto show ?thesis by (simp add: poll_one_cases)
  next
    case (Some u)
    then have u: "BundlerCode u = acode a" "TUp u" "storable u" using r(3) good_code by auto
    have g: "last_good (as @ [a]) c = (if c = acode a then Some u else last_good as c)" for c
      using Some by (simp add: last_good_def)
    let ?t = "snd (RecordTipUpdate False u t)"
    have "LoadTipUpdate False ?t c = Inr (last_good (as @ [a]) c)" for c
      using record_load [OF u(3,2), of t] t(2) g u(1) by auto
    moreover have "tip_state (as @ [a]) (acode a) = u" using g by (simp add: tip_state_def)
    ultimately show ?thesis using Some t r upto by (simp add: poll_one_cases)
  qed
qed

text \<open>(C11) Whatever the bundlers answer, every update the broadcaster sends is the last good state of
  its bundler so far; a bundler is reported down only while it has never produced one.\<close>

theorem broadcaster_sends_last_good:
  assumes "\<forall>a \<in> set (concat rounds). reliable a"
  shows "snd (RunTipBroadcaster rounds (Some Map.empty)) =
    map (\<lambda>k. tip_state (take (Suc k) (concat rounds)) (acode (concat rounds ! k))) [0..<length (concat rounds)]"
  using fold_poll_one [OF assms] unfolding RunTipBroadcaster_concat by auto

theorem broadcaster_sends_last_good_witness:
  "snd (RunTipBroadcaster
     [[jito_answer False False, astralane_answer [replicate 32 7] False False False (loopInternal [(1, 2, 3, 4, 5)])],
      [astralane_answer [replicate 32 7] True False False (loopInternal [])]] (Some Map.empty)) = [down 2, tip1, tip1]"
  using broadcaster_sends_last_good [of
     "[[jito_answer False False, astralane_answer [replicate 32 7] False False False (loopInternal [(1, 2, 3, 4, 5)])],
      [astralane_answer [replicate 32 7] True False False (loopInternal [])]]"]
  by (simp add: jito_answer_def astralane_answer_def reliable_def good_def storable_def lamports_list_def jito_Tip_def
      jito_Distribution_def astralane_Tip_def astralane_Distribution_def loopInternal_def applySnapshot_def tip_state_def
      last_good_def upt_rec)

text \<open>Astralane reports the snapshot that arrived last, and an error as long as none has.\<close>

lemma astralane_latest_snapshot:
  "astralane_Distribution False (loopInternal ss) = (if ss = [] then Inl NoTipSnapshotYet else Inr (last ss))"
  by (cases ss rule: rev_cases) (simp_all add: loopInternal_def applySnapshot_def astralane_Distribution_def)

end
