(* ===== verification/Accounts.thy ===== *)
theory Accounts
  imports Prelude "HOL-Library.Multiset"
begin

text \<open>
  What the pool prefetchers under \<open>src/prefetch\<close> share: accounts as the graph delivers them, the field
  readers every parser defines for itself (\<open>u8\<close>, \<open>u16\<close>, \<open>u32\<close>, \<open>i32\<close>, \<open>u64\<close>, \<open>u128\<close>, \<open>pubkey\<close>), SQL tables with a
  primary key, the freshness window of a row, and the tracker of mint decimals
  (\<open>src/prefetch/mintinfo/mintinfo.go\<close>).

  A table is an association list in scan order. \<open>INSERT OR REPLACE\<close> deletes the row of the key and
  appends the new one; \<open>UPDATE ... WHERE pubkey = ?\<close> changes the row in place.
\<close>

section \<open>Accounts\<close>

record account =
  Pubkey :: pubkey
  Owner :: pubkey
  HSlot :: u64
  DataSize :: nat
  Deleted :: bool
  Data :: "byte list"

text \<open>The fields of an SPL token account that the handlers read.\<close>

record token_account =
  TMint :: pubkey
  TAmount :: u64

section \<open>Field readers\<close>

record u128 =
  Lo :: u64
  Hi :: u64

definition read_u32 :: "byte list \<Rightarrow> nat \<Rightarrow> u32 option" where
  "read_u32 bs off = do { s \<leftarrow> go_slice off 4 bs; le_u32 s }"

text \<open>\<open>int32(x)\<close>\<close>

definition read_i32 :: "byte list \<Rightarrow> nat \<Rightarrow> int option" where
  "read_i32 bs off = do { x \<leftarrow> read_u32 bs off; Some (sint x) }"

definition read_u128 :: "byte list \<Rightarrow> nat \<Rightarrow> u128 option" where
  "read_u128 bs off = do { lo \<leftarrow> read_u64 bs off; hi \<leftarrow> read_u64 bs (off + 8); Some \<lparr>Lo = lo, Hi = hi\<rparr> }"

definition read_pubkey :: "(byte list \<Rightarrow> pubkey) \<Rightarrow> byte list \<Rightarrow> nat \<Rightarrow> pubkey option" where
  "read_pubkey pkfb bs off = do { s \<leftarrow> go_slice off 32 bs; Some (pkfb s) }"

definition key_at :: "(byte list \<Rightarrow> pubkey) \<Rightarrow> byte list \<Rightarrow> nat \<Rightarrow> pubkey" where
  "key_at pkfb bs off = pkfb (take 32 (drop off bs))"

definition u32_at :: "byte list \<Rightarrow> nat \<Rightarrow> u32" where
  "u32_at bs off = of_nat (le_nat (take 4 (drop off bs)))"

lemma read_u32_in [go_reads]: "off + 4 \<le> length bs \<Longrightarrow> read_u32 bs off = Some (u32_at bs off)"
  by (auto simp: read_u32_def go_slice_in le_u32_def u32_at_def)

lemma read_i32_in [go_reads]: "off + 4 \<le> length bs \<Longrightarrow> read_i32 bs off = Some (sint (u32_at bs off))"
  by (simp add: read_i32_def read_u32_in)

lemma read_u128_in [go_reads]:
  "off + 16 \<le> length bs \<Longrightarrow> read_u128 bs off = Some \<lparr>Lo = u64_at bs off, Hi = u64_at bs (off + 8)\<rparr>"
  by (simp add: read_u128_def read_u64_in)

lemma read_pubkey_in [go_reads]: "off + 32 \<le> length bs \<Longrightarrow> read_pubkey pkfb bs off = Some (key_at pkfb bs off)"
  by (simp add: read_pubkey_def go_slice_in key_at_def)

section \<open>Tables\<close>

definition replace_row :: "'k \<Rightarrow> 'r \<Rightarrow> ('k \<times> 'r) list \<Rightarrow> ('k \<times> 'r) list" where
  "replace_row k r t = filter (\<lambda>p. fst p \<noteq> k) t @ [(k, r)]"

definition update_row :: "'k \<Rightarrow> ('r \<Rightarrow> 'r) \<Rightarrow> ('k \<times> 'r) list \<Rightarrow> ('k \<times> 'r) list" where
  "update_row k f t = map (\<lambda>p. if fst p = k then (k, f (snd p)) else p) t"

definition wf_table :: "('k \<times> 'r) list \<Rightarrow> bool" where
  "wf_table t \<longleftrightarrow> distinct (map fst t)"

lemma wf_table_Nil [simp]: "wf_table []"
  by (simp add: wf_table_def)

lemma wf_replace_row: "wf_table t \<Longrightarrow> wf_table (replace_row k r t)"
  by (auto simp: wf_table_def replace_row_def distinct_map_filter)

lemma wf_update_row: "wf_table t \<Longrightarrow> wf_table (update_row k f t)"
proof -
  have "map fst (update_row k f t) = map fst t" by (simp add: update_row_def)
  then show "wf_table t \<Longrightarrow> wf_table (update_row k f t)" by (simp add: wf_table_def)
qed

lemma map_of_replace_row [simp]: "map_of (replace_row k r t) = (map_of t)(k \<mapsto> r)"
proof
  fix k'
  have "map_of (filter (\<lambda>p. fst p \<noteq> k) t) k' = (if k' = k then None else map_of t k')"
    by (induction t) auto
  then show "map_of (replace_row k r t) k' = ((map_of t)(k \<mapsto> r)) k'"
    by (simp add: replace_row_def map_add_def split: option.split)
qed

lemma map_of_update_row [simp]: "map_of (update_row k f t) = (map_of t)(k := map_option f (map_of t k))"
  by (induction t) (auto simp: update_row_def fun_eq_iff)

text \<open>Every row of the second table refers, through \<open>ref\<close>, to a row of the first.\<close>

definition refs_ok :: "('r \<Rightarrow> 'k) \<Rightarrow> ('k \<times> 'c) list \<Rightarrow> ('k \<times> 'r) list \<Rightarrow> bool" where
  "refs_ok ref cs ps \<longleftrightarrow> wf_table cs \<and> wf_table ps \<and> (\<forall>pk r. map_of ps pk = Some r \<longrightarrow> map_of cs (ref r) \<noteq> None)"

lemma refs_ok_Nil [simp]: "refs_ok ref [] []"
  by (simp add: refs_ok_def)

lemma refs_ok_replace_left: "refs_ok ref cs ps \<Longrightarrow> refs_ok ref (replace_row pk c cs) ps"
  by (auto simp: refs_ok_def wf_replace_row)

lemma refs_ok_replace_right:
  "refs_ok ref cs ps \<Longrightarrow> map_of cs (ref r) \<noteq> None \<Longrightarrow> refs_ok ref cs (replace_row pk r ps)"
  by (auto simp: refs_ok_def wf_replace_row)

lemma refs_ok_update: "refs_ok ref cs ps \<Longrightarrow> (\<And>r. ref (f r) = ref r) \<Longrightarrow> refs_ok ref cs (update_row pk f ps)"
  by (auto simp: refs_ok_def wf_update_row)

lemmas refs_ok_intros = refs_ok_replace_left refs_ok_replace_right refs_ok_update

section \<open>Queries\<close>

text \<open>\<open>copy(dst[:], src)\<close> into a zero key.\<close>

definition copy_key :: "byte list \<Rightarrow> pubkey" where
  "copy_key bs = take 32 (bs @ replicate 32 0)"

text \<open>The loop over the rows with a callback on a state, until it says stop.\<close>

fun each_row :: "('v \<Rightarrow> 's \<Rightarrow> bool \<times> 's) \<Rightarrow> 'v list \<Rightarrow> 's \<Rightarrow> 's" where
  "each_row fn [] s = s"
| "each_row fn (r # rs) s = (case fn r s of (True, s') \<Rightarrow> each_row fn rs s' | (False, s') \<Rightarrow> s')"

text \<open>\<open>ORDER BY key DESC LIMIT n\<close>; ties keep the scan order.\<close>

definition top_rows :: "('v \<Rightarrow> int) \<Rightarrow> nat \<Rightarrow> 'v list \<Rightarrow> 'v list" where
  "top_rows key n rows = take n (sort_key (\<lambda>x. - key x) rows)"

lemma top_rows_best:
  "\<exists>rest. mset (top_rows key n rows @ rest) = mset rows \<and> length (top_rows key n rows) = min n (length rows) \<and>
     sorted_wrt (\<lambda>x y. key x \<ge> key y) (top_rows key n rows) \<and>
     (\<forall>x \<in> set (top_rows key n rows). \<forall>y \<in> set rest. key y \<le> key x)"
proof -
  let ?s = "sort_key (\<lambda>x. - key x) rows"
  have "sorted (map (\<lambda>x. - key x) ?s)" by (rule sorted_sort_key)
  then have w: "sorted_wrt (\<lambda>x y. key x \<ge> key y) (take n ?s @ drop n ?s)" by (simp add: sorted_wrt_map)
  have "mset (take n ?s @ drop n ?s) = mset rows" by simp
  with w show ?thesis unfolding top_rows_def sorted_wrt_append
    by (intro exI [of _ "drop n ?s"]) (simp add: min.commute)
qed

section \<open>Freshness\<close>

text \<open>\<open>lastSlot+SevenDaysOfSlots > uint64(slot)\<close>, on 64-bit words.\<close>

definition SevenDaysOfSlots :: u64 where
  "SevenDaysOfSlots = 7 * 24 * 60 * 60 * 25 div 10"

definition is_fresh :: "u64 \<Rightarrow> u64 \<Rightarrow> bool" where
  "is_fresh lastSlot slot \<longleftrightarrow> lastSlot + SevenDaysOfSlots > slot"

lemma SevenDaysOfSlots_value: "SevenDaysOfSlots = 1512000"
  unfolding SevenDaysOfSlots_def by (simp add: word_div_def)

text \<open>For slots in the range of a signed column the sum does not wrap: a row is fresh for exactly
  1,512,000 slots.\<close>

lemma is_fresh_iff:
  assumes "unat lastSlot < 2 ^ 63"
  shows "is_fresh lastSlot slot \<longleftrightarrow> unat slot < unat lastSlot + 1512000"
proof -
  have "unat (lastSlot + 1512000) = unat lastSlot + 1512000"
    using assms by (subst unat_add_lem [THEN iffD1]) simp_all
  then show ?thesis by (simp add: is_fresh_def SevenDaysOfSlots_value word_less_nat_alt)
qed

section \<open>Mint decimals\<close>

text \<open>The tracker's map: \<open>Some True\<close> saved, \<open>Some False\<close> a fetch is in flight.\<close>

type_synonym mint_tracker = "pubkey \<rightharpoonup> bool"

type_synonym mint_table = "pubkey \<rightharpoonup> int"

definition MintAccountSize :: nat where
  "MintAccountSize = 82"

definition mint_New :: "(byte list \<Rightarrow> pubkey) \<Rightarrow> byte list list \<Rightarrow> mint_tracker" where
  "mint_New pkfb mints = fold (\<lambda>m known. known(pkfb m \<mapsto> True)) mints Map.empty"

definition Known :: "pubkey \<Rightarrow> mint_tracker \<Rightarrow> bool" where
  "Known m known = map_get False known m"

definition MarkPending :: "pubkey \<Rightarrow> mint_tracker \<Rightarrow> bool \<times> mint_tracker" where
  "MarkPending m known = (if known m \<noteq> None then (False, known) else (True, known(m \<mapsto> False)))"

text \<open>\<open>save\<close>: the flag is set before the row is written; \<open>execFails\<close> says whether the statement fails.\<close>

definition mint_save :: "bool \<Rightarrow> pubkey \<Rightarrow> byte \<Rightarrow> mint_tracker \<times> mint_table \<Rightarrow> bool \<times> mint_tracker \<times> mint_table" where
  "mint_save execFails m decimals st =
     (case st of (known, t) \<Rightarrow>
        let alreadySaved = map_get False known m; known = known(m \<mapsto> True)
        in if alreadySaved then (True, known, t)
           else if execFails then (False, known, t)
           else (True, known, t(m \<mapsto> uint decimals)))"

text \<open>The prefetchers' calls, in the order in which the tracker's lock lets them in.\<close>

datatype mint_call = CMarkPending pubkey | CSave bool pubkey byte

fun mint_step :: "mint_call \<Rightarrow> mint_tracker \<times> mint_table \<Rightarrow> bool \<times> mint_tracker \<times> mint_table" where
  "mint_step (CMarkPending m) (known, t) = (case MarkPending m known of (b, known) \<Rightarrow> (b, known, t))"
| "mint_step (CSave ef m d) st = mint_save ef m d st"

fun mint_run :: "mint_call list \<Rightarrow> mint_tracker \<times> mint_table \<Rightarrow> bool list \<times> mint_tracker \<times> mint_table" where
  "mint_run [] st = ([], st)"
| "mint_run (c # cs) st =
     (case mint_step c st of (b, st') \<Rightarrow> (case mint_run cs st' of (bs, st'') \<Rightarrow> (b # bs, st'')))"

text \<open>The number of fetches a run issues for a mint.\<close>

definition fetches :: "pubkey \<Rightarrow> mint_call list \<Rightarrow> bool list \<Rightarrow> nat" where
  "fetches m cs bs = length (filter (\<lambda>(c, b). c = CMarkPending m \<and> b) (zip cs bs))"

lemma mint_step_known: "mint_step c (known, t) = (b, known', t') \<Longrightarrow> known m \<noteq> None \<Longrightarrow> known' m \<noteq> None"
  by (cases c) (auto simp: MarkPending_def mint_save_def Let_def split: if_splits)

lemma fetches_known: "known m \<noteq> None \<Longrightarrow> fetches m cs (fst (mint_run cs (known, t))) = 0"
proof (induction cs arbitrary: known t)
  case Nil
  then show ?case by (simp add: fetches_def)
next
  case (Cons c cs)
  obtain b known' t' where s: "mint_step c (known, t) = (b, known', t')" by (metis prod_cases3)
  have "\<not> (c = CMarkPending m \<and> b)" using s Cons.prems by (auto simp: MarkPending_def split: if_splits)
  with Cons.IH [of known' t', OF mint_step_known [OF s Cons.prems]] s show ?case
    by (auto simp: fetches_def split: prod.split)
qed

text \<open>However the prefetchers interleave, a mint's decimals are requested at most once per run, and
  never when they are known from the start.\<close>

theorem mint_fetched_once:
  "fetches m cs (fst (mint_run cs (known, t))) \<le> 1 \<and> (known m \<noteq> None \<longrightarrow> fetches m cs (fst (mint_run cs (known, t))) = 0)"
proof (intro conjI impI)
  show "fetches m cs (fst (mint_run cs (known, t))) \<le> 1"
  proof (induction cs arbitrary: known t)
    case Nil
    then show ?case by (simp add: fetches_def)
  next
    case (Cons c cs)
    obtain b known' t' where s: "mint_step c (known, t) = (b, known', t')" by (metis prod_cases3)
    show ?case
    proof (cases "c = CMarkPending m \<and> b")
      case True
      then have "known' m \<noteq> None" using s by (auto simp: MarkPending_def split: if_splits)
      from fetches_known [of known' m cs t', OF this] s show ?thesis by (auto simp: fetches_def split: prod.split)
    next
      case False
      with Cons.IH [of known' t'] s show ?thesis by (auto simp: fetches_def split: prod.split)
    qed
  qed
qed (rule fetches_known)

theorem mint_fetched_once_witness:
  "fetches [9] [CMarkPending [9], CMarkPending [9], CSave False [9] 6]
     (fst (mint_run [CMarkPending [9], CMarkPending [9], CSave False [9] 6] (Map.empty, Map.empty))) \<le> 1"
  using mint_fetched_once [of "[9]" "[CMarkPending [9], CMarkPending [9], CSave False [9] 6]" Map.empty Map.empty] by simp

text \<open>When writing a mint's row fails, the tracker takes the mint for saved all the same: it is never
  requested again and no later save in the same run writes the row.\<close>

theorem failed_save_is_final:
  assumes "map_get False known m = False" and "t m = None"
  shows "\<exists>known' t'. mint_save True m d (known, t) = (False, known', t') \<and> Known m known' \<and> t' m = None \<and>
    fst (MarkPending m known') = False \<and> mint_save False m d (known', t') = (True, known', t')"
  using assms by (auto simp: mint_save_def Known_def MarkPending_def Let_def)

theorem failed_save_is_final_witness:
  "\<exists>known' t'. mint_save True [9] 6 (Map.empty, Map.empty) = (False, known', t') \<and> Known [9] known' \<and> t' [9] = None"
  using failed_save_is_final [of Map.empty "[9]" Map.empty 6] by auto

section \<open>Event handlers\<close>

text \<open>
  What the graph client's \<open>Hook\<close> does with a prefetcher's handler: it calls \<open>Init\<close>, \<open>CommitStart\<close>, \<open>OnAccount\<close>
  and \<open>CommitFinish\<close>, in whatever order the stream brings them. The first argument of the last three
  says which statements fail; \<open>finish\<close> also gets the readiness of the acknowledgements. A call of
  \<open>OnAccount\<close> that panics ends the run.
\<close>

inductive hook_step ::
  "(u32 \<Rightarrow> 'h \<Rightarrow> 'h) \<Rightarrow> ('f \<Rightarrow> u64 \<Rightarrow> 'h \<Rightarrow> 'h) \<Rightarrow> ('f \<Rightarrow> account \<Rightarrow> 'h \<Rightarrow> 'h option) \<Rightarrow> ('f \<Rightarrow> 'c \<Rightarrow> 'h \<Rightarrow> bool \<times> 'h) \<Rightarrow> 'h \<Rightarrow> 'h \<Rightarrow> bool"
  for init start on_account finish where
  step_init: "hook_step init start on_account finish h (init w h)"
| step_start: "hook_step init start on_account finish h (start f s h)"
| step_account: "on_account f a h = Some h' \<Longrightarrow> hook_step init start on_account finish h h'"
| step_finish: "hook_step init start on_account finish h (snd (finish f c h))"

abbreviation hook_runs where
  "hook_runs init start on_account finish \<equiv> (hook_step init start on_account finish)\<^sup>*\<^sup>*"

text \<open>The contract: each call keeps the handler's invariant.\<close>

locale event_handler =
  fixes init :: "u32 \<Rightarrow> 'h \<Rightarrow> 'h"
    and start :: "'f \<Rightarrow> u64 \<Rightarrow> 'h \<Rightarrow> 'h"
    and on_account :: "'f \<Rightarrow> account \<Rightarrow> 'h \<Rightarrow> 'h option"
    and finish :: "'f \<Rightarrow> 'c \<Rightarrow> 'h \<Rightarrow> bool \<times> 'h"
    and handler_ok :: "'h \<Rightarrow> bool"
  assumes init_ok: "handler_ok h \<Longrightarrow> handler_ok (init w h)"
    and start_ok: "handler_ok h \<Longrightarrow> handler_ok (start f s h)"
    and account_ok: "handler_ok h \<Longrightarrow> on_account f a h = Some h' \<Longrightarrow> handler_ok h'"
    and finish_ok: "handler_ok h \<Longrightarrow> handler_ok (snd (finish f c h))"
begin

lemma step_ok: "hook_step init start on_account finish h h' \<Longrightarrow> handler_ok h \<Longrightarrow> handler_ok h'"
  by (induction rule: hook_step.induct) (auto intro: init_ok start_ok account_ok finish_ok)

lemma runs_ok: "hook_runs init start on_account finish h h' \<Longrightarrow> handler_ok h \<Longrightarrow> handler_ok h'"
  by (induction rule: rtranclp_induct) (auto intro: step_ok)

end

section \<open>What a run has seen\<close>

text \<open>The calls of a run without failing statements: accounts, and the end of one commit with the start of the next. After a commit that ends
  the stream there are no more calls; facts about all lists of calls cover that.\<close>

datatype call = CAccount account | CCommit u64

fun accounts_of :: "call list \<Rightarrow> account list" where
  "accounts_of [] = []"
| "accounts_of (CAccount a # cs) = a # accounts_of cs"
| "accounts_of (CCommit s # cs) = accounts_of cs"

fun slots_of :: "call list \<Rightarrow> u64 list" where
  "slots_of [] = []"
| "slots_of (CAccount a # cs) = slots_of cs"
| "slots_of (CCommit s # cs) = s # slots_of cs"

fun run_calls :: "(account \<Rightarrow> 'h \<Rightarrow> 'h option) \<Rightarrow> (u64 \<Rightarrow> 'h \<Rightarrow> 'h) \<Rightarrow> call list \<Rightarrow> 'h \<Rightarrow> 'h option" where
  "run_calls on_account next_commit [] h = Some h"
| "run_calls on_account next_commit (CAccount a # cs) h = do { h \<leftarrow> on_account a h; run_calls on_account next_commit cs h }"
| "run_calls on_account next_commit (CCommit s # cs) h = run_calls on_account next_commit cs (next_commit s h)"

text \<open>The contract of a handler whose state is determined by the accounts it has seen, as long as these, and the slots of the commits, fit together.\<close>

locale handler_history =
  fixes on_account :: "account \<Rightarrow> 'h \<Rightarrow> 'h option"
    and next_commit :: "u64 \<Rightarrow> 'h \<Rightarrow> 'h"
    and slot_fits :: "u64 \<Rightarrow> bool"
    and fit :: "account list \<Rightarrow> bool"
    and inv :: "account list \<Rightarrow> 'h \<Rightarrow> bool"
  assumes fit_prefix: "fit (as @ bs) \<Longrightarrow> fit as"
    and account_inv: "fit (as @ [a]) \<Longrightarrow> inv as h \<Longrightarrow> \<exists>h'. on_account a h = Some h' \<and> inv (as @ [a]) h'"
    and commit_inv: "slot_fits s \<Longrightarrow> inv as h \<Longrightarrow> inv as (next_commit s h)"
begin

lemma run_inv:
  "fit (as @ accounts_of cs) \<Longrightarrow> \<forall>s \<in> set (slots_of cs). slot_fits s \<Longrightarrow> inv as h \<Longrightarrow>
     \<exists>h'. run_calls on_account next_commit cs h = Some h' \<and> inv (as @ accounts_of cs) h'"
proof (induction cs arbitrary: as h)
  case (Cons c cs)
  show ?case
  proof (cases c)
    case (CAccount a)
    then have f: "fit ((as @ [a]) @ accounts_of cs)" using Cons.prems(1) by simp
    obtain h' where "on_account a h = Some h'" "inv (as @ [a]) h'"
      using account_inv [OF fit_prefix [OF f] Cons.prems(3)] by blast
    then show ?thesis using Cons.IH [OF f] Cons.prems(2) CAccount by simp
  next
    case (CCommit s)
    then show ?thesis using Cons.IH [OF _ _ commit_inv [OF _ Cons.prems(3)]] Cons.prems(1,2) by simp
  qed
qed simp

end

lemma map_filter_snoc: "List.map_filter f (xs @ [x]) = List.map_filter f xs @ (case f x of None \<Rightarrow> [] | Some y \<Rightarrow> [y])"
  by (simp add: List.map_filter_def split: option.split)

lemma map_filter_append: "List.map_filter f (xs @ ys) = List.map_filter f xs @ List.map_filter f ys"
  by (simp add: List.map_filter_def)

end
