(* ===== verification/Cpmm.thy ===== *)
theory Cpmm
  imports Accounts Subscribe
begin

text \<open>
  The Raydium CPMM prefetcher (\<open>src/prefetch/raydium/cpmm\<close>): the account parsers (\<open>cpmm.go\<close>), the event
  handler that turns account updates into rows and subscriptions (\<open>event.go\<close>) and the queries on the
  pool table (\<open>read.go\<close>).

  The handler's transaction works on a copy of the tables that \<open>CommitFinish\<close> makes the database.
  Which SQL statement fails is an argument (\<open>fails\<close>). The subscription tracker is used through its two
  operations; \<open>decodeToken\<close> and \<open>decodeMint\<close> are the Borsh decoders, \<open>pkfb\<close> is \<open>PublicKeyFromBytes\<close>. A
  result \<open>None\<close> is a panic: a slice out of range, or a call on a nil tracker or database.
\<close>

section \<open>Parsers\<close>

datatype cpmm_error =
    WrongSize nat nat
  | BeginFailed | CommitFailed | OnAccountFailed | InsertConfigFailed | InsertPoolFailed | UpdateVaultFailed
  | QueryFailed

definition PoolStateBodySize :: nat where "PoolStateBodySize = 629"
definition AmmConfigBodySize :: nat where "AmmConfigBodySize = 228"

record pool_state =
  AmmConfig :: pubkey
  PoolCreator :: pubkey
  Token0Vault :: pubkey
  Token1Vault :: pubkey
  LpMint :: pubkey
  Token0Mint :: pubkey
  Token1Mint :: pubkey
  Token0Program :: pubkey
  Token1Program :: pubkey
  ObservationKey :: pubkey
  AuthBump :: byte
  Status :: byte
  LpMintDecimals :: byte
  Mint0Decimals :: byte
  Mint1Decimals :: byte
  LpSupply :: u64
  ProtocolFeesToken0 :: u64
  ProtocolFeesToken1 :: u64
  FundFeesToken0 :: u64
  FundFeesToken1 :: u64
  OpenTime :: u64
  RecentEpoch :: u64
  CreatorFeeOn :: byte
  EnableCreatorFee :: bool
  CreatorFeesToken0 :: u64
  CreatorFeesToken1 :: u64

record amm_config =
  Bump :: byte
  DisableCreatePool :: bool
  Index :: u16
  TradeFeeRate :: u64
  ProtocolFeeRate :: u64
  FundFeeRate :: u64
  CreatePoolFee :: u64
  ProtocolOwner :: pubkey
  FundOwner :: pubkey
  CreatorFeeRate :: u64

definition ParsePoolState :: "(byte list \<Rightarrow> pubkey) \<Rightarrow> byte list \<Rightarrow> (cpmm_error + pool_state) option" where
  "ParsePoolState pkfb body =
     (if length body \<noteq> PoolStateBodySize then Some (Inl (WrongSize PoolStateBodySize (length body)))
      else do {
        cfg \<leftarrow> read_pubkey pkfb body 0;
        creator \<leftarrow> read_pubkey pkfb body 32;
        v0 \<leftarrow> read_pubkey pkfb body 64;
        v1 \<leftarrow> read_pubkey pkfb body 96;
        lp \<leftarrow> read_pubkey pkfb body 128;
        m0 \<leftarrow> read_pubkey pkfb body 160;
        m1 \<leftarrow> read_pubkey pkfb body 192;
        p0 \<leftarrow> read_pubkey pkfb body 224;
        p1 \<leftarrow> read_pubkey pkfb body 256;
        obs \<leftarrow> read_pubkey pkfb body 288;
        bump \<leftarrow> go_index body 320;
        status \<leftarrow> go_index body 321;
        lpd \<leftarrow> go_index body 322;
        d0 \<leftarrow> go_index body 323;
        d1 \<leftarrow> go_index body 324;
        lps \<leftarrow> read_u64 body 325;
        pf0 \<leftarrow> read_u64 body 333;
        pf1 \<leftarrow> read_u64 body 341;
        ff0 \<leftarrow> read_u64 body 349;
        ff1 \<leftarrow> read_u64 body 357;
        ot \<leftarrow> read_u64 body 365;
        re \<leftarrow> read_u64 body 373;
        cfo \<leftarrow> go_index body 381;
        ecf \<leftarrow> go_index body 382;
        cf0 \<leftarrow> read_u64 body 389;
        cf1 \<leftarrow> read_u64 body 397;
        Some (Inr \<lparr>AmmConfig = cfg, PoolCreator = creator, Token0Vault = v0, Token1Vault = v1, LpMint = lp,
          Token0Mint = m0, Token1Mint = m1, Token0Program = p0, Token1Program = p1, ObservationKey = obs,
          AuthBump = bump, Status = status, LpMintDecimals = lpd, Mint0Decimals = d0, Mint1Decimals = d1,
          LpSupply = lps, ProtocolFeesToken0 = pf0, ProtocolFeesToken1 = pf1, FundFeesToken0 = ff0,
          FundFeesToken1 = ff1, OpenTime = ot, RecentEpoch = re, CreatorFeeOn = cfo, EnableCreatorFee = (ecf \<noteq> 0),
          CreatorFeesToken0 = cf0, CreatorFeesToken1 = cf1\<rparr>) })"

definition ParseAmmConfig :: "(byte list \<Rightarrow> pubkey) \<Rightarrow> byte list \<Rightarrow> (cpmm_error + amm_config) option" where
  "ParseAmmConfig pkfb body =
     (if length body \<noteq> AmmConfigBodySize then Some (Inl (WrongSize AmmConfigBodySize (length body)))
      else do {
        bump \<leftarrow> go_index body 0;
        dis \<leftarrow> go_index body 1;
        ix \<leftarrow> read_u16 body 2;
        tfr \<leftarrow> read_u64 body 4;
        pfr \<leftarrow> read_u64 body 12;
        ffr \<leftarrow> read_u64 body 20;
        cpf \<leftarrow> read_u64 body 28;
        po \<leftarrow> read_pubkey pkfb body 36;
        fo \<leftarrow> read_pubkey pkfb body 68;
        cfr \<leftarrow> read_u64 body 100;
        Some (Inr \<lparr>Bump = bump, DisableCreatePool = (dis \<noteq> 0), Index = ix, TradeFeeRate = tfr, ProtocolFeeRate = pfr,
          FundFeeRate = ffr, CreatePoolFee = cpf, ProtocolOwner = po, FundOwner = fo, CreatorFeeRate = cfr\<rparr>) })"

section \<open>Tables\<close>

record config_row =
  c_bump :: int
  c_disable_create_pool :: int
  c_config_index :: int
  c_trade_fee_rate :: int
  c_protocol_fee_rate :: int
  c_fund_fee_rate :: int
  c_create_pool_fee :: int
  c_protocol_owner :: "byte list"
  c_fund_owner :: "byte list"
  c_creator_fee_rate :: int
  c_last_slot :: u64

record pool_row =
  amm_config :: "byte list"
  token0_mint :: "byte list"
  token1_mint :: "byte list"
  token0_vault :: "byte list"
  token1_vault :: "byte list"
  lp_mint :: "byte list"
  token0_program :: "byte list"
  token1_program :: "byte list"
  observation_key :: "byte list"
  lp_supply :: int
  token0_balance :: "int option" \<comment> \<open>\<open>NULL\<close> when the vault has not been fetched\<close>
  token1_balance :: "int option"
  open_time :: int
  last_slot :: u64

record tables =
  configs :: "(pubkey \<times> config_row) list"
  pools :: "(pubkey \<times> pool_row) list"
  mints :: mint_table

datatype stmt =
    SBegin | SCommit | SBalances | SConfigFresh | SConfigExists | SPoolFresh | SFindVault
  | SInsertConfig | SInsertPool | SUpdateVault | SSaveMint

section \<open>The handler\<close>

record 't handler =
  slot :: u64
  pss :: "'t option"
  sawAny :: bool
  oldPoolCount :: int
  totalCount :: int
  counter :: "int \<times> int \<times> int"
  db :: "tables option"
  tx :: "tables option"
  mintTracker :: mint_tracker
  cause :: "cpmm_error option"

definition boolToInt :: "bool \<Rightarrow> int" where
  "boolToInt b = (if b then 1 else 0)"

text \<open>\<open>context.CancelCauseFunc\<close>: the first cause stays.\<close>

definition cancel :: "cpmm_error \<Rightarrow> 't handler \<Rightarrow> 't handler" where
  "cancel e h = (if cause h = None then h\<lparr>cause := Some e\<rparr> else h)"

definition createHandler :: "tables option \<Rightarrow> mint_tracker \<Rightarrow> 't handler" where
  "createHandler d mt =
     \<lparr>slot = 0, pss = None, sawAny = False, oldPoolCount = 0, totalCount = 0, counter = (0, 0, 0), db = d, tx = None,
      mintTracker = mt, cause = None\<rparr>"

text \<open>\<open>dbQuery\<close>: the open transaction, else the database.\<close>

definition dbQuery :: "'t handler \<Rightarrow> tables option" where
  "dbQuery h = (case tx h of Some t \<Rightarrow> Some t | None \<Rightarrow> db h)"

definition vaultBalancesFromDB :: "(stmt \<Rightarrow> bool) \<Rightarrow> pubkey \<Rightarrow> 't handler \<Rightarrow> (u64 \<times> u64) option" where
  "vaultBalancesFromDB fails pool h =
     (if db h = None \<or> fails SBalances then None
      else case map_of (pools (the (dbQuery h))) pool of
        None \<Rightarrow> None
      | Some r \<Rightarrow>
          (case (token0_balance r, token1_balance r) of
             (Some b0, Some b1) \<Rightarrow> Some (to_uint64 b0, to_uint64 b1)
           | _ \<Rightarrow> None))"

definition isConfigFresh :: "(stmt \<Rightarrow> bool) \<Rightarrow> pubkey \<Rightarrow> 't handler \<Rightarrow> bool" where
  "isConfigFresh fails pk h =
     (if db h = None \<or> fails SConfigFresh then False
      else case map_of (configs (the (dbQuery h))) pk of
        None \<Rightarrow> False
      | Some r \<Rightarrow> is_fresh (c_last_slot r) (slot h))"

definition configExists :: "(stmt \<Rightarrow> bool) \<Rightarrow> pubkey \<Rightarrow> 't handler \<Rightarrow> bool" where
  "configExists fails pk h =
     (if db h = None \<or> fails SConfigExists then False
      else map_of (configs (the (dbQuery h))) pk \<noteq> None)"

definition isPoolFresh :: "(stmt \<Rightarrow> bool) \<Rightarrow> pubkey \<Rightarrow> 't handler \<Rightarrow> bool" where
  "isPoolFresh fails pk h =
     (if db h = None \<or> fails SPoolFresh then False
      else case map_of (pools (the (dbQuery h))) pk of
        None \<Rightarrow> False
      | Some r \<Rightarrow> is_fresh (last_slot r) (slot h))"

text \<open>The first row that has the vault on either side; \<open>None\<close> is the panic on a nil database.\<close>

definition findPoolByVault ::
  "(byte list \<Rightarrow> pubkey) \<Rightarrow> (stmt \<Rightarrow> bool) \<Rightarrow> pubkey \<Rightarrow> 't handler \<Rightarrow> (pubkey \<times> bool) option option" where
  "findPoolByVault pkfb fails vault h =
     (case dbQuery h of
        None \<Rightarrow> None
      | Some t \<Rightarrow>
          if fails SFindVault then Some None
          else Some (case find (\<lambda>(pk, r). token0_vault r = vault \<or> token1_vault r = vault) (pools t) of
                       None \<Rightarrow> None
                     | Some (pk, r) \<Rightarrow> Some (pkfb pk, pkfb (token0_vault r) = vault)))"

definition CommitStart :: "(stmt \<Rightarrow> bool) \<Rightarrow> u64 \<Rightarrow> 't handler \<Rightarrow> 't handler" where
  "CommitStart fails s h =
     (let h = h\<lparr>slot := s\<rparr>
      in case db h of
           None \<Rightarrow> h
         | Some d \<Rightarrow> if fails SBegin then cancel BeginFailed h else h\<lparr>tx := Some d\<rparr>)"

definition CommitFinish ::
  "(stmt \<Rightarrow> bool) \<Rightarrow> (u64 \<Rightarrow> 't \<Rightarrow> bool \<times> 't) \<Rightarrow> 't handler \<Rightarrow> bool \<times> 't handler" where
  "CommitFinish fails check h =
     (case tx h of
        None \<Rightarrow> (False, h)
      | Some t \<Rightarrow>
          let h = (if fails SCommit then cancel CommitFailed h else h\<lparr>db := Some t\<rparr>);
              h = h\<lparr>tx := None\<rparr>
          in case pss h of
               None \<Rightarrow> (False, h)
             | Some g \<Rightarrow>
                 (case check (slot h) g of (isDone, g') \<Rightarrow> (isDone \<and> sawAny h, h\<lparr>pss := Some g'\<rparr>)))"

definition Init ::
  "pubkey \<Rightarrow> u32 \<Rightarrow> 't \<Rightarrow> (pending_subscription \<Rightarrow> 't \<Rightarrow> 't) \<Rightarrow> 't handler \<Rightarrow> 't handler" where
  "Init programID weightAll newTracker subscribe h =
     h\<lparr>pss := Some (subscribe \<lparr>root = programID, weight = weightAll, depth = 2\<rparr> newTracker)\<rparr>"

definition OldSlot :: u64 where
  "OldSlot = 8 * 60 * 60 * 25 div 10"

text \<open>\<open>handler.pss.Subscribe\<close>: a panic when the tracker is nil.\<close>

definition send_subscribe ::
  "(pending_subscription \<Rightarrow> 't \<Rightarrow> 't) \<Rightarrow> pending_subscription \<Rightarrow> 't handler \<Rightarrow> 't handler option" where
  "send_subscribe subscribe r h =
     (case pss h of None \<Rightarrow> None | Some g \<Rightarrow> Some (h\<lparr>pss := Some (subscribe r g)\<rparr>))"

text \<open>The program ids, and the decoders of the other modules.\<close>

record env =
  programID :: pubkey
  tokenProgramID :: pubkey
  weightDirect :: u32
  decodeToken :: "byte list \<Rightarrow> token_account option"
  decodeMint :: "byte list \<Rightarrow> byte option"
  fromBytes :: "byte list \<Rightarrow> pubkey"

definition save_mint :: "(stmt \<Rightarrow> bool) \<Rightarrow> pubkey \<Rightarrow> byte \<Rightarrow> 't handler \<Rightarrow> 't handler" where
  "save_mint fails m d h =
     (case tx h of
        None \<Rightarrow> h
      | Some t \<Rightarrow>
          (case mint_save (fails SSaveMint) m d (mintTracker h, mints t) of
             (ok, known, mt) \<Rightarrow> h\<lparr>mintTracker := known, tx := Some (t\<lparr>mints := mt\<rparr>)\<rparr>))"

datatype parsed = PNone | PConfig amm_config | PPool pool_state | PToken token_account

text \<open>The first part of \<open>OnAccount\<close>: count, classify by owner and size, parse.\<close>

definition classify ::
  "env \<Rightarrow> (stmt \<Rightarrow> bool) \<Rightarrow> account \<Rightarrow> 't handler \<Rightarrow> ((cpmm_error + parsed) \<times> 't handler) option" where
  "classify e fails a h =
     (if programID e = Owner a then
        (if DataSize a - 8 = AmmConfigBodySize then do {
           let h = h\<lparr>counter := (case counter h of (x, y, z) \<Rightarrow> (x + 1, y, z))\<rparr>;
           d \<leftarrow> go_slice_from 8 (Data a);
           r \<leftarrow> ParseAmmConfig (fromBytes e) d;
           Some (case r of Inl err \<Rightarrow> Inl err | Inr c \<Rightarrow> Inr (PConfig c), h) }
         else if DataSize a - 8 = PoolStateBodySize then do {
           let h = h\<lparr>counter := (case counter h of (x, y, z) \<Rightarrow> (x, y + 1, z))\<rparr>;
           d \<leftarrow> go_slice_from 8 (Data a);
           r \<leftarrow> ParsePoolState (fromBytes e) d;
           Some (case r of Inl err \<Rightarrow> Inl err | Inr p \<Rightarrow> Inr (PPool p), h) }
         else Some (Inr PNone, h))
      else if tokenProgramID e = Owner a \<and> DataSize a = MintAccountSize then
        Some (Inr PNone,
          if tx h = None then h
          else case decodeMint e (Data a) of None \<Rightarrow> h | Some d \<Rightarrow> save_mint fails (Pubkey a) d h)
      else if tokenProgramID e = Owner a then
        (let h = h\<lparr>counter := (case counter h of (x, y, z) \<Rightarrow> (x, y, z + 1))\<rparr>
         in Some (Inr (case decodeToken e (Data a) of None \<Rightarrow> PNone | Some t \<Rightarrow> PToken t), h))
      else Some (Inr PNone, h))"

text \<open>The part for a configuration account.\<close>

definition insert_config :: "(stmt \<Rightarrow> bool) \<Rightarrow> pubkey \<Rightarrow> amm_config \<Rightarrow> 't handler \<Rightarrow> 't handler" where
  "insert_config fails pk c h =
     (case tx h of
        None \<Rightarrow> h
      | Some t \<Rightarrow>
          if fails SInsertConfig then cancel InsertConfigFailed h
          else h\<lparr>tx := Some (t\<lparr>configs := replace_row pk
                \<lparr>c_bump = uint (Bump c), c_disable_create_pool = boolToInt (DisableCreatePool c),
                 c_config_index = uint (Index c), c_trade_fee_rate = to_int64 (TradeFeeRate c),
                 c_protocol_fee_rate = to_int64 (ProtocolFeeRate c), c_fund_fee_rate = to_int64 (FundFeeRate c),
                 c_create_pool_fee = to_int64 (CreatePoolFee c), c_protocol_owner = ProtocolOwner c,
                 c_fund_owner = FundOwner c, c_creator_fee_rate = to_int64 (CreatorFeeRate c),
                 c_last_slot = slot h\<rparr> (configs t)\<rparr>)\<rparr>)"

definition on_config ::
  "env \<Rightarrow> (stmt \<Rightarrow> bool) \<Rightarrow> (pending_subscription \<Rightarrow> 't \<Rightarrow> 't) \<Rightarrow> pubkey \<Rightarrow> amm_config \<Rightarrow> 't handler \<Rightarrow> 't handler option" where
  "on_config e fails subscribe pk c h = do {
     h \<leftarrow> (if isConfigFresh fails pk h then Some h
           else send_subscribe subscribe \<lparr>root = pk, weight = weightDirect e, depth = 2\<rparr> h);
     Some (insert_config fails pk c h) }"

text \<open>A mint of the pool that is neither known nor in flight is requested.\<close>

definition request_mint ::
  "(pending_subscription \<Rightarrow> 't \<Rightarrow> 't) \<Rightarrow> pubkey \<Rightarrow> 't handler \<Rightarrow> 't handler option" where
  "request_mint subscribe m h =
     (if Known m (mintTracker h) then Some h
      else case MarkPending m (mintTracker h) of
        (False, known) \<Rightarrow> Some (h\<lparr>mintTracker := known\<rparr>)
      | (True, known) \<Rightarrow> send_subscribe subscribe \<lparr>root = m, weight = 0, depth = 1\<rparr> (h\<lparr>mintTracker := known\<rparr>))"

definition new_pool_row :: "pool_state \<Rightarrow> u64 \<Rightarrow> pool_row" where
  "new_pool_row p s =
     \<lparr>amm_config = AmmConfig p, token0_mint = Token0Mint p, token1_mint = Token1Mint p, token0_vault = Token0Vault p,
      token1_vault = Token1Vault p, lp_mint = LpMint p, token0_program = Token0Program p,
      token1_program = Token1Program p, observation_key = ObservationKey p, lp_supply = to_int64 (LpSupply p),
      token0_balance = None, token1_balance = None, open_time = to_int64 (OpenTime p), last_slot = s\<rparr>"

text \<open>The subscriptions of a pool that is not fresh: its vaults, unless both balances are stored, and
  its mints.\<close>

definition pool_requests ::
  "(stmt \<Rightarrow> bool) \<Rightarrow> (pending_subscription \<Rightarrow> 't \<Rightarrow> 't) \<Rightarrow> pubkey \<Rightarrow> pool_state \<Rightarrow> 't handler \<Rightarrow> 't handler option" where
  "pool_requests fails subscribe pk p h = do {
     h \<leftarrow> (if vaultBalancesFromDB fails pk h \<noteq> None then Some h
           else do {
             h \<leftarrow> send_subscribe subscribe \<lparr>root = Token0Vault p, weight = 0, depth = 1\<rparr> h;
             send_subscribe subscribe \<lparr>root = Token1Vault p, weight = 0, depth = 1\<rparr> h });
     h \<leftarrow> request_mint subscribe (Token0Mint p) h;
     request_mint subscribe (Token1Mint p) h }"

text \<open>The part for a pool account that is recent enough; the columns of the balances are not among
  those the statement sets.\<close>

definition insert_pool :: "(stmt \<Rightarrow> bool) \<Rightarrow> pubkey \<Rightarrow> pool_state \<Rightarrow> 't handler \<Rightarrow> 't handler" where
  "insert_pool fails pk p h =
     (case tx h of
        None \<Rightarrow> h
      | Some t \<Rightarrow>
          if fails SInsertPool then cancel InsertPoolFailed h
          else h\<lparr>tx := Some (t\<lparr>pools := replace_row pk (new_pool_row p (slot h)) (pools t)\<rparr>)\<rparr>)"

definition on_pool ::
  "env \<Rightarrow> (stmt \<Rightarrow> bool) \<Rightarrow> (pending_subscription \<Rightarrow> 't \<Rightarrow> 't) \<Rightarrow> account \<Rightarrow> pool_state \<Rightarrow> 't handler \<Rightarrow> 't handler option" where
  "on_pool e fails subscribe a p h =
     (if slot h > HSlot a + OldSlot then Some (h\<lparr>oldPoolCount := oldPoolCount h + 1\<rparr>)
      else if \<not> configExists fails (AmmConfig p) h then Some h
      else do {
        h \<leftarrow> (if isPoolFresh fails (Pubkey a) h then Some h else pool_requests fails subscribe (Pubkey a) p h);
        Some (insert_pool fails (Pubkey a) p h) })"

text \<open>The statements \<open>stmtVault0\<close> and \<open>stmtVault1\<close>.\<close>

definition set_balance :: "bool \<Rightarrow> int \<Rightarrow> u64 \<Rightarrow> pool_row \<Rightarrow> pool_row" where
  "set_balance isToken0 x s r =
     (if isToken0 then r\<lparr>token0_balance := Some x, last_slot := s\<rparr> else r\<lparr>token1_balance := Some x, last_slot := s\<rparr>)"

definition update_vault :: "(stmt \<Rightarrow> bool) \<Rightarrow> pubkey \<times> bool \<Rightarrow> token_account \<Rightarrow> 't handler \<Rightarrow> 't handler" where
  "update_vault fails found ta h =
     (case tx h of
        None \<Rightarrow> h
      | Some t \<Rightarrow>
          if fails SUpdateVault then cancel UpdateVaultFailed h
          else h\<lparr>tx := Some (t\<lparr>pools :=
                 update_row (fst found) (set_balance (snd found) (to_int64 (TAmount ta)) (slot h)) (pools t)\<rparr>)\<rparr>)"

definition on_token ::
  "env \<Rightarrow> (stmt \<Rightarrow> bool) \<Rightarrow> pubkey \<Rightarrow> token_account \<Rightarrow> 't handler \<Rightarrow> 't handler option" where
  "on_token e fails pk ta h = do {
     found \<leftarrow> findPoolByVault (fromBytes e) fails pk h;
     Some (case found of None \<Rightarrow> h | Some f \<Rightarrow> update_vault fails f ta h) }"

definition dispatch ::
  "env \<Rightarrow> (stmt \<Rightarrow> bool) \<Rightarrow> (pending_subscription \<Rightarrow> 't \<Rightarrow> 't) \<Rightarrow> account \<Rightarrow> cpmm_error + parsed \<Rightarrow> 't handler \<Rightarrow> 't handler option" where
  "dispatch e fails subscribe a r h =
     (case r of
        Inl err \<Rightarrow> Some (cancel OnAccountFailed h)
      | Inr PNone \<Rightarrow> Some h
      | Inr (PConfig c) \<Rightarrow> on_config e fails subscribe (Pubkey a) c (h\<lparr>sawAny := True\<rparr>)
      | Inr (PPool p) \<Rightarrow> on_pool e fails subscribe a p (h\<lparr>sawAny := True\<rparr>)
      | Inr (PToken ta) \<Rightarrow> on_token e fails (Pubkey a) ta (h\<lparr>sawAny := True\<rparr>))"

definition OnAccount ::
  "env \<Rightarrow> (stmt \<Rightarrow> bool) \<Rightarrow> (pending_subscription \<Rightarrow> 't \<Rightarrow> 't) \<Rightarrow> account \<Rightarrow> 't handler \<Rightarrow> 't handler option" where
  "OnAccount e fails subscribe a h =
     (if Deleted a \<or> DataSize a < 8 then Some h
      else do {
        (r, h) \<leftarrow> classify e fails a (h\<lparr>totalCount := totalCount h + 1\<rparr>);
        dispatch e fails subscribe a r h })"

section \<open>Reading the pools\<close>

record pool_view =
  VPubkey :: pubkey
  VAmmConfig :: pubkey
  VToken0Mint :: pubkey
  VToken1Mint :: pubkey
  VToken0Vault :: pubkey
  VToken1Vault :: pubkey
  VLpSupply :: u64
  VToken0Balance :: u64
  VToken1Balance :: u64
  VTradeFeeRate :: u64

definition poolCount :: "(stmt \<Rightarrow> bool) \<Rightarrow> tables \<Rightarrow> cpmm_error + nat" where
  "poolCount fails t = (if fails SBalances then Inl QueryFailed else Inr (length (pools t)))"

text \<open>The rows of \<open>liquidPoolQuery\<close>: the pool, its balances and the fee rate of its configuration.\<close>

definition liquid_rows :: "tables \<Rightarrow> (pubkey \<times> pool_row \<times> int \<times> int \<times> int) list" where
  "liquid_rows t = concat (map (\<lambda>(pk, r).
     case (map_of (configs t) (amm_config r), token0_balance r, token1_balance r) of
       (Some c, Some b0, Some b1) \<Rightarrow>
         if lp_supply r > 0 \<and> b0 > 0 \<and> b1 > 0 then [(pk, r, b0, b1, c_trade_fee_rate c)] else []
     | _ \<Rightarrow> []) (pools t))"

definition scanPool :: "pubkey \<times> pool_row \<times> int \<times> int \<times> int \<Rightarrow> pool_view" where
  "scanPool = (\<lambda>(pk, r, b0, b1, fee).
     \<lparr>VPubkey = copy_key pk, VAmmConfig = copy_key (amm_config r), VToken0Mint = copy_key (token0_mint r),
      VToken1Mint = copy_key (token1_mint r), VToken0Vault = copy_key (token0_vault r),
      VToken1Vault = copy_key (token1_vault r), VLpSupply = to_uint64 (lp_supply r), VToken0Balance = to_uint64 b0,
      VToken1Balance = to_uint64 b1, VTradeFeeRate = to_uint64 fee\<rparr>)"

definition ReadPools :: "(stmt \<Rightarrow> bool) \<Rightarrow> (pool_view \<Rightarrow> 's \<Rightarrow> bool \<times> 's) \<Rightarrow> tables \<Rightarrow> 's \<Rightarrow> (cpmm_error + unit) \<times> 's" where
  "ReadPools fails fn t s =
     (if fails SBalances then (Inl QueryFailed, s) else (Inr (), each_row fn (map scanPool (liquid_rows t)) s))"

text \<open>\<open>ORDER BY (token0_balance + token1_balance) DESC LIMIT n\<close>; sums that do not fit 64 bits are taken
  exactly. A negative \<open>n\<close> is a panic of \<open>make\<close>.\<close>

definition TopPools :: "(stmt \<Rightarrow> bool) \<Rightarrow> int \<Rightarrow> tables \<Rightarrow> (cpmm_error + pool_view list) option" where
  "TopPools fails n t =
     (if fails SBalances then Some (Inl QueryFailed)
      else if n < 0 then None
      else Some (Inr (map scanPool (top_rows (\<lambda>(pk, r, b0, b1, fee). b0 + b1) (nat n) (liquid_rows t)))))"

definition ReadPoolsByMints ::
  "(stmt \<Rightarrow> bool) \<Rightarrow> pubkey \<Rightarrow> pubkey \<Rightarrow> (pool_view \<Rightarrow> 's \<Rightarrow> bool \<times> 's) \<Rightarrow> tables \<Rightarrow> 's \<Rightarrow> (cpmm_error + unit) \<times> 's" where
  "ReadPoolsByMints fails mintA mintB fn t s =
     (if fails SBalances then (Inl QueryFailed, s)
      else (Inr (), each_row fn (map scanPool (filter (\<lambda>(pk, r, b0, b1, fee).
              (token0_mint r = mintA \<and> token1_mint r = mintB) \<or> (token0_mint r = mintB \<and> token1_mint r = mintA))
              (liquid_rows t))) s))"

section \<open>Parsers never panic\<close>

lemma ParsePoolState_total: "ParsePoolState pkfb body \<noteq> None"
  by (simp add: ParsePoolState_def PoolStateBodySize_def go_reads)

lemma ParseAmmConfig_total: "ParseAmmConfig pkfb body \<noteq> None"
  by (simp add: ParseAmmConfig_def AmmConfigBodySize_def go_reads)

section \<open>Integrity of the tables\<close>

text \<open>Primary keys are unique and every pool refers to a stored configuration.\<close>

definition wf_tables :: "tables \<Rightarrow> bool" where
  "wf_tables t \<longleftrightarrow> refs_ok amm_config (configs t) (pools t)"

definition handler_inv :: "'t handler \<Rightarrow> bool" where
  "handler_inv h \<longleftrightarrow> (\<forall>t. db h = Some t \<or> tx h = Some t \<longrightarrow> wf_tables t)"

lemma cancel_frame [simp]:
  "db (cancel e h) = db h" "tx (cancel e h) = tx h" "slot (cancel e h) = slot h" "pss (cancel e h) = pss h"
  "sawAny (cancel e h) = sawAny h" "mintTracker (cancel e h) = mintTracker h"
  by (simp_all add: cancel_def)

lemma handler_inv_frame [simp]:
  "handler_inv (cancel e h) = handler_inv h" "handler_inv (h\<lparr>slot := s\<rparr>) = handler_inv h"
  "handler_inv (h\<lparr>pss := g\<rparr>) = handler_inv h" "handler_inv (h\<lparr>sawAny := b\<rparr>) = handler_inv h"
  "handler_inv (h\<lparr>oldPoolCount := n\<rparr>) = handler_inv h" "handler_inv (h\<lparr>totalCount := n\<rparr>) = handler_inv h"
  "handler_inv (h\<lparr>counter := c\<rparr>) = handler_inv h" "handler_inv (h\<lparr>mintTracker := mt\<rparr>) = handler_inv h"
  by (simp_all add: handler_inv_def)

lemma handler_inv_cong: "db h1 = db h \<Longrightarrow> tx h1 = tx h \<Longrightarrow> handler_inv h1 = handler_inv h"
  by (simp add: handler_inv_def)

lemma configExists_cong: "db h1 = db h \<Longrightarrow> tx h1 = tx h \<Longrightarrow> configExists fails pk h1 = configExists fails pk h"
  by (simp add: configExists_def dbQuery_def cong: option.case_cong)

lemma send_subscribe_frame:
  "send_subscribe subscribe r h = Some h' \<Longrightarrow> db h' = db h \<and> tx h' = tx h \<and> slot h' = slot h \<and> sawAny h' = sawAny h"
  by (auto simp: send_subscribe_def split: option.splits)

lemma request_mint_frame:
  "request_mint subscribe m h = Some h' \<Longrightarrow> db h' = db h \<and> tx h' = tx h \<and> slot h' = slot h"
  by (auto simp: request_mint_def dest!: send_subscribe_frame split: if_splits prod.splits bool.splits)

lemma save_mint_inv: "handler_inv h \<Longrightarrow> handler_inv (save_mint fails m d h)"
  by (auto simp: handler_inv_def save_mint_def wf_tables_def split: option.splits prod.splits)

lemma classify_inv:
  assumes "handler_inv h" and "classify e fails a h = Some (r, h')"
  shows "handler_inv h'"
  using assms
  by (auto simp: classify_def Let_def save_mint_inv bind_eq_Some_conv split: if_splits option.splits)

lemma insert_config_inv: "handler_inv h \<Longrightarrow> handler_inv (insert_config fails pk c h)"
  by (auto simp: insert_config_def handler_inv_def wf_tables_def refs_ok_intros split: option.split)

lemma send_subscribe_inv: "send_subscribe subscribe r h = Some h' \<Longrightarrow> handler_inv h' = handler_inv h"
  by (auto simp: send_subscribe_def split: option.splits)

lemma on_config_inv:
  assumes "handler_inv h" and "on_config e fails subscribe pk c h = Some h'"
  shows "handler_inv h'"
  using assms
  by (auto simp: on_config_def bind_eq_Some_conv insert_config_inv dest!: send_subscribe_inv split: if_splits)

lemma pool_requests_frame:
  "pool_requests fails subscribe pk p h = Some h' \<Longrightarrow> db h' = db h \<and> tx h' = tx h \<and> slot h' = slot h"
  by (auto simp: pool_requests_def bind_eq_Some_conv dest!: send_subscribe_frame request_mint_frame split: if_splits)

text \<open>Only a pool whose configuration is stored is inserted.\<close>

lemma insert_pool_inv:
  assumes "handler_inv h" and "configExists fails' (AmmConfig p) h"
  shows "handler_inv (insert_pool fails pk p h)"
proof (cases "tx h")
  case None
  with assms show ?thesis by (simp add: insert_pool_def)
next
  case (Some t)
  with assms(2) have "map_of (configs t) (AmmConfig p) \<noteq> None"
    by (auto simp: configExists_def dbQuery_def split: if_splits)
  then have "map_of (configs t) (amm_config (new_pool_row p s)) \<noteq> None" for s by (simp add: new_pool_row_def)
  with assms(1) Some show ?thesis by (auto simp: insert_pool_def handler_inv_def wf_tables_def refs_ok_intros)
qed

lemma on_pool_inv:
  assumes "handler_inv h" and "on_pool e fails subscribe a p h = Some h'"
  shows "handler_inv h'"
proof -
  have "handler_inv (insert_pool fails (Pubkey a) p h1)"
    if "db h1 = db h" "tx h1 = tx h" "slot h1 = slot h" "configExists fails (AmmConfig p) h" for h1 :: "'a handler"
    using that assms(1) insert_pool_inv handler_inv_cong [of h1 h] configExists_cong [of h1 h] by blast
  with assms show ?thesis
    by (auto simp: on_pool_def bind_eq_Some_conv dest!: pool_requests_frame split: if_splits)
qed

lemma set_balance_config [simp]: "amm_config (set_balance b x s r) = amm_config r"
  by (simp add: set_balance_def)

lemma update_vault_inv: "handler_inv h \<Longrightarrow> handler_inv (update_vault fails f ta h)"
  by (auto simp: update_vault_def handler_inv_def wf_tables_def refs_ok_intros split: option.split)

lemma on_token_inv:
  assumes "handler_inv h" and "on_token e fails pk ta h = Some h'"
  shows "handler_inv h'"
  using assms by (auto simp: on_token_def bind_eq_Some_conv update_vault_inv split: option.splits)

lemma dispatch_inv:
  assumes "handler_inv h" and "dispatch e fails subscribe a r h = Some h'"
  shows "handler_inv h'"
proof -
  have hi: "handler_inv (h\<lparr>sawAny := True\<rparr>)" using assms(1) by simp
  show ?thesis
  proof (cases r)
    case (Inl err)
    with assms show ?thesis by (auto simp: dispatch_def)
  next
    case (Inr x)
    with assms show ?thesis
      by (cases x) (auto simp: dispatch_def intro: on_config_inv [OF hi] on_pool_inv [OF hi] on_token_inv [OF hi])
  qed
qed

lemma OnAccount_inv:
  assumes "handler_inv h" and "OnAccount e fails subscribe a h = Some h'"
  shows "handler_inv h'"
proof (cases "Deleted a \<or> DataSize a < 8")
  case True
  with assms show ?thesis by (auto simp: OnAccount_def)
next
  case False
  with assms(2) obtain r h1 where c: "classify e fails a (h\<lparr>totalCount := totalCount h + 1\<rparr>) = Some (r, h1)"
    and d: "dispatch e fails subscribe a r h1 = Some h'"
    by (auto simp: OnAccount_def bind_eq_Some_conv)
  have "handler_inv h1" by (rule classify_inv [OF _ c]) (simp add: assms(1))
  then show ?thesis using d by (rule dispatch_inv)
qed

abbreviation handler_runs where
  "handler_runs e subscribe check newTracker \<equiv>
     hook_runs (\<lambda>w. Init (programID e) w newTracker subscribe) CommitStart (\<lambda>fails. OnAccount e fails subscribe)
       (\<lambda>fails ready. CommitFinish fails (check ready))"

interpretation cpmm: event_handler "\<lambda>w. Init (programID e) w newTracker subscribe" CommitStart
  "\<lambda>fails. OnAccount e fails subscribe" "\<lambda>fails ready. CommitFinish fails (check ready)" handler_inv
  for e subscribe check newTracker
proof
  fix h :: "'a handler" and fails s
  assume "handler_inv h"
  then show "handler_inv (CommitStart fails s h)"
    by (auto simp: CommitStart_def Let_def handler_inv_def split: option.splits)
next
  fix h :: "'a handler" and fails ready
  assume "handler_inv h"
  then show "handler_inv (snd (CommitFinish fails (check ready) h))"
    by (auto simp: CommitFinish_def Let_def handler_inv_def split: option.splits prod.splits)
qed (auto simp: Init_def intro: OnAccount_inv)

section \<open>Properties of the prefetcher\<close>

text \<open>(C6) Whatever accounts arrive and whichever SQL statements fail, the committed tables stay sound:
  primary keys are unique and every stored pool refers to a stored configuration.\<close>

theorem cpmm_integrity:
  assumes "handler_runs e subscribe check newTracker (createHandler (Some t0) mt) h" and "wf_tables t0" and "db h = Some t"
  shows "distinct (map fst (configs t)) \<and> distinct (map fst (pools t)) \<and>
    (\<forall>pk r. map_of (pools t) pk = Some r \<longrightarrow> (\<exists>c. map_of (configs t) (amm_config r) = Some c))"
proof -
  have "handler_inv (createHandler (Some t0) mt)" using assms(2) by (simp add: handler_inv_def createHandler_def)
  with assms(1,3) have "wf_tables t" using cpmm.runs_ok by (fastforce simp: handler_inv_def)
  then show ?thesis by (auto simp: wf_tables_def refs_ok_def wf_table_def)
qed

abbreviation no_tables :: tables where
  "no_tables \<equiv> \<lparr>configs = [], pools = [], mints = Map.empty\<rparr>"

abbreviation env0 :: env where
  "env0 \<equiv> \<lparr>programID = [1], tokenProgramID = [2], weightDirect = 1, decodeToken = (\<lambda>d. Some \<lparr>TMint = [3], TAmount = 5\<rparr>),
     decodeMint = (\<lambda>d. None), fromBytes = (\<lambda>b. [4])\<rparr>"

theorem cpmm_integrity_witness:
  "\<exists>t. db (snd (CommitFinish (\<lambda>_. False) (\<lambda>s g. (True, g)) (CommitStart (\<lambda>_. False) 7 (createHandler (Some no_tables) Map.empty :: nat handler)))) =
     Some t \<and> distinct (map fst (pools t))"
proof -
  let ?h0 = "createHandler (Some no_tables) Map.empty :: nat handler"
  let ?h1 = "CommitStart (\<lambda>_. False) 7 ?h0"
  let ?h2 = "snd (CommitFinish (\<lambda>_. False) (\<lambda>s g. (True, g)) ?h1)"
  have "hook_step (\<lambda>w. Init (programID env0) w 0 (\<lambda>r g. g)) CommitStart (\<lambda>fails. OnAccount env0 fails (\<lambda>r g. g))
      (\<lambda>fails r. CommitFinish fails (\<lambda>s g. (True, g))) ?h0 ?h1" by (rule step_start)
  then have "handler_runs env0 (\<lambda>r g. g) (\<lambda>r s g. (True, g)) 0 ?h0 ?h1" by (rule r_into_rtranclp)
  moreover have "hook_step (\<lambda>w. Init (programID env0) w 0 (\<lambda>r g. g)) CommitStart (\<lambda>fails. OnAccount env0 fails (\<lambda>r g. g))
      (\<lambda>fails r. CommitFinish fails (\<lambda>s g. (True, g))) ?h1 ?h2"
    by (rule step_finish)
  ultimately have "handler_runs env0 (\<lambda>r g. g) (\<lambda>r s g. (True, g)) 0 ?h0 ?h2" by (rule rtranclp.rtrancl_into_rtrancl)
  moreover have "db ?h2 = Some no_tables" by (simp add: CommitFinish_def CommitStart_def createHandler_def)
  ultimately show ?thesis using cpmm_integrity [where e = env0 and subscribe = "\<lambda>r g. g" and check = "\<lambda>r s g. (True, g)" and newTracker = 0
      and ?t0.0 = no_tables and mt = Map.empty and h = ?h2 and t = no_tables]
    by (auto simp: wf_tables_def)
qed

text \<open>A fresh pool that is announced again loses its stored vault balances: the row is replaced
  without them, and because the pool counts as fresh its vaults are not subscribed again.\<close>

theorem pool_update_loses_balances:
  assumes "\<not> Deleted a" and "Owner a = programID e" and "DataSize a = 637" and "8 \<le> length (Data a)"
    and "ParsePoolState (fromBytes e) (drop 8 (Data a)) = Some (Inr p)"
    and "slot h \<le> HSlot a + OldSlot" and "db h \<noteq> None" and "tx h = Some t"
    and "map_of (configs t) (AmmConfig p) \<noteq> None"
    and "map_of (pools t) (Pubkey a) = Some r" and "token0_balance r = Some b0" and "token1_balance r = Some b1"
    and "is_fresh (last_slot r) (slot h)"
  shows "\<exists>h' t' r'. OnAccount e (\<lambda>_. False) subscribe a h = Some h' \<and> tx h' = Some t' \<and> pss h' = pss h \<and>
    map_of (pools t') (Pubkey a) = Some r' \<and> token0_balance r' = None \<and> token1_balance r' = None"
proof -
  let ?h = "h\<lparr>totalCount := totalCount h + 1, counter := (case counter h of (x, y, z) \<Rightarrow> (x, y + 1, z))\<rparr>"
  have c: "classify e (\<lambda>_. False) a (h\<lparr>totalCount := totalCount h + 1\<rparr>) = Some (Inr (PPool p), ?h)"
    using assms(2-5) by (simp add: classify_def AmmConfigBodySize_def PoolStateBodySize_def go_slice_from_def)
  obtain d c where d: "db h = Some d" and cfg: "map_of (configs t) (AmmConfig p) = Some c" using assms(7,9) by blast
  have "on_pool e (\<lambda>_. False) subscribe a p (?h\<lparr>sawAny := True\<rparr>) =
      Some (insert_pool (\<lambda>_. False) (Pubkey a) p (?h\<lparr>sawAny := True\<rparr>))"
    using assms(6,8,10,13) d cfg by (simp add: on_pool_def configExists_def isPoolFresh_def dbQuery_def not_less)
  with c assms(1,3) have "OnAccount e (\<lambda>_. False) subscribe a h =
      Some (insert_pool (\<lambda>_. False) (Pubkey a) p (?h\<lparr>sawAny := True\<rparr>))"
    by (simp add: OnAccount_def dispatch_def)
  then show ?thesis using assms(8) by (simp add: insert_pool_def new_pool_row_def)
qed

abbreviation full_row :: pool_row where
  "full_row \<equiv> \<lparr>amm_config = [4], token0_mint = [], token1_mint = [], token0_vault = [], token1_vault = [], lp_mint = [],
     token0_program = [], token1_program = [], observation_key = [], lp_supply = 1, token0_balance = Some 10,
     token1_balance = Some 20, open_time = 0, last_slot = 100\<rparr>"

abbreviation config0 :: config_row where
  "config0 \<equiv> \<lparr>c_bump = 0, c_disable_create_pool = 0, c_config_index = 0, c_trade_fee_rate = 0, c_protocol_fee_rate = 0,
     c_fund_fee_rate = 0, c_create_pool_fee = 0, c_protocol_owner = [], c_fund_owner = [], c_creator_fee_rate = 0,
     c_last_slot = 0\<rparr>"

definition zero_bytes :: "byte list" where
  "zero_bytes = replicate 637 0"

lemma length_zero_bytes [simp]: "length zero_bytes = 637"
  by (simp add: zero_bytes_def)

abbreviation pool_account :: account where
  "pool_account \<equiv> \<lparr>Pubkey = [9], Owner = [1], HSlot = 101, DataSize = 637, Deleted = False, Data = zero_bytes\<rparr>"

abbreviation handler0 :: "nat handler" where
  "handler0 \<equiv> (createHandler (Some no_tables) Map.empty)\<lparr>slot := 101,
     tx := Some (no_tables\<lparr>configs := [([4], config0)], pools := [([9], full_row)]\<rparr>)\<rparr>"

lemma ParsePoolState_config:
  assumes "length body = 629"
  shows "\<exists>p. ParsePoolState pkfb body = Some (Inr p) \<and> AmmConfig p = key_at pkfb body 0"
  using assms by (simp add: ParsePoolState_def PoolStateBodySize_def go_reads)

theorem pool_update_loses_balances_witness:
  "\<exists>h' t' r'. OnAccount env0 (\<lambda>_. False) (\<lambda>r g. g) pool_account handler0 = Some h' \<and> tx h' = Some t' \<and>
     map_of (pools t') [9] = Some r' \<and> token0_balance r' = None"
proof -
  obtain p where p: "ParsePoolState (fromBytes env0) (drop 8 (Data pool_account)) = Some (Inr p)" and "AmmConfig p = [4]"
    using ParsePoolState_config [of "drop 8 zero_bytes" "\<lambda>b. [4]"] by (auto simp: key_at_def)
  moreover have "is_fresh 100 101" by (simp add: is_fresh_iff)
  moreover have "(101 :: u64) \<le> 101 + OldSlot" by code_simp
  ultimately show ?thesis
    using pool_update_loses_balances [of pool_account env0 p handler0 _ full_row 10 20 "\<lambda>r g. g", OF _ _ _ _ p]
    by (auto simp: createHandler_def)
qed

text \<open>The handler as a client of the tracker: it ends the stream only when nothing is pending.\<close>

context subscription_tracker
begin

lemma finish_nothing_pending:
  assumes "CommitFinish fails (check ready) h = (True, h')"
  shows "sawAny h \<and> tx h' = None \<and> (\<exists>g. pss h' = Some g \<and> pending g = {})"
proof -
  from assms obtain g where g: "pss h = Some g" "fst (check ready (slot h) g)" "sawAny h"
    "pss h' = Some (snd (check ready (slot h) g))" "tx h' = None"
    by (auto simp: CommitFinish_def Let_def cancel_def split: option.splits prod.splits if_splits)
  with check_done show ?thesis by blast
qed

end

context tracker_lists
begin

lemma finish_lists_empty:
  "CommitFinish fails (Check LS LA ready) h = (True, h') \<Longrightarrow>
   sawAny h \<and> tx h' = None \<and> (\<exists>g. pss h' = Some g \<and> pending_roots esub eack g = {})"
  by (rule finish_nothing_pending)

end

text \<open>The handler ends its stream only after it has seen accounts and when the tracker has nothing
  queued and no request unacknowledged.\<close>

theorem fetch_complete:
  assumes "tracker_lists LS esub LA eack" and "CommitFinish fails (Check LS LA ready) h = (True, h')"
  shows "sawAny h \<and> tx h' = None \<and> (\<exists>g. pss h' = Some g \<and> esub (listSub g) = [] \<and> eack (listAck g) = [])"
  using tracker_lists.finish_lists_empty [OF assms] by (auto simp: pending_roots_def)

theorem fetch_complete_witness:
  "\<exists>g. pss (snd (CommitFinish (\<lambda>_. False) (Check hol_list hol_list (\<lambda>_. True))
     ((createHandler (Some no_tables) Map.empty)\<lparr>slot := 15, tx := Some no_tables, sawAny := True,
        pss := Some ((CreatePendingSubscriptionList [] [] 2 10)\<lparr>doneSlot := 5\<rparr>)\<rparr>))) = Some g \<and> listSub g = []"
proof -
  let ?h = "(createHandler (Some no_tables) Map.empty)\<lparr>slot := 15, tx := Some no_tables, sawAny := True,
        pss := Some ((CreatePendingSubscriptionList [] [] 2 10)\<lparr>doneSlot := 5\<rparr>)\<rparr>"
  have "Check hol_list hol_list (\<lambda>_. True) 15 ((CreatePendingSubscriptionList [] [] 2 10)\<lparr>doneSlot := 5\<rparr>) =
      (True, (CreatePendingSubscriptionList [] [] 2 10)\<lparr>doneSlot := 5\<rparr>)"
    by (simp add: Check_def hol_list_def send_queued.simps CreatePendingSubscriptionList_def Let_def)
  then obtain h' where h': "CommitFinish (\<lambda>_. False) (Check hol_list hol_list (\<lambda>_. True)) ?h = (True, h')"
    by (simp add: CommitFinish_def createHandler_def)
  from fetch_complete [OF pssl.tracker_lists_axioms this] show ?thesis unfolding h' by auto
qed

definition liquidity :: "pubkey \<times> pool_row \<times> int \<times> int \<times> int \<Rightarrow> int" where
  "liquidity = (\<lambda>(pk, r, b0, b1, fee). b0 + b1)"

text \<open>\<open>TopPools\<close> returns the liquid pools with the most liquidity: at most \<open>n\<close>, in descending order,
  and every liquid pool it leaves out has no more liquidity than any it returns.\<close>

theorem TopPools_best:
  assumes "0 \<le> n"
  shows "\<exists>top rest. TopPools (\<lambda>_. False) n t = Some (Inr (map scanPool top)) \<and> mset (top @ rest) = mset (liquid_rows t) \<and>
    length top = min (nat n) (length (liquid_rows t)) \<and> sorted_wrt (\<lambda>x y. liquidity x \<ge> liquidity y) top \<and>
    (\<forall>x \<in> set top. \<forall>y \<in> set rest. liquidity y \<le> liquidity x)"
  using assms top_rows_best [of liquidity "nat n" "liquid_rows t"] by (fastforce simp: TopPools_def liquidity_def)

theorem TopPools_best_witness:
  "\<exists>top. TopPools (\<lambda>_. False) 1 (no_tables\<lparr>configs := [([4], config0)], pools := [([9], full_row)]\<rparr>) = Some (Inr (map scanPool top)) \<and>
     length top = 1"
  using TopPools_best [of 1 "no_tables\<lparr>configs := [([4], config0)], pools := [([9], full_row)]\<rparr>"]
  by (auto simp: liquid_rows_def)

end
