(* ===== verification/Amm.thy ===== *)
theory Amm
  imports Accounts Subscribe
begin

text \<open>
  The Raydium AMM v4 prefetcher (\<open>src/prefetch/raydium/amm\<close>): the parser of the 752-byte pool account
  (\<open>amm.go\<close>), OpenBook markets (\<open>openbook.go\<close>), the event handler (\<open>event.go\<close>) and the queries
  (\<open>read.go\<close>). Unlike its siblings this handler keeps token accounts that arrive before their pool
  (\<open>mPendingToken\<close>); that the order of arrival does not matter is the main property here.
  Conventions as in the CPMM prefetcher: failing statements are arguments, \<open>None\<close> is a panic,
  decoders and address derivation of other modules are parameters.
\<close>

section \<open>Parser\<close>

datatype amm_error =
    WrongSize nat nat | MarketTooShort nat nat
  | BeginFailed | CommitFailed | MissingTx | TokenParseFailed | InsertPoolFailed | UpdateVaultFailed | UpdateMarketFailed
  | QueryFailed

definition Size :: nat where "Size = 752"

record fees =
  MinSeparateNumerator :: u64
  MinSeparateDenominator :: u64
  TradeFeeNumerator :: u64
  TradeFeeDenominator :: u64
  PnlNumerator :: u64
  PnlDenominator :: u64
  SwapFeeNumerator :: u64
  SwapFeeDenominator :: u64

record state_data =
  NeedTakePnlCoin :: u64
  NeedTakePnlPc :: u64
  TotalPnlPc :: u64
  TotalPnlCoin :: u64
  PoolOpenTime :: u64
  OrderbookToInitTime :: u64
  SwapCoinInAmount :: u128
  SwapPcOutAmount :: u128
  SwapAccPcFee :: u64
  SwapPcInAmount :: u128
  SwapCoinOutAmount :: u128
  SwapAccCoinFee :: u64

record amm_info =
  Status :: u64
  Nonce :: u64
  OrderNum :: u64
  Depth :: u64
  CoinDecimals :: u64
  PcDecimals :: u64
  State :: u64
  ResetFlag :: u64
  MinSize :: u64
  VolMaxCutRatio :: u64
  AmountWave :: u64
  CoinLotSize :: u64
  PcLotSize :: u64
  MinPriceMultiplier :: u64
  MaxPriceMultiplier :: u64
  SysDecimalValue :: u64
  Fees :: fees
  StateData :: state_data
  CoinVault :: pubkey
  PcVault :: pubkey
  CoinVaultMint :: pubkey
  PcVaultMint :: pubkey
  LpMint :: pubkey
  OpenOrders :: pubkey
  Market :: pubkey
  MarketProgram :: pubkey
  TargetOrders :: pubkey
  AOwner :: pubkey
  LpReserve :: u64

definition parse_fees :: "byte list \<Rightarrow> fees option" where
  "parse_fees data = do {
     xMinSeparateNumerator \<leftarrow> read_u64 data 128;
     xMinSeparateDenominator \<leftarrow> read_u64 data 136;
     xTradeFeeNumerator \<leftarrow> read_u64 data 144;
     xTradeFeeDenominator \<leftarrow> read_u64 data 152;
     xPnlNumerator \<leftarrow> read_u64 data 160;
     xPnlDenominator \<leftarrow> read_u64 data 168;
     xSwapFeeNumerator \<leftarrow> read_u64 data 176;
     xSwapFeeDenominator \<leftarrow> read_u64 data 184;
     Some \<lparr>MinSeparateNumerator = xMinSeparateNumerator, MinSeparateDenominator = xMinSeparateDenominator, TradeFeeNumerator = xTradeFeeNumerator, TradeFeeDenominator = xTradeFeeDenominator, PnlNumerator = xPnlNumerator, PnlDenominator = xPnlDenominator, SwapFeeNumerator = xSwapFeeNumerator, SwapFeeDenominator = xSwapFeeDenominator\<rparr> }"

definition parse_state_data :: "byte list \<Rightarrow> state_data option" where
  "parse_state_data data = do {
     xNeedTakePnlCoin \<leftarrow> read_u64 data 192;
     xNeedTakePnlPc \<leftarrow> read_u64 data 200;
     xTotalPnlPc \<leftarrow> read_u64 data 208;
     xTotalPnlCoin \<leftarrow> read_u64 data 216;
     xPoolOpenTime \<leftarrow> read_u64 data 224;
     xOrderbookToInitTime \<leftarrow> read_u64 data 248;
     xSwapCoinInAmount \<leftarrow> read_u128 data 256;
     xSwapPcOutAmount \<leftarrow> read_u128 data 272;
     xSwapAccPcFee \<leftarrow> read_u64 data 288;
     xSwapPcInAmount \<leftarrow> read_u128 data 296;
     xSwapCoinOutAmount \<leftarrow> read_u128 data 312;
     xSwapAccCoinFee \<leftarrow> read_u64 data 328;
     Some \<lparr>NeedTakePnlCoin = xNeedTakePnlCoin, NeedTakePnlPc = xNeedTakePnlPc, TotalPnlPc = xTotalPnlPc, TotalPnlCoin = xTotalPnlCoin, PoolOpenTime = xPoolOpenTime, OrderbookToInitTime = xOrderbookToInitTime, SwapCoinInAmount = xSwapCoinInAmount, SwapPcOutAmount = xSwapPcOutAmount, SwapAccPcFee = xSwapAccPcFee, SwapPcInAmount = xSwapPcInAmount, SwapCoinOutAmount = xSwapCoinOutAmount, SwapAccCoinFee = xSwapAccCoinFee\<rparr> }"

definition Parse :: "(byte list \<Rightarrow> pubkey) \<Rightarrow> byte list \<Rightarrow> (amm_error + amm_info) option" where
  "Parse pkfb data =
     (if length data \<noteq> Size then Some (Inl (WrongSize Size (length data)))
      else do {
        xStatus \<leftarrow> read_u64 data 0;
        xNonce \<leftarrow> read_u64 data 8;
        xOrderNum \<leftarrow> read_u64 data 16;
        xDepth \<leftarrow> read_u64 data 24;
        xCoinDecimals \<leftarrow> read_u64 data 32;
        xPcDecimals \<leftarrow> read_u64 data 40;
        xState \<leftarrow> read_u64 data 48;
        xResetFlag \<leftarrow> read_u64 data 56;
        xMinSize \<leftarrow> read_u64 data 64;
        xVolMaxCutRatio \<leftarrow> read_u64 data 72;
        xAmountWave \<leftarrow> read_u64 data 80;
        xCoinLotSize \<leftarrow> read_u64 data 88;
        xPcLotSize \<leftarrow> read_u64 data 96;
        xMinPriceMultiplier \<leftarrow> read_u64 data 104;
        xMaxPriceMultiplier \<leftarrow> read_u64 data 112;
        xSysDecimalValue \<leftarrow> read_u64 data 120;
        xFees \<leftarrow> parse_fees data;
        xStateData \<leftarrow> parse_state_data data;
        xCoinVault \<leftarrow> read_pubkey pkfb data 336;
        xPcVault \<leftarrow> read_pubkey pkfb data 368;
        xCoinVaultMint \<leftarrow> read_pubkey pkfb data 400;
        xPcVaultMint \<leftarrow> read_pubkey pkfb data 432;
        xLpMint \<leftarrow> read_pubkey pkfb data 464;
        xOpenOrders \<leftarrow> read_pubkey pkfb data 496;
        xMarket \<leftarrow> read_pubkey pkfb data 528;
        xMarketProgram \<leftarrow> read_pubkey pkfb data 560;
        xTargetOrders \<leftarrow> read_pubkey pkfb data 592;
        xAOwner \<leftarrow> read_pubkey pkfb data 688;
        xLpReserve \<leftarrow> read_u64 data 720;
        Some (Inr \<lparr>Status = xStatus, Nonce = xNonce, OrderNum = xOrderNum, Depth = xDepth, CoinDecimals = xCoinDecimals, PcDecimals = xPcDecimals, State = xState, ResetFlag = xResetFlag, MinSize = xMinSize, VolMaxCutRatio = xVolMaxCutRatio, AmountWave = xAmountWave, CoinLotSize = xCoinLotSize, PcLotSize = xPcLotSize, MinPriceMultiplier = xMinPriceMultiplier, MaxPriceMultiplier = xMaxPriceMultiplier, SysDecimalValue = xSysDecimalValue,
          Fees = xFees, StateData = xStateData,
          CoinVault = xCoinVault, PcVault = xPcVault, CoinVaultMint = xCoinVaultMint, PcVaultMint = xPcVaultMint, LpMint = xLpMint, OpenOrders = xOpenOrders, Market = xMarket, MarketProgram = xMarketProgram, TargetOrders = xTargetOrders, AOwner = xAOwner, LpReserve = xLpReserve\<rparr>) })"

section \<open>OpenBook markets\<close>

definition offMarketVaultSignerNonce :: nat where "offMarketVaultSignerNonce = 45"
definition offMarketCoinVault :: nat where "offMarketCoinVault = 117"
definition offMarketPcVault :: nat where "offMarketPcVault = 165"
definition offMarketEventQ :: nat where "offMarketEventQ = 253"
definition offMarketBids :: nat where "offMarketBids = 285"
definition offMarketAsks :: nat where "offMarketAsks = 317"
definition minOpenBookMarketLen :: nat where "minOpenBookMarketLen = offMarketAsks + 32"

lemmas market_layout = offMarketVaultSignerNonce_def offMarketCoinVault_def offMarketPcVault_def offMarketEventQ_def
  offMarketBids_def offMarketAsks_def minOpenBookMarketLen_def

record openbook_market =
  MPubkey :: pubkey
  VaultSignerNonce :: u64
  MCoinVault :: pubkey
  MPcVault :: pubkey
  EventQueue :: pubkey
  Bids :: pubkey
  Asks :: pubkey

definition ParseOpenBookMarket ::
  "(byte list \<Rightarrow> pubkey) \<Rightarrow> pubkey \<Rightarrow> byte list \<Rightarrow> (amm_error + openbook_market) option" where
  "ParseOpenBookMarket pkfb pubkeyID data =
     (if length data < minOpenBookMarketLen then Some (Inl (MarketTooShort (length data) minOpenBookMarketLen))
      else do {
        n \<leftarrow> read_u64 data offMarketVaultSignerNonce;
        cv \<leftarrow> read_pubkey pkfb data offMarketCoinVault;
        pv \<leftarrow> read_pubkey pkfb data offMarketPcVault;
        eq \<leftarrow> read_pubkey pkfb data offMarketEventQ;
        bids \<leftarrow> read_pubkey pkfb data offMarketBids;
        asks \<leftarrow> read_pubkey pkfb data offMarketAsks;
        Some (Inr \<lparr>MPubkey = pubkeyID, VaultSignerNonce = n, MCoinVault = cv, MPcVault = pv, EventQueue = eq,
          Bids = bids, Asks = asks\<rparr>) })"

text \<open>\<open>createPDA\<close> is \<open>CreateProgramAddress\<close>.\<close>

definition DeriveVaultSigner ::
  "(byte list list \<Rightarrow> pubkey \<Rightarrow> pubkey option) \<Rightarrow> pubkey \<Rightarrow> u64 \<Rightarrow> pubkey \<Rightarrow> pubkey option" where
  "DeriveVaultSigner createPDA market nonce marketProgramID = createPDA [market, put_u64 nonce] marketProgramID"

section \<open>Tables\<close>

record pool_row =
  coin_vault :: "byte list"
  pc_vault :: "byte list"
  coin_balance :: "int option"
  pc_balance :: "int option"
  coin_mint :: "byte list option"
  pc_mint :: "byte list option"
  market :: "byte list option"
  market_bids :: "byte list option"
  market_asks :: "byte list option"
  market_event_queue :: "byte list option"
  market_coin_vault :: "byte list option"
  market_pc_vault :: "byte list option"
  market_vault_signer :: "byte list option"
  last_slot :: u64

record tables =
  pools :: "(pubkey \<times> pool_row) list"
  mints :: mint_table

datatype stmt = SBegin | SCommit | SPoolFresh | SFindVault | SFindMarket | SInsertPool | SUpdateVault | SUpdateMarket | SSaveMint | SRead

section \<open>The handler\<close>

record 't handler =
  onAccountCount :: int
  slot :: u64
  pss :: "'t option"
  sawAny :: bool
  mPendingToken :: "pubkey \<rightharpoonup> token_account"
  db :: "tables option"
  tx :: "tables option"
  mintTracker :: mint_tracker
  cause :: "amm_error option"

record env =
  programID :: pubkey
  tokenProgramID :: pubkey
  decodeToken :: "byte list \<Rightarrow> token_account option"
  decodeMint :: "byte list \<Rightarrow> byte option"
  fromBytes :: "byte list \<Rightarrow> pubkey"
  createPDA :: "byte list list \<Rightarrow> pubkey \<Rightarrow> pubkey option"

definition cancel :: "amm_error \<Rightarrow> 't handler \<Rightarrow> 't handler" where
  "cancel e h = (if cause h = None then h\<lparr>cause := Some e\<rparr> else h)"

definition createHandler :: "tables option \<Rightarrow> mint_tracker \<Rightarrow> 't handler" where
  "createHandler d mt =
     \<lparr>onAccountCount = 0, slot = 0, pss = None, sawAny = False, mPendingToken = Map.empty, db = d, tx = None,
      mintTracker = mt, cause = None\<rparr>"

definition CommitStart :: "(stmt \<Rightarrow> bool) \<Rightarrow> u64 \<Rightarrow> 't handler \<Rightarrow> 't handler" where
  "CommitStart fails s h =
     (let h = h\<lparr>slot := s\<rparr>
      in case db h of
           None \<Rightarrow> h
         | Some d \<Rightarrow> if fails SBegin then cancel BeginFailed h else h\<lparr>tx := Some d\<rparr>)"

definition CommitFinish ::
  "(stmt \<Rightarrow> bool) \<Rightarrow> (u64 \<Rightarrow> 't \<Rightarrow> bool \<times> 't) \<Rightarrow> 't handler \<Rightarrow> bool \<times> 't handler" where
  "CommitFinish fails check h =
     (case tx h of
        None \<Rightarrow> (False, cancel MissingTx h)
      | Some t \<Rightarrow>
          if fails SCommit then (False, cancel CommitFailed h)
          else
            let h = h\<lparr>db := Some t, tx := None\<rparr>
            in case pss h of
                 None \<Rightarrow> (False, h)
               | Some g \<Rightarrow>
                   (case check (slot h) g of (isDone, g') \<Rightarrow> (isDone \<and> sawAny h, h\<lparr>pss := Some g'\<rparr>)))"

definition Init :: "pubkey \<Rightarrow> u32 \<Rightarrow> 't \<Rightarrow> (pending_subscription \<Rightarrow> 't \<Rightarrow> 't) \<Rightarrow> 't handler \<Rightarrow> 't handler" where
  "Init progID weightAll newTracker subscribe h =
     h\<lparr>pss := Some (subscribe \<lparr>root = progID, weight = weightAll, depth = 2\<rparr> newTracker)\<rparr>"

definition dbQuery :: "'t handler \<Rightarrow> tables option" where
  "dbQuery h = (case tx h of Some t \<Rightarrow> Some t | None \<Rightarrow> db h)"

definition isPoolFresh :: "(stmt \<Rightarrow> bool) \<Rightarrow> pubkey \<Rightarrow> 't handler \<Rightarrow> bool" where
  "isPoolFresh fails pk h =
     (if db h = None \<or> fails SPoolFresh then False
      else case map_of (pools (the (dbQuery h))) pk of
        None \<Rightarrow> False
      | Some r \<Rightarrow> is_fresh (last_slot r) (slot h))"

definition findPoolByVault ::
  "(byte list \<Rightarrow> pubkey) \<Rightarrow> (stmt \<Rightarrow> bool) \<Rightarrow> pubkey \<Rightarrow> 't handler \<Rightarrow> (pubkey \<times> bool) option option" where
  "findPoolByVault pkfb fails vault h =
     (case dbQuery h of
        None \<Rightarrow> None
      | Some t \<Rightarrow>
          if fails SFindVault then Some None
          else Some (case find (\<lambda>(pk, r). coin_vault r = vault \<or> pc_vault r = vault) (pools t) of
                       None \<Rightarrow> None
                     | Some (pk, r) \<Rightarrow> Some (pkfb pk, pkfb (coin_vault r) = vault)))"

definition findPoolByMarket ::
  "(byte list \<Rightarrow> pubkey) \<Rightarrow> (stmt \<Rightarrow> bool) \<Rightarrow> pubkey \<Rightarrow> 't handler \<Rightarrow> pubkey option option" where
  "findPoolByMarket pkfb fails mk h =
     (case dbQuery h of
        None \<Rightarrow> None
      | Some t \<Rightarrow>
          if fails SFindMarket then Some None
          else Some (map_option (\<lambda>p. pkfb (fst p)) (find (\<lambda>(pk, r). market r = Some mk) (pools t))))"

definition send_subscribe ::
  "(pending_subscription \<Rightarrow> 't \<Rightarrow> 't) \<Rightarrow> pubkey \<Rightarrow> 't handler \<Rightarrow> 't handler option" where
  "send_subscribe subscribe pk h =
     (case pss h of
        None \<Rightarrow> None
      | Some g \<Rightarrow> Some (h\<lparr>pss := Some (subscribe \<lparr>root = pk, weight = 0, depth = 1\<rparr> g)\<rparr>))"

definition set_vault :: "bool \<Rightarrow> token_account \<Rightarrow> u64 \<Rightarrow> pool_row \<Rightarrow> pool_row" where
  "set_vault isCoin ta s r =
     (if isCoin then r\<lparr>coin_balance := Some (to_int64 (TAmount ta)), coin_mint := Some (TMint ta), last_slot := s\<rparr>
      else r\<lparr>pc_balance := Some (to_int64 (TAmount ta)), pc_mint := Some (TMint ta), last_slot := s\<rparr>)"

definition saveToken ::
  "(stmt \<Rightarrow> bool) \<Rightarrow> (pending_subscription \<Rightarrow> 't \<Rightarrow> 't) \<Rightarrow> token_account \<Rightarrow> pubkey \<Rightarrow> bool \<Rightarrow> 't handler \<Rightarrow> 't handler option" where
  "saveToken fails subscribe ta pool isCoin h =
     (case tx h of
        None \<Rightarrow> Some h
      | Some t \<Rightarrow>
          if fails SUpdateVault then Some (cancel UpdateVaultFailed h)
          else
            let h = h\<lparr>tx := Some (t\<lparr>pools := update_row pool (set_vault isCoin ta (slot h)) (pools t)\<rparr>)\<rparr>
            in if Known (TMint ta) (mintTracker h) then Some h
               else let (first, known) = MarkPending (TMint ta) (mintTracker h); h = h\<lparr>mintTracker := known\<rparr>
                    in if first then send_subscribe subscribe (TMint ta) h else Some h)"

definition tokenOnAccount ::
  "env \<Rightarrow> (stmt \<Rightarrow> bool) \<Rightarrow> (pending_subscription \<Rightarrow> 't \<Rightarrow> 't) \<Rightarrow> account \<Rightarrow> 't handler \<Rightarrow> 't handler option" where
  "tokenOnAccount e fails subscribe a h =
     (let n = length (Data a)
      in if 165 \<le> n \<and> n < 200 then
           (case decodeToken e (Data a) of
              None \<Rightarrow> Some (cancel TokenParseFailed h)
            | Some b \<Rightarrow>
                let h = h\<lparr>sawAny := True\<rparr>
                in do {
                  found \<leftarrow> findPoolByVault (fromBytes e) fails (Pubkey a) h;
                  case found of
                    Some (pool, isCoin) \<Rightarrow> saveToken fails subscribe b pool isCoin h
                  | None \<Rightarrow> Some (h\<lparr>mPendingToken := (mPendingToken h)(Pubkey a \<mapsto> b)\<rparr>) })
         else if n = MintAccountSize then
           Some (case (tx h, decodeMint e (Data a)) of
             (Some t, Some d) \<Rightarrow>
               (case mint_save (fails SSaveMint) (Pubkey a) d (mintTracker h, mints t) of
                  (ok, known, mt) \<Rightarrow> h\<lparr>mintTracker := known, tx := Some (t\<lparr>mints := mt\<rparr>)\<rparr>)
           | _ \<Rightarrow> h)
         else Some h)"

definition set_market :: "openbook_market \<Rightarrow> pubkey \<Rightarrow> u64 \<Rightarrow> pool_row \<Rightarrow> pool_row" where
  "set_market m signer s r =
     r\<lparr>market_bids := Some (Bids m), market_asks := Some (Asks m), market_event_queue := Some (EventQueue m),
       market_coin_vault := Some (MCoinVault m), market_pc_vault := Some (MPcVault m),
       market_vault_signer := Some signer, last_slot := s\<rparr>"

definition marketOnAccount ::
  "env \<Rightarrow> (stmt \<Rightarrow> bool) \<Rightarrow> account \<Rightarrow> pubkey \<Rightarrow> 't handler \<Rightarrow> 't handler option" where
  "marketOnAccount e fails a pool h = do {
     r \<leftarrow> ParseOpenBookMarket (fromBytes e) (Pubkey a) (Data a);
     Some (case r of
       Inl err \<Rightarrow> h
     | Inr m \<Rightarrow>
         let h = h\<lparr>sawAny := True\<rparr>
         in case DeriveVaultSigner (createPDA e) (Pubkey a) (VaultSignerNonce m) (Owner a) of
              None \<Rightarrow> h
            | Some signer \<Rightarrow>
                (case tx h of
                   None \<Rightarrow> h
                 | Some t \<Rightarrow>
                     if fails SUpdateMarket then cancel UpdateMarketFailed h
                     else h\<lparr>tx := Some (t\<lparr>pools := update_row pool (set_market m signer (slot h)) (pools t)\<rparr>)\<rparr>)) }"

definition new_pool_row :: "amm_info \<Rightarrow> u64 \<Rightarrow> pool_row" where
  "new_pool_row info s =
     \<lparr>coin_vault = CoinVault info, pc_vault = PcVault info, coin_balance = None, pc_balance = None, coin_mint = None,
      pc_mint = None, market = Some (Market info), market_bids = None, market_asks = None, market_event_queue = None,
      market_coin_vault = None, market_pc_vault = None, market_vault_signer = None, last_slot = s\<rparr>"

text \<open>A token account that arrived before its pool is taken out of the pending map and saved.\<close>

definition take_pending ::
  "(stmt \<Rightarrow> bool) \<Rightarrow> (pending_subscription \<Rightarrow> 't \<Rightarrow> 't) \<Rightarrow> pubkey \<Rightarrow> pubkey \<Rightarrow> bool \<Rightarrow> 't handler \<Rightarrow> 't handler option" where
  "take_pending fails subscribe vault pool isCoin h =
     (let p = mPendingToken h vault; h = h\<lparr>mPendingToken := (mPendingToken h)(vault := None)\<rparr>
      in case p of None \<Rightarrow> Some h | Some ta \<Rightarrow> saveToken fails subscribe ta pool isCoin h)"

text \<open>The last part of \<open>OnAccount\<close>: a pool account that parsed.\<close>

definition poolOnAccount ::
  "(stmt \<Rightarrow> bool) \<Rightarrow> (pending_subscription \<Rightarrow> 't \<Rightarrow> 't) \<Rightarrow> pubkey \<Rightarrow> amm_info \<Rightarrow> 't handler \<Rightarrow> 't handler option" where
  "poolOnAccount fails subscribe pk info h =
     (if isPoolFresh fails pk h then Some h
      else do {
        h \<leftarrow> send_subscribe subscribe (CoinVault info) h;
        h \<leftarrow> send_subscribe subscribe (PcVault info) h;
        h \<leftarrow> send_subscribe subscribe (Market info) h;
        case tx h of
          None \<Rightarrow> Some (cancel MissingTx h)
        | Some t \<Rightarrow>
            if fails SInsertPool then Some (cancel InsertPoolFailed h)
            else do {
              let h = h\<lparr>tx := Some (t\<lparr>pools := replace_row pk (new_pool_row info (slot h)) (pools t)\<rparr>)\<rparr>;
              h \<leftarrow> take_pending fails subscribe (CoinVault info) pk True h;
              take_pending fails subscribe (PcVault info) pk False h } })"

definition OnAccount ::
  "env \<Rightarrow> (stmt \<Rightarrow> bool) \<Rightarrow> (pending_subscription \<Rightarrow> 't \<Rightarrow> 't) \<Rightarrow> account \<Rightarrow> 't handler \<Rightarrow> 't handler option" where
  "OnAccount e fails subscribe a h =
     (let h = h\<lparr>onAccountCount := onAccountCount h + 1\<rparr>
      in if Deleted a then Some h
         else if tokenProgramID e = Owner a then tokenOnAccount e fails subscribe a h
         else if programID e = Pubkey a then Some h
         else do {
           found \<leftarrow> findPoolByMarket (fromBytes e) fails (Pubkey a) h;
           case found of
             Some pool \<Rightarrow> marketOnAccount e fails a pool h
           | None \<Rightarrow>
               if programID e \<noteq> Owner a then Some h
               else if length (Data a) \<noteq> Size then Some h
               else do {
                 r \<leftarrow> Parse (fromBytes e) (Data a);
                 (case r of
                   Inl err \<Rightarrow> Some h
                 | Inr info \<Rightarrow> poolOnAccount fails subscribe (Pubkey a) info (h\<lparr>sawAny := True\<rparr>)) } })"

section \<open>Reading the pools\<close>

record pool_view =
  VPubkey :: pubkey
  VCoinVault :: pubkey
  VPcVault :: pubkey
  VCoinMint :: pubkey
  VPcMint :: pubkey
  VCoinBalance :: u64
  VPcBalance :: u64
  VMarketBids :: "pubkey option"
  VMarketAsks :: "pubkey option"
  VMarketEventQueue :: "pubkey option"
  VMarketCoinVault :: "pubkey option"
  VMarketPcVault :: "pubkey option"
  VMarketVaultSigner :: "pubkey option"

definition poolCount :: "(stmt \<Rightarrow> bool) \<Rightarrow> tables \<Rightarrow> amm_error + nat" where
  "poolCount fails t = (if fails SRead then Inl QueryFailed else Inr (length (pools t)))"

definition nullablePubkey :: "(byte list \<Rightarrow> pubkey) \<Rightarrow> byte list option \<Rightarrow> pubkey option" where
  "nullablePubkey pkfb b = (case b of None \<Rightarrow> None | Some k \<Rightarrow> Some (pkfb k))"

definition liquid_rows :: "tables \<Rightarrow> (pubkey \<times> pool_row \<times> int \<times> int \<times> byte list \<times> byte list) list" where
  "liquid_rows t = concat (map (\<lambda>(pk, r).
     case (coin_balance r, pc_balance r, coin_mint r, pc_mint r) of
       (Some cb, Some pb, Some cm, Some pm) \<Rightarrow> if cb > 0 \<and> pb > 0 then [(pk, r, cb, pb, cm, pm)] else []
     | _ \<Rightarrow> []) (pools t))"

definition scanPool ::
  "(byte list \<Rightarrow> pubkey) \<Rightarrow> pubkey \<times> pool_row \<times> int \<times> int \<times> byte list \<times> byte list \<Rightarrow> pool_view" where
  "scanPool pkfb = (\<lambda>(pk, r, cb, pb, cm, pm).
     \<lparr>VPubkey = copy_key pk, VCoinVault = copy_key (coin_vault r), VPcVault = copy_key (pc_vault r),
      VCoinMint = copy_key cm, VPcMint = copy_key pm, VCoinBalance = to_uint64 cb, VPcBalance = to_uint64 pb,
      VMarketBids = nullablePubkey pkfb (market_bids r), VMarketAsks = nullablePubkey pkfb (market_asks r),
      VMarketEventQueue = nullablePubkey pkfb (market_event_queue r),
      VMarketCoinVault = nullablePubkey pkfb (market_coin_vault r),
      VMarketPcVault = nullablePubkey pkfb (market_pc_vault r),
      VMarketVaultSigner = nullablePubkey pkfb (market_vault_signer r)\<rparr>)"

definition ReadPools ::
  "(byte list \<Rightarrow> pubkey) \<Rightarrow> (stmt \<Rightarrow> bool) \<Rightarrow> (pool_view \<Rightarrow> 's \<Rightarrow> bool \<times> 's) \<Rightarrow> tables \<Rightarrow> 's \<Rightarrow> (amm_error + unit) \<times> 's" where
  "ReadPools pkfb fails fn t s =
     (if fails SRead then (Inl QueryFailed, s) else (Inr (), each_row fn (map (scanPool pkfb) (liquid_rows t)) s))"

definition TopPools ::
  "(byte list \<Rightarrow> pubkey) \<Rightarrow> (stmt \<Rightarrow> bool) \<Rightarrow> int \<Rightarrow> tables \<Rightarrow> (amm_error + pool_view list) option" where
  "TopPools pkfb fails n t =
     (if fails SRead then Some (Inl QueryFailed)
      else if n < 0 then None
      else Some (Inr (map (scanPool pkfb)
             (top_rows (\<lambda>(pk, r, cb, pb, cm, pm). cb + pb) (nat n) (liquid_rows t)))))"

section \<open>No parser panics\<close>

lemma Parse_total: "Parse pkfb data \<noteq> None"
  by (simp add: Parse_def parse_fees_def parse_state_data_def Size_def go_reads)

lemma ParseOpenBookMarket_total: "ParseOpenBookMarket pkfb pk data \<noteq> None"
  by (simp add: ParseOpenBookMarket_def market_layout go_reads)

section \<open>The order of arrival\<close>

text \<open>The accounts of one commit, in stream order; \<open>None\<close> when a call panics.\<close>

fun feed ::
  "env \<Rightarrow> (stmt \<Rightarrow> bool) \<Rightarrow> (pending_subscription \<Rightarrow> 't \<Rightarrow> 't) \<Rightarrow> account list \<Rightarrow> 't handler \<Rightarrow> 't handler option" where
  "feed e fails subscribe [] h = Some h"
| "feed e fails subscribe (a # as) h = do { h \<leftarrow> OnAccount e fails subscribe a h; feed e fails subscribe as h }"

text \<open>The three accounts of a pool: the pool itself, with its parsed body, and the token accounts of its
  two vaults, with theirs.\<close>

record pool_accounts =
  PA :: account
  PInfo :: amm_info
  CA :: account
  CTok :: token_account
  QA :: account
  QTok :: token_account

definition token_of :: "env \<Rightarrow> account \<Rightarrow> token_account \<Rightarrow> bool" where
  "token_of e a ta \<longleftrightarrow> Owner a = tokenProgramID e \<and> \<not> Deleted a \<and> 165 \<le> length (Data a) \<and> length (Data a) < 200 \<and>
     decodeToken e (Data a) = Some ta \<and> length (Pubkey a) = 32"

definition coherent :: "env \<Rightarrow> pool_accounts \<Rightarrow> bool" where
  "coherent e p \<longleftrightarrow> programID e \<noteq> tokenProgramID e \<and> Owner (PA p) = programID e \<and> Pubkey (PA p) \<noteq> programID e \<and>
     \<not> Deleted (PA p) \<and> length (Pubkey (PA p)) = 32 \<and> Parse (fromBytes e) (Data (PA p)) = Some (Inr (PInfo p)) \<and>
     token_of e (CA p) (CTok p) \<and> token_of e (QA p) (QTok p) \<and> Pubkey (CA p) = CoinVault (PInfo p) \<and>
     Pubkey (QA p) = PcVault (PInfo p) \<and> CoinVault (PInfo p) \<noteq> PcVault (PInfo p) \<and> Market (PInfo p) \<noteq> Pubkey (PA p)"

text \<open>A handler that has not met any of them, in an open transaction.\<close>

definition unmet :: "pool_accounts \<Rightarrow> (pubkey \<times> pool_row) list \<Rightarrow> bool" where
  "unmet p rows \<longleftrightarrow> (\<forall>(k, r) \<in> set rows. k \<noteq> Pubkey (PA p) \<and> market r \<noteq> Some (Pubkey (PA p)) \<and>
     {coin_vault r, pc_vault r} \<inter> {CoinVault (PInfo p), PcVault (PInfo p)} = {})"

definition ready_for :: "pool_accounts \<Rightarrow> 't handler \<Rightarrow> bool" where
  "ready_for p h \<longleftrightarrow> db h \<noteq> None \<and> pss h \<noteq> None \<and> unat (slot h) < 2 ^ 63 \<and>
     mPendingToken h (CoinVault (PInfo p)) = None \<and> mPendingToken h (PcVault (PInfo p)) = None \<and>
     (case tx h of None \<Rightarrow> False | Some t \<Rightarrow> unmet p (pools t))"

text \<open>The row after the accounts in \<open>S\<close> have arrived, the pool among them.\<close>

definition row_after :: "pool_accounts \<Rightarrow> account set \<Rightarrow> u64 \<Rightarrow> pool_row" where
  "row_after p S s =
     (let r = new_pool_row (PInfo p) s;
          r = (if CA p \<in> S then set_vault True (CTok p) s r else r)
      in if QA p \<in> S then set_vault False (QTok p) s r else r)"

definition rows_inv :: "pool_accounts \<Rightarrow> (pubkey \<times> pool_row) list \<Rightarrow> u64 \<Rightarrow> account set \<Rightarrow> 't handler \<Rightarrow> bool" where
  "rows_inv p rest s S h \<longleftrightarrow> db h \<noteq> None \<and> pss h \<noteq> None \<and> slot h = s \<and>
     (\<exists>t. tx h = Some t \<and> pools t = rest @ (if PA p \<in> S then [(Pubkey (PA p), row_after p S s)] else []))"

definition pool_inv :: "pool_accounts \<Rightarrow> (pubkey \<times> pool_row) list \<Rightarrow> u64 \<Rightarrow> account set \<Rightarrow> 't handler \<Rightarrow> bool" where
  "pool_inv p rest s S h \<longleftrightarrow> rows_inv p rest s S h \<and>
     mPendingToken h (CoinVault (PInfo p)) = (if CA p \<in> S \<and> PA p \<notin> S then Some (CTok p) else None) \<and>
     mPendingToken h (PcVault (PInfo p)) = (if QA p \<in> S \<and> PA p \<notin> S then Some (QTok p) else None)"

lemma row_after_vaults [simp]:
  "coin_vault (row_after p S s) = CoinVault (PInfo p)" "pc_vault (row_after p S s) = PcVault (PInfo p)"
  "market (row_after p S s) = Some (Market (PInfo p))" "last_slot (row_after p S s) = s"
  by (simp_all add: row_after_def Let_def set_vault_def new_pool_row_def)

lemma set_vault_row_after:
  "CA p \<noteq> QA p \<Longrightarrow> set_vault True (CTok p) s (row_after p S s) = row_after p (insert (CA p) S) s"
  "CA p \<noteq> QA p \<Longrightarrow> set_vault False (QTok p) s (row_after p S s) = row_after p (insert (QA p) S) s"
  by (simp_all add: row_after_def Let_def set_vault_def)

lemma update_last_row: "k \<notin> fst ` set rest \<Longrightarrow> update_row k f (rest @ [(k, r)]) = rest @ [(k, f r)]"
  by (induction rest) (auto simp: update_row_def)

lemma unmet_key: "unmet p rest \<Longrightarrow> Pubkey (PA p) \<notin> fst ` set rest"
  by (auto simp: unmet_def)

lemma unmet_find_vault:
  assumes "unmet p rest" and "v = CoinVault (PInfo p) \<or> v = PcVault (PInfo p)"
  shows "find (\<lambda>(pk, r). coin_vault r = v \<or> pc_vault r = v) rest = None"
  using assms by (fastforce simp: unmet_def find_None_iff)

lemma unmet_find_market: "unmet p rest \<Longrightarrow> find (\<lambda>(pk, r). market r = Some (Pubkey (PA p))) rest = None"
  by (fastforce simp: unmet_def find_None_iff)

lemma find_append_None: "find P xs = None \<Longrightarrow> find P (xs @ ys) = find P ys"
  by (induction xs) (auto split: if_splits)

text \<open>Saving a token changes the pool's row and nothing else the argument depends on.\<close>

lemma saveToken_frame:
  assumes "tx h = Some t" and "pss h \<noteq> None"
  shows "\<exists>h'. saveToken (\<lambda>_. False) subscribe ta pool isCoin h = Some h' \<and> db h' = db h \<and> pss h' \<noteq> None \<and>
    slot h' = slot h \<and> mPendingToken h' = mPendingToken h \<and>
    tx h' = Some (t\<lparr>pools := update_row pool (set_vault isCoin ta (slot h)) (pools t)\<rparr>)"
  using assms by (auto simp: saveToken_def send_subscribe_def MarkPending_def Let_def)

lemma coherent_distinct:
  assumes "coherent e p"
  shows "CA p \<noteq> QA p" "PA p \<noteq> CA p" "PA p \<noteq> QA p" "Owner (CA p) = tokenProgramID e" "Owner (QA p) = tokenProgramID e"
  using assms by (auto simp: coherent_def token_of_def)

lemma saveToken_pool:
  assumes "unmet p rest" "CA p \<noteq> QA p" "PA p \<in> S" "rows_inv p rest s S h"
    and a: "isCoin \<and> a = CA p \<and> ta = CTok p \<or> \<not> isCoin \<and> a = QA p \<and> ta = QTok p"
  shows "\<exists>h'. saveToken (\<lambda>_. False) subscribe ta (Pubkey (PA p)) isCoin h = Some h' \<and>
    rows_inv p rest s (insert a S) h' \<and> mPendingToken h' = mPendingToken h"
proof -
  obtain t where t: "tx h = Some t" "pools t = rest @ [(Pubkey (PA p), row_after p S s)]"
    using assms(3,4) by (auto simp: rows_inv_def)
  have "set_vault isCoin ta s (row_after p S s) = row_after p (insert a S) s"
    using set_vault_row_after [OF assms(2)] a by auto
  then have u: "update_row (Pubkey (PA p)) (set_vault isCoin ta s) (pools t) = rest @ [(Pubkey (PA p), row_after p (insert a S) s)]"
    using unmet_key [OF assms(1)] by (simp add: t(2) update_last_row)
  have "pss h \<noteq> None" "slot h = s" using assms(4) by (auto simp: rows_inv_def)
  with saveToken_frame [OF t(1), of subscribe ta "Pubkey (PA p)" isCoin] u assms(3,4) show ?thesis
    by (auto simp: rows_inv_def)
qed

lemma pool_inv_frame [simp]:
  "pool_inv p rest s S (h\<lparr>onAccountCount := n\<rparr>) = pool_inv p rest s S h"
  "pool_inv p rest s S (h\<lparr>sawAny := b\<rparr>) = pool_inv p rest s S h"
  "rows_inv p rest s S (h\<lparr>mPendingToken := m\<rparr>) = rows_inv p rest s S h"
  by (simp_all add: pool_inv_def rows_inv_def)

lemma token_step:
  assumes c: "coherent e p" and un: "unmet p rest" and fb: "\<And>k. length k = 32 \<Longrightarrow> fromBytes e k = k"
    and iv: "pool_inv p rest s S h"
    and a: "isCoin \<and> a = CA p \<and> ta = CTok p \<and> v = CoinVault (PInfo p) \<or> \<not> isCoin \<and> a = QA p \<and> ta = QTok p \<and> v = PcVault (PInfo p)"
  shows "\<exists>h'. OnAccount e (\<lambda>_. False) subscribe a h = Some h' \<and> pool_inv p rest s (insert a S) h'"
proof -
  note d = coherent_distinct [OF c]
  let ?h = "h\<lparr>onAccountCount := onAccountCount h + 1\<rparr>\<lparr>sawAny := True\<rparr>"
  have v: "Pubkey a = v" "length v = 32" "length (Pubkey (PA p)) = 32" "length (CoinVault (PInfo p)) = 32"
    "CoinVault (PInfo p) \<noteq> PcVault (PInfo p)"
    using c a by (auto simp: coherent_def token_of_def)
  have tk: "token_of e a ta" using c a by (auto simp: coherent_def)
  have find_rest: "find (\<lambda>(pk, r). coin_vault r = v \<or> pc_vault r = v) rest = None"
    using a by (intro unmet_find_vault [OF un]) auto
  obtain t where t: "tx h = Some t" "pools t = rest @ (if PA p \<in> S then [(Pubkey (PA p), row_after p S s)] else [])"
    using iv by (auto simp: pool_inv_def rows_inv_def)
  have find: "findPoolByVault (fromBytes e) (\<lambda>_. False) v ?h = Some (if PA p \<in> S then Some (Pubkey (PA p), isCoin) else None)"
  proof (cases "PA p \<in> S")
    case True
    have w: "CoinVault (PInfo p) = v \<or> PcVault (PInfo p) = v" "(CoinVault (PInfo p) = v) = isCoin" using a v(5) by auto
    have "fromBytes e (Pubkey (PA p)) = Pubkey (PA p)" "fromBytes e (CoinVault (PInfo p)) = CoinVault (PInfo p)"
      using v by (simp_all add: fb)
    with True w t find_append_None [OF find_rest] show ?thesis by (simp add: findPoolByVault_def dbQuery_def)
  next
    case False
    with t find_rest show ?thesis by (simp add: findPoolByVault_def dbQuery_def)
  qed
  show ?thesis
  proof (cases "PA p \<in> S")
    case True
    have "OnAccount e (\<lambda>_. False) subscribe a h = saveToken (\<lambda>_. False) subscribe ta (Pubkey (PA p)) isCoin ?h"
      using tk find v(1) True by (simp add: OnAccount_def tokenOnAccount_def token_of_def)
    moreover have "pool_inv p rest s S ?h" using iv by simp
    ultimately show ?thesis
      using saveToken_pool [OF un d(1) True, of s ?h isCoin a ta subscribe] a True by (auto simp: pool_inv_def)
  next
    case False
    have "OnAccount e (\<lambda>_. False) subscribe a h = Some (?h\<lparr>mPendingToken := (mPendingToken ?h)(v \<mapsto> ta)\<rparr>)"
      using tk find v(1) False by (simp add: OnAccount_def tokenOnAccount_def token_of_def)
    moreover have "pool_inv p rest s (insert a S) (?h\<lparr>mPendingToken := (mPendingToken ?h)(v \<mapsto> ta)\<rparr>)"
      using iv a d False v(5) by (auto simp: pool_inv_def rows_inv_def)
    ultimately show ?thesis by blast
  qed
qed

text \<open>The two pending accounts are applied in turn after the insert.\<close>

lemma take_pending_pool:
  assumes "unmet p rest" "CA p \<noteq> QA p" "PA p \<in> S" "rows_inv p rest s S h"
    and a: "isCoin \<and> a = CA p \<and> ta = CTok p \<or> \<not> isCoin \<and> a = QA p \<and> ta = QTok p"
    and m: "mPendingToken h v = (if P then Some ta else None)"
  shows "\<exists>h'. take_pending (\<lambda>_. False) subscribe v (Pubkey (PA p)) isCoin h = Some h' \<and>
    rows_inv p rest s (if P then insert a S else S) h' \<and> mPendingToken h' = (mPendingToken h)(v := None)"
proof (cases P)
  case True
  let ?h = "h\<lparr>mPendingToken := (mPendingToken h)(v := None)\<rparr>"
  have "rows_inv p rest s S ?h" using assms(4) by simp
  from saveToken_pool [OF assms(1-3) this a, of subscribe] True m show ?thesis
    by (auto simp: take_pending_def Let_def)
next
  case False
  with assms(4) m show ?thesis by (simp add: take_pending_def)
qed

lemma rows_inv_cong:
  "PA p \<in> S \<longleftrightarrow> PA p \<in> S' \<Longrightarrow> CA p \<in> S \<longleftrightarrow> CA p \<in> S' \<Longrightarrow> QA p \<in> S \<longleftrightarrow> QA p \<in> S' \<Longrightarrow>
   rows_inv p rest s S h = rows_inv p rest s S' h"
  by (simp add: rows_inv_def row_after_def)

lemma pool_insert_step:
  assumes c: "coherent e p" and un: "unmet p rest" and new: "PA p \<notin> S" and iv: "pool_inv p rest s S h"
  shows "\<exists>h'. poolOnAccount (\<lambda>_. False) subscribe (Pubkey (PA p)) (PInfo p) h = Some h' \<and> pool_inv p rest s (insert (PA p) S) h'"
proof -
  note d = coherent_distinct [OF c]
  let ?pk = "Pubkey (PA p)" and ?cv = "CoinVault (PInfo p)" and ?pv = "PcVault (PInfo p)"
  obtain t g where t: "tx h = Some t" "pools t = rest" "pss h = Some g" "slot h = s" "db h \<noteq> None"
    using iv new by (auto simp: pool_inv_def rows_inv_def)
  have "map_of rest ?pk = None" using unmet_key [OF un] by (simp add: map_of_eq_None_iff)
  then have nofresh: "\<not> isPoolFresh (\<lambda>_. False) ?pk h" using t by (simp add: isPoolFresh_def dbQuery_def)
  obtain g' where g': "(do { h \<leftarrow> send_subscribe subscribe ?cv h; h \<leftarrow> send_subscribe subscribe ?pv h;
      send_subscribe subscribe (Market (PInfo p)) h }) = Some (h\<lparr>pss := Some g'\<rparr>)"
    using t(3) by (simp add: send_subscribe_def)
  let ?h1 = "h\<lparr>pss := Some g', tx := Some (t\<lparr>pools := replace_row ?pk (new_pool_row (PInfo p) s) (pools t)\<rparr>)\<rparr>"
  have "filter (\<lambda>p'. fst p' \<noteq> ?pk) rest = rest" using unmet_key [OF un] by (force simp: filter_id_conv)
  then have r1: "rows_inv p rest s {PA p} ?h1"
    using t d by (auto simp: rows_inv_def replace_row_def row_after_def)
  have m: "mPendingToken ?h1 ?cv = (if CA p \<in> S then Some (CTok p) else None)"
    "mPendingToken ?h1 ?pv = (if QA p \<in> S then Some (QTok p) else None)"
    using iv new by (auto simp: pool_inv_def)
  obtain h2 where h2: "take_pending (\<lambda>_. False) subscribe ?cv ?pk True ?h1 = Some h2"
    "rows_inv p rest s (if CA p \<in> S then {CA p, PA p} else {PA p}) h2" "mPendingToken h2 = (mPendingToken ?h1)(?cv := None)"
    using take_pending_pool [OF un d(1) _ r1 _ m(1), of True "CA p"] by auto
  have m2: "mPendingToken h2 ?pv = (if QA p \<in> S then Some (QTok p) else None)"
    using m(2) c unfolding h2(3) by (auto simp: coherent_def)
  let ?S2 = "if CA p \<in> S then {CA p, PA p} else {PA p}"
  have in2: "PA p \<in> ?S2" by simp
  obtain h3 where h3: "take_pending (\<lambda>_. False) subscribe ?pv ?pk False h2 = Some h3"
    "rows_inv p rest s (if QA p \<in> S then insert (QA p) ?S2 else ?S2) h3" "mPendingToken h3 = (mPendingToken h2)(?pv := None)"
    using take_pending_pool [OF un d(1) in2 h2(2) _ m2, of False "QA p" subscribe] by blast
  have "rows_inv p rest s (insert (PA p) S) h3"
    using h3(2) d by (subst rows_inv_cong) auto
  moreover have "poolOnAccount (\<lambda>_. False) subscribe ?pk (PInfo p) h = Some h3"
    using nofresh g' t h2(1) h3(1) by (simp add: poolOnAccount_def send_subscribe_def)
  ultimately show ?thesis by (auto simp: pool_inv_def h3(3) h2(3))
qed

lemma pool_step:
  assumes c: "coherent e p" and un: "unmet p rest" and s: "unat s < 2 ^ 63" and iv: "pool_inv p rest s S h"
  shows "\<exists>h'. OnAccount e (\<lambda>_. False) subscribe (PA p) h = Some h' \<and> pool_inv p rest s (insert (PA p) S) h'"
proof -
  let ?pk = "Pubkey (PA p)" and ?h = "h\<lparr>onAccountCount := onAccountCount h + 1\<rparr>\<lparr>sawAny := True\<rparr>"
  obtain t where t: "tx h = Some t" "pools t = rest @ (if PA p \<in> S then [(?pk, row_after p S s)] else [])" "db h \<noteq> None" "slot h = s"
    using iv by (auto simp: pool_inv_def rows_inv_def)
  have cp: "Market (PInfo p) \<noteq> ?pk" "Parse (fromBytes e) (Data (PA p)) = Some (Inr (PInfo p))"
    "\<not> Deleted (PA p)" "Owner (PA p) = programID e" "programID e \<noteq> tokenProgramID e" "?pk \<noteq> programID e"
    using c by (auto simp: coherent_def)
  have "find (\<lambda>(pk, r). market r = Some ?pk) (pools t) = None"
    using find_append_None [OF unmet_find_market [OF un]] cp(1) by (simp add: t(2))
  then have nomarket: "findPoolByMarket (fromBytes e) (\<lambda>_. False) ?pk (h\<lparr>onAccountCount := onAccountCount h + 1\<rparr>) = Some None"
    by (simp add: findPoolByMarket_def dbQuery_def t)
  have "length (Data (PA p)) = Size" using cp(2) by (auto simp: Parse_def split: if_splits)
  then have on: "OnAccount e (\<lambda>_. False) subscribe (PA p) h = poolOnAccount (\<lambda>_. False) subscribe ?pk (PInfo p) ?h"
    using cp nomarket by (auto simp: OnAccount_def)
  show ?thesis
  proof (cases "PA p \<in> S")
    case True
    have "map_of rest ?pk = None" using unmet_key [OF un] by (simp add: map_of_eq_None_iff)
    moreover have "is_fresh s s" using is_fresh_iff [OF s, of s] by simp
    ultimately have "isPoolFresh (\<lambda>_. False) ?pk ?h"
      using t True by (simp add: isPoolFresh_def dbQuery_def map_add_def)
    then have "OnAccount e (\<lambda>_. False) subscribe (PA p) h = Some ?h" by (simp add: on poolOnAccount_def)
    moreover have "insert (PA p) S = S" using True by auto
    ultimately show ?thesis using iv by simp
  next
    case False
    then show ?thesis unfolding on using iv by (intro pool_insert_step [OF c un]) simp_all
  qed
qed

lemma feed_pool:
  assumes "coherent e p" "unmet p rest" "\<And>k. length k = 32 \<Longrightarrow> fromBytes e k = k" "unat s < 2 ^ 63"
    and "pool_inv p rest s S h" "set as \<subseteq> {PA p, CA p, QA p}"
  shows "\<exists>h'. feed e (\<lambda>_. False) subscribe as h = Some h' \<and> pool_inv p rest s (S \<union> set as) h'"
  using assms(5,6)
proof (induction as arbitrary: S h)
  case Nil
  then show ?case by simp
next
  case (Cons a as)
  consider "a = PA p" | "a = CA p" | "a = QA p" using Cons.prems by auto
  then obtain h1 where h1: "OnAccount e (\<lambda>_. False) subscribe a h = Some h1" "pool_inv p rest s (insert a S) h1"
  proof cases
    case 1
    with pool_step [OF assms(1,2,4) Cons.prems(1), of subscribe] that show ?thesis by blast
  next
    case 2
    with token_step [OF assms(1,2,3) Cons.prems(1), of True a "CTok p" "CoinVault (PInfo p)" subscribe] that
    show ?thesis by blast
  next
    case 3
    with token_step [OF assms(1,2,3) Cons.prems(1), of False a "QTok p" "PcVault (PInfo p)" subscribe] that
    show ?thesis by blast
  qed
  from Cons.IH [OF h1(2)] Cons.prems(2) h1(1) show ?case by simp
qed

text \<open>(C7) The order in which a pool's accounts arrive within a commit does not matter: whatever the
  sequence, repetitions included, in which the pool and the token accounts of its two vaults are
  delivered, the handler ends with one row for the pool that has both balances and both mints, the
  rows of the other pools are untouched, and no token account is left pending.\<close>

theorem amm_any_order:
  assumes "coherent e p" and "\<And>k. length k = 32 \<Longrightarrow> fromBytes e k = k" and "ready_for p h" and "tx h = Some t"
    and "set as = {PA p, CA p, QA p}"
  shows "\<exists>h' t'. feed e (\<lambda>_. False) subscribe as h = Some h' \<and> tx h' = Some t' \<and>
    pools t' = pools t @ [(Pubkey (PA p),
      (new_pool_row (PInfo p) (slot h))\<lparr>coin_balance := Some (to_int64 (TAmount (CTok p))), coin_mint := Some (TMint (CTok p)),
        pc_balance := Some (to_int64 (TAmount (QTok p))), pc_mint := Some (TMint (QTok p))\<rparr>)] \<and>
    mPendingToken h' (CoinVault (PInfo p)) = None \<and> mPendingToken h' (PcVault (PInfo p)) = None"
proof -
  have r: "unmet p (pools t)" "unat (slot h) < 2 ^ 63" using assms(3,4) by (auto simp: ready_for_def)
  have "pool_inv p (pools t) (slot h) {} h"
    using assms(3,4) by (auto simp: ready_for_def pool_inv_def rows_inv_def)
  from feed_pool [OF assms(1) r(1) assms(2) r(2) this, of as subscribe] assms(5) show ?thesis
    by (auto simp: pool_inv_def rows_inv_def row_after_def set_vault_def new_pool_row_def Let_def)
qed

definition env0 :: env where
  "env0 = \<lparr>programID = replicate 32 1, tokenProgramID = replicate 32 2,
     decodeToken = (\<lambda>bs. Some \<lparr>TMint = take 32 bs, TAmount = u64_at bs 64\<rparr>), decodeMint = (\<lambda>bs. None),
     fromBytes = (\<lambda>k. k), createPDA = (\<lambda>seeds pk. None)\<rparr>"

definition pool_bytes :: "byte list" where
  "pool_bytes = replicate 336 0 @ replicate 32 3 @ replicate 32 4 @ replicate 352 5"

definition account0 :: "byte \<Rightarrow> byte \<Rightarrow> byte list \<Rightarrow> account" where
  "account0 k own d = \<lparr>Pubkey = replicate 32 k, Owner = replicate 32 own, HSlot = 7, DataSize = length d, Deleted = False, Data = d\<rparr>"

definition accounts0 :: pool_accounts where
  "accounts0 = \<lparr>PA = account0 9 1 pool_bytes, PInfo = projr (the (Parse (\<lambda>k. k) pool_bytes)),
     CA = account0 3 2 (replicate 165 6), CTok = \<lparr>TMint = replicate 32 6, TAmount = u64_at (replicate 165 6) 64\<rparr>,
     QA = account0 4 2 (replicate 165 8), QTok = \<lparr>TMint = replicate 32 8, TAmount = u64_at (replicate 165 8) 64\<rparr>\<rparr>"

lemma Parse_keys:
  "length data = Size \<Longrightarrow> \<exists>info. Parse pkfb data = Some (Inr info) \<and> CoinVault info = key_at pkfb data 336 \<and>
     PcVault info = key_at pkfb data 368 \<and> Market info = key_at pkfb data 528"
  by (simp add: Parse_def parse_fees_def parse_state_data_def Size_def go_reads)

lemma accounts0_info:
  "Parse (\<lambda>k. k) pool_bytes = Some (Inr (PInfo accounts0))" "CoinVault (PInfo accounts0) = replicate 32 3"
  "PcVault (PInfo accounts0) = replicate 32 4" "Market (PInfo accounts0) = replicate 32 5"
proof -
  have "length pool_bytes = Size" by (simp add: pool_bytes_def Size_def)
  from Parse_keys [OF this, of "\<lambda>k. k"]
  obtain info where i: "Parse (\<lambda>k. k) pool_bytes = Some (Inr info)" "CoinVault info = key_at (\<lambda>k. k) pool_bytes 336"
    "PcVault info = key_at (\<lambda>k. k) pool_bytes 368" "Market info = key_at (\<lambda>k. k) pool_bytes 528" by blast
  then have e: "PInfo accounts0 = info" by (simp add: accounts0_def)
  show "Parse (\<lambda>k. k) pool_bytes = Some (Inr (PInfo accounts0))" "CoinVault (PInfo accounts0) = replicate 32 3"
    "PcVault (PInfo accounts0) = replicate 32 4" "Market (PInfo accounts0) = replicate 32 5"
    unfolding e i by (simp_all add: key_at_def pool_bytes_def min_def)
qed

lemma accounts0_coherent: "coherent env0 accounts0"
proof -
  have "replicate 32 (1::byte) \<noteq> replicate 32 2" "replicate 32 (9::byte) \<noteq> replicate 32 1"
    "replicate 32 (3::byte) \<noteq> replicate 32 4" "replicate 32 (5::byte) \<noteq> replicate 32 9" by simp_all
  then show ?thesis using accounts0_info
    unfolding coherent_def token_of_def by (simp add: env0_def account0_def accounts0_def min_def)
qed

theorem amm_any_order_witness:
  "\<exists>h' t'. feed env0 (\<lambda>_. False) (\<lambda>r g. r # g) [CA accounts0, PA accounts0, CA accounts0, QA accounts0]
     ((createHandler (Some \<lparr>pools = [], mints = Map.empty\<rparr>) Map.empty)\<lparr>slot := 7, pss := Some [], tx := Some \<lparr>pools = [], mints = Map.empty\<rparr>\<rparr>) = Some h' \<and>
     tx h' = Some t' \<and> length (pools t') = 1"
proof -
  let ?h = "(createHandler (Some \<lparr>pools = [], mints = Map.empty\<rparr>) Map.empty)\<lparr>slot := 7, pss := Some [], tx := Some \<lparr>pools = [], mints = Map.empty\<rparr>\<rparr>"
  have r: "ready_for accounts0 ?h" "tx ?h = Some \<lparr>pools = [], mints = Map.empty\<rparr>"
    by (simp_all add: ready_for_def createHandler_def unmet_def)
  have fb: "\<And>k. length k = 32 \<Longrightarrow> fromBytes env0 k = k" by (simp add: env0_def)
  have "set [CA accounts0, PA accounts0, CA accounts0, QA accounts0] = {PA accounts0, CA accounts0, QA accounts0}"
    by auto
  from amm_any_order [OF accounts0_coherent fb r this, of "\<lambda>r g. r # g"]
  obtain h' t' where "feed env0 (\<lambda>_. False) (\<lambda>r g. r # g) [CA accounts0, PA accounts0, CA accounts0, QA accounts0] ?h = Some h'"
    "tx h' = Some t'" "length (pools t') = 1" by fastforce
  then show ?thesis by blast
qed

end
