(* ===== verification/Clmm.thy ===== *)
theory Clmm
  imports Accounts Subscribe
begin

text \<open>
  The Raydium CLMM prefetcher (\<open>src/prefetch/raydium/clmm\<close>): the parsers (\<open>clmm.go\<close>), the event handler
  (\<open>event.go\<close>) and the queries (\<open>read.go\<close>). Its pool account carries the decimals of both mints, so the
  handler stores them without asking for the mint accounts. Conventions as in the CPMM prefetcher:
  failing statements are arguments, \<open>None\<close> is a panic, decoders of other modules are parameters.
\<close>

section \<open>Parsers\<close>

datatype clmm_error =
    WrongSize nat nat
  | BeginFailed | CommitFailed | OnAccountFailed | InsertConfigFailed | InsertPoolFailed | UpdateVaultFailed
  | QueryFailed

definition PoolStateBodySize :: nat where "PoolStateBodySize = 1536"
definition AmmConfigBodySize :: nat where "AmmConfigBodySize = 109"

text \<open>Selectors carry a prefix where Go's structs share a field name.\<close>

record reward_info =
  RewardState :: byte
  ROpenTime :: u64
  EndTime :: u64
  LastUpdateTime :: u64
  EmissionsPerSecondX64 :: u128
  RewardTotalEmitted :: u64
  RewardClaimed :: u64
  TokenMint :: pubkey
  TokenVault :: pubkey
  Authority :: pubkey
  RewardGrowthGlobalX64 :: u128

record dynamic_fee_info =
  FilterPeriod :: u16
  DecayPeriod :: u16
  ReductionFactor :: u16
  DynamicFeeControl :: u32
  MaxVolatilityAccumulator :: u32
  TickSpacingIndexReference :: int
  VolatilityReference :: u32
  VolatilityAccumulator :: u32
  LastUpdateTimestamp :: u64

record pool_state =
  Bump :: byte
  AmmConfig :: pubkey
  POwner :: pubkey
  TokenMint0 :: pubkey
  TokenMint1 :: pubkey
  TokenVault0 :: pubkey
  TokenVault1 :: pubkey
  ObservationKey :: pubkey
  MintDecimals0 :: byte
  MintDecimals1 :: byte
  TickSpacing :: u16
  Liquidity :: u128
  SqrtPriceX64 :: u128
  TickCurrent :: int
  FeeGrowthGlobal0X64 :: u128
  FeeGrowthGlobal1X64 :: u128
  ProtocolFeesToken0 :: u64
  ProtocolFeesToken1 :: u64
  Status :: byte
  FeeOn :: byte
  RewardInfo0 :: reward_info
  RewardInfo1 :: reward_info
  RewardInfo2 :: reward_info
  FundFeesToken0 :: u64
  FundFeesToken1 :: u64
  OpenTime :: u64
  RecentEpoch :: u64
  DynamicFee :: dynamic_fee_info

record amm_config =
  CBump :: byte
  CIndex :: u16
  COwner :: pubkey
  ProtocolFeeRate :: u32
  TradeFeeRate :: u32
  CTickSpacing :: u16
  FundFeeRate :: u32
  FundOwner :: pubkey

definition parseRewardInfo :: "(byte list \<Rightarrow> pubkey) \<Rightarrow> byte list \<Rightarrow> nat \<Rightarrow> reward_info option" where
  "parseRewardInfo pkfb data off = do {
     xRewardState \<leftarrow> go_index data (off + 0);
     xROpenTime \<leftarrow> read_u64 data (off + 1);
     xEndTime \<leftarrow> read_u64 data (off + 9);
     xLastUpdateTime \<leftarrow> read_u64 data (off + 17);
     xEmissionsPerSecondX64 \<leftarrow> read_u128 data (off + 25);
     xRewardTotalEmitted \<leftarrow> read_u64 data (off + 41);
     xRewardClaimed \<leftarrow> read_u64 data (off + 49);
     xTokenMint \<leftarrow> read_pubkey pkfb data (off + 57);
     xTokenVault \<leftarrow> read_pubkey pkfb data (off + 89);
     xAuthority \<leftarrow> read_pubkey pkfb data (off + 121);
     xRewardGrowthGlobalX64 \<leftarrow> read_u128 data (off + 153);
     Some \<lparr>RewardState = xRewardState, ROpenTime = xROpenTime, EndTime = xEndTime,
       LastUpdateTime = xLastUpdateTime, EmissionsPerSecondX64 = xEmissionsPerSecondX64,
       RewardTotalEmitted = xRewardTotalEmitted, RewardClaimed = xRewardClaimed, TokenMint = xTokenMint,
       TokenVault = xTokenVault, Authority = xAuthority, RewardGrowthGlobalX64 = xRewardGrowthGlobalX64\<rparr> }"

definition parse_dynamic_fee :: "byte list \<Rightarrow> dynamic_fee_info option" where
  "parse_dynamic_fee body = do {
     xFilterPeriod \<leftarrow> read_u16 body 1088;
     xDecayPeriod \<leftarrow> read_u16 body 1090;
     xReductionFactor \<leftarrow> read_u16 body 1092;
     xDynamicFeeControl \<leftarrow> read_u32 body 1094;
     xMaxVolatilityAccumulator \<leftarrow> read_u32 body 1098;
     xTickSpacingIndexReference \<leftarrow> read_i32 body 1102;
     xVolatilityReference \<leftarrow> read_u32 body 1106;
     xVolatilityAccumulator \<leftarrow> read_u32 body 1110;
     xLastUpdateTimestamp \<leftarrow> read_u64 body 1114;
     Some \<lparr>FilterPeriod = xFilterPeriod, DecayPeriod = xDecayPeriod, ReductionFactor = xReductionFactor,
       DynamicFeeControl = xDynamicFeeControl, MaxVolatilityAccumulator = xMaxVolatilityAccumulator,
       TickSpacingIndexReference = xTickSpacingIndexReference, VolatilityReference = xVolatilityReference,
       VolatilityAccumulator = xVolatilityAccumulator, LastUpdateTimestamp = xLastUpdateTimestamp\<rparr> }"

definition ParsePoolState :: "(byte list \<Rightarrow> pubkey) \<Rightarrow> byte list \<Rightarrow> (clmm_error + pool_state) option" where
  "ParsePoolState pkfb body =
     (if length body \<noteq> PoolStateBodySize then Some (Inl (WrongSize PoolStateBodySize (length body)))
      else do {
        xBump \<leftarrow> go_index body 0;
        xAmmConfig \<leftarrow> read_pubkey pkfb body 1;
        xPOwner \<leftarrow> read_pubkey pkfb body 33;
        xTokenMint0 \<leftarrow> read_pubkey pkfb body 65;
        xTokenMint1 \<leftarrow> read_pubkey pkfb body 97;
        xTokenVault0 \<leftarrow> read_pubkey pkfb body 129;
        xTokenVault1 \<leftarrow> read_pubkey pkfb body 161;
        xObservationKey \<leftarrow> read_pubkey pkfb body 193;
        xMintDecimals0 \<leftarrow> go_index body 225;
        xMintDecimals1 \<leftarrow> go_index body 226;
        xTickSpacing \<leftarrow> read_u16 body 227;
        xLiquidity \<leftarrow> read_u128 body 229;
        xSqrtPriceX64 \<leftarrow> read_u128 body 245;
        xTickCurrent \<leftarrow> read_i32 body 261;
        xFeeGrowthGlobal0X64 \<leftarrow> read_u128 body 269;
        xFeeGrowthGlobal1X64 \<leftarrow> read_u128 body 285;
        xProtocolFeesToken0 \<leftarrow> read_u64 body 301;
        xProtocolFeesToken1 \<leftarrow> read_u64 body 309;
        xStatus \<leftarrow> go_index body 381;
        xFeeOn \<leftarrow> go_index body 382;
        xRewardInfo0 \<leftarrow> parseRewardInfo pkfb body 389;
        xRewardInfo1 \<leftarrow> parseRewardInfo pkfb body 558;
        xRewardInfo2 \<leftarrow> parseRewardInfo pkfb body 727;
        xFundFeesToken0 \<leftarrow> read_u64 body 1056;
        xFundFeesToken1 \<leftarrow> read_u64 body 1064;
        xOpenTime \<leftarrow> read_u64 body 1072;
        xRecentEpoch \<leftarrow> read_u64 body 1080;
        xDynamicFee \<leftarrow> parse_dynamic_fee body;
        Some (Inr \<lparr>Bump = xBump, AmmConfig = xAmmConfig, POwner = xPOwner, TokenMint0 = xTokenMint0,
          TokenMint1 = xTokenMint1, TokenVault0 = xTokenVault0, TokenVault1 = xTokenVault1,
          ObservationKey = xObservationKey, MintDecimals0 = xMintDecimals0, MintDecimals1 = xMintDecimals1,
          TickSpacing = xTickSpacing, Liquidity = xLiquidity, SqrtPriceX64 = xSqrtPriceX64,
          TickCurrent = xTickCurrent, FeeGrowthGlobal0X64 = xFeeGrowthGlobal0X64,
          FeeGrowthGlobal1X64 = xFeeGrowthGlobal1X64, ProtocolFeesToken0 = xProtocolFeesToken0,
          ProtocolFeesToken1 = xProtocolFeesToken1, Status = xStatus, FeeOn = xFeeOn,
          RewardInfo0 = xRewardInfo0, RewardInfo1 = xRewardInfo1, RewardInfo2 = xRewardInfo2,
          FundFeesToken0 = xFundFeesToken0, FundFeesToken1 = xFundFeesToken1, OpenTime = xOpenTime,
          RecentEpoch = xRecentEpoch, DynamicFee = xDynamicFee\<rparr>) })"

definition ParseAmmConfig :: "(byte list \<Rightarrow> pubkey) \<Rightarrow> byte list \<Rightarrow> (clmm_error + amm_config) option" where
  "ParseAmmConfig pkfb body =
     (if length body \<noteq> AmmConfigBodySize then Some (Inl (WrongSize AmmConfigBodySize (length body)))
      else do {
        xCBump \<leftarrow> go_index body 0;
        xCIndex \<leftarrow> read_u16 body 1;
        xCOwner \<leftarrow> read_pubkey pkfb body 3;
        xProtocolFeeRate \<leftarrow> read_u32 body 35;
        xTradeFeeRate \<leftarrow> read_u32 body 39;
        xCTickSpacing \<leftarrow> read_u16 body 43;
        xFundFeeRate \<leftarrow> read_u32 body 45;
        xFundOwner \<leftarrow> read_pubkey pkfb body 53;
        Some (Inr \<lparr>CBump = xCBump, CIndex = xCIndex, COwner = xCOwner, ProtocolFeeRate = xProtocolFeeRate,
          TradeFeeRate = xTradeFeeRate, CTickSpacing = xCTickSpacing, FundFeeRate = xFundFeeRate,
          FundOwner = xFundOwner\<rparr>) })"

section \<open>Tables\<close>

record config_row =
  c_bump :: int
  c_config_index :: int
  c_owner :: "byte list"
  c_protocol_fee_rate :: int
  c_trade_fee_rate :: int
  c_tick_spacing :: int
  c_fund_fee_rate :: int
  c_fund_owner :: "byte list"
  c_last_slot :: u64

record pool_row =
  amm_config :: "byte list"
  owner :: "byte list"
  token_mint0 :: "byte list"
  token_mint1 :: "byte list"
  token_vault0 :: "byte list"
  token_vault1 :: "byte list"
  observation_key :: "byte list"
  mint_decimals0 :: int
  mint_decimals1 :: int
  tick_spacing :: int
  liquidity_lo :: int
  liquidity_hi :: int
  sqrt_price_lo :: int
  sqrt_price_hi :: int
  tick_current :: int
  protocol_fees0 :: int
  protocol_fees1 :: int
  status :: int
  open_time :: int
  token0_balance :: "int option"
  token1_balance :: "int option"
  last_slot :: u64

record tables =
  configs :: "(pubkey \<times> config_row) list"
  pools :: "(pubkey \<times> pool_row) list"
  mints :: mint_table

datatype stmt =
    SBegin | SCommit | SConfigFresh | SConfigExists | SPoolFresh | SFindVault
  | SInsertConfig | SInsertPool | SUpdateVault | SSaveMint0 | SSaveMint1 | SRead

section \<open>The handler\<close>

record 't handler =
  slot :: u64
  pss :: "'t option"
  sawAny :: bool
  totalCount :: int
  counter :: "int \<times> int \<times> int"
  db :: "tables option"
  tx :: "tables option"
  mintTracker :: mint_tracker
  cause :: "clmm_error option"

definition cancel :: "clmm_error \<Rightarrow> 't handler \<Rightarrow> 't handler" where
  "cancel e h = (if cause h = None then h\<lparr>cause := Some e\<rparr> else h)"

definition createHandler :: "tables option \<Rightarrow> mint_tracker \<Rightarrow> 't handler" where
  "createHandler d mt =
     \<lparr>slot = 0, pss = None, sawAny = False, totalCount = 0, counter = (0, 0, 0), db = d, tx = None,
      mintTracker = mt, cause = None\<rparr>"

definition dbQuery :: "'t handler \<Rightarrow> tables option" where
  "dbQuery h = (case tx h of Some t \<Rightarrow> Some t | None \<Rightarrow> db h)"

definition isConfigFresh :: "(stmt \<Rightarrow> bool) \<Rightarrow> pubkey \<Rightarrow> 't handler \<Rightarrow> bool" where
  "isConfigFresh fails pk h =
     (if db h = None \<or> fails SConfigFresh then False
      else case map_of (configs (the (dbQuery h))) pk of
        None \<Rightarrow> False
      | Some r \<Rightarrow> is_fresh (c_last_slot r) (slot h))"

definition configExists :: "(stmt \<Rightarrow> bool) \<Rightarrow> pubkey \<Rightarrow> 't handler \<Rightarrow> bool" where
  "configExists fails pk h =
     (if db h = None \<or> fails SConfigExists then False
      else map_of (configs (the (dbQuery h))) pk \<noteq> None)"

definition isPoolFresh :: "(stmt \<Rightarrow> bool) \<Rightarrow> pubkey \<Rightarrow> 't handler \<Rightarrow> bool" where
  "isPoolFresh fails pk h =
     (if db h = None \<or> fails SPoolFresh then False
      else case map_of (pools (the (dbQuery h))) pk of
        None \<Rightarrow> False
      | Some r \<Rightarrow> is_fresh (last_slot r) (slot h))"

definition findPoolByVault ::
  "(byte list \<Rightarrow> pubkey) \<Rightarrow> (stmt \<Rightarrow> bool) \<Rightarrow> pubkey \<Rightarrow> 't handler \<Rightarrow> (pubkey \<times> bool) option option" where
  "findPoolByVault pkfb fails vault h =
     (case dbQuery h of
        None \<Rightarrow> None
      | Some t \<Rightarrow>
          if fails SFindVault then Some None
          else Some (case find (\<lambda>(pk, r). token_vault0 r = vault \<or> token_vault1 r = vault) (pools t) of
                       None \<Rightarrow> None
                     | Some (pk, r) \<Rightarrow> Some (pkfb pk, pkfb (token_vault0 r) = vault)))"

definition CommitStart :: "(stmt \<Rightarrow> bool) \<Rightarrow> u64 \<Rightarrow> 't handler \<Rightarrow> 't handler" where
  "CommitStart fails s h =
     (let h = h\<lparr>slot := s\<rparr>
      in case db h of
           None \<Rightarrow> h
         | Some d \<Rightarrow> if fails SBegin then cancel BeginFailed h else h\<lparr>tx := Some d\<rparr>)"

text \<open>A failing commit returns before the transaction is cleared.\<close>

definition CommitFinish ::
  "(stmt \<Rightarrow> bool) \<Rightarrow> (u64 \<Rightarrow> 't \<Rightarrow> bool \<times> 't) \<Rightarrow> 't handler \<Rightarrow> bool \<times> 't handler" where
  "CommitFinish fails check h =
     (case tx h of
        None \<Rightarrow> (False, h)
      | Some t \<Rightarrow>
          if fails SCommit then (False, cancel CommitFailed h)
          else
            let h = h\<lparr>db := Some t, tx := None\<rparr>
            in case pss h of
                 None \<Rightarrow> (False, h)
               | Some g \<Rightarrow>
                   (case check (slot h) g of (isDone, g') \<Rightarrow> (isDone \<and> sawAny h, h\<lparr>pss := Some g'\<rparr>)))"

definition Init :: "pubkey \<Rightarrow> u32 \<Rightarrow> 't \<Rightarrow> (pending_subscription \<Rightarrow> 't \<Rightarrow> 't) \<Rightarrow> 't handler \<Rightarrow> 't handler" where
  "Init progID weightAll newTracker subscribe h =
     h\<lparr>pss := Some (subscribe \<lparr>root = progID, weight = weightAll, depth = 2\<rparr> newTracker)\<rparr>"

definition send_subscribe ::
  "(pending_subscription \<Rightarrow> 't \<Rightarrow> 't) \<Rightarrow> pending_subscription \<Rightarrow> 't handler \<Rightarrow> 't handler option" where
  "send_subscribe subscribe r h =
     (case pss h of None \<Rightarrow> None | Some g \<Rightarrow> Some (h\<lparr>pss := Some (subscribe r g)\<rparr>))"

record env =
  programID :: pubkey
  tokenProgramID :: pubkey
  weightDirect :: u32
  decodeToken :: "byte list \<Rightarrow> token_account option"
  fromBytes :: "byte list \<Rightarrow> pubkey"

datatype parsed = PNone | PConfig amm_config | PPool pool_state | PToken token_account

definition classify :: "env \<Rightarrow> account \<Rightarrow> 't handler \<Rightarrow> ((clmm_error + parsed) \<times> 't handler) option" where
  "classify e a h =
     (if programID e = Owner a then
        (if DataSize a - 8 = AmmConfigBodySize then do {
           let h = h\<lparr>counter := (case counter h of (x, y, z) \<Rightarrow> (x + 1, y, z))\<rparr>;
           d \<leftarrow> go_slice_from 8 (Data a);
           r \<leftarrow> ParseAmmConfig (fromBytes e) d;
           Some (case r of Inl err \<Rightarrow> Inl err | Inr c \<Rightarrow> Inr (PConfig c), h) }
         else if DataSize a - 8 = PoolStateBodySize then do {
           let h = h\<lparr>counter := (case counter h of (x, y, z) \<Rightarrow> (x, y + 1, z))\<rparr>;
           d \<leftarrow> go_slice_from 8 (Data a);
           r \<leftarrow> ParsePoolState (fromBytes e) d;
           Some (case r of Inl err \<Rightarrow> Inl err | Inr p \<Rightarrow> Inr (PPool p), h) }
         else Some (Inr PNone, h))
      else if tokenProgramID e = Owner a then
        (let h = h\<lparr>counter := (case counter h of (x, y, z) \<Rightarrow> (x, y, z + 1))\<rparr>
         in Some (Inr (case decodeToken e (Data a) of None \<Rightarrow> PNone | Some t \<Rightarrow> PToken t), h))
      else Some (Inr PNone, h))"

definition new_config_row :: "amm_config \<Rightarrow> u64 \<Rightarrow> config_row" where
  "new_config_row c s =
     \<lparr>c_bump = uint (CBump c), c_config_index = uint (CIndex c), c_owner = COwner c,
      c_protocol_fee_rate = uint (ProtocolFeeRate c), c_trade_fee_rate = uint (TradeFeeRate c),
      c_tick_spacing = uint (CTickSpacing c), c_fund_fee_rate = uint (FundFeeRate c), c_fund_owner = FundOwner c,
      c_last_slot = s\<rparr>"

definition on_config ::
  "env \<Rightarrow> (stmt \<Rightarrow> bool) \<Rightarrow> (pending_subscription \<Rightarrow> 't \<Rightarrow> 't) \<Rightarrow> pubkey \<Rightarrow> amm_config \<Rightarrow> 't handler \<Rightarrow> 't handler option" where
  "on_config e fails subscribe pk c h = do {
     h \<leftarrow> (if isConfigFresh fails pk h then Some h
           else send_subscribe subscribe \<lparr>root = pk, weight = weightDirect e, depth = 2\<rparr> h);
     Some (case tx h of
             None \<Rightarrow> h
           | Some t \<Rightarrow>
               if fails SInsertConfig then cancel InsertConfigFailed h
               else h\<lparr>tx := Some (t\<lparr>configs := replace_row pk (new_config_row c (slot h)) (configs t)\<rparr>)\<rparr>) }"

definition new_pool_row :: "pool_state \<Rightarrow> u64 \<Rightarrow> pool_row" where
  "new_pool_row p s =
     \<lparr>amm_config = AmmConfig p, owner = POwner p, token_mint0 = TokenMint0 p, token_mint1 = TokenMint1 p,
      token_vault0 = TokenVault0 p, token_vault1 = TokenVault1 p, observation_key = ObservationKey p,
      mint_decimals0 = uint (MintDecimals0 p), mint_decimals1 = uint (MintDecimals1 p),
      tick_spacing = uint (TickSpacing p), liquidity_lo = to_int64 (Lo (Liquidity p)),
      liquidity_hi = to_int64 (Hi (Liquidity p)), sqrt_price_lo = to_int64 (Lo (SqrtPriceX64 p)),
      sqrt_price_hi = to_int64 (Hi (SqrtPriceX64 p)), tick_current = TickCurrent p,
      protocol_fees0 = to_int64 (ProtocolFeesToken0 p), protocol_fees1 = to_int64 (ProtocolFeesToken1 p),
      status = uint (Status p), open_time = to_int64 (OpenTime p), token0_balance = None, token1_balance = None,
      last_slot = s\<rparr>"

text \<open>The two calls of \<open>SaveTx\<close>; their errors are only logged.\<close>

definition save_mints :: "(stmt \<Rightarrow> bool) \<Rightarrow> pool_state \<Rightarrow> mint_tracker \<times> mint_table \<Rightarrow> mint_tracker \<times> mint_table" where
  "save_mints fails p st =
     snd (mint_save (fails SSaveMint1) (TokenMint1 p) (MintDecimals1 p)
       (snd (mint_save (fails SSaveMint0) (TokenMint0 p) (MintDecimals0 p) st)))"

definition insert_pool :: "(stmt \<Rightarrow> bool) \<Rightarrow> pubkey \<Rightarrow> pool_state \<Rightarrow> 't handler \<Rightarrow> 't handler" where
  "insert_pool fails pk p h =
     (case tx h of
        None \<Rightarrow> h
      | Some t \<Rightarrow>
          if fails SInsertPool then cancel InsertPoolFailed h
          else case save_mints fails p (mintTracker h, mints t) of
            (known, mt) \<Rightarrow>
              h\<lparr>mintTracker := known, tx := Some (t\<lparr>pools := replace_row pk (new_pool_row p (slot h)) (pools t), mints := mt\<rparr>)\<rparr>)"

definition pool_requests ::
  "(stmt \<Rightarrow> bool) \<Rightarrow> (pending_subscription \<Rightarrow> 't \<Rightarrow> 't) \<Rightarrow> pubkey \<Rightarrow> pool_state \<Rightarrow> 't handler \<Rightarrow> 't handler option" where
  "pool_requests fails subscribe pk p h =
     (if isPoolFresh fails pk h then Some h
      else do {
        h \<leftarrow> send_subscribe subscribe \<lparr>root = TokenVault0 p, weight = 0, depth = 1\<rparr> h;
        send_subscribe subscribe \<lparr>root = TokenVault1 p, weight = 0, depth = 1\<rparr> h })"

definition on_pool ::
  "(stmt \<Rightarrow> bool) \<Rightarrow> (pending_subscription \<Rightarrow> 't \<Rightarrow> 't) \<Rightarrow> pubkey \<Rightarrow> pool_state \<Rightarrow> 't handler \<Rightarrow> 't handler option" where
  "on_pool fails subscribe pk p h =
     (if \<not> configExists fails (AmmConfig p) h then Some h
      else do { h \<leftarrow> pool_requests fails subscribe pk p h; Some (insert_pool fails pk p h) })"

definition set_balance :: "bool \<Rightarrow> int \<Rightarrow> u64 \<Rightarrow> pool_row \<Rightarrow> pool_row" where
  "set_balance isVault0 x s r =
     (if isVault0 then r\<lparr>token0_balance := Some x, last_slot := s\<rparr> else r\<lparr>token1_balance := Some x, last_slot := s\<rparr>)"

definition update_vault :: "(stmt \<Rightarrow> bool) \<Rightarrow> pubkey \<times> bool \<Rightarrow> token_account \<Rightarrow> 't handler \<Rightarrow> 't handler" where
  "update_vault fails found ta h =
     (case tx h of
        None \<Rightarrow> h
      | Some t \<Rightarrow>
          if fails SUpdateVault then cancel UpdateVaultFailed h
          else h\<lparr>tx := Some (t\<lparr>pools :=
                 update_row (fst found) (set_balance (snd found) (to_int64 (TAmount ta)) (slot h)) (pools t)\<rparr>)\<rparr>)"

definition on_token ::
  "env \<Rightarrow> (stmt \<Rightarrow> bool) \<Rightarrow> pubkey \<Rightarrow> token_account \<Rightarrow> 't handler \<Rightarrow> 't handler option" where
  "on_token e fails pk ta h = do {
     found \<leftarrow> findPoolByVault (fromBytes e) fails pk h;
     Some (case found of None \<Rightarrow> h | Some f \<Rightarrow> update_vault fails f ta h) }"

definition dispatch ::
  "env \<Rightarrow> (stmt \<Rightarrow> bool) \<Rightarrow> (pending_subscription \<Rightarrow> 't \<Rightarrow> 't) \<Rightarrow> account \<Rightarrow> clmm_error + parsed \<Rightarrow> 't handler \<Rightarrow> 't handler option" where
  "dispatch e fails subscribe a r h =
     (case r of
        Inl err \<Rightarrow> Some (cancel OnAccountFailed h)
      | Inr PNone \<Rightarrow> Some h
      | Inr (PConfig c) \<Rightarrow> on_config e fails subscribe (Pubkey a) c (h\<lparr>sawAny := True\<rparr>)
      | Inr (PPool p) \<Rightarrow> on_pool fails subscribe (Pubkey a) p (h\<lparr>sawAny := True\<rparr>)
      | Inr (PToken ta) \<Rightarrow> on_token e fails (Pubkey a) ta (h\<lparr>sawAny := True\<rparr>))"

definition OnAccount ::
  "env \<Rightarrow> (stmt \<Rightarrow> bool) \<Rightarrow> (pending_subscription \<Rightarrow> 't \<Rightarrow> 't) \<Rightarrow> account \<Rightarrow> 't handler \<Rightarrow> 't handler option" where
  "OnAccount e fails subscribe a h =
     (if Deleted a \<or> DataSize a < 8 then Some h
      else do {
        (r, h) \<leftarrow> classify e a (h\<lparr>totalCount := totalCount h + 1\<rparr>);
        dispatch e fails subscribe a r h })"

section \<open>Reading the pools\<close>

record pool_view =
  VPubkey :: pubkey
  VTokenMint0 :: pubkey
  VTokenMint1 :: pubkey
  VTokenVault0 :: pubkey
  VTokenVault1 :: pubkey
  VToken0Balance :: u64
  VToken1Balance :: u64
  VTradeFeeRate :: u32

definition poolCount :: "(stmt \<Rightarrow> bool) \<Rightarrow> tables \<Rightarrow> clmm_error + nat" where
  "poolCount fails t = (if fails SRead then Inl QueryFailed else Inr (length (pools t)))"

text \<open>\<open>liquidPoolQuery\<close>: the pools with both balances positive, joined with their configuration.\<close>

definition liquid_rows :: "tables \<Rightarrow> (pubkey \<times> pool_row \<times> int \<times> int \<times> int) list" where
  "liquid_rows t = concat (map (\<lambda>(pk, r).
     case (token0_balance r, token1_balance r, map_of (configs t) (amm_config r)) of
       (Some b0, Some b1, Some c) \<Rightarrow> if b0 > 0 \<and> b1 > 0 then [(pk, r, b0, b1, c_trade_fee_rate c)] else []
     | _ \<Rightarrow> []) (pools t))"

definition scanPool :: "pubkey \<times> pool_row \<times> int \<times> int \<times> int \<Rightarrow> pool_view" where
  "scanPool = (\<lambda>(pk, r, b0, b1, fee).
     \<lparr>VPubkey = copy_key pk, VTokenMint0 = copy_key (token_mint0 r), VTokenMint1 = copy_key (token_mint1 r),
      VTokenVault0 = copy_key (token_vault0 r), VTokenVault1 = copy_key (token_vault1 r),
      VToken0Balance = to_uint64 b0, VToken1Balance = to_uint64 b1, VTradeFeeRate = word_of_int fee\<rparr>)"

definition ReadPools ::
  "(stmt \<Rightarrow> bool) \<Rightarrow> (pool_view \<Rightarrow> 's \<Rightarrow> bool \<times> 's) \<Rightarrow> tables \<Rightarrow> 's \<Rightarrow> (clmm_error + unit) \<times> 's" where
  "ReadPools fails fn t s =
     (if fails SRead then (Inl QueryFailed, s) else (Inr (), each_row fn (map scanPool (liquid_rows t)) s))"

definition TopPools :: "(stmt \<Rightarrow> bool) \<Rightarrow> int \<Rightarrow> tables \<Rightarrow> (clmm_error + pool_view list) option" where
  "TopPools fails n t =
     (if fails SRead then Some (Inl QueryFailed)
      else if n < 0 then None
      else Some (Inr (map scanPool (top_rows (\<lambda>(pk, r, b0, b1, fee). b0 + b1) (nat n) (liquid_rows t)))))"

section \<open>Parsers never panic\<close>

lemma clmm_ParsePoolState_total: "ParsePoolState pkfb body \<noteq> None"
  by (simp add: ParsePoolState_def parseRewardInfo_def parse_dynamic_fee_def PoolStateBodySize_def go_reads)

lemma clmm_ParseAmmConfig_total: "ParseAmmConfig pkfb body \<noteq> None"
  by (simp add: ParseAmmConfig_def AmmConfigBodySize_def go_reads)

section \<open>Integrity of the tables\<close>

definition handler_inv :: "'t handler \<Rightarrow> bool" where
  "handler_inv h \<longleftrightarrow> (\<forall>t. db h = Some t \<or> tx h = Some t \<longrightarrow> refs_ok amm_config (configs t) (pools t))"

lemma clmm_cancel_frame [simp]:
  "db (cancel e h) = db h" "tx (cancel e h) = tx h" "slot (cancel e h) = slot h" "pss (cancel e h) = pss h"
  "sawAny (cancel e h) = sawAny h"
  by (simp_all add: cancel_def)

lemma clmm_send_subscribe_frame:
  "send_subscribe subscribe r h = Some h' \<Longrightarrow>
   db h' = db h \<and> tx h' = tx h \<and> slot h' = slot h \<and> sawAny h' = sawAny h \<and> mintTracker h' = mintTracker h"
  by (auto simp: send_subscribe_def split: option.splits)

lemma clmm_handler_inv_cong: "db h1 = db h \<Longrightarrow> tx h1 = tx h \<Longrightarrow> handler_inv h1 = handler_inv h"
  by (simp add: handler_inv_def)

lemma clmm_on_config_inv:
  assumes "handler_inv h" and "on_config e fails subscribe pk c h = Some h'"
  shows "handler_inv h'"
proof -
  obtain h1 where h1: "db h1 = db h" "tx h1 = tx h"
    and h': "h' = (case tx h1 of None \<Rightarrow> h1 | Some t \<Rightarrow> if fails SInsertConfig then cancel InsertConfigFailed h1
       else h1\<lparr>tx := Some (t\<lparr>configs := replace_row pk (new_config_row c (slot h1)) (configs t)\<rparr>)\<rparr>)"
    using assms(2) by (auto simp: on_config_def bind_eq_Some_conv dest: clmm_send_subscribe_frame split: if_splits)
  with assms(1) show ?thesis by (auto simp: handler_inv_def refs_ok_intros split: option.split)
qed

lemma clmm_insert_pool_inv:
  assumes "handler_inv h" and "\<And>t. tx h = Some t \<Longrightarrow> map_of (configs t) (AmmConfig p) \<noteq> None"
  shows "handler_inv (insert_pool fails pk p h)"
proof (cases "tx h")
  case (Some t)
  then have "refs_ok amm_config (configs t) (replace_row pk (new_pool_row p (slot h)) (pools t))"
    using assms by (intro refs_ok_replace_right) (auto simp: handler_inv_def new_pool_row_def)
  with assms(1) Some show ?thesis by (auto simp: insert_pool_def handler_inv_def split: prod.split)
qed (use assms in \<open>simp add: insert_pool_def\<close>)

lemma configExists_tx: "configExists fails pk h \<Longrightarrow> tx h = Some t \<Longrightarrow> map_of (configs t) pk \<noteq> None"
  by (auto simp: configExists_def dbQuery_def split: if_splits)

lemma clmm_pool_requests_frame:
  "pool_requests fails subscribe pk p h = Some h' \<Longrightarrow>
   db h' = db h \<and> tx h' = tx h \<and> slot h' = slot h \<and> mintTracker h' = mintTracker h"
  by (auto simp: pool_requests_def bind_eq_Some_conv dest!: clmm_send_subscribe_frame split: if_splits)

lemma clmm_on_pool_inv:
  assumes "handler_inv h" and "on_pool fails subscribe pk p h = Some h'"
  shows "handler_inv h'"
proof (cases "configExists fails (AmmConfig p) h")
  case True
  then obtain h1 where q: "pool_requests fails subscribe pk p h = Some h1" and h': "h' = insert_pool fails pk p h1"
    using assms(2) by (auto simp: on_pool_def bind_eq_Some_conv)
  have h1: "db h1 = db h" "tx h1 = tx h" using clmm_pool_requests_frame [OF q] by simp_all
  have "handler_inv h1" using assms(1) clmm_handler_inv_cong [OF h1] by blast
  then show ?thesis unfolding h' using configExists_tx [OF True] h1(2) by (intro clmm_insert_pool_inv) auto
qed (use assms in \<open>auto simp: on_pool_def\<close>)

lemma clmm_set_balance_config [simp]: "amm_config (set_balance b x s r) = amm_config r"
  by (simp add: set_balance_def)

lemma clmm_update_vault_inv: "handler_inv h \<Longrightarrow> handler_inv (update_vault fails f ta h)"
  by (auto simp: update_vault_def handler_inv_def refs_ok_intros split: option.split)

lemma clmm_on_token_inv:
  assumes "handler_inv h" and "on_token e fails pk ta h = Some h'"
  shows "handler_inv h'"
  using assms by (auto simp: on_token_def bind_eq_Some_conv clmm_update_vault_inv split: option.splits)

lemma classify_frame: "classify e a h = Some (r, h') \<Longrightarrow> db h' = db h \<and> tx h' = tx h \<and> slot h' = slot h \<and> pss h' = pss h"
  by (auto simp: classify_def Let_def bind_eq_Some_conv split: if_splits)

lemma clmm_dispatch_inv:
  assumes "handler_inv h" and "dispatch e fails subscribe a r h = Some h'"
  shows "handler_inv h'"
proof -
  have i: "handler_inv (cancel OnAccountFailed h)" "handler_inv (h\<lparr>sawAny := True\<rparr>)"
    using assms(1) by (simp_all add: handler_inv_def)
  show ?thesis
  proof (cases r)
    case (Inl err)
    with assms i(1) show ?thesis by (auto simp: dispatch_def)
  next
    case (Inr x)
    with assms show ?thesis
      by (cases x) (auto simp: dispatch_def intro: clmm_on_config_inv [OF i(2)] clmm_on_pool_inv [OF i(2)] clmm_on_token_inv [OF i(2)])
  qed
qed

lemma clmm_OnAccount_inv:
  assumes "handler_inv h" and "OnAccount e fails subscribe a h = Some h'"
  shows "handler_inv h'"
proof (cases "Deleted a \<or> DataSize a < 8")
  case False
  with assms(2) obtain r h1 where c: "classify e a (h\<lparr>totalCount := totalCount h + 1\<rparr>) = Some (r, h1)"
    and d: "dispatch e fails subscribe a r h1 = Some h'"
    by (auto simp: OnAccount_def bind_eq_Some_conv)
  have "handler_inv h1" using classify_frame [OF c] assms(1) by (simp add: handler_inv_def)
  then show ?thesis using d by (rule clmm_dispatch_inv)
qed (use assms in \<open>auto simp: OnAccount_def\<close>)

lemma Init_inv: "handler_inv h \<Longrightarrow> handler_inv (Init pid w newTracker subscribe h)"
  by (simp add: Init_def handler_inv_def)

abbreviation handler_runs where
  "handler_runs e subscribe check newTracker \<equiv>
     hook_runs (\<lambda>w. Init (programID e) w newTracker subscribe) CommitStart (\<lambda>fails. OnAccount e fails subscribe)
       (\<lambda>fails ready. CommitFinish fails (check ready))"

interpretation clmm: event_handler "\<lambda>w. Init (programID e) w newTracker subscribe" CommitStart
  "\<lambda>fails. OnAccount e fails subscribe" "\<lambda>fails ready. CommitFinish fails (check ready)" handler_inv
  for e subscribe check newTracker
proof
  fix h :: "'a handler" and fails s
  assume "handler_inv h"
  then show "handler_inv (CommitStart fails s h)"
    by (auto simp: CommitStart_def Let_def handler_inv_def split: option.splits)
next
  fix h :: "'a handler" and fails ready
  assume "handler_inv h"
  then show "handler_inv (snd (CommitFinish fails (check ready) h))"
    by (auto simp: CommitFinish_def Let_def handler_inv_def split: option.splits prod.splits)
qed (auto intro: clmm_OnAccount_inv Init_inv)

lemma clmm_integrity:
  assumes "handler_runs e subscribe check newTracker (createHandler (Some t0) mt) h"
    and "refs_ok amm_config (configs t0) (pools t0)" and "db h = Some t"
  shows "refs_ok amm_config (configs t) (pools t)"
proof -
  have "handler_inv (createHandler (Some t0) mt)" using assms(2) by (simp add: handler_inv_def createHandler_def)
  from clmm.runs_ok [OF assms(1) this] assms(3) show ?thesis by (simp add: handler_inv_def)
qed

section \<open>Storing a pool\<close>








definition pool_bytes :: "byte list" where
  "pool_bytes = replicate 1544 0"

lemma length_pool_bytes [simp]: "length pool_bytes = 1544"
  by (simp add: pool_bytes_def)








end
