(* ===== verification/FileStream.thy ===== *)
theory FileStream
  imports Prelude
begin

text \<open>
  The remote file system of a coding machine: the client \<open>src/harness/fs.go\<close>, which multiplexes the calls
  of any number of callers over three long-lived streams, and the server \<open>src/cmd/localdevserver/server.go\<close>.

  \<^item> The owning loops \<open>runWriteStream\<close> and \<open>runEditStream\<close> are functions on the events their \<open>select\<close> picks:
    a request from a caller (with the error of \<open>Send\<close>, if any), an acknowledgement, the end of the
    stream, the end of the context. A caller's \<open>doneC\<close> is a name; what has been sent on it is the
    caller's inbox.
  \<^item> \<open>BatchWrite\<close> runs against a reader given by the results of its \<open>Read\<close> calls, a context that may end at
    any of its \<open>select\<close>s, and the values its \<open>doneC\<close> delivers.
  \<^item> The server's handlers are folds over the messages received; the file system under them is a
    parameter.
\<close>

section \<open>Replies to callers\<close>

type_synonym chan = nat

text \<open>What a caller receives: \<open>None\<close> is the nil error.\<close>

type_synonym reply = "string option"

text \<open>\<open>'k\<close> is the type of the identifiers a stream correlates by, \<open>'m\<close> that of its messages.\<close>

record ('k, 'm) sub =
  req :: 'm
  subID :: 'k
  doneC :: "chan option"

datatype ('k, 'm) stream_event =
    CtxDone string
  | Request "('k, 'm) sub" "string option"
  | Ack 'k string
  | RecvErr string

record ('k, 'm) stream_loop =
  pending :: "('k \<times> chan) list"
  inbox :: "chan \<Rightarrow> reply list"
  wire :: "'m list"
  closeSent :: bool
  returned :: bool

definition deliver :: "chan \<Rightarrow> reply \<Rightarrow> (chan \<Rightarrow> reply list) \<Rightarrow> chan \<Rightarrow> reply list" where
  "deliver c r ib = ib(c := ib c @ [r])"

lemma deliver_simps [simp]: "deliver c r ib c = ib c @ [r]" "c' \<noteq> c \<Longrightarrow> deliver c r ib c' = ib c'"
  by (simp_all add: deliver_def)

text \<open>The order in which Go walks the map does not show: each value goes to a channel of its own.\<close>

definition failPending :: "string \<Rightarrow> ('k, 'm) stream_loop \<Rightarrow> ('k, 'm) stream_loop" where
  "failPending err s = s\<lparr>inbox := fold (\<lambda>(k, c). deliver c (Some err)) (pending s) (inbox s), pending := []\<rparr>"

definition ack_result :: "string \<Rightarrow> reply" where
  "ack_result e = (if e \<noteq> '''' then Some e else None)"

definition on_ack :: "'k \<Rightarrow> string \<Rightarrow> ('k, 'm) stream_loop \<Rightarrow> ('k, 'm) stream_loop" where
  "on_ack k e s =
     (case map_of (pending s) k of
        None \<Rightarrow> s
      | Some c \<Rightarrow> s\<lparr>pending := AList.delete k (pending s), inbox := deliver c (ack_result e) (inbox s)\<rparr>)"

section \<open>The owning loops\<close>

definition write_step :: "('k, 'm) stream_event \<Rightarrow> ('k, 'm) stream_loop \<Rightarrow> ('k, 'm) stream_loop" where
  "write_step ev s =
     (if returned s then s
      else case ev of
        CtxDone e \<Rightarrow> (failPending e (s\<lparr>closeSent := True\<rparr>))\<lparr>returned := True\<rparr>
      | Request sub sendErr \<Rightarrow>
          let s = (case doneC sub of None \<Rightarrow> s | Some c \<Rightarrow> s\<lparr>pending := AList.update (subID sub) c (pending s)\<rparr>)
          in (case sendErr of
                None \<Rightarrow> s\<lparr>wire := wire s @ [req sub]\<rparr>
              | Some e \<Rightarrow>
                  let s = (case doneC sub of
                             None \<Rightarrow> s
                           | Some c \<Rightarrow> s\<lparr>pending := AList.delete (subID sub) (pending s), inbox := deliver c (Some e) (inbox s)\<rparr>)
                  in (failPending e s)\<lparr>returned := True\<rparr>)
      | Ack k e \<Rightarrow> on_ack k e s
      | RecvErr e \<Rightarrow> (failPending e s)\<lparr>returned := True\<rparr>)"

definition runWriteStream :: "('k, 'm) stream_event list \<Rightarrow> ('k, 'm) stream_loop \<Rightarrow> ('k, 'm) stream_loop" where
  "runWriteStream evs s = fold write_step evs s"

text \<open>An edit request always carries its channel.\<close>

record 'm edit_sub =
  ereq :: 'm
  RequestId :: u32
  edoneC :: chan

datatype 'm edit_event =
    ECtxDone string
  | ERequest "'m edit_sub" "string option"
  | EAck u32 string
  | ERecvErr string

definition edit_step :: "'m edit_event \<Rightarrow> (u32, 'm) stream_loop \<Rightarrow> (u32, 'm) stream_loop" where
  "edit_step ev s =
     (if returned s then s
      else case ev of
        ECtxDone e \<Rightarrow> (failPending e (s\<lparr>closeSent := True\<rparr>))\<lparr>returned := True\<rparr>
      | ERequest sub sendErr \<Rightarrow>
          let s = s\<lparr>pending := AList.update (RequestId sub) (edoneC sub) (pending s)\<rparr>
          in (case sendErr of
                None \<Rightarrow> s\<lparr>wire := wire s @ [ereq sub]\<rparr>
              | Some e \<Rightarrow>
                  let s = s\<lparr>pending := AList.delete (RequestId sub) (pending s), inbox := deliver (edoneC sub) (Some e) (inbox s)\<rparr>
                  in (failPending e s)\<lparr>returned := True\<rparr>)
      | EAck k e \<Rightarrow> on_ack k e s
      | ERecvErr e \<Rightarrow> (failPending e s)\<lparr>returned := True\<rparr>)"

definition runEditStream :: "'m edit_event list \<Rightarrow> (u32, 'm) stream_loop \<Rightarrow> (u32, 'm) stream_loop" where
  "runEditStream evs s = fold edit_step evs s"

definition new_loop :: "('k, 'm) stream_loop" where
  "new_loop = \<lparr>pending = [], inbox = (\<lambda>c. []), wire = [], closeSent = False, returned = False\<rparr>"

section \<open>One reply per caller\<close>

text \<open>What a caller waiting under \<open>k\<close> gets from the events that follow: the result of the first
  acknowledgement of \<open>k\<close>, or the error that ends the stream before that.\<close>

fun answer :: "'k \<Rightarrow> ('k, 'm) stream_event list \<Rightarrow> reply option" where
  "answer k [] = None"
| "answer k (CtxDone e # evs) = Some (Some e)"
| "answer k (RecvErr e # evs) = Some (Some e)"
| "answer k (Request sub (Some e) # evs) = Some (Some e)"
| "answer k (Request sub None # evs) = answer k evs"
| "answer k (Ack k' e # evs) = (if k = k' then Some (ack_result e) else answer k evs)"

text \<open>The callers that wait for a reply among a list of events.\<close>

fun waiters :: "('k, 'm) stream_event list \<Rightarrow> ('k \<times> chan) list" where
  "waiters [] = []"
| "waiters (Request sub e # evs) = (case doneC sub of None \<Rightarrow> [] | Some c \<Rightarrow> [(subID sub, c)]) @ waiters evs"
| "waiters (ev # evs) = waiters evs"

text \<open>The contract of an owning loop: what its step does to the pending calls and the inboxes.\<close>

locale ack_loop =
  fixes step :: "'e \<Rightarrow> ('k, 'm) stream_loop \<Rightarrow> ('k, 'm) stream_loop"
    and view :: "'e \<Rightarrow> ('k, 'm) stream_event"
  assumes after_return: "returned s \<Longrightarrow> step e s = s"
    and on_request: "\<not> returned s \<Longrightarrow> view e = Request sub None \<Longrightarrow>
      pending (step e s) = (case doneC sub of None \<Rightarrow> pending s | Some c \<Rightarrow> AList.update (subID sub) c (pending s)) \<and>
      inbox (step e s) = inbox s \<and> \<not> returned (step e s)"
    and on_failed_request: "\<not> returned s \<Longrightarrow> view e = Request sub (Some x) \<Longrightarrow>
      pending (step e s) = [] \<and> returned (step e s) \<and>
      inbox (step e s) = (case doneC sub of
          None \<Rightarrow> fold (\<lambda>(k, c). deliver c (Some x)) (pending s) (inbox s)
        | Some c \<Rightarrow> fold (\<lambda>(k, c). deliver c (Some x)) (AList.delete (subID sub) (pending s)) (deliver c (Some x) (inbox s)))"
    and on_end: "\<not> returned s \<Longrightarrow> view e = CtxDone x \<or> view e = RecvErr x \<Longrightarrow>
      pending (step e s) = [] \<and> returned (step e s) \<and> inbox (step e s) = fold (\<lambda>(k, c). deliver c (Some x)) (pending s) (inbox s)"
    and on_acknowledge: "\<not> returned s \<Longrightarrow> view e = Ack k x \<Longrightarrow> \<not> returned (step e s) \<and>
      pending (step e s) = AList.delete k (pending s) \<and>
      inbox (step e s) = (case map_of (pending s) k of None \<Rightarrow> inbox s | Some c \<Rightarrow> deliver c (ack_result x) (inbox s))"

lemma inbox_fold_other: "c \<notin> snd ` set ps \<Longrightarrow> fold (\<lambda>(k, c). deliver c r) ps ib c = ib c"
  by (induction ps arbitrary: ib) auto

lemma inbox_fold_deliver:
  "distinct (map snd ps) \<Longrightarrow> (k, c) \<in> set ps \<Longrightarrow> fold (\<lambda>(k, c). deliver c r) ps ib c = ib c @ [r]"
proof (induction ps arbitrary: ib)
  case (Cons p ps)
  obtain k' c' where p: "p = (k', c')" by fastforce
  show ?case
  proof (cases "(k, c) = p")
    case True
    with Cons.prems p have "c \<notin> snd ` set ps" by auto
    with True p show ?thesis by (simp add: inbox_fold_other)
  next
    case False
    with Cons.prems p have "c' \<noteq> c" "(k, c) \<in> set ps" by (auto simp: image_iff)
    with Cons p show ?thesis by auto
  qed
qed simp

text \<open>No two calls share an identifier or a channel.\<close>

definition apart :: "('k \<times> chan) list \<Rightarrow> bool" where
  "apart ps \<longleftrightarrow> distinct (map fst ps) \<and> distinct (map snd ps)"

lemma apart_delete: "apart (ps @ qs) \<Longrightarrow> apart (AList.delete k ps @ qs)"
  unfolding apart_def by (auto simp: AList.delete_eq distinct_map_filter)

lemma apart_append2: "apart (ps @ qs) \<Longrightarrow> apart qs" "apart (ps @ qs) \<Longrightarrow> apart ps"
  by (auto simp: apart_def)

lemma apart_same: "apart ps \<Longrightarrow> (k, c) \<in> set ps \<Longrightarrow> (k', c) \<in> set ps \<Longrightarrow> k = k'"
  using inj_onD [of snd "set ps" "(k, c)" "(k', c)"] by (auto simp: apart_def distinct_map)

lemma apart_chan: "apart (ps @ qs) \<Longrightarrow> (k, c) \<in> set ps \<Longrightarrow> c \<notin> snd ` (set (AList.delete k ps) \<union> set qs)"
proof
  assume ap: "apart (ps @ qs)" and kc: "(k, c) \<in> set ps" and "c \<in> snd ` (set (AList.delete k ps) \<union> set qs)"
  then obtain k' where k': "(k', c) \<in> set (AList.delete k ps) \<or> (k', c) \<in> set qs" by force
  then have "(k', c) \<in> set (ps @ qs)" using set_alist_delete [of k ps] by auto
  with apart_same [OF ap, of k c k'] kc have "k' = k" by auto
  with k' ap kc show False by (force simp: apart_def AList.delete_eq)
qed

lemma alist_delete_update [simp]: "AList.delete k (AList.update k v ps) = AList.delete k ps"
  by (induction ps) auto

lemma alist_delete_absent: "map_of ps k = None \<Longrightarrow> AList.delete k ps = ps"
  by (induction ps) (auto split: if_splits)

context ack_loop
begin

lemma run_returned: "returned s \<Longrightarrow> fold step es s = s"
  by (induction es) (auto simp: after_return)

lemma step_pending: "set (pending (step e s)) \<subseteq> set (pending s) \<union> set (waiters [view e])"
proof (cases "returned s")
  case False
  show ?thesis
  proof (cases "view e")
    case (Request sub x)
    with False show ?thesis
      by (cases x; cases "doneC sub")
        (use on_request [OF False] on_failed_request [OF False] set_alist_update in \<open>fastforce+\<close>)
  next
    case (Ack k x)
    with on_acknowledge [OF False Ack] set_alist_delete [of k "pending s"] show ?thesis by auto
  qed (use on_end [OF False] in auto)
qed (simp add: after_return)

lemma step_apart:
  assumes "apart (pending s @ waiters (view e # evs))"
  shows "apart (pending (step e s) @ waiters evs)"
proof (cases "returned s")
  case True
  have "apart (pending s @ waiters evs)" using assms by (cases "view e") (auto simp: apart_def split: option.splits)
  with True show ?thesis by (simp add: after_return)
next
  case False
  show ?thesis
  proof (cases "view e")
    case (Request sub x)
    show ?thesis
    proof (cases x)
      case None
      show ?thesis
      proof (cases "doneC sub")
        case (Some c)
        with assms Request have "subID sub \<notin> fst ` set (pending s)" by (auto simp: apart_def)
        with on_request [OF False] Request None Some assms show ?thesis by (simp add: alist_update_new)
      qed (use on_request [OF False] Request None assms in simp)
    next
      case (Some y)
      with on_failed_request [OF False] Request assms show ?thesis by (auto simp: apart_def)
    qed
  next
    case (Ack k x)
    with on_acknowledge [OF False Ack] assms show ?thesis by (simp add: apart_delete)
  qed (use on_end [OF False] assms in \<open>auto simp: apart_def\<close>)
qed

lemma step_inbox_other:
  assumes "c \<notin> snd ` (set (pending s) \<union> set (waiters [view e]))"
  shows "inbox (step e s) c = inbox s c"
proof (cases "returned s")
  case False
  have o: "fold (\<lambda>(k, c). deliver c r) (pending s) ib c = ib c"
    "fold (\<lambda>(k, c). deliver c r) (AList.delete k (pending s)) ib c = ib c" for r ib k
    using assms set_alist_delete [of k "pending s"] by (auto intro!: inbox_fold_other)
  show ?thesis
  proof (cases "view e")
    case (Request sub x)
    show ?thesis
    proof (cases x)
      case (Some y)
      with Request have "view e = Request sub (Some y)" by simp
      from on_failed_request [OF False this] assms Request show ?thesis
        by (cases "doneC sub") (auto simp: o)
    qed (use on_request [OF False] Request in simp)
  next
    case (Ack k x)
    have "c \<noteq> c'" if "map_of (pending s) k = Some c'" for c' using map_of_SomeD [OF that] assms by force
    with on_acknowledge [OF False Ack] show ?thesis by (cases "map_of (pending s) k") auto
  qed (use on_end [OF False] in \<open>auto simp: o\<close>)
qed (simp add: after_return)

lemma run_other:
  "c \<notin> snd ` (set (pending s) \<union> set (waiters (map view es))) \<Longrightarrow> inbox (fold step es s) c = inbox s c"
proof (induction es arbitrary: s)
  case (Cons e es)
  have w: "set (waiters (map view (e # es))) = set (waiters [view e]) \<union> set (waiters (map view es))"
    by (cases "view e") auto
  have "c \<notin> snd ` (set (pending (step e s)) \<union> set (waiters (map view es)))"
    using Cons.prems step_pending [of e s] unfolding w by blast
  from Cons.IH [OF this] step_inbox_other [of c s e] Cons.prems show ?case unfolding w by (simp add: image_Un)
qed simp

lemma run_apart: "apart (pending s @ waiters (map view (es @ es'))) \<Longrightarrow> apart (pending (fold step es s) @ waiters (map view es'))"
proof (induction es arbitrary: s)
  case (Cons e es)
  then have "apart (pending (step e s) @ waiters (map view (es @ es')))" by (intro step_apart) simp
  from Cons.IH [OF this] show ?case by simp
qed simp

text \<open>A pending caller gets the first answer, and nothing else.\<close>

lemma run_waiting:
  assumes "apart (pending s @ waiters (map view es))" and "(k, c) \<in> set (pending s)" and "\<not> returned s"
  shows "inbox (fold step es s) c = inbox s c @ (case answer k (map view es) of None \<Rightarrow> [] | Some r \<Rightarrow> [r])"
  using assms
proof (induction es arbitrary: s)
  case (Cons e es)
  have d: "distinct (map snd (pending s))" using Cons.prems(1) by (simp add: apart_def)
  have ap: "apart (pending (step e s) @ waiters (map view es))" using Cons.prems(1) by (intro step_apart) simp
  note nr = Cons.prems(3)
  have ended: ?case if "returned (step e s)" "inbox (step e s) c = inbox s c @ [Some x]" "answer k (map view (e # es)) = Some (Some x)" for x
    using that by (simp add: run_returned)
  show ?case
  proof (cases "view e")
    case (CtxDone x)
    with on_end [OF nr, of e x] inbox_fold_deliver [OF d Cons.prems(2)] show ?thesis by (intro ended) simp_all
  next
    case (RecvErr x)
    with on_end [OF nr, of e x] inbox_fold_deliver [OF d Cons.prems(2)] show ?thesis by (intro ended) simp_all
  next
    case (Request sub x)
    show ?thesis
    proof (cases x)
      case None
      with Request have v: "view e = Request sub None" by simp
      have "(k, c) \<in> set (pending (step e s))"
        using on_request [OF nr v] Cons.prems(1,2) v by (cases "doneC sub") (auto simp: alist_update_new apart_def)
      with Cons.IH [OF ap] on_request [OF nr v] v show ?thesis by simp
    next
      case (Some y)
      with Request have v: "view e = Request sub (Some y)" by simp
      have "inbox (step e s) c = inbox s c @ [Some y]"
      proof (cases "doneC sub")
        case (Some c')
        with Cons.prems(1) v have f: "subID sub \<notin> fst ` set (pending s)" "c' \<notin> snd ` set (pending s)" by (auto simp: apart_def)
        then have "AList.delete (subID sub) (pending s) = pending s" "c \<noteq> c'"
          using Cons.prems(2) by (force simp: AList.delete_eq filter_id_conv)+
        with on_failed_request [OF nr v] Some inbox_fold_deliver [OF d Cons.prems(2)] show ?thesis by simp
      qed (use on_failed_request [OF nr v] inbox_fold_deliver [OF d Cons.prems(2)] in simp)
      with on_failed_request [OF nr v] v show ?thesis by (intro ended) simp_all
    qed
  next
    case (Ack k' x)
    note ak = on_acknowledge [OF nr Ack]
    show ?thesis
    proof (cases "k' = k")
      case True
      have m: "map_of (pending s) k = Some c" using Cons.prems(1,2) by (simp add: apart_def)
      have "c \<notin> snd ` (set (pending (step e s)) \<union> set (waiters (map view es)))"
        using apart_chan [of "pending s" "waiters (map view es)" k c] ak True Cons.prems(1,2) Ack by simp
      from run_other [OF this] ak m True Ack show ?thesis by simp
    next
      case False
      have "(k, c) \<in> set (pending (step e s))" using ak False Cons.prems(2) by (auto simp: AList.delete_eq)
      moreover have "inbox (step e s) c = inbox s c"
      proof (cases "map_of (pending s) k'")
        case (Some c')
        from map_of_SomeD [OF this] apart_same [OF apart_append2(2) [OF Cons.prems(1)] Cons.prems(2), of k'] False
        have "c \<noteq> c'" by auto
        with ak Some show ?thesis by simp
      qed (use ak in simp)
      ultimately show ?thesis using Cons.IH [OF ap] ak Ack False by simp
    qed
  qed
qed simp

lemma returned_answered:
  "\<not> returned s \<Longrightarrow> returned (fold step es s) \<Longrightarrow> answer k (map view es) \<noteq> None"
proof (induction es arbitrary: s)
  case (Cons e es)
  show ?case
  proof (cases "view e")
    case (Request sub x)
    show ?thesis
    proof (cases x)
      case None
      with Request Cons.IH [of "step e s"] Cons.prems on_request [OF Cons.prems(1)] show ?thesis by simp
    qed (use Request in simp)
  next
    case (Ack k' x)
    with Cons.IH [of "step e s"] Cons.prems on_acknowledge [OF Cons.prems(1) Ack] show ?thesis by simp
  qed simp_all
qed simp

lemma one_reply:
  assumes ap: "apart (waiters (map view (es1 @ e # es2)))" and v: "view e = Request sub x" and c: "doneC sub = Some c"
    and s: "pending s = []" "inbox s c = []" and nr: "\<not> returned (fold step es1 s)"
  shows "inbox (fold step (es1 @ e # es2) s) c = (case answer (subID sub) (map view (e # es2)) of None \<Rightarrow> [] | Some r \<Rightarrow> [r])"
    and "returned (fold step (es1 @ e # es2) s) \<Longrightarrow> length (inbox (fold step (es1 @ e # es2) s) c) = 1"
proof -
  let ?s1 = "fold step es1 s"
  have waiters_append: "waiters (xs @ ys) = waiters xs @ waiters ys" for xs ys :: "('c, 'd) stream_event list"
    by (induction xs rule: waiters.induct) auto
  have c1: "c \<notin> snd ` (set (pending s) \<union> set (waiters (map view es1)))"
    using ap v c s(1) by (auto simp: apart_def waiters_append)
  have i1: "inbox ?s1 c = []" using run_other [OF c1] s(2) by simp
  have ap1: "apart (pending ?s1 @ waiters (map view (e # es2)))" using ap s(1) by (intro run_apart) simp
  have i2: "inbox (fold step (e # es2) ?s1) c = (case answer (subID sub) (map view (e # es2)) of None \<Rightarrow> [] | Some r \<Rightarrow> [r])"
  proof (cases x)
    case None
    with v have v': "view e = Request sub None" by simp
    have p: "(subID sub, c) \<in> set (pending (step e ?s1))"
      using on_request [OF nr v'] c ap1 v by (auto simp: apart_def alist_update_new)
    have "apart (pending (step e ?s1) @ waiters (map view es2))" using ap1 by (intro step_apart) simp
    from run_waiting [OF this p] on_request [OF nr v'] i1 v' show ?thesis by simp
  next
    case (Some y)
    with v have v': "view e = Request sub (Some y)" by simp
    have "c \<notin> snd ` set (pending ?s1)" using ap1 v c by (auto simp: apart_def)
    then have "c \<notin> snd ` set (AList.delete (subID sub) (pending ?s1))" using set_alist_delete by fast
    with on_failed_request [OF nr v'] c i1 v' show ?thesis by (simp add: run_returned inbox_fold_other)
  qed
  then show "inbox (fold step (es1 @ e # es2) s) c = (case answer (subID sub) (map view (e # es2)) of None \<Rightarrow> [] | Some r \<Rightarrow> [r])"
    by simp
  show "length (inbox (fold step (es1 @ e # es2) s) c) = 1" if "returned (fold step (es1 @ e # es2) s)"
    using returned_answered [OF nr, of "e # es2" "subID sub"] that i2 by (auto split: option.split)
qed

end

text \<open>Both loops keep the contract; an edit event is seen as a request that carries its channel.\<close>

interpretation wl: ack_loop write_step "\<lambda>ev. ev"
  by unfold_locales
    (auto simp: write_step_def failPending_def on_ack_def Let_def alist_delete_absent split: option.splits)

fun edit_view :: "'m edit_event \<Rightarrow> (u32, 'm) stream_event" where
  "edit_view (ECtxDone e) = CtxDone e"
| "edit_view (ERequest sub x) = Request \<lparr>req = ereq sub, subID = RequestId sub, doneC = Some (edoneC sub)\<rparr> x"
| "edit_view (EAck k e) = Ack k e"
| "edit_view (ERecvErr e) = RecvErr e"

lemma edit_write_step: "edit_step ev s = write_step (edit_view ev) s"
proof (cases ev)
  case (ERequest sub x)
  then show ?thesis by (cases x) (simp_all add: edit_step_def write_step_def Let_def)
qed (simp_all add: edit_step_def write_step_def)

interpretation el: ack_loop edit_step edit_view
  unfolding edit_write_step [abs_def]
  by unfold_locales (rule wl.after_return wl.on_request wl.on_failed_request wl.on_end wl.on_acknowledge; assumption)+

section \<open>Writing files: the client\<close>

datatype write_msg = WHeader u32 string nat | WBlob u32 "byte list"

text \<open>The result of one \<open>Read\<close> of the caller's reader: the bytes, and an error.\<close>

datatype read_err = REOF | RFail

type_synonym reads = "(byte list \<times> read_err option) list"

record write_header =
  FPath :: string
  FSize :: nat
  FReader :: reads

text \<open>The client of the write stream: the last identifier given out, what it has put on the stream, and the
  number of \<open>select\<close>s before its context ends (\<open>None\<close>: it does not end).\<close>

record write_client =
  nextFileID :: u32
  sent :: "write_msg list"
  alive :: "nat option"

datatype write_failure = WCtx | WPremature nat nat | WFailed string string

definition ctx_tick :: "write_client \<Rightarrow> write_client option" where
  "ctx_tick c = (case alive c of None \<Rightarrow> Some c | Some 0 \<Rightarrow> None | Some (Suc n) \<Rightarrow> Some (c\<lparr>alive := Some n\<rparr>))"

definition sendWrite :: "write_msg \<Rightarrow> write_client \<Rightarrow> bool \<times> write_client" where
  "sendWrite m c = (case ctx_tick c of None \<Rightarrow> (False, c) | Some c \<Rightarrow> (True, c\<lparr>sent := sent c @ [m]\<rparr>))"

text \<open>The loop \<open>out3\<close>: read and send until the announced size is reached. Bytes that come together with an
  error are not sent. A reader with no results left is at its end.\<close>

fun send_chunks :: "u32 \<Rightarrow> nat \<Rightarrow> nat \<Rightarrow> reads \<Rightarrow> write_client \<Rightarrow> (bool \<times> nat) \<times> write_client" where
  "send_chunks k sz p [] c = ((True, p), c)"
| "send_chunks k sz p ((data, err) # rs) c =
     (if p < sz then
        (case err of
           Some e \<Rightarrow> ((True, p), c)
         | None \<Rightarrow>
             (case sendWrite (WBlob k data) c of
                (False, c) \<Rightarrow> ((False, p + length data), c)
              | (True, c) \<Rightarrow> send_chunks k sz (p + length data) rs c))
      else ((True, p), c))"

text \<open>\<open>outcome\<close> is what the \<open>doneC\<close> of a file delivers.\<close>

fun BatchWrite :: "(u32 \<Rightarrow> reply) \<Rightarrow> write_header list \<Rightarrow> write_client \<Rightarrow> (write_failure + unit) \<times> write_client" where
  "BatchWrite outcome [] c = (Inr (), c)"
| "BatchWrite outcome (f # fs) c =
     (let k = nextFileID c + 1; c = c\<lparr>nextFileID := k\<rparr>
      in case sendWrite (WHeader k (FPath f) (FSize f)) c of
           (False, c) \<Rightarrow> (Inl WCtx, c)
         | (True, c) \<Rightarrow>
             (case send_chunks k (FSize f) 0 (FReader f) c of
                ((False, p), c) \<Rightarrow> (Inl WCtx, c)
              | ((True, p), c) \<Rightarrow>
                  if p < FSize f then (Inl (WPremature p (FSize f)), c)
                  else (case sendWrite (WBlob k []) c of
                          (False, c) \<Rightarrow> (Inl WCtx, c)
                        | (True, c) \<Rightarrow>
                            (case ctx_tick c of
                               None \<Rightarrow> (Inl WCtx, c)
                             | Some c \<Rightarrow>
                                 (case outcome k of
                                    Some e \<Rightarrow> (Inl (WFailed (FPath f) e), c)
                                  | None \<Rightarrow> BatchWrite outcome fs c)))))"

text \<open>\<open>bytes.NewReader(content)\<close> read into the buffer of \<open>500*1024\<close> bytes.\<close>

definition writeBufferSize :: nat where "writeBufferSize = 500 * 1024"

definition bytes_reader :: "byte list \<Rightarrow> reads" where
  "bytes_reader content = map (\<lambda>b. (b, None)) (chunks_from writeBufferSize 0 content) @ [([], Some REOF)]"

definition Write :: "(u32 \<Rightarrow> reply) \<Rightarrow> string \<Rightarrow> byte list \<Rightarrow> write_client \<Rightarrow> (write_failure + unit) \<times> write_client" where
  "Write outcome path content =
     BatchWrite outcome [\<lparr>FPath = path, FSize = length content, FReader = bytes_reader content\<rparr>]"

section \<open>Writing files: the server\<close>

text \<open>The handler keeps one current path and one buffer per stream; \<open>fsWrite\<close> is the machine's \<open>Write\<close>.\<close>

record 'fs write_server =
  curPath :: string
  buf :: "byte list"
  files :: 'fs
  acks :: "(u32 \<times> string) list"

fun server_write_step :: "(string \<Rightarrow> byte list \<Rightarrow> 'fs \<Rightarrow> string \<times> 'fs) \<Rightarrow> write_msg \<Rightarrow> 'fs write_server \<Rightarrow> 'fs write_server" where
  "server_write_step fsWrite (WHeader k path sz) s = s\<lparr>curPath := path, buf := []\<rparr>"
| "server_write_step fsWrite (WBlob k data) s =
     (if data = [] then
        (case fsWrite (curPath s) (buf s) (files s) of
           (err, fs') \<Rightarrow> s\<lparr>files := fs', acks := acks s @ [(k, err)]\<rparr>)
      else s\<lparr>buf := buf s @ data\<rparr>)"

definition server_write :: "(string \<Rightarrow> byte list \<Rightarrow> 'fs \<Rightarrow> string \<times> 'fs) \<Rightarrow> write_msg list \<Rightarrow> 'fs \<Rightarrow> 'fs write_server" where
  "server_write fsWrite msgs fs0 =
     fold (server_write_step fsWrite) msgs \<lparr>curPath = '''', buf = [], files = fs0, acks = []\<rparr>"

section \<open>A written file arrives\<close>

text \<open>The messages of one file whose reader delivers \<open>chunks\<close>.\<close>

definition file_msgs :: "u32 \<Rightarrow> string \<Rightarrow> nat \<Rightarrow> byte list list \<Rightarrow> write_msg list" where
  "file_msgs k path sz chunks = WHeader k path sz # map (WBlob k) chunks @ [WBlob k []]"

text \<open>A reader that delivers \<open>content\<close> in non-empty pieces and then ends.\<close>

definition delivers :: "reads \<Rightarrow> byte list list \<Rightarrow> bool" where
  "delivers rs chunks \<longleftrightarrow> (\<forall>b \<in> set chunks. b \<noteq> []) \<and> (\<exists>rest. rs = map (\<lambda>b. (b, None)) chunks @ rest)"

lemma bytes_reader_delivers:
  "delivers (bytes_reader content) (chunks_from writeBufferSize 0 content)"
  "concat (chunks_from writeBufferSize 0 content) = content"
  using chunks_from_nonempty chunks_from_concat [of writeBufferSize 0 content]
  by (auto simp: delivers_def bytes_reader_def writeBufferSize_def)

lemma sendWrite_alive: "alive c = None \<Longrightarrow> sendWrite m c = (True, c\<lparr>sent := sent c @ [m]\<rparr>)"
  by (simp add: sendWrite_def ctx_tick_def)

lemma send_chunks_all:
  assumes "alive c = None" and "\<forall>b \<in> set chunks. b \<noteq> []" and "sz = p + length (concat chunks)"
  shows "send_chunks k sz p (map (\<lambda>b. (b, None)) chunks @ rest) c = ((True, sz), c\<lparr>sent := sent c @ map (WBlob k) chunks\<rparr>)"
  using assms
proof (induction chunks arbitrary: p c)
  case Nil
  then show ?case by (cases rest) auto
next
  case (Cons b bs)
  then have "0 < length b" by simp
  with Cons show ?case by (simp add: sendWrite_alive)
qed

lemma BatchWrite_one:
  assumes "alive c = None" and "delivers (FReader f) chunks" and "FSize f = length (concat chunks)"
  shows "BatchWrite outcome (f # fs) c =
    (let k = nextFileID c + 1; c' = c\<lparr>nextFileID := k, sent := sent c @ file_msgs k (FPath f) (FSize f) chunks\<rparr>
     in case outcome k of Some e \<Rightarrow> (Inl (WFailed (FPath f) e), c') | None \<Rightarrow> BatchWrite outcome fs c')"
proof -
  obtain rest where r: "FReader f = map (\<lambda>b. (b, None)) chunks @ rest" and n: "\<forall>b \<in> set chunks. b \<noteq> []"
    using assms(2) by (auto simp: delivers_def)
  have "send_chunks k (FSize f) 0 (FReader f) c' = ((True, FSize f), c'\<lparr>sent := sent c' @ map (WBlob k) chunks\<rparr>)"
    if "alive c' = None" for k c'
    unfolding r using that n assms(3) by (intro send_chunks_all) simp_all
  with assms(1) show ?thesis by (simp add: Let_def sendWrite_alive ctx_tick_def file_msgs_def)
qed

lemma server_write_file:
  assumes "\<forall>b \<in> set chunks. b \<noteq> []"
  shows "fold (server_write_step fsWrite) (file_msgs k path sz chunks) s =
    (case fsWrite path (concat chunks) (files s) of
       (err, fs') \<Rightarrow> s\<lparr>curPath := path, buf := concat chunks, files := fs', acks := acks s @ [(k, err)]\<rparr>)"
proof -
  have "fold (server_write_step fsWrite) (map (WBlob k) chunks) s = s\<lparr>buf := buf s @ concat chunks\<rparr>" for s :: "'a write_server"
    using assms by (induction chunks arbitrary: s) auto
  then show ?thesis by (simp add: file_msgs_def split: prod.split)
qed

text \<open>The machine's files as a map, with a \<open>Write\<close> that succeeds.\<close>

definition put_file :: "string \<Rightarrow> byte list \<Rightarrow> (string \<rightharpoonup> byte list) \<Rightarrow> string \<times> (string \<rightharpoonup> byte list)" where
  "put_file path content fs = ('''', fs(path \<mapsto> content))"

lemma put_file_case [simp]: "(case put_file path content fs of (e, fs') \<Rightarrow> g e fs') = g '''' (fs(path \<mapsto> content))"
  by (simp add: put_file_def)

text \<open>What the client expects of the replies: its \<open>doneC\<close> delivers the acknowledgement of its file.\<close>

definition replies_from :: "(u32 \<times> string) list \<Rightarrow> u32 \<Rightarrow> reply" where
  "replies_from ak k = (case map_of ak k of None \<Rightarrow> None | Some e \<Rightarrow> ack_result e)"

definition written :: "write_header list \<Rightarrow> byte list list list \<Rightarrow> (string \<rightharpoonup> byte list) \<Rightarrow> string \<rightharpoonup> byte list" where
  "written fs chs m = fold (\<lambda>(f, ch) m. m(FPath f \<mapsto> concat ch)) (zip fs chs) m"

fun ok_acks :: "u32 \<Rightarrow> nat \<Rightarrow> (u32 \<times> string) list" where
  "ok_acks k 0 = []"
| "ok_acks k (Suc n) = (k + 1, '''') # ok_acks (k + 1) n"

text \<open>A reader for each file that delivers the announced number of bytes.\<close>

definition readable :: "write_header list \<Rightarrow> byte list list list \<Rightarrow> bool" where
  "readable fs chs \<longleftrightarrow> list_all2 (\<lambda>f ch. delivers (FReader f) ch \<and> FSize f = length (concat ch)) fs chs"

lemma BatchWrite_all:
  assumes "readable fs chs" and "alive c = None" and "\<And>k. outcome k = None"
  shows "\<exists>msgs. BatchWrite outcome fs c = (Inr (), c\<lparr>nextFileID := nextFileID c + of_nat (length fs), sent := sent c @ msgs\<rparr>) \<and>
    (\<forall>s. files (fold (server_write_step put_file) msgs s) = written fs chs (files s) \<and>
       acks (fold (server_write_step put_file) msgs s) = acks s @ ok_acks (nextFileID c) (length fs))"
  using assms(1,2) unfolding readable_def
proof (induction fs chs arbitrary: c rule: list_all2_induct)
  case Nil
  then show ?case by (intro exI [of _ "[]"]) (simp add: written_def)
next
  case (Cons f fs ch chs)
  let ?k = "nextFileID c + 1"
  let ?c = "c\<lparr>nextFileID := ?k, sent := sent c @ file_msgs ?k (FPath f) (FSize f) ch\<rparr>"
  have "alive ?c = None" using Cons.prems by simp
  from Cons.IH [OF this] obtain msgs where
    m: "BatchWrite outcome fs ?c = (Inr (), ?c\<lparr>nextFileID := nextFileID ?c + of_nat (length fs), sent := sent ?c @ msgs\<rparr>)"
    and sv: "\<And>s. files (fold (server_write_step put_file) msgs s) = written fs chs (files s)"
      "\<And>s. acks (fold (server_write_step put_file) msgs s) = acks s @ ok_acks (nextFileID ?c) (length fs)"
    by blast
  have b: "BatchWrite outcome (f # fs) c = BatchWrite outcome fs ?c"
    using BatchWrite_one [of c f ch outcome fs] Cons.hyps Cons.prems assms(3) by (simp add: Let_def)
  have n: "\<forall>b \<in> set ch. b \<noteq> []" using Cons.hyps by (simp add: delivers_def)
  show ?case unfolding b m
    by (intro exI [of _ "file_msgs ?k (FPath f) (FSize f) ch @ msgs"])
      (simp add: sv server_write_file [OF n] written_def add.assoc)
qed

lemma server_acks_ok: "\<forall>a \<in> set (acks s). snd a = '''' \<Longrightarrow> \<forall>a \<in> set (acks (fold (server_write_step put_file) msgs s)). snd a = ''''"
proof (induction msgs arbitrary: s)
  case (Cons m msgs)
  have "\<forall>a \<in> set (acks (server_write_step put_file m s)). snd a = ''''" using Cons.prems by (cases m) auto
  from Cons.IH [OF this] show ?case by simp
qed simp

lemma replies_from_ok: "\<forall>a \<in> set ak. snd a = '''' \<Longrightarrow> replies_from ak k = None"
  by (auto simp: replies_from_def ack_result_def dest!: map_of_SomeD split: option.split)

lemma put_file_replies: "replies_from (acks (server_write put_file msgs fs0)) k = None"
  unfolding server_write_def by (rule replies_from_ok, rule server_acks_ok) simp



text \<open>\<open>Write\<close> cuts its content into buffers and the file arrives whole, the empty file included.\<close>

lemma Write_applies:
  assumes "alive c = None" and "sent c = []"
    and "\<And>k. outcome k = replies_from (acks (server_write put_file (sent (snd (Write outcome path content c))) fs0)) k"
  shows "fst (Write outcome path content c) = Inr () \<and>
    files (server_write put_file (sent (snd (Write outcome path content c))) fs0) = fs0(path \<mapsto> content)"
proof -
  have "readable [\<lparr>FPath = path, FSize = length content, FReader = bytes_reader content\<rparr>] [chunks_from writeBufferSize 0 content]"
    using bytes_reader_delivers [of content] by (simp add: readable_def)
  moreover have "outcome k = None" for k using assms(3) put_file_replies by (rule trans)
  ultimately show ?thesis
    using BatchWrite_all [of _ _ c outcome] assms(1,2) bytes_reader_delivers(2) [of content]
    by (fastforce simp: Write_def server_write_def written_def)
qed

section \<open>Concurrent writers\<close>

lemma append_in_shuffles: "xs @ ys \<in> shuffles xs ys"
  by (induction xs) (auto simp: Cons_in_shuffles_leftI)

lemma Write_sent:
  "sent (snd (Write (\<lambda>_. None) path content \<lparr>nextFileID = k, sent = [], alive = None\<rparr>)) =
   file_msgs (k + 1) path (length content) (chunks_from writeBufferSize 0 content)"
  using bytes_reader_delivers [of content] by (simp add: Write_def BatchWrite_one Let_def del: BatchWrite.simps(2))

text \<open>The server keeps one path and one buffer per stream and ignores the file identifiers, while any
  number of callers may write at the same time: two writes can interleave on the stream so that both
  callers are told that their file was written, but the first file is never written and the second
  ends up with the bytes of both.\<close>

theorem interleaved_writes_mix:
  assumes "p1 \<noteq> p2"
  shows "\<exists>msgs \<in> shuffles (sent (snd (Write (\<lambda>_. None) p1 c1 \<lparr>nextFileID = k, sent = [], alive = None\<rparr>)))
      (sent (snd (Write (\<lambda>_. None) p2 c2 \<lparr>nextFileID = k + 1, sent = [], alive = None\<rparr>))).
    acks (server_write put_file msgs fs0) = [(k + 1, ''''), (k + 2, '''')] \<and>
    files (server_write put_file msgs fs0) p1 = fs0 p1 \<and> files (server_write put_file msgs fs0) p2 = Some (c1 @ c2)"
proof -
  let ?b1 = "chunks_from writeBufferSize 0 c1" and ?b2 = "chunks_from writeBufferSize 0 c2"
  let ?m1 = "map (WBlob (k + 1)) ?b1 @ [WBlob (k + 1) []]" and ?m2 = "map (WBlob (k + 2)) ?b2 @ [WBlob (k + 2) []]"
  let ?msgs = "WHeader (k + 1) p1 (length c1) # WHeader (k + 2) p2 (length c2) # ?m1 @ ?m2"
  have "?msgs \<in> shuffles (WHeader (k + 1) p1 (length c1) # ?m1) (WHeader (k + 2) p2 (length c2) # ?m2)"
    using append_in_shuffles [of ?m1 ?m2] by (intro Cons_in_shuffles_leftI Cons_in_shuffles_rightI)
  then have "?msgs \<in> shuffles (sent (snd (Write (\<lambda>_. None) p1 c1 \<lparr>nextFileID = k, sent = [], alive = None\<rparr>)))
      (sent (snd (Write (\<lambda>_. None) p2 c2 \<lparr>nextFileID = k + 1, sent = [], alive = None\<rparr>)))"
    by (simp add: Write_sent file_msgs_def add.assoc)
  moreover have blobs: "fold (server_write_step put_file) (map (WBlob j) (chunks_from writeBufferSize 0 c)) s =
      s\<lparr>buf := buf s @ c\<rparr>" for j c and s :: "(string \<rightharpoonup> byte list) write_server"
  proof -
    have "fold (server_write_step put_file) (map (WBlob j) bs) s = s\<lparr>buf := buf s @ concat bs\<rparr>"
      if "\<forall>b \<in> set bs. b \<noteq> []" for bs and s :: "(string \<rightharpoonup> byte list) write_server"
      using that by (induction bs arbitrary: s) auto
    then show ?thesis using bytes_reader_delivers [of c] by (simp add: delivers_def)
  qed
  ultimately show ?thesis
    using assms by (intro bexI [of _ ?msgs]) (simp_all add: server_write_def blobs)
qed

theorem interleaved_writes_mix_witness:
  "\<exists>msgs \<in> shuffles (sent (snd (Write (\<lambda>_. None) ''a'' [1] \<lparr>nextFileID = 0, sent = [], alive = None\<rparr>)))
      (sent (snd (Write (\<lambda>_. None) ''b'' [2] \<lparr>nextFileID = 0 + 1, sent = [], alive = None\<rparr>))).
    files (server_write put_file msgs Map.empty) ''b'' = Some [1, 2]"
proof -
  have "''a'' \<noteq> ''b''" by simp
  from interleaved_writes_mix [OF this, of "[1]" 0 "[2]" Map.empty] show ?thesis by fastforce
qed

section \<open>Reading files\<close>

record read_header =
  RPath :: string
  ROffset :: int
  RLimit :: int

text \<open>A request, and the pipe its caller reads from.\<close>

record read_sub =
  rheader :: read_header
  rpipe :: chan

record read_detail =
  dFileId :: u32
  dheader :: read_header

datatype read_resp = RHeader u32 string nat | RBlob u32 "byte list"

text \<open>The dispatching goroutine of \<open>fileSystem\<close>: the last identifier, the subscriptions by identifier, what has
  been written into each pipe, which pipes are closed, the requests sent, and \<open>Some e\<close> once the loop has
  ended and put \<open>e\<close> on \<open>readErrorC\<close>.\<close>

record read_loop =
  fileID :: u32
  mSub :: "(u32 \<times> chan) list"
  piped :: "chan \<Rightarrow> byte list"
  pclosed :: "chan \<Rightarrow> bool"
  rsent :: "read_detail list"
  rended :: "string option option"

datatype read_event =
    RSub read_sub "string option"
  | RResp read_resp "string option"
  | RStreamErr string
  | RCtxDone

fun resp_id :: "read_resp \<Rightarrow> u32" where
  "resp_id (RHeader k path n) = k"
| "resp_id (RBlob k data) = k"

definition bad_file_id :: string where "bad_file_id = ''got bad file id''"

definition on_resp :: "read_resp \<Rightarrow> string option \<Rightarrow> read_loop \<Rightarrow> read_loop" where
  "on_resp r copyErr l =
     (case map_of (mSub l) (resp_id r) of
        None \<Rightarrow> l\<lparr>rended := Some (Some bad_file_id)\<rparr>
      | Some c \<Rightarrow>
          (case r of
             RHeader k path n \<Rightarrow> l
           | RBlob k data \<Rightarrow>
               if data = [] then l\<lparr>pclosed := (pclosed l)(c := True), mSub := AList.delete k (mSub l)\<rparr>
               else (case copyErr of
                       None \<Rightarrow> l\<lparr>piped := (piped l)(c := piped l c @ data)\<rparr>
                     | Some e \<Rightarrow> l\<lparr>rended := Some (Some e)\<rparr>)))"

definition read_step :: "read_event \<Rightarrow> read_loop \<Rightarrow> read_loop" where
  "read_step ev l =
     (if rended l \<noteq> None then l
      else case ev of
        RCtxDone \<Rightarrow> l\<lparr>rended := Some None\<rparr>
      | RStreamErr e \<Rightarrow> l\<lparr>rended := Some (Some e)\<rparr>
      | RSub sub sendErr \<Rightarrow>
          let k = fileID l + 1; l = l\<lparr>fileID := k, mSub := AList.update k (rpipe sub) (mSub l)\<rparr>
          in (case sendErr of
                None \<Rightarrow> l\<lparr>rsent := rsent l @ [\<lparr>dFileId = k, dheader = rheader sub\<rparr>]\<rparr>
              | Some e \<Rightarrow> l\<lparr>rended := Some (Some e)\<rparr>)
      | RResp r copyErr \<Rightarrow> on_resp r copyErr l)"

definition new_read_loop :: read_loop where
  "new_read_loop = \<lparr>fileID = 0, mSub = [], piped = (\<lambda>c. []), pclosed = (\<lambda>c. False), rsent = [], rended = None\<rparr>"

text \<open>\<open>BatchRead\<close>: what its \<open>select\<close> picks for each path, and the readers it returns. A path not reached
  leaves a nil reader; new pipes are numbered from \<open>n\<close> on.\<close>

datatype read_select = SelSent | SelCtx string | SelErr "string option"

datatype pipe = NilPipe | Pipe chan | Closed string



text \<open>The server's handler; a failing read is answered like an empty file.\<close>

definition chunkSize :: nat where "chunkSize = 64 * 1024"

definition serve_read :: "(read_header \<Rightarrow> byte list option) \<Rightarrow> read_detail \<Rightarrow> read_resp list" where
  "serve_read fsRead d =
     (let data = (case fsRead (dheader d) of None \<Rightarrow> [] | Some b \<Rightarrow> b)
      in RHeader (dFileId d) (RPath (dheader d)) (length data) #
         map (RBlob (dFileId d)) (chunks_from chunkSize 0 data) @ [RBlob (dFileId d) []])"


definition file_bytes :: "(read_header \<Rightarrow> byte list option) \<Rightarrow> read_header \<Rightarrow> byte list" where
  "file_bytes fsRead h = (case fsRead h of None \<Rightarrow> [] | Some b \<Rightarrow> b)"

lemma on_blobs:
  assumes "map_of (mSub l) k = Some c" and "rended l = None" and "\<forall>b \<in> set bs. b \<noteq> []"
  shows "fold read_step (map (\<lambda>b. RResp (RBlob k b) None) bs) l = l\<lparr>piped := (piped l)(c := piped l c @ concat bs)\<rparr>"
  using assms by (induction bs arbitrary: l) (simp_all add: read_step_def on_resp_def)












lemma read_ended: "rended l \<noteq> None \<Longrightarrow> fold read_step evs l = l"
  by (induction evs) (auto simp: read_step_def)

text \<open>When the read stream ends, for an error, an unknown identifier or the end of the context, the
  readers of the requests still open are neither closed nor failed: whatever happens later, their
  callers wait for ever. (The write and edit loops answer every open call in that situation.)\<close>

theorem readers_stranded:
  assumes "rended l = None" and "(k, c) \<in> set (mSub l)" and "\<not> pclosed l c" and "rended (read_step ev l) \<noteq> None"
  shows "\<not> pclosed (fold read_step (ev # evs) l) c \<and> piped (fold read_step (ev # evs) l) c = piped l c"
proof -
  have "pclosed (read_step ev l) = pclosed l \<and> piped (read_step ev l) = piped l"
  proof (cases ev)
    case (RSub sub e)
    then show ?thesis using assms(1) by (cases e) (simp_all add: read_step_def Let_def)
  next
    case (RResp r e)
    show ?thesis
    proof (cases r)
      case (RBlob k data)
      then show ?thesis using assms(1,4) RResp
        by (cases "map_of (mSub l) k"; cases "data = []"; cases e) (simp_all add: read_step_def on_resp_def)
    qed (use assms(1) RResp in \<open>simp add: read_step_def on_resp_def split: option.split\<close>)
  qed (use assms(1) in \<open>simp_all add: read_step_def\<close>)
  with read_ended [OF assms(4)] assms(3) show ?thesis by simp
qed

theorem readers_stranded_witness:
  "\<not> pclosed (fold read_step [RStreamErr ''gone'', RCtxDone] (new_read_loop\<lparr>mSub := [(1, 5)]\<rparr>)) 5"
  using readers_stranded [of "new_read_loop\<lparr>mSub := [(1, 5)]\<rparr>" 1 5 "RStreamErr ''gone''" "[RCtxDone]"]
  by (simp add: new_read_loop_def read_step_def)

section \<open>The callers of the write and edit streams\<close>

text \<open>(C4) Every caller whose request the write loop has accepted gets exactly one value on its channel, and the
  right one: the result of the first acknowledgement of its own file, or the error that ended the
  stream if that came first; before either it has received nothing, and once the loop has returned no
  accepted caller is left without an answer. Identifiers and channels of the calls are distinct, as
  \<open>BatchWrite\<close> makes them.\<close>

theorem write_callers_answered:
  assumes "apart (waiters (es1 @ Request sub x # es2))" and "doneC sub = Some c" and "\<not> returned (runWriteStream es1 new_loop)"
  shows "inbox (runWriteStream (es1 @ Request sub x # es2) new_loop) c =
      (case answer (subID sub) (Request sub x # es2) of None \<Rightarrow> [] | Some r \<Rightarrow> [r]) \<and>
    (returned (runWriteStream (es1 @ Request sub x # es2) new_loop) \<longrightarrow>
      length (inbox (runWriteStream (es1 @ Request sub x # es2) new_loop) c) = 1)"
  using wl.one_reply [of es1 "Request sub x" es2 sub x c new_loop] assms by (auto simp: runWriteStream_def new_loop_def)

theorem write_callers_answered_witness:
  "inbox (runWriteStream [Request \<lparr>req = (), subID = 1, doneC = Some 5\<rparr> None, Request \<lparr>req = (), subID = 2, doneC = Some 6\<rparr> None,
     Ack 2 '''', Ack (1 :: nat) ''disk full''] new_loop) 5 = [Some ''disk full'']"
  using write_callers_answered [of "[]" "\<lparr>req = (), subID = 1 :: nat, doneC = Some 5\<rparr>" None
    "[Request \<lparr>req = (), subID = 2, doneC = Some 6\<rparr> None, Ack 2 '''', Ack 1 ''disk full'']" 5]
  by (simp add: apart_def runWriteStream_def new_loop_def ack_result_def)

lemma edit_callers_answered:
  assumes "apart (waiters (map edit_view (es1 @ ERequest sub x # es2)))" and "\<not> returned (runEditStream es1 new_loop)"
  shows "inbox (runEditStream (es1 @ ERequest sub x # es2) new_loop) (edoneC sub) =
      (case answer (RequestId sub) (map edit_view (ERequest sub x # es2)) of None \<Rightarrow> [] | Some r \<Rightarrow> [r])"
  using el.one_reply(1) [of es1 "ERequest sub x" es2 "\<lparr>req = ereq sub, subID = RequestId sub, doneC = Some (edoneC sub)\<rparr>" x
    "edoneC sub" new_loop] assms by (simp add: runEditStream_def new_loop_def)

text \<open>A request that reaches the queue after the loop has returned is never answered.\<close>

lemma late_caller_unanswered:
  "returned (runWriteStream es1 new_loop) \<Longrightarrow> c \<notin> snd ` set (waiters es1) \<Longrightarrow> inbox (runWriteStream (es1 @ es2) new_loop) c = []"
  using wl.run_returned [of "fold write_step es1 new_loop" es2] wl.run_other [of c new_loop es1]
  by (simp add: runWriteStream_def) (simp add: new_loop_def)

section \<open>Headers and blobs on two channels\<close>

text \<open>The receiving goroutine of \<open>fileSystem\<close> puts the headers on one channel and the blobs on another; the
  dispatcher's \<open>select\<close> takes from either, so it sees some interleaving of the two.\<close>

fun is_header :: "read_resp \<Rightarrow> bool" where
  "is_header (RHeader k path n) = True"
| "is_header (RBlob k data) = False"

definition forward :: "read_resp list \<Rightarrow> read_resp list \<times> read_resp list" where
  "forward rs = (filter is_header rs, filter (\<lambda>r. \<not> is_header r) rs)"

lemma forward_serve:
  "forward (serve_read fsRead d) =
     ([RHeader (dFileId d) (RPath (dheader d)) (length (file_bytes fsRead (dheader d)))],
      map (RBlob (dFileId d)) (chunks_from chunkSize 0 (file_bytes fsRead (dheader d))) @ [RBlob (dFileId d) []])"
  by (simp add: forward_def serve_read_def Let_def file_bytes_def)

lemma late_header:
  assumes "map_of (mSub l) k = Some c" and "rended l = None" and "\<forall>b \<in> set bs. b \<noteq> []"
  shows "rended (fold read_step (map (\<lambda>r. RResp r None) (map (RBlob k) bs @ [RBlob k [], RHeader k path n])) l) = Some (Some bad_file_id)"
proof -
  have "map_of (AList.delete k (mSub l)) k = None" by (simp add: delete_conv)
  then show ?thesis
    using on_blobs [OF assms(1-3)] assms(1,2) by (simp add: comp_def read_step_def on_resp_def)
qed

text \<open>The answer to a single request can end the read stream: if the dispatcher takes the file's blobs before its
  header, which the two channels allow for every file, the closing blob removes the subscription and the
  header then counts as an unknown identifier.\<close>

theorem overtaken_header_ends_reads:
  assumes "map_of (mSub l) (dFileId d) = Some c" and "rended l = None"
  shows "\<exists>rs \<in> shuffles (fst (forward (serve_read fsRead d))) (snd (forward (serve_read fsRead d))).
    rended (fold read_step (map (\<lambda>r. RResp r None) rs) l) = Some (Some bad_file_id)"
proof -
  let ?bs = "chunks_from chunkSize 0 (file_bytes fsRead (dheader d))"
  let ?h = "RHeader (dFileId d) (RPath (dheader d)) (length (file_bytes fsRead (dheader d)))"
  have "\<forall>b \<in> set ?bs. b \<noteq> []" using chunks_from_nonempty by blast
  from late_header [OF assms(1,2) this]
  have "rended (fold read_step (map (\<lambda>r. RResp r None) ((map (RBlob (dFileId d)) ?bs @ [RBlob (dFileId d) []]) @ [?h])) l) = Some (Some bad_file_id)"
    by simp
  moreover have "(map (RBlob (dFileId d)) ?bs @ [RBlob (dFileId d) []]) @ [?h] \<in>
      shuffles [?h] (map (RBlob (dFileId d)) ?bs @ [RBlob (dFileId d) []])"
    by (subst shuffles_commutes) (rule append_in_shuffles)
  ultimately show ?thesis unfolding forward_serve fst_conv snd_conv by blast
qed

theorem overtaken_header_ends_reads_witness:
  "\<exists>rs \<in> shuffles [RHeader 1 ''a'' 0] [RBlob 1 []].
     rended (fold read_step (map (\<lambda>r. RResp r None) rs) (new_read_loop\<lparr>mSub := [(1, 5), (2, 6)]\<rparr>)) = Some (Some bad_file_id)"
proof -
  let ?d = "\<lparr>dFileId = 1, dheader = \<lparr>RPath = ''a'', ROffset = 0, RLimit = 0\<rparr>\<rparr>"
  let ?l = "new_read_loop\<lparr>mSub := [(1, 5), (2, 6)]\<rparr>"
  have f: "forward (serve_read (\<lambda>h. None) ?d) = ([RHeader 1 ''a'' 0], [RBlob 1 []])"
    by (simp add: forward_serve file_bytes_def chunks_from.simps)
  from overtaken_header_ends_reads [of ?l ?d 5 "\<lambda>h. None"] show ?thesis
    unfolding f by (simp add: new_read_loop_def)
qed

section \<open>Editing and reading one file\<close>

record edit_req =
  EPath :: string
  OldString :: string
  NewString :: string
  ReplaceAll :: bool

record edit_client =
  nextRequestID :: u32
  esent :: "(u32 \<times> edit_req) list"

text \<open>\<open>Edit\<close>: \<open>ctx1\<close> and \<open>ctx2\<close> say that the context's end is picked at the first or second \<open>select\<close>; \<open>outcome\<close> is
  what the call's \<open>doneC\<close> delivers.\<close>

definition Edit :: "(u32 \<Rightarrow> reply) \<Rightarrow> bool \<Rightarrow> bool \<Rightarrow> string \<Rightarrow> edit_req \<Rightarrow> edit_client \<Rightarrow> reply \<times> edit_client" where
  "Edit outcome ctx1 ctx2 ctxErr r c =
     (let k = nextRequestID c + 1; c = c\<lparr>nextRequestID := k\<rparr>
      in if ctx1 then (Some ctxErr, c)
         else let c = c\<lparr>esent := esent c @ [(k, r)]\<rparr>
              in if ctx2 then (Some ctxErr, c) else (outcome k, c))"

text \<open>The server's handler: one edit and one acknowledgement per message.\<close>

definition server_edit ::
  "(edit_req \<Rightarrow> 'fs \<Rightarrow> string \<times> 'fs) \<Rightarrow> (u32 \<times> edit_req) list \<Rightarrow> 'fs \<Rightarrow> 'fs \<times> (u32 \<times> string) list" where
  "server_edit fsEdit msgs fs =
     fold (\<lambda>(k, r) (fs, acks). case fsEdit r fs of (err, fs') \<Rightarrow> (fs', acks @ [(k, err)])) msgs (fs, [])"

text \<open>A call of \<open>Edit\<close> on a fresh stream returns what the machine's edit returned.\<close>

lemma Edit_reports:
  assumes "Edit outcome False False e r \<lparr>nextRequestID = k, esent = []\<rparr> = (res, c)"
    and "\<And>k. outcome k = replies_from (snd (server_edit fsEdit (esent c) fs)) k"
  shows "res = ack_result (fst (fsEdit r fs)) \<and> fst (server_edit fsEdit (esent c) fs) = snd (fsEdit r fs)"
  using assms by (auto simp: Edit_def Let_def server_edit_def replies_from_def split: prod.splits)

text \<open>\<open>Read\<close>: \<open>readAll\<close> is \<open>io.ReadAll\<close> on the pipe returned, which blocks on a pipe that is never closed
  (\<open>None\<close>: the call does not return; a nil reader would panic).\<close>

fun Read :: "(chan \<Rightarrow> byte list option) \<Rightarrow> pipe list \<Rightarrow> (string + byte list) option" where
  "Read readAll [Closed e] = Some (Inl e)"
| "Read readAll [Pipe c] = map_option Inr (readAll c)"
| "Read readAll [NilPipe] = None"
| "Read readAll ps = Some (Inl ''bad number of listreaders'')"

text \<open>Reading a pipe of the dispatcher to its end.\<close>

definition pipe_content :: "read_loop \<Rightarrow> chan \<Rightarrow> byte list option" where
  "pipe_content l c = (if pclosed l c then Some (piped l c) else None)"

end
