(* ===== verification/Ledger.thy ===== *)
theory Ledger
  imports Prelude "HOL-Library.List_Lexorder" "HOL-Library.Sublist" "HOL-Library.Char_ord" "HOL-Library.Multiset"
begin

text \<open>
  The accounting client (\<open>src/wiki/ledger\<close>): transactions and their macro text (\<open>ledger.go\<close>), the book-keeper
  that records treasury snapshots and computes profits from them (\<open>bookkeeping.go\<close>), the parser of the
  rendered split table (\<open>splithistory.go\<close>) and the batched price lookup (\<open>jupiter.go\<close>).

  Amounts are reals: they start as unsigned integers, and the rounding of \<open>float64\<close> beyond 53 bits is not
  modelled. Go maps are association lists in which a key occurs once. Parameters: the base-58 form of
  a key and its inverse, the number formats of \<open>strconv\<close> and \<open>%q\<close>, the clock, the price service, and which
  calls on the wiki stream fail. Strings are byte strings; \<open>TrimSpace\<close> is that of ASCII text.
\<close>

section \<open>Transactions\<close>

datatype ledger_error =
    OpenFailed | SendFailed | CommitFailed
  | DuplicateSplit string
  | InventoryWithoutSplit string
  | TooManyCommodities string nat
  | BadDate string | BadAmount string string
  | PricesFailed | NoValuationPrice pubkey | QueryFailed | ListFailed

text \<open>\<open>Transaction\<close>: the splits, and per account the commodities.\<close>

record transaction =
  mSplit :: "(string \<times> real) list"
  mInventory :: "(string \<times> (string \<times> real) list) list"

definition new_transaction :: transaction where
  "new_transaction = \<lparr>mSplit = [], mInventory = []\<rparr>"

definition Ledger :: "string \<Rightarrow> real \<Rightarrow> transaction \<Rightarrow> ledger_error + transaction" where
  "Ledger topic amount tn =
     (if map_of (mSplit tn) topic \<noteq> None then Inl (DuplicateSplit topic)
      else Inr (tn\<lparr>mSplit := AList.update topic amount (mSplit tn)\<rparr>))"

definition Inventory :: "string \<Rightarrow> string \<Rightarrow> real \<Rightarrow> transaction \<Rightarrow> ledger_error + transaction" where
  "Inventory accountTopic commodityTopic amount tn =
     Inr (tn\<lparr>mInventory := AList.update accountTopic
            (AList.update commodityTopic amount (case map_of (mInventory tn) accountTopic of None \<Rightarrow> [] | Some m \<Rightarrow> m))
            (mInventory tn)\<rparr>)"

text \<open>The lines of a transaction topic, before they are printed.\<close>

datatype macro = MTx string | MSplit string real | MCommodity string real

definition account_lines :: "transaction \<Rightarrow> string \<Rightarrow> ledger_error + macro list" where
  "account_lines tn account =
     (let split = MSplit account (the (map_of (mSplit tn) account))
      in case map_of (mInventory tn) account of
           None \<Rightarrow> Inr [split]
         | Some [] \<Rightarrow> Inr [split]
         | Some [(commodityType, amount)] \<Rightarrow> Inr [split, MCommodity commodityType amount]
         | Some cs \<Rightarrow> Inl (TooManyCommodities account (length cs)))"

definition body_lines :: "string \<Rightarrow> transaction \<Rightarrow> ledger_error + macro list" where
  "body_lines date tn =
     (case find (\<lambda>(account, cs). map_of (mSplit tn) account = None) (mInventory tn) of
        Some (account, cs) \<Rightarrow> Inl (InventoryWithoutSplit account)
      | None \<Rightarrow>
          fold_err (\<lambda>account ls. case account_lines tn account of Inl e \<Rightarrow> Inl e | Inr l \<Rightarrow> Inr (ls @ l))
            (sort (map fst (mSplit tn))) [MTx date])"

text \<open>The text: \<open>quote\<close> is \<open>%q\<close>, \<open>formatAmount\<close> prints two decimals.\<close>

fun print_macro :: "(string \<Rightarrow> string) \<Rightarrow> (real \<Rightarrow> string) \<Rightarrow> macro \<Rightarrow> string" where
  "print_macro quote formatAmount (MTx date) = ''%GNUCASH_TX{Date='' @ quote date @ ''}%'' @ [CHR 0x0A]"
| "print_macro quote formatAmount (MSplit account amount) =
     ''%GNUCASH_SPLIT{Account='' @ quote account @ '' Amount='' @ quote (formatAmount amount) @ ''}%'' @ [CHR 0x0A]"
| "print_macro quote formatAmount (MCommodity ty amount) =
     ''%GNUCASH_COMMODITY{Type='' @ quote ty @ '' Amount='' @ quote (formatAmount amount) @ ''}%'' @ [CHR 0x0A]"

definition body :: "(string \<Rightarrow> string) \<Rightarrow> (real \<Rightarrow> string) \<Rightarrow> string \<Rightarrow> transaction \<Rightarrow> ledger_error + string" where
  "body quote formatAmount date tn =
     (case body_lines date tn of Inl e \<Rightarrow> Inl e | Inr ls \<Rightarrow> Inr (concat (map (print_macro quote formatAmount) ls)))"

section \<open>Commits\<close>

text \<open>What is put on the wiki stream: \<open>Topic\<close>'s message, with the body still as lines where it is a transaction.\<close>

datatype topic_body = AccountBody | TxBody "macro list"

record topic_put =
  mustBeNew :: bool
  parentTopic :: string
  topicName :: string
  topicBody :: topic_body

record commit =
  txIndex :: nat
  baseTopic :: string
  bookTopic :: string
  sentTopics :: "topic_put list"

text \<open>\<open>fmt.Sprintf("%s_%d%d%d", bookTopic, year, month, day)\<close>\<close>

definition base_topic :: "string \<Rightarrow> nat \<times> nat \<times> nat \<Rightarrow> string" where
  "base_topic book = (\<lambda>(year, month, day). book @ ''_'' @ dec year @ dec month @ dec day)"

definition open_commit :: "string \<Rightarrow> nat \<times> nat \<times> nat \<Rightarrow> commit" where
  "open_commit book date = \<lparr>txIndex = 0, baseTopic = base_topic book date, bookTopic = book, sentTopics = []\<rparr>"

definition topic :: "commit \<Rightarrow> string \<times> commit" where
  "topic c = (let i = txIndex c + 1 in (baseTopic c @ ''_'' @ dec i, c\<lparr>txIndex := i\<rparr>))"

definition put_topic :: "(topic_put \<Rightarrow> bool) \<Rightarrow> topic_put \<Rightarrow> commit \<Rightarrow> ledger_error + commit" where
  "put_topic sendFails t c = (if sendFails t then Inl SendFailed else Inr (c\<lparr>sentTopics := sentTopics c @ [t]\<rparr>))"

fun Finish :: "(topic_put \<Rightarrow> bool) \<Rightarrow> bool \<Rightarrow> string \<Rightarrow> transaction list \<Rightarrow> commit \<Rightarrow> ledger_error + commit" where
  "Finish sendFails commitFails date [] c = (if commitFails then Inl CommitFailed else Inr c)"
| "Finish sendFails commitFails date (tx # txs) c =
     (case body_lines date tx of
        Inl e \<Rightarrow> Inl e
      | Inr ls \<Rightarrow>
          (case topic c of
             (name, c) \<Rightarrow>
               (case put_topic sendFails \<lparr>mustBeNew = True, parentTopic = bookTopic c, topicName = name, topicBody = TxBody ls\<rparr> c of
                  Inl e \<Rightarrow> Inl e
                | Inr c \<Rightarrow> Finish sendFails commitFails date txs c)))"

section \<open>Snapshots\<close>

record wallet =
  wID :: pubkey
  wSOL :: u64
  wTokens :: "(pubkey \<times> u64) list"

record treasury =
  tparent :: wallet
  tchildren :: "pubkey list"
  tchild :: "pubkey \<Rightarrow> wallet"

record book_keeper =
  assetsParent :: string
  equityTopic :: string
  book :: string

record world =
  keyString :: "pubkey \<Rightarrow> string"
  wrappedSol :: pubkey
  snapshotID :: string
  today :: "nat \<times> nat \<times> nat"
  todayText :: string
  openFails :: bool
  sendFails :: "topic_put \<Rightarrow> bool"
  commitFails :: bool

definition parentContainerTopic :: string where "parentContainerTopic = ''SnapshotParent''"
definition childContainerPrefix :: string where "childContainerPrefix = ''SnapshotChild_''"

definition childContainerTopic :: "world \<Rightarrow> pubkey \<Rightarrow> string" where
  "childContainerTopic w childID = childContainerPrefix @ keyString w childID"

definition accountTopic :: "world \<Rightarrow> pubkey \<Rightarrow> pubkey \<Rightarrow> string" where
  "accountTopic w walletID commodity =
     ''Snapshot_'' @ keyString w walletID @ ''_'' @ keyString w commodity @ ''_'' @ snapshotID w"

definition toAmount :: "u64 \<Rightarrow> real" where
  "toAmount raw = real (unat raw)"

definition sortedPublicKeys :: "world \<Rightarrow> (pubkey \<times> 'v) list \<Rightarrow> pubkey list" where
  "sortedPublicKeys w m = sort_key (keyString w) (map fst m)"

definition sortedChildIDs :: "world \<Rightarrow> pubkey list \<Rightarrow> pubkey list" where
  "sortedChildIDs w ks = sort_key (keyString w) ks"

definition sortedStrings :: "string list \<Rightarrow> string list" where
  "sortedStrings m = sort (remdups m)"

record snap_entry =
  container :: string
  account :: string
  commodity :: pubkey
  amount :: real

definition wallets_of :: "world \<Rightarrow> treasury \<Rightarrow> (wallet \<times> string) list" where
  "wallets_of w t = (tparent t, parentContainerTopic) #
     map (\<lambda>c. (tchild t c, childContainerTopic w c)) (sortedChildIDs w (tchildren t))"

definition wallet_entries :: "world \<Rightarrow> wallet \<times> string \<Rightarrow> snap_entry list" where
  "wallet_entries w = (\<lambda>(wl, cont).
     (if wSOL wl > 0 then [\<lparr>container = cont, account = accountTopic w (wID wl) (wrappedSol w), commodity = wrappedSol w,
         amount = toAmount (wSOL wl)\<rparr>] else []) @
     concat (map (\<lambda>mint.
       let raw = map_get 0 (map_of (wTokens wl)) mint
       in if raw = 0 then []
          else [\<lparr>container = cont, account = accountTopic w (wID wl) mint, commodity = mint, amount = toAmount raw\<rparr>])
       (sortedPublicKeys w (wTokens wl))))"

definition entries_of :: "world \<Rightarrow> treasury \<Rightarrow> snap_entry list" where
  "entries_of w t = concat (map (wallet_entries w) (wallets_of w t))"

definition account_put :: "bool \<Rightarrow> string \<Rightarrow> string \<Rightarrow> topic_put" where
  "account_put new parent name = \<lparr>mustBeNew = new, parentTopic = parent, topicName = name, topicBody = AccountBody\<rparr>"

definition post_entry :: "world \<Rightarrow> snap_entry \<Rightarrow> transaction \<Rightarrow> ledger_error + transaction" where
  "post_entry w e tn =
     (case Ledger (account e) (amount e) tn of
        Inl err \<Rightarrow> Inl err
      | Inr tn \<Rightarrow> Inventory (account e) (keyString w (commodity e)) (amount e) tn)"

text \<open>The transaction of a snapshot: one split and one commodity per entry, and the offset.\<close>

definition snapshot_tx :: "world \<Rightarrow> book_keeper \<Rightarrow> snap_entry list \<Rightarrow> ledger_error + transaction" where
  "snapshot_tx w bk es =
     (case fold_err (post_entry w) es new_transaction of
        Inl err \<Rightarrow> Inl err
      | Inr tn \<Rightarrow> Ledger (equityTopic bk) (- sum_list (map amount es)) tn)"

text \<open>\<open>Inr None\<close>: nothing to record; otherwise the commit that was finished.\<close>

definition Snapshot :: "world \<Rightarrow> book_keeper \<Rightarrow> treasury \<Rightarrow> ledger_error + commit option" where
  "Snapshot w bk t =
     (let es = entries_of w t
      in if es = [] then Inr None
         else if openFails w then Inl OpenFailed
         else
           (case fold_err (put_topic (sendFails w))
                   (map (account_put False (assetsParent bk)) (sortedStrings (map container es)) @
                    map (\<lambda>e. account_put True (container e) (account e)) es)
                   (open_commit (book bk) (today w)) of
              Inl err \<Rightarrow> Inl err
            | Inr c \<Rightarrow>
                (case snapshot_tx w bk es of
                   Inl err \<Rightarrow> Inl err
                 | Inr tn \<Rightarrow>
                     (case Finish (sendFails w) (commitFails w) (todayText w) [tn] c of
                        Inl err \<Rightarrow> Inl err
                      | Inr c \<Rightarrow> Inr (Some c)))))"

section \<open>Prices\<close>

record jupiter_price =
  USDPrice :: real
  Decimals :: nat

definition jupiterMaxMintsPerRequest :: nat where "jupiterMaxMintsPerRequest = 50"

text \<open>\<open>fetchJupiterPrices\<close>: \<open>fetch\<close> is the request for one batch, the result one map.\<close>

definition fetchJupiterPrices ::
  "(pubkey list \<Rightarrow> ledger_error + (pubkey \<rightharpoonup> jupiter_price)) \<Rightarrow> pubkey list \<Rightarrow>
   ledger_error + (pubkey \<rightharpoonup> jupiter_price)" where
  "fetchJupiterPrices fetch mints =
     fold_err (\<lambda>batch out. case fetch batch of Inl e \<Rightarrow> Inl e | Inr prices \<Rightarrow> Inr (out ++ prices))
       (chunks_from jupiterMaxMintsPerRequest 0 mints) Map.empty"

text \<open>The decoding at the end of \<open>fetchJupiterPriceBatch\<close>: \<open>raw\<close> are the members of the response's object.\<close>

definition parse_batch ::
  "(string \<Rightarrow> pubkey option) \<Rightarrow> (string \<times> jupiter_price) list \<Rightarrow> ledger_error + (pubkey \<rightharpoonup> jupiter_price)" where
  "parse_batch fromBase58 raw =
     fold_err (\<lambda>(idStr, p) out. case fromBase58 idStr of None \<Rightarrow> Inl PricesFailed | Some mint \<Rightarrow> Inr (out(mint \<mapsto> p)))
       raw Map.empty"

text \<open>\<open>reply\<close> is what the price service answers to the joined ids (None: the request or its decoding fails).\<close>

definition fetchJupiterPriceBatch ::
  "(pubkey \<Rightarrow> string) \<Rightarrow> (string \<Rightarrow> pubkey option) \<Rightarrow> (string \<Rightarrow> (string \<times> jupiter_price) list option) \<Rightarrow>
   pubkey list \<Rightarrow> ledger_error + (pubkey \<rightharpoonup> jupiter_price)" where
  "fetchJupiterPriceBatch toBase58 fromBase58 reply mints =
     (case reply (join '','' (map toBase58 mints)) of
        None \<Rightarrow> Inl PricesFailed
      | Some raw \<Rightarrow> parse_batch fromBase58 raw)"

section \<open>The split table\<close>

record split_row =
  rdate :: int
  rmint :: pubkey
  ramount :: real

definition splitSearchHeader :: string where
  "splitSearchHeader = ''| Date | Transaction | Account | Debit | Credit | Commodity |''"

definition is_space :: "char \<Rightarrow> bool" where
  "is_space c \<longleftrightarrow> c \<in> {CHR 0x09, CHR 0x0A, CHR 0x0B, CHR 0x0C, CHR 0x0D, CHR 0x20}"

definition TrimSpace :: "string \<Rightarrow> string" where
  "TrimSpace s = rev (dropWhile is_space (rev (dropWhile is_space s)))"

text \<open>\<open>strings.Split\<close> on a separator of one byte.\<close>

fun split_on :: "char \<Rightarrow> string \<Rightarrow> string list" where
  "split_on sep [] = [[]]"
| "split_on sep (c # s) =
     (if c = sep then [] # split_on sep s
      else case split_on sep s of [] \<Rightarrow> [[c]] | p # ps \<Rightarrow> (c # p) # ps)"

definition splitTableRow :: "string \<Rightarrow> string list" where
  "splitTableRow line =
     (let parts = split_on (CHR ''|'') line;
          parts = (if parts \<noteq> [] \<and> TrimSpace (hd parts) = [] then tl parts else parts);
          parts = (if parts \<noteq> [] \<and> TrimSpace (last parts) = [] then butlast parts else parts)
      in map TrimSpace parts)"

text \<open>The amount of a row: the debit, or the credit with the other sign; \<open>Inr None\<close> when both cells are empty.\<close>

definition row_amount :: "(string \<Rightarrow> real option) \<Rightarrow> string \<Rightarrow> string \<Rightarrow> ledger_error + real option" where
  "row_amount parseFloat debit credit =
     (if debit \<noteq> [] then (case parseFloat debit of None \<Rightarrow> Inl (BadAmount debit credit) | Some a \<Rightarrow> Inr (Some a))
      else if credit \<noteq> [] then (case parseFloat credit of None \<Rightarrow> Inl (BadAmount debit credit) | Some a \<Rightarrow> Inr (Some (- a)))
      else Inr None)"

text \<open>The second part of \<open>strings.SplitN(s, " ", 2)\<close>, if there are two.\<close>

definition after_space :: "string \<Rightarrow> string option" where
  "after_space s = (case dropWhile (\<lambda>c. c \<noteq> CHR 0x20) s of [] \<Rightarrow> None | _ # rest \<Rightarrow> Some rest)"

text \<open>\<open>parseSplitSearchRow\<close>, called with six cells: date, transaction, account, debit, credit, commodity.\<close>

definition parseSplitSearchRow ::
  "(string \<Rightarrow> int option) \<Rightarrow> (string \<Rightarrow> real option) \<Rightarrow> (string \<Rightarrow> pubkey option) \<Rightarrow> string list \<Rightarrow>
   ledger_error + split_row option" where
  "parseSplitSearchRow parseDate parseFloat fromBase58 cells =
     (case parseDate (cells ! 0) of
        None \<Rightarrow> Inl (BadDate (cells ! 0))
      | Some date \<Rightarrow>
          (case row_amount parseFloat (cells ! 3) (cells ! 4) of
             Inl e \<Rightarrow> Inl e
           | Inr None \<Rightarrow> Inr None
           | Inr (Some amt) \<Rightarrow>
               (case after_space (cells ! 5) of
                  None \<Rightarrow> Inr None
                | Some key \<Rightarrow>
                    (case fromBase58 key of
                       None \<Rightarrow> Inr None
                     | Some mint \<Rightarrow> Inr (Some \<lparr>rdate = date, rmint = mint, ramount = amt\<rparr>)))))"

fun table_rows ::
  "(string list \<Rightarrow> ledger_error + split_row option) \<Rightarrow> bool \<Rightarrow> string list \<Rightarrow> ledger_error + split_row list" where
  "table_rows parseRow inTable [] = Inr []"
| "table_rows parseRow inTable (l # lines) =
     (let line = TrimSpace l
      in if \<not> inTable then table_rows parseRow (line = splitSearchHeader) lines
         else if prefix ''| ---'' line then table_rows parseRow True lines
         else if \<not> prefix ''|'' line then Inr []
         else if length (splitTableRow line) \<noteq> 6 then table_rows parseRow True lines
         else
           (case parseRow (splitTableRow line) of
              Inl e \<Rightarrow> Inl e
            | Inr None \<Rightarrow> table_rows parseRow True lines
            | Inr (Some row) \<Rightarrow>
                (case table_rows parseRow True lines of Inl e \<Rightarrow> Inl e | Inr rows \<Rightarrow> Inr (row # rows))))"

definition parseSplitSearchTable ::
  "(string \<Rightarrow> int option) \<Rightarrow> (string \<Rightarrow> real option) \<Rightarrow> (string \<Rightarrow> pubkey option) \<Rightarrow> string \<Rightarrow>
   ledger_error + split_row list" where
  "parseSplitSearchTable parseDate parseFloat fromBase58 text =
     table_rows (parseSplitSearchRow parseDate parseFloat fromBase58) False (split_on (CHR 0x0A) text)"

section \<open>Profits\<close>

text \<open>
  \<open>splitHistory\<close>: the query topic is saved and rendered, and the rendered table parsed. \<open>renderQuery\<close> is the
  service: it answers the query for an account from the first day to \<open>finish\<close> with the page's text, or fails.
\<close>

record profit_env =
  parseDate :: "string \<Rightarrow> int option"
  parseFloat :: "string \<Rightarrow> real option"
  fromBase58 :: "string \<Rightarrow> pubkey option"
  renderQuery :: "string \<Rightarrow> int \<Rightarrow> string option"
  fetchBatch :: "pubkey list \<Rightarrow> ledger_error + (pubkey \<rightharpoonup> jupiter_price)"

definition splitHistory :: "profit_env \<Rightarrow> string \<Rightarrow> int \<Rightarrow> ledger_error + split_row list" where
  "splitHistory env containerTopic finish =
     (case renderQuery env containerTopic finish of
        None \<Rightarrow> Inl QueryFailed
      | Some text \<Rightarrow> parseSplitSearchTable (parseDate env) (parseFloat env) (fromBase58 env) text)"

text \<open>The two maps the loop over the history fills.\<close>

definition baseline :: "int \<Rightarrow> split_row list \<Rightarrow> pubkey \<rightharpoonup> real" where
  "baseline start history = fold (\<lambda>row m. if \<not> rdate row > start then m(rmint row \<mapsto> ramount row) else m) history Map.empty"

definition ending :: "split_row list \<Rightarrow> pubkey \<rightharpoonup> real" where
  "ending history = fold (\<lambda>row m. m(rmint row \<mapsto> ramount row)) history Map.empty"

text \<open>The keys of the map \<open>mints\<close>, each once (Go leaves the order open).\<close>

definition mint_list :: "int \<Rightarrow> split_row list \<Rightarrow> pubkey \<Rightarrow> pubkey list" where
  "mint_list start history valuationMint =
     remdups (map rmint history @ map rmint (filter (\<lambda>row. \<not> rdate row > start) history) @ [valuationMint])"

definition mint_value ::
  "(pubkey \<rightharpoonup> jupiter_price) \<Rightarrow> jupiter_price \<Rightarrow> (pubkey \<rightharpoonup> real) \<Rightarrow> (pubkey \<rightharpoonup> real) \<Rightarrow> pubkey \<Rightarrow> real" where
  "mint_value prices valuationPrice base en mint =
     (case prices mint of
        None \<Rightarrow> 0
      | Some price \<Rightarrow>
          let deltaRaw = map_get 0 en mint - map_get 0 base mint
          in if deltaRaw = 0 then 0
             else deltaRaw / 10 ^ Decimals price * USDPrice price / USDPrice valuationPrice)"

definition profitFor :: "profit_env \<Rightarrow> string \<Rightarrow> int \<Rightarrow> int \<Rightarrow> pubkey \<Rightarrow> ledger_error + real" where
  "profitFor env containerTopic start finish valuationMint =
     (case splitHistory env containerTopic finish of
        Inl e \<Rightarrow> Inl e
      | Inr history \<Rightarrow>
          if history = [] then Inr 0
          else
            let base = baseline start history; en = ending history; mints = mint_list start history valuationMint
            in (case fetchJupiterPrices (fetchBatch env) mints of
                  Inl e \<Rightarrow> Inl e
                | Inr prices \<Rightarrow>
                    (case prices valuationMint of
                       None \<Rightarrow> Inl (NoValuationPrice valuationMint)
                     | Some vp \<Rightarrow>
                         Inr (sum_list (map (mint_value prices vp base en) (filter (\<lambda>m. m \<noteq> valuationMint) mints)) +
                              (map_get 0 en valuationMint - map_get 0 base valuationMint) / 10 ^ Decimals vp))))"

definition ProfitChild :: "world \<Rightarrow> profit_env \<Rightarrow> int \<Rightarrow> int \<Rightarrow> pubkey \<Rightarrow> pubkey \<Rightarrow> ledger_error + real" where
  "ProfitChild w env start finish valuationMint childID =
     profitFor env (childContainerTopic w childID) start finish valuationMint"

text \<open>\<open>ProfitParent\<close>: \<open>listTopics\<close> are the names of the topics under \<open>assetsParent\<close>.\<close>

definition ProfitParent ::
  "profit_env \<Rightarrow> string list option \<Rightarrow> int \<Rightarrow> int \<Rightarrow> pubkey \<Rightarrow> ledger_error + real \<times> real" where
  "ProfitParent env listTopics start finish valuationMint =
     (case profitFor env parentContainerTopic start finish valuationMint of
        Inl e \<Rightarrow> Inl e
      | Inr parentOnly \<Rightarrow>
          (case listTopics of
             None \<Rightarrow> Inl ListFailed
           | Some names \<Rightarrow>
               (case fold_err (\<lambda>name overall.
                        if \<not> prefix childContainerPrefix name then Inr overall
                        else case profitFor env name start finish valuationMint of
                               Inl e \<Rightarrow> Inl e
                             | Inr childProfit \<Rightarrow> Inr (overall + childProfit)) names parentOnly of
                  Inl e \<Rightarrow> Inl e
                | Inr overall \<Rightarrow> Inr (parentOnly, overall))))"

section \<open>Batched prices\<close>

text \<open>A service that answers a batch with the prices it has for the batch's mints.\<close>

definition pointwise :: "(pubkey \<rightharpoonup> jupiter_price) \<Rightarrow> (pubkey list \<Rightarrow> ledger_error + (pubkey \<rightharpoonup> jupiter_price)) \<Rightarrow> bool" where
  "pointwise quote fetch \<longleftrightarrow> (\<forall>batch. length batch \<le> jupiterMaxMintsPerRequest \<longrightarrow> fetch batch = Inr (quote |` set batch))"

lemma restrict_union: "(m |` A) ++ (m |` B) = m |` (A \<union> B)"
  by (auto simp: map_add_def restrict_map_def split: option.splits)

lemma fold_batches:
  assumes "\<And>b. b \<in> set bs \<Longrightarrow> fetch b = Inr (quote |` set b)"
  shows "fold_err (\<lambda>batch out. case fetch batch of Inl e \<Rightarrow> Inl e | Inr prices \<Rightarrow> Inr (out ++ prices)) bs (quote |` A)
     = Inr (quote |` (A \<union> set (concat bs)))"
  using assms by (induction bs arbitrary: A) (simp_all add: restrict_union Un_assoc)

lemma batched:
  assumes "pointwise quote fetch"
  shows "fetchJupiterPrices fetch mints = Inr (quote |` set mints)"
proof -
  have "fetch b = Inr (quote |` set b)" if "b \<in> set (chunks_from jupiterMaxMintsPerRequest 0 mints)" for b
    using assms chunks_from_bound [OF that] by (auto simp: pointwise_def)
  then have "fetchJupiterPrices fetch mints =
      Inr (quote |` ({} \<union> set (concat (chunks_from jupiterMaxMintsPerRequest 0 mints))))"
    unfolding fetchJupiterPrices_def by (subst fold_batches [symmetric]) simp_all
  also have "concat (chunks_from jupiterMaxMintsPerRequest 0 mints) = mints"
    by (simp add: chunks_from_concat jupiterMaxMintsPerRequest_def)
  finally show ?thesis by simp
qed

text \<open>(C35) Asking for the prices in batches of at most fifty gives, for any number of mints, the table that one
  request for all of them would give: the prices the service has for these mints and no other.\<close>

theorem fetchJupiterPrices_batched:
  assumes "pointwise quote fetch"
  shows "fetchJupiterPrices fetch mints = Inr (quote |` set mints)"
  using assms by (rule batched)

lemma pointwise_restrict: "pointwise quote (\<lambda>batch. Inr (quote |` set batch))"
  by (simp add: pointwise_def)

theorem fetchJupiterPrices_batched_witness:
  "fetchJupiterPrices (\<lambda>batch. Inr ([replicate 32 1 \<mapsto> \<lparr>USDPrice = 2, Decimals = 6\<rparr>] |` set batch)) (map (\<lambda>i. [of_nat i]) [0..<120])
   = Inr ([replicate 32 1 \<mapsto> \<lparr>USDPrice = 2, Decimals = 6\<rparr>] |` set (map (\<lambda>i. [of_nat i]) [0..<120]))"
  by (rule fetchJupiterPrices_batched [OF pointwise_restrict])

section \<open>What a snapshot records\<close>

definition entry_splits :: "snap_entry list \<Rightarrow> (string \<times> real) list" where
  "entry_splits = map (\<lambda>e. (account e, amount e))"

definition entry_lines :: "world \<Rightarrow> snap_entry \<Rightarrow> macro list" where
  "entry_lines w e = [MSplit (account e) (amount e), MCommodity (keyString w (commodity e)) (amount e)]"

definition posted :: "world \<Rightarrow> snap_entry list \<Rightarrow> transaction" where
  "posted w es = \<lparr>mSplit = entry_splits es,
     mInventory = map (\<lambda>e. (account e, [(keyString w (commodity e), amount e)])) es\<rparr>"

lemma map_of_None_keys: "map_of (entry_splits es) a = None \<longleftrightarrow> a \<notin> account ` set es"
  by (auto simp: entry_splits_def map_of_eq_None_iff image_iff)

lemma post_entry_posted:
  "post_entry w e (posted w es) =
     (if account e \<in> account ` set es then Inl (DuplicateSplit (account e)) else Inr (posted w (es @ [e])))"
proof (cases "account e \<in> account ` set es")
  case True
  then show ?thesis using map_of_None_keys [of es "account e"] by (simp add: post_entry_def Ledger_def posted_def)
next
  case False
  have new: "account e \<notin> fst ` set (entry_splits es)"
    using False by (force simp: entry_splits_def)
  have newi: "account e \<notin> fst ` set (mInventory (posted w es))"
    using False by (force simp: posted_def)
  have "map_of (mInventory (posted w es)) (account e) = None"
    using newi by (simp add: map_of_eq_None_iff)
  moreover have "map_of (mSplit (posted w es)) (account e) = None"
    using False by (simp add: posted_def map_of_None_keys)
  ultimately show ?thesis
    using False new newi
    by (simp add: post_entry_def Ledger_def Inventory_def alist_update_new) (simp add: posted_def alist_update_new entry_splits_def)
qed

lemma post_all:
  "fold_err (post_entry w) es (posted w es0) = Inr tn \<longleftrightarrow>
     distinct (map account es) \<and> account ` set es \<inter> account ` set es0 = {} \<and> tn = posted w (es0 @ es)"
proof (induction es arbitrary: es0)
  case (Cons e es)
  show ?case using Cons.IH [of "es0 @ [e]"] by (auto simp: post_entry_posted)
qed auto

definition snapshot_txn :: "world \<Rightarrow> book_keeper \<Rightarrow> snap_entry list \<Rightarrow> transaction" where
  "snapshot_txn w bk es = (posted w es)\<lparr>mSplit := entry_splits es @ [(equityTopic bk, - sum_list (map amount es))]\<rparr>"

lemma posted_empty: "new_transaction = posted w []"
  by (simp add: new_transaction_def posted_def entry_splits_def)

lemma snapshot_tx_iff:
  "snapshot_tx w bk es = Inr tn \<longleftrightarrow>
     distinct (map account es) \<and> equityTopic bk \<notin> account ` set es \<and> tn = snapshot_txn w bk es"
proof (cases "distinct (map account es)")
  case True
  then have fold: "fold_err (post_entry w) es new_transaction = Inr (posted w es)"
    using post_all [of w es "[]" "posted w es"] by (simp add: posted_empty [of w])
  have look: "map_of (mSplit (posted w es)) (equityTopic bk) = None \<longleftrightarrow> equityTopic bk \<notin> account ` set es"
    by (simp add: posted_def map_of_None_keys)
  have new: "AList.update (equityTopic bk) x (mSplit (posted w es)) = entry_splits es @ [(equityTopic bk, x)]"
    if "equityTopic bk \<notin> account ` set es" for x
    using that by (subst alist_update_new) (force simp: posted_def entry_splits_def)+
  show ?thesis
    using True new look by (auto simp: snapshot_tx_def fold Ledger_def snapshot_txn_def)
next
  case False
  then have "\<forall>tn. fold_err (post_entry w) es new_transaction \<noteq> Inr tn"
    using post_all [of w es "[]"] by (simp add: posted_empty [of w])
  then show ?thesis using False by (auto simp: snapshot_tx_def split: sum.splits)
qed

lemma map_of_entry:
  assumes "distinct (map account es)" "e \<in> set es"
  shows "map_of (map (\<lambda>e. (account e, f e)) es) (account e) = Some (f e)"
  using assms by (induction es) (auto simp: image_iff)

lemma account_lines_entry:
  assumes "distinct (map account es)" and "e \<in> set es"
  shows "account_lines (snapshot_txn w bk es) (account e) = Inr (entry_lines w e)"
  using map_of_entry [OF assms, where f = amount] map_of_entry [OF assms, where f = "\<lambda>e. [(keyString w (commodity e), amount e)]"]
  by (simp add: account_lines_def snapshot_txn_def posted_def entry_splits_def entry_lines_def)

lemma account_lines_equity:
  assumes "equityTopic bk \<notin> account ` set es"
  shows "account_lines (snapshot_txn w bk es) (equityTopic bk) = Inr [MSplit (equityTopic bk) (- sum_list (map amount es))]"
proof -
  have "map_of (mInventory (posted w es)) (equityTopic bk) = None"
    using assms by (force simp: posted_def map_of_eq_None_iff)
  moreover have "map_of (entry_splits es) (equityTopic bk) = None"
    using assms by (simp add: map_of_None_keys)
  ultimately show ?thesis
    by (simp add: account_lines_def snapshot_txn_def map_add_def)
qed

lemma fold_lines:
  assumes "\<And>a. a \<in> set as \<Longrightarrow> f a = Inr (L a)"
  shows "fold_err (\<lambda>a ls. case f a of Inl e \<Rightarrow> Inl e | Inr l \<Rightarrow> Inr (ls @ l)) as acc = Inr (acc @ concat (map L as))"
  using assms by (induction as arbitrary: acc) simp_all

lemma body_lines_snapshot:
  assumes d: "distinct (map account es)" and eq: "equityTopic bk \<notin> account ` set es"
  shows "\<exists>blocks. body_lines date (snapshot_txn w bk es) = Inr (MTx date # concat blocks) \<and>
     mset blocks = mset ([MSplit (equityTopic bk) (- sum_list (map amount es))] # map (entry_lines w) es)"
proof -
  let ?tn = "snapshot_txn w bk es" and ?as = "map account es @ [equityTopic bk]"
  let ?L = "\<lambda>a. projr (account_lines ?tn a)"
  have keys: "map fst (mSplit ?tn) = ?as"
    by (simp add: snapshot_txn_def entry_splits_def comp_def)
  have "find (\<lambda>(a, cs). map_of (mSplit ?tn) a = None) (mInventory ?tn) = None"
    using map_of_entry [OF d, where f = amount] by (auto simp: find_None_iff snapshot_txn_def posted_def entry_splits_def map_add_def)
  moreover have "account_lines ?tn a = Inr (?L a)" if "a \<in> set ?as" for a
    using that account_lines_entry [OF d] account_lines_equity [OF eq] by auto
  ultimately have "body_lines date ?tn = Inr ([MTx date] @ concat (map ?L (sort ?as)))"
    unfolding body_lines_def keys using fold_lines [of "sort ?as" "account_lines ?tn" ?L "[MTx date]"] by simp
  moreover have "mset (map ?L (sort ?as)) = mset (map ?L ?as)"
    by (simp only: mset_map mset_sort)
  moreover have "map ?L ?as = map (entry_lines w) es @ [[MSplit (equityTopic bk) (- sum_list (map amount es))]]"
    using account_lines_entry [OF d] account_lines_equity [OF eq] by simp
  ultimately show ?thesis by (intro exI [of _ "map ?L (sort ?as)"] conjI) (simp, simp only: mset.simps mset_append, simp)
qed

lemma put_all:
  "fold_err (put_topic f) ts c = Inr c' \<longleftrightarrow> (\<forall>t \<in> set ts. \<not> f t) \<and> c' = c\<lparr>sentTopics := sentTopics c @ ts\<rparr>"
  by (induction ts arbitrary: c) (auto simp: put_topic_def)

text \<open>The messages a snapshot of the entries \<open>es\<close> puts before its transaction.\<close>

definition snapshot_puts :: "book_keeper \<Rightarrow> snap_entry list \<Rightarrow> topic_put list" where
  "snapshot_puts bk es =
     map (account_put False (assetsParent bk)) (sortedStrings (map container es)) @
     map (\<lambda>e. account_put True (container e) (account e)) es"

definition tx_put :: "world \<Rightarrow> book_keeper \<Rightarrow> macro list \<Rightarrow> topic_put" where
  "tx_put w bk ls = \<lparr>mustBeNew = True, parentTopic = book bk,
     topicName = base_topic (book bk) (today w) @ ''_'' @ dec 1, topicBody = TxBody ls\<rparr>"

text \<open>When a snapshot is recorded, and what was sent then.\<close>

lemma Snapshot_iff:
  "Snapshot w bk t = Inr (Some c) \<longleftrightarrow>
     entries_of w t \<noteq> [] \<and> \<not> openFails w \<and> \<not> commitFails w \<and>
     (\<forall>p \<in> set (snapshot_puts bk (entries_of w t)). \<not> sendFails w p) \<and>
     distinct (map account (entries_of w t)) \<and> equityTopic bk \<notin> account ` set (entries_of w t) \<and>
     (\<exists>ls. body_lines (todayText w) (snapshot_txn w bk (entries_of w t)) = Inr ls \<and> \<not> sendFails w (tx_put w bk ls) \<and>
        c = (open_commit (book bk) (today w))\<lparr>txIndex := 1, sentTopics := snapshot_puts bk (entries_of w t) @ [tx_put w bk ls]\<rparr>)"
  (is "_ \<longleftrightarrow> ?rhs")
proof -
  let ?es = "entries_of w t"
  let ?c = "(open_commit (book bk) (today w))\<lparr>sentTopics := snapshot_puts bk ?es\<rparr>"
  have puts: "fold_err (put_topic (sendFails w)) (snapshot_puts bk ?es) (open_commit (book bk) (today w)) = Inr c' \<longleftrightarrow>
      (\<forall>p \<in> set (snapshot_puts bk ?es). \<not> sendFails w p) \<and> c' = ?c" for c'
    by (subst put_all) (simp add: open_commit_def)
  have fin: "Finish (sendFails w) (commitFails w) (todayText w) [tn] ?c = Inr c' \<longleftrightarrow>
      \<not> commitFails w \<and> (\<exists>ls. body_lines (todayText w) tn = Inr ls \<and> \<not> sendFails w (tx_put w bk ls) \<and>
        c' = (open_commit (book bk) (today w))\<lparr>txIndex := 1, sentTopics := snapshot_puts bk ?es @ [tx_put w bk ls]\<rparr>)" for tn c'
    by (auto simp: topic_def put_topic_def open_commit_def tx_put_def split: sum.splits)
  have "Snapshot w bk t = Inr (Some c) \<longleftrightarrow>
      ?es \<noteq> [] \<and> \<not> openFails w \<and>
      (\<exists>c' tn. fold_err (put_topic (sendFails w)) (snapshot_puts bk ?es) (open_commit (book bk) (today w)) = Inr c' \<and>
        snapshot_tx w bk ?es = Inr tn \<and> Finish (sendFails w) (commitFails w) (todayText w) [tn] c' = Inr c)"
    by (simp add: Snapshot_def Let_def snapshot_puts_def del: Finish.simps split: sum.splits)
  also have "\<dots> \<longleftrightarrow> ?rhs"
    unfolding puts snapshot_tx_iff by (simp add: fin del: Finish.simps) blast
  finally show ?thesis .
qed





definition demo_world :: world where
  "demo_world = \<lparr>keyString = (\<lambda>k. concat (map (\<lambda>b. replicate (unat b) (CHR ''1'') @ ''2'') k)), wrappedSol = replicate 32 6, snapshotID = ''20260101T000000'',
     today = (2026, 1, 1), todayText = ''2026-01-01'', openFails = False, sendFails = (\<lambda>_. False), commitFails = False\<rparr>"

definition demo_books :: book_keeper where
  "demo_books = \<lparr>assetsParent = ''Assets'', equityTopic = ''Equity'', book = ''Book''\<rparr>"

definition demo_treasury :: "u64 \<Rightarrow> (pubkey \<times> u64) list \<Rightarrow> treasury" where
  "demo_treasury sol tokens = \<lparr>tparent = \<lparr>wID = replicate 32 1, wSOL = sol, wTokens = tokens\<rparr>, tchildren = [], tchild = (\<lambda>c. undefined)\<rparr>"

text \<open>Wallets that each name an account per commodity: no two entries of a snapshot share an account.\<close>

definition commodities :: "world \<Rightarrow> wallet \<Rightarrow> pubkey list" where
  "commodities w wl = (if wSOL wl > 0 then [wrappedSol w] else []) @
     filter (\<lambda>mint. map_get 0 (map_of (wTokens wl)) mint \<noteq> 0) (sortedPublicKeys w (wTokens wl))"

lemma accounts_wallet: "map account (wallet_entries w (wl, cont)) = map (accountTopic w (wID wl)) (commodities w wl)"
  by (simp add: wallet_entries_def commodities_def Let_def concat_map_if comp_def)

lemma duplicate_account:
  assumes "(wl, cont) \<in> set (wallets_of w t)" and "\<not> distinct (commodities w wl)"
  shows "\<not> distinct (map account (entries_of w t))"
proof
  assume "distinct (map account (entries_of w t))"
  then have "distinct (concat (map (\<lambda>x. map account (wallet_entries w x)) (wallets_of w t)))"
    by (simp add: entries_of_def map_concat comp_def)
  moreover have "map account (wallet_entries w (wl, cont)) \<in> set (map (\<lambda>x. map account (wallet_entries w x)) (wallets_of w t))"
    using assms(1) by (auto intro: image_eqI)
  ultimately have "distinct (map account (wallet_entries w (wl, cont)))"
    using distinct_concat_iff by blast
  with assms(2) show False by (simp add: accounts_wallet distinct_map)
qed

lemma post_error: "fold_err (post_entry w) es (posted w es0) = Inl err \<Longrightarrow> \<exists>a. err = DuplicateSplit a"
proof (induction es arbitrary: es0)
  case (Cons e es)
  then show ?case by (auto simp: post_entry_posted split: if_splits)
qed simp

text \<open>A wallet that holds native SOL and also a wrapped-SOL token cannot be recorded: the two balances get the
  same account, and the snapshot ends with a duplicate split although every call on the wiki succeeds.\<close>

theorem Snapshot_wrapped_sol_fails:
  assumes "(wl, cont) \<in> set (wallets_of w t)" and "wSOL wl > 0"
    and "map_of (wTokens wl) (wrappedSol w) = Some raw" and "raw \<noteq> 0"
    and "\<not> openFails w" and "\<forall>p. \<not> sendFails w p"
  shows "\<exists>a. Snapshot w bk t = Inl (DuplicateSplit a)"
proof -
  have "wrappedSol w \<in> set (sortedPublicKeys w (wTokens wl))"
    using map_of_SomeD [OF assms(3)] by (force simp: sortedPublicKeys_def)
  then have "\<not> distinct (commodities w wl)"
    using assms(2-4) by (auto simp: commodities_def)
  from duplicate_account [OF assms(1) this] have dup: "\<not> distinct (map account (entries_of w t))" .
  then have ne: "entries_of w t \<noteq> []" by auto
  from dup obtain err where err: "fold_err (post_entry w) (entries_of w t) (posted w []) = Inl err"
    using post_all [of w "entries_of w t" "[]"] by (cases "fold_err (post_entry w) (entries_of w t) (posted w [])") auto
  moreover from post_error [OF err] obtain a where "err = DuplicateSplit a" by blast
  moreover obtain c where "fold_err (put_topic (sendFails w)) (snapshot_puts bk (entries_of w t)) (open_commit (book bk) (today w)) = Inr c"
    using assms(6) by (simp add: put_all)
  ultimately show ?thesis
    using ne assms(5) by (simp add: Snapshot_def Let_def snapshot_tx_def posted_empty [of w] snapshot_puts_def)
qed

theorem Snapshot_wrapped_sol_fails_witness:
  "\<exists>a. Snapshot demo_world demo_books (demo_treasury 5 [(replicate 32 6, 7)]) = Inl (DuplicateSplit a)"
  by (rule Snapshot_wrapped_sol_fails
        [where wl = "\<lparr>wID = replicate 32 1, wSOL = 5, wTokens = [(replicate 32 6, 7)]\<rparr>" and cont = parentContainerTopic and raw = 7])
     (simp_all add: demo_world_def demo_treasury_def wallets_of_def)

text \<open>Account names determine the wallet and the commodity, for keys printed without an underscore.\<close>

definition plain_keys :: "world \<Rightarrow> bool" where
  "plain_keys w \<longleftrightarrow> inj (keyString w) \<and> (\<forall>k. CHR ''_'' \<notin> set (keyString w k))"

lemma append_sep_inject: "c \<notin> set a \<Longrightarrow> c \<notin> set a' \<Longrightarrow> a @ c # b = a' @ c # b' \<longleftrightarrow> a = a' \<and> b = b'"
  by (induction a arbitrary: a'; case_tac a') auto

lemma accountTopic_inject:
  assumes "plain_keys w"
  shows "accountTopic w a b = accountTopic w a' b' \<longleftrightarrow> a = a' \<and> b = b'"
  using assms by (auto simp: accountTopic_def plain_keys_def append_sep_inject dest: injD)

lemma distinct_concat_keys:
  assumes "distinct (map f xs)" and "\<And>x. x \<in> set xs \<Longrightarrow> distinct (g x)"
    and "\<And>x y z. x \<in> set xs \<Longrightarrow> y \<in> set xs \<Longrightarrow> z \<in> set (g x) \<Longrightarrow> z \<in> set (g y) \<Longrightarrow> f x = f y"
  shows "distinct (concat (map g xs))"
  using assms
proof (induction xs)
  case (Cons x xs)
  then show ?case by (force simp: image_iff)
qed simp

lemma distinct_commodities:
  assumes "distinct (map fst (wTokens wl))" and "wSOL wl = 0 \<or> map_get 0 (map_of (wTokens wl)) (wrappedSol w) = 0"
  shows "distinct (commodities w wl)"
  using assms by (auto simp: commodities_def sortedPublicKeys_def)

lemma distinct_accounts:
  assumes "plain_keys w" and "distinct (map (wID \<circ> fst) (wallets_of w t))"
    and "\<And>wl cont. (wl, cont) \<in> set (wallets_of w t) \<Longrightarrow> distinct (commodities w wl)"
  shows "distinct (map account (entries_of w t))"
proof -
  have "distinct (concat (map (\<lambda>x. map account (wallet_entries w x)) (wallets_of w t)))"
  proof (rule distinct_concat_keys [OF assms(2)])
    fix x assume "x \<in> set (wallets_of w t)"
    moreover obtain wl cont where x: "x = (wl, cont)" by (cases x)
    ultimately have "distinct (commodities w wl)" using assms(3) by blast
    then show "distinct (map account (wallet_entries w x))"
      unfolding x accounts_wallet by (simp add: distinct_map inj_on_def accountTopic_inject [OF assms(1)])
  next
    fix x y z
    assume "z \<in> set (map account (wallet_entries w x))" "z \<in> set (map account (wallet_entries w y))"
    then show "(wID \<circ> fst) x = (wID \<circ> fst) y"
      using assms(1) by (cases x; cases y) (simp only: accounts_wallet, auto simp: accountTopic_inject)
  qed
  then show ?thesis by (simp add: entries_of_def map_concat comp_def)
qed

lemma account_prefixed:
  assumes "e \<in> set (entries_of w t)"
  shows "prefix ''Snapshot_'' (account e)"
proof -
  from assms obtain wl cont where "e \<in> set (wallet_entries w (wl, cont))" by (auto simp: entries_of_def)
  then have "account e \<in> set (map account (wallet_entries w (wl, cont)))" by simp
  then obtain c where "account e = accountTopic w (wID wl) c" unfolding accounts_wallet by auto
  then show ?thesis by (simp add: accountTopic_def)
qed

text \<open>A treasury with some balance is recorded: when no call on the wiki fails, the wallets have different
  identities, and no wallet holds wrapped SOL beside native SOL, the snapshot commits.\<close>

theorem Snapshot_commits:
  assumes "plain_keys w" and "\<not> prefix ''Snapshot_'' (equityTopic bk)"
    and "\<not> openFails w" and "\<not> commitFails w" and "\<forall>p. \<not> sendFails w p"
    and "entries_of w t \<noteq> []"
    and "distinct (map (wID \<circ> fst) (wallets_of w t))"
    and "\<forall>(wl, cont) \<in> set (wallets_of w t). distinct (map fst (wTokens wl)) \<and>
           (wSOL wl = 0 \<or> map_get 0 (map_of (wTokens wl)) (wrappedSol w) = 0)"
  shows "\<exists>c. Snapshot w bk t = Inr (Some c)"
proof -
  have d: "distinct (map account (entries_of w t))"
    using assms(8) by (intro distinct_accounts [OF assms(1) assms(7)] distinct_commodities) auto
  have e: "equityTopic bk \<notin> account ` set (entries_of w t)"
    using account_prefixed assms(2) by auto
  from body_lines_snapshot [OF d e] obtain ls where "body_lines (todayText w) (snapshot_txn w bk (entries_of w t)) = Inr ls"
    by blast
  then show ?thesis unfolding Snapshot_iff using assms(3-6) d e by blast
qed

lemma plain_demo: "plain_keys demo_world"
proof -
  have "concat (map (\<lambda>b :: byte. replicate (unat b) (CHR ''1'') @ ''2'') xs) = concat (map (\<lambda>b. replicate (unat b) (CHR ''1'') @ ''2'') ys)
      \<Longrightarrow> xs = ys" for xs ys
  proof (induction xs arbitrary: ys)
    case (Cons x xs)
    then obtain y ys' where ys: "ys = y # ys'" by (cases ys) auto
    with Cons show ?case
      using append_sep_inject [of "CHR ''2''" "replicate (unat x) (CHR ''1'')" "replicate (unat y) (CHR ''1'')"]
      by (auto simp: word_unat_eq_iff)
  next
    case Nil
    then show ?case by (cases ys) auto
  qed
  then show ?thesis by (auto simp: plain_keys_def demo_world_def inj_def)
qed

lemmas demo_snapshot = demo_world_def demo_treasury_def wallets_of_def entries_of_def wallet_entries_def sortedChildIDs_def
  sortedPublicKeys_def

theorem Snapshot_commits_witness:
  "\<exists>c. Snapshot demo_world demo_books (demo_treasury 5 [(replicate 32 7, 7)]) = Inr (Some c)"
  by (rule Snapshot_commits [OF plain_demo]) (simp_all add: demo_snapshot demo_books_def)

lemma demo_distinct: "distinct (map account (entries_of demo_world (demo_treasury 5 [])))"
  and demo_equity: "equityTopic demo_books \<notin> account ` set (entries_of demo_world (demo_treasury 5 []))"
  by (simp_all add: demo_snapshot demo_books_def accountTopic_def)


section \<open>Topic names\<close>

text \<open>Month and day are printed without padding, so two days of one year can share the topic names of their transactions:
  the eleventh of January and the first of November.\<close>

lemma base_topic_collides: "base_topic b (year, 1, 11) = base_topic b (year, 11, 1)"
  by (simp add: base_topic_def dec.simps)

text \<open>Two snapshots recorded on one day name their transactions alike, and each asks for a new topic.\<close>

theorem same_day_same_topic:
  assumes "Snapshot w bk t = Inr (Some c)" and "Snapshot w' bk t' = Inr (Some c')" and "today w' = today w"
  shows "topicName (last (sentTopics c')) = topicName (last (sentTopics c)) \<and>
     mustBeNew (last (sentTopics c)) \<and> mustBeNew (last (sentTopics c'))"
  using assms unfolding Snapshot_iff by (auto simp: tx_put_def)

section \<open>Reading the split table back\<close>

definition trimmed :: "string \<Rightarrow> bool" where
  "trimmed s \<longleftrightarrow> s = [] \<or> \<not> is_space (hd s) \<and> \<not> is_space (last s)"

definition plain_cell :: "string \<Rightarrow> bool" where
  "plain_cell s \<longleftrightarrow> trimmed s \<and> CHR ''|'' \<notin> set s \<and> CHR 0x0A \<notin> set s"

text \<open>A row as the wiki renders it: every cell between a blank and a blank with a bar.\<close>

definition render_row :: "string list \<Rightarrow> string" where
  "render_row cells = CHR ''|'' # concat (map (\<lambda>c. CHR 0x20 # c @ '' |'') cells)"

lemma split_on_sep: "c \<notin> set a \<Longrightarrow> split_on c (a @ c # b) = a # split_on c b"
  by (induction a) auto

lemma split_on_none: "c \<notin> set a \<Longrightarrow> split_on c a = [a]"
  by (induction a) auto

lemma split_on_join:
  "ls \<noteq> [] \<Longrightarrow> (\<And>l. l \<in> set ls \<Longrightarrow> c \<notin> set l) \<Longrightarrow> split_on c (join [c] ls) = ls"
  by (induction "[c]" ls rule: join.induct) (simp_all add: split_on_none split_on_sep)

lemma trim_trimmed: "trimmed s \<Longrightarrow> TrimSpace s = s"
  by (cases "s = []") (simp_all add: trimmed_def TrimSpace_def dropWhile_eq_self_iff [THEN iffD2] hd_rev)

lemma trim_blanks: "trimmed s \<Longrightarrow> TrimSpace (CHR 0x20 # s @ [CHR 0x20]) = s"
proof (cases "s = []")
  case False
  assume "trimmed s"
  with False have "dropWhile is_space (CHR 0x20 # s @ [CHR 0x20]) = s @ [CHR 0x20]" "dropWhile is_space (rev s) = rev s"
    by (simp_all add: trimmed_def dropWhile_eq_self_iff hd_rev) (simp add: is_space_def)
  then show ?thesis by (simp add: TrimSpace_def is_space_def)
qed (simp add: TrimSpace_def is_space_def)

lemma split_cells:
  "(\<And>c. c \<in> set cells \<Longrightarrow> CHR ''|'' \<notin> set c) \<Longrightarrow>
   split_on (CHR ''|'') (concat (map (\<lambda>c. CHR 0x20 # c @ '' |'') cells)) = map (\<lambda>c. CHR 0x20 # c @ '' '') cells @ [[]]"
proof (induction cells)
  case (Cons c cells)
  then show ?case
    using split_on_sep [of "CHR ''|''" "CHR 0x20 # c @ '' ''" "concat (map (\<lambda>c. CHR 0x20 # c @ '' |'') cells)"] by simp
qed simp

lemma splitTableRow_render:
  assumes "\<And>c. c \<in> set cells \<Longrightarrow> plain_cell c"
  shows "splitTableRow (render_row cells) = cells"
proof -
  have "split_on (CHR ''|'') (render_row cells) = [] # map (\<lambda>c. CHR 0x20 # c @ '' '') cells @ [[]]"
    using split_cells [of cells] assms by (auto simp: render_row_def plain_cell_def)
  moreover have "map TrimSpace (map (\<lambda>c. CHR 0x20 # c @ '' '') cells) = cells"
    using assms by (simp add: map_idI trim_blanks plain_cell_def)
  ultimately show ?thesis by (simp add: splitTableRow_def Let_def TrimSpace_def del: map_map)
qed

lemma trimmed_render: "cells \<noteq> [] \<Longrightarrow> TrimSpace (render_row cells) = render_row cells"
proof (rule trim_trimmed)
  assume "cells \<noteq> []"
  then obtain cs c where "cells = cs @ [c]" by (cases cells rule: rev_cases) auto
  then show "trimmed (render_row cells)" by (simp add: trimmed_def render_row_def is_space_def)
qed

text \<open>A reading as the wiki prints it: a positive amount as the debit, a negative one as the credit, the quantity
  and the mint as the commodity.\<close>

record table_format =
  showDate :: "int \<Rightarrow> string"
  showAmount :: "real \<Rightarrow> string"
  showKey :: "pubkey \<Rightarrow> string"

definition render_cells :: "table_format \<Rightarrow> string \<times> string \<times> split_row \<Rightarrow> string list" where
  "render_cells fmt = (\<lambda>(tx, acct, r).
     [showDate fmt (rdate r), tx, acct,
      (if ramount r < 0 then [] else showAmount fmt (ramount r)), (if ramount r < 0 then showAmount fmt (- ramount r) else []),
      showAmount fmt \<bar>ramount r\<bar> @ CHR 0x20 # showKey fmt (rmint r)])"

text \<open>The reading's date, amount and mint are printed so that they can be read back, and no cell has a bar.\<close>

definition printable :: "profit_env \<Rightarrow> table_format \<Rightarrow> string \<times> string \<times> split_row \<Rightarrow> bool" where
  "printable env fmt = (\<lambda>(tx, acct, r).
     parseDate env (showDate fmt (rdate r)) = Some (rdate r) \<and>
     parseFloat env (showAmount fmt \<bar>ramount r\<bar>) = Some \<bar>ramount r\<bar> \<and>
     fromBase58 env (showKey fmt (rmint r)) = Some (rmint r) \<and>
     showAmount fmt \<bar>ramount r\<bar> \<noteq> [] \<and> CHR 0x20 \<notin> set (showAmount fmt \<bar>ramount r\<bar>) \<and>
     \<not> prefix ''---'' (showDate fmt (rdate r)) \<and>
     (\<forall>c \<in> set (render_cells fmt (tx, acct, r)). plain_cell c))"

lemma after_space_sep: "CHR 0x20 \<notin> set q \<Longrightarrow> after_space (q @ CHR 0x20 # k) = Some k"
  by (induction q) (auto simp: after_space_def)

lemma parse_rendered:
  assumes "printable env fmt (tx, acct, r)"
  shows "parseSplitSearchRow (parseDate env) (parseFloat env) (fromBase58 env) (render_cells fmt (tx, acct, r)) = Inr (Some r)"
  using assms by (cases "ramount r < 0")
    (simp_all add: parseSplitSearchRow_def row_amount_def printable_def render_cells_def after_space_sep)

lemma prefix_bar_cells: "prefix ''| ---'' (render_row (d # cells)) \<Longrightarrow> prefix ''---'' d"
  by (cases d; cases "tl d"; cases "tl (tl d)") (auto simp: render_row_def)

text \<open>The page of a query: lines before the table, the header, the separator, a line per reading, lines after it.\<close>

definition render_page :: "table_format \<Rightarrow> string list \<Rightarrow> (string \<times> string \<times> split_row) list \<Rightarrow> string list \<Rightarrow> string" where
  "render_page fmt before rows after =
     join [CHR 0x0A] (before @ [splitSearchHeader, render_row (replicate 6 ''---'')] @ map (render_row \<circ> render_cells fmt) rows @ after)"

lemma before_table:
  "\<forall>l \<in> set before. TrimSpace l \<noteq> splitSearchHeader \<Longrightarrow>
   table_rows f False (before @ splitSearchHeader # ls) = table_rows f True ls"
proof (induction before)
  case Nil
  have "TrimSpace splitSearchHeader = splitSearchHeader"
    by (rule trim_trimmed) (simp add: trimmed_def splitSearchHeader_def is_space_def)
  then show ?case by simp
qed (simp add: Let_def)

lemma after_table: "after = [] \<or> \<not> prefix ''|'' (TrimSpace (hd after)) \<Longrightarrow> table_rows f True after = Inr []"
  by (cases after) (auto simp: Let_def prefix_def)

lemma readings_table:
  assumes "\<forall>x \<in> set rows. printable env fmt x" and "after = [] \<or> \<not> prefix ''|'' (TrimSpace (hd after))"
  shows "table_rows (parseSplitSearchRow (parseDate env) (parseFloat env) (fromBase58 env)) True
     (map (render_row \<circ> render_cells fmt) rows @ after) = Inr (map (snd \<circ> snd) rows)"
  using assms(1)
proof (induction rows)
  case Nil
  then show ?case by (simp add: after_table [OF assms(2)])
next
  case (Cons x rows)
  obtain tx acct r where x: "x = (tx, acct, r)" by (cases x)
  let ?cells = "render_cells fmt x"
  have p: "printable env fmt (tx, acct, r)" using Cons.prems x by simp
  have plain: "\<forall>c \<in> set ?cells. plain_cell c" and d: "\<not> prefix ''---'' (showDate fmt (rdate r))"
    using p by (simp_all add: x printable_def)
  have cells: "?cells = showDate fmt (rdate r) # tl ?cells" "length ?cells = 6"
    by (simp_all add: x render_cells_def)
  have "\<not> prefix ''| ---'' (render_row ?cells)"
    using d prefix_bar_cells [of "showDate fmt (rdate r)" "tl ?cells"] cells(1) by metis
  moreover have "prefix ''|'' (render_row ?cells)" by (simp add: render_row_def)
  moreover have "TrimSpace (render_row ?cells) = render_row ?cells" using cells(1) by (intro trimmed_render) auto
  moreover have "splitTableRow (render_row ?cells) = ?cells" using plain by (simp add: splitTableRow_render)
  ultimately show ?case
    using Cons parse_rendered [OF p] cells(2) by (simp add: Let_def x)
qed

text \<open>The history read back from the rendered page of a query is the list of readings on it, oldest first,
  whatever text surrounds the table.\<close>

theorem splitHistory_reads_back:
  assumes "renderQuery env cont finish = Some (render_page fmt before rows after)"
    and "\<forall>x \<in> set rows. printable env fmt x"
    and "\<forall>l \<in> set before. TrimSpace l \<noteq> splitSearchHeader"
    and "after = [] \<or> \<not> prefix ''|'' (TrimSpace (hd after))"
    and "\<forall>l \<in> set (before @ after). CHR 0x0A \<notin> set l"
  shows "splitHistory env cont finish = Inr (map (snd \<circ> snd) rows)"
proof -
  let ?ls = "before @ [splitSearchHeader, render_row (replicate 6 ''---'')] @ map (render_row \<circ> render_cells fmt) rows @ after"
  have "CHR 0x0A \<notin> set (render_row (render_cells fmt x))" if "x \<in> set rows" for x
    using assms(2) that by (cases x) (auto simp: printable_def plain_cell_def render_row_def)
  then have "split_on (CHR 0x0A) (join [CHR 0x0A] ?ls) = ?ls"
    using assms(5) by (intro split_on_join) (auto simp: splitSearchHeader_def render_row_def)
  moreover have "TrimSpace (render_row (replicate 6 ''---'')) = render_row (replicate 6 ''---'')"
    by (rule trimmed_render) simp
  moreover have "prefix ''| ---'' (render_row (replicate 6 ''---''))" by (simp add: render_row_def numeral_eq_Suc)
  ultimately show ?thesis
    using readings_table [OF assms(2,4)] before_table [OF assms(3)] assms(1)
    by (simp add: splitHistory_def parseSplitSearchTable_def render_page_def Let_def)
qed

definition demo_format :: table_format where
  "demo_format = \<lparr>showDate = (\<lambda>d. ''2026-01-05''), showAmount = (\<lambda>x. ''7.00''), showKey = (\<lambda>k. ''So1'')\<rparr>"

definition demo_reading :: "string \<times> string \<times> split_row" where
  "demo_reading = (''Tx_1'', ''Acc'', \<lparr>rdate = 5, rmint = replicate 32 6, ramount = 7\<rparr>)"

definition demo_env :: profit_env where
  "demo_env = \<lparr>parseDate = (\<lambda>s. if s = ''2026-01-05'' then Some 5 else None), parseFloat = (\<lambda>s. if s = ''7.00'' then Some 7 else None),
     fromBase58 = (\<lambda>s. if s = ''So1'' then Some (replicate 32 6) else None),
     renderQuery = (\<lambda>cont finish. Some (render_page demo_format [''Query''] [demo_reading] [[]])),
     fetchBatch = (\<lambda>batch. Inr ([replicate 32 6 \<mapsto> \<lparr>USDPrice = 2, Decimals = 1\<rparr>] |` set batch))\<rparr>"

lemma demo_printable: "printable demo_env demo_format demo_reading"
  by (simp add: printable_def demo_env_def demo_format_def demo_reading_def render_cells_def plain_cell_def trimmed_def is_space_def)

theorem splitHistory_reads_back_witness:
  "splitHistory demo_env parentContainerTopic 9 = Inr [\<lparr>rdate = 5, rmint = replicate 32 6, ramount = 7\<rparr>]"
proof -
  have "splitHistory demo_env parentContainerTopic 9 = Inr (map (snd \<circ> snd) [demo_reading])"
    using demo_printable
    by (intro splitHistory_reads_back [where fmt = demo_format and before = "[''Query'']" and after = "[[]]"])
       (simp_all add: demo_env_def TrimSpace_def is_space_def splitSearchHeader_def)
  then show ?thesis by (simp add: demo_reading_def)
qed

section \<open>What a profit is\<close>

text \<open>The reference: the latest reading at or before an instant, valued at the quoted prices.\<close>

definition held :: "int \<Rightarrow> split_row list \<Rightarrow> pubkey \<Rightarrow> real" where
  "held t history mint =
     (let rs = filter (\<lambda>r. rmint r = mint \<and> rdate r \<le> t) history in if rs = [] then 0 else ramount (last rs))"

definition valued :: "(pubkey \<rightharpoonup> jupiter_price) \<Rightarrow> jupiter_price \<Rightarrow> pubkey \<Rightarrow> real \<Rightarrow> real" where
  "valued quote vp mint x = (case quote mint of None \<Rightarrow> 0 | Some p \<Rightarrow> x / 10 ^ Decimals p * USDPrice p / USDPrice vp)"

lemma held_snoc: "held t (h @ [r]) mint = (if rmint r = mint \<and> rdate r \<le> t then ramount r else held t h mint)"
  by (simp add: held_def Let_def)

lemma held_nil [simp]: "held t [] mint = 0"
  by (simp add: held_def)

lemma baseline_held: "map_get 0 (baseline start h) mint = held start h mint"
  by (induction h rule: rev_induct) (auto simp: baseline_def held_snoc map_get_def)

lemma ending_held: "\<forall>r \<in> set h. rdate r \<le> finish \<Longrightarrow> map_get 0 (ending h) mint = held finish h mint"
  by (induction h rule: rev_induct) (auto simp: ending_def held_snoc map_get_def)

text \<open>(C34) The profit of a container is, over the mints of its history, the change from the latest reading at or before
  the start to the latest one at or before the finish, each valued at the quoted price in units of the
  valuation mint; a mint without a quote counts nothing.\<close>

theorem profitFor_valued:
  assumes "splitHistory env cont finish = Inr h" and "\<forall>r \<in> set h. rdate r \<le> finish"
    and "pointwise quote (fetchBatch env)" and "quote v = Some vp" and "USDPrice vp \<noteq> 0"
  shows "profitFor env cont start finish v =
     Inr (\<Sum>mint \<in> insert v (rmint ` set h). valued quote vp mint (held finish h mint - held start h mint))"
proof (cases "h = []")
  case True
  then show ?thesis using assms(1) by (simp add: profitFor_def valued_def split: option.splits)
next
  case False
  let ?ms = "mint_list start h v" and ?S = "insert v (rmint ` set h)"
  let ?val = "\<lambda>mint. valued quote vp mint (held finish h mint - held start h mint)"
  have ms: "set ?ms = ?S" "distinct ?ms" by (auto simp: mint_list_def)
  have prices: "fetchJupiterPrices (fetchBatch env) ?ms = Inr (quote |` ?S)"
    using batched [OF assms(3), of ?ms] ms(1) by simp
  have each: "mint_value (quote |` ?S) vp (baseline start h) (ending h) mint = ?val mint" if "mint \<in> ?S" for mint
    using that assms(2) by (simp add: mint_value_def valued_def baseline_held ending_held Let_def split: option.split)
  have "sum_list (map (mint_value (quote |` ?S) vp (baseline start h) (ending h)) (filter (\<lambda>m. m \<noteq> v) ?ms)) = (\<Sum>mint \<in> ?S - {v}. ?val mint)"
    using ms each by (subst sum_list_distinct_conv_sum_set) (auto intro!: sum.cong)
  moreover have "(held finish h v - held start h v) / 10 ^ Decimals vp = ?val v"
    using assms(4,5) by (simp add: valued_def)
  moreover have "(\<Sum>mint \<in> ?S. ?val mint) = ?val v + (\<Sum>mint \<in> ?S - {v}. ?val mint)"
    by (rule sum.remove) auto
  ultimately show ?thesis
    using False assms(1,2,4) by (simp add: profitFor_def prices Let_def baseline_held ending_held)
qed

lemma demo_page: "splitHistory demo_env cont finish = Inr [\<lparr>rdate = 5, rmint = replicate 32 6, ramount = 7\<rparr>]"
proof -
  have "parseSplitSearchTable (parseDate demo_env) (parseFloat demo_env) (fromBase58 demo_env)
      (render_page demo_format [''Query''] [demo_reading] [[]]) = Inr [\<lparr>rdate = 5, rmint = replicate 32 6, ramount = 7\<rparr>]"
    by code_simp
  then show ?thesis by (simp add: splitHistory_def demo_env_def)
qed

theorem profitFor_valued_witness: "profitFor demo_env parentContainerTopic 3 9 (replicate 32 6) = Inr (7 / 10)"
proof -
  have "pointwise [replicate 32 6 \<mapsto> \<lparr>USDPrice = 2, Decimals = 1\<rparr>] (fetchBatch demo_env)"
    by (simp add: demo_env_def pointwise_def)
  from profitFor_valued [OF demo_page _ this, where start = 3] show ?thesis
    by (simp add: valued_def held_def)
qed

text \<open>The parent's profit, and the sum over it and the children found.\<close>

lemma fold_profits:
  assumes "\<And>name. name \<in> set names \<Longrightarrow> prefix childContainerPrefix name \<Longrightarrow> profitFor env name start finish v = Inr (p name)"
  shows "fold_err (\<lambda>name overall.
            if \<not> prefix childContainerPrefix name then Inr overall
            else case profitFor env name start finish v of Inl e \<Rightarrow> Inl e | Inr childProfit \<Rightarrow> Inr (overall + childProfit)) names acc
       = Inr (acc + sum_list (map p (filter (prefix childContainerPrefix) names)))"
  using assms by (induction names arbitrary: acc) simp_all

lemma ProfitParent_adds:
  assumes "profitFor env parentContainerTopic start finish v = Inr q"
    and "\<And>name. name \<in> set names \<Longrightarrow> prefix childContainerPrefix name \<Longrightarrow> profitFor env name start finish v = Inr (p name)"
  shows "ProfitParent env (Some names) start finish v = Inr (q, q + sum_list (map p (filter (prefix childContainerPrefix) names)))"
  by (simp add: ProfitParent_def assms(1) fold_profits [OF assms(2)])

section \<open>Positions that were sold\<close>

text \<open>The readings a snapshot of one wallet leaves in its container's history.\<close>

definition readings :: "world \<Rightarrow> int \<Rightarrow> wallet \<Rightarrow> split_row list" where
  "readings w date wl = map (\<lambda>e. \<lparr>rdate = date, rmint = commodity e, ramount = amount e\<rparr>) (wallet_entries w (wl, []))"

lemma ending_append: "mint \<notin> rmint ` set h' \<Longrightarrow> ending (h @ h') mint = ending h mint"
  by (induction h' rule: rev_induct) (auto simp: ending_def)

lemma readings_mints: "map rmint (readings w date wl) = commodities w wl"
  by (simp add: readings_def wallet_entries_def commodities_def Let_def concat_map_if comp_def)

text \<open>A zero balance is not recorded, so it leaves no reading: after a token was sold, the ending balance that a
  profit uses is still the last one before the sale.\<close>

theorem sold_position_still_counts:
  assumes "map_get 0 (map_of (wTokens wl)) mint = 0" and "mint \<noteq> wrappedSol w"
  shows "ending (h @ readings w date wl) mint = ending h mint"
proof (rule ending_append)
  have "mint \<notin> set (map rmint (readings w date wl))"
    using assms by (simp add: readings_mints commodities_def del: set_map)
  then show "mint \<notin> rmint ` set (readings w date wl)" by simp
qed

theorem sold_position_still_counts_witness:
  "ending ([\<lparr>rdate = 1, rmint = replicate 32 7, ramount = 10\<rparr>] @
      readings demo_world 2 \<lparr>wID = replicate 32 1, wSOL = 5, wTokens = [(replicate 32 7, 0)]\<rparr>) (replicate 32 7) = Some 10"
proof -
  let ?wl = "\<lparr>wID = replicate 32 1, wSOL = 5, wTokens = [(replicate 32 7, 0)]\<rparr>"
  have "replicate 32 7 \<noteq> wrappedSol demo_world" by (simp add: demo_world_def)
  then have "ending ([\<lparr>rdate = 1, rmint = replicate 32 7, ramount = 10\<rparr>] @ readings demo_world 2 ?wl) (replicate 32 7) =
      ending [\<lparr>rdate = 1, rmint = replicate 32 7, ramount = 10\<rparr>] (replicate 32 7)"
    by (intro sold_position_still_counts) simp_all
  also have "\<dots> = Some 10" by (simp add: ending_def)
  finally show ?thesis .
qed

theorem same_day_same_topic_witness:
  "\<exists>c. Snapshot demo_world demo_books (demo_treasury 5 []) = Inr (Some c) \<and> mustBeNew (last (sentTopics c))"
proof -
  obtain ls where "body_lines (todayText demo_world) (snapshot_txn demo_world demo_books (entries_of demo_world (demo_treasury 5 []))) = Inr ls"
    using body_lines_snapshot [OF demo_distinct demo_equity] by blast
  moreover have "entries_of demo_world (demo_treasury 5 []) \<noteq> []" by (simp add: demo_snapshot)
  ultimately obtain c where c: "Snapshot demo_world demo_books (demo_treasury 5 []) = Inr (Some c)"
    unfolding Snapshot_iff using demo_distinct demo_equity by (auto simp: demo_world_def)
  from same_day_same_topic [OF c c] c show ?thesis by blast
qed

end
