(* ===== verification/Charts.thy ===== *)
theory Charts
  imports Wire
begin

unbundle bit_operations_syntax

text \<open>
  The live market view: the bounded histories of \<open>src/brain/marketwatchv1/store.go\<close>, the indicators of
  \<open>src/cmd/taindicators.go\<close>, the Braille line chart of \<open>src/cmd/braillechart.go\<close>, and the layout functions of
  \<open>src/cmd/marketwatchchart.go\<close> and \<open>src/cmd/throughputchart.go\<close>.

  Prices in the indicators are reals and \<open>NaN\<close>, which the code uses for a missing value, is \<open>None\<close>. Slices are lists
  and dot grids lists of booleans, with the index arithmetic of the source. The terminal styles are
  parameters.
\<close>

section \<open>Bounded histories\<close>

definition historyLen :: nat where "historyLen = 120"

record store =
  latest :: "market_stats option"
  priceHist :: "float64 list list"
  volHist :: "float64 list list"
  throughputHist :: "float64 list"


definition appendBounded :: "'a list \<Rightarrow> 'a \<Rightarrow> nat \<Rightarrow> 'a list" where
  "appendBounded xs v mx = (let xs = xs @ [v] in if length xs > mx then drop (length xs - mx) xs else xs)"

text \<open>\<open>update\<close>: \<open>unpriced\<close> is the comparison of a double with zero, \<open>p <= 0\<close>. The loop runs over the symbols.\<close>

definition update_symbol :: "(float64 \<Rightarrow> bool) \<Rightarrow> market_stats \<Rightarrow> nat \<Rightarrow> store \<Rightarrow> store" where
  "update_symbol unpriced snap i s =
     (if unpriced (Prices snap ! i) then s
      else s\<lparr>priceHist := (priceHist s)[i := appendBounded (priceHist s ! i) (Prices snap ! i) historyLen],
             volHist := (volHist s)[i := appendBounded (volHist s ! i) (Volatilities snap ! i) historyLen]\<rparr>)"








section \<open>Indicators\<close>

text \<open>\<open>sma\<close>: \<open>sum\<close> is the running sum, \<open>i\<close> the index of the next value.\<close>

fun sma_loop :: "real list \<Rightarrow> nat \<Rightarrow> nat \<Rightarrow> real \<Rightarrow> real list \<Rightarrow> real option list" where
  "sma_loop vals period i acc [] = []"
| "sma_loop vals period i acc (v # vs) =
     (let acc = acc + v; acc = (if i \<ge> period then acc - vals ! (i - period) else acc)
      in (if i \<ge> period - 1 then Some (acc / real period) else None) # sma_loop vals period (i + 1) acc vs)"

definition sma :: "real list \<Rightarrow> int \<Rightarrow> real option list" where
  "sma vals period =
     (if period \<le> 0 \<or> int (length vals) < period then replicate (length vals) None
      else sma_loop vals (nat period) 0 0 vals)"

text \<open>\<open>stddev\<close>: a negative period leaves an empty window, and \<open>0 / 0\<close> is not a number.\<close>

definition stddev_at :: "real list \<Rightarrow> int \<Rightarrow> real option list \<Rightarrow> nat \<Rightarrow> real option" where
  "stddev_at vals period means i =
     (if int i < period - 1 then None
      else let ks = [int i - period + 1..int i]
           in if ks = [] then (if period = 0 then None else Some 0)
              else (case means ! i of
                      None \<Rightarrow> None
                    | Some m \<Rightarrow> Some (sqrt (sum_list (map (\<lambda>k. let d = vals ! nat k - m in d * d) ks) / real_of_int period))))"

definition stddev :: "real list \<Rightarrow> int \<Rightarrow> real option list" where
  "stddev vals period = map (stddev_at vals period (sma vals period)) [0..<length vals]"

definition minBandWidthFrac :: real where "minBandWidthFrac = 1 / 1000"

definition band :: "real \<Rightarrow> real option \<Rightarrow> real option \<Rightarrow> (real \<times> real) option" where
  "band numStdDev m sd =
     (case (m, sd) of
        (Some m, Some sd) \<Rightarrow>
          let halfWidth = numStdDev * sd; minHalfWidth = \<bar>m\<bar> * minBandWidthFrac;
              halfWidth = (if halfWidth < minHalfWidth then minHalfWidth else halfWidth)
          in Some (m + halfWidth, max 0 (m - halfWidth))
      | _ \<Rightarrow> None)"

definition bollingerBands :: "real list \<Rightarrow> int \<Rightarrow> real \<Rightarrow> real option list \<times> real option list \<times> real option list" where
  "bollingerBands vals period numStdDev =
     (let mid = sma vals period; bands = map2 (band numStdDev) mid (stddev vals period)
      in (mid, map (map_option fst) bands, map (map_option snd) bands))"

text \<open>\<open>rsi\<close>: the averages of the first \<open>period\<close> changes, then Wilder's smoothing.\<close>

definition gain_of :: "real \<Rightarrow> real" where "gain_of change = (if change > 0 then change else 0)"
definition loss_of :: "real \<Rightarrow> real" where "loss_of change = (if change > 0 then 0 else - change)"

definition rsi_value :: "real \<Rightarrow> real \<Rightarrow> real" where
  "rsi_value gain loss = (if loss = 0 then 100 else 100 - 100 / (1 + gain / loss))"

definition change_at :: "real list \<Rightarrow> nat \<Rightarrow> real" where
  "change_at vals i = vals ! i - vals ! (i - 1)"

fun rsi_loop :: "real list \<Rightarrow> nat \<Rightarrow> real \<Rightarrow> real \<Rightarrow> nat list \<Rightarrow> real option list" where
  "rsi_loop vals period avgGain avgLoss [] = []"
| "rsi_loop vals period avgGain avgLoss (i # is) =
     (let gain = gain_of (change_at vals i); loss = loss_of (change_at vals i);
          avgGain = (avgGain * real (period - 1) + gain) / real period;
          avgLoss = (avgLoss * real (period - 1) + loss) / real period
      in Some (rsi_value avgGain avgLoss) # rsi_loop vals period avgGain avgLoss is)"

definition rsi :: "real list \<Rightarrow> int \<Rightarrow> real option list" where
  "rsi vals period =
     (if period \<le> 0 \<or> int (length vals) < period + 1 then replicate (length vals) None
      else let p = nat period;
               avgGain = sum_list (map (\<lambda>i. gain_of (change_at vals i)) [1..<p + 1]) / real p;
               avgLoss = sum_list (map (\<lambda>i. loss_of (change_at vals i)) [1..<p + 1]) / real p
           in replicate p None @ Some (rsi_value avgGain avgLoss) # rsi_loop vals p avgGain avgLoss [p + 1..<length vals])"

section \<open>The histories are bounded and complete\<close>


lemma update_symbol_frame [simp]:
  "latest (update_symbol f sn i s) = latest s" "throughputHist (update_symbol f sn i s) = throughputHist s"
  "length (priceHist (update_symbol f sn i s)) = length (priceHist s)" "length (volHist (update_symbol f sn i s)) = length (volHist s)"
  by (simp_all add: update_symbol_def)








section \<open>The moving average and the bands\<close>

definition window :: "real list \<Rightarrow> nat \<Rightarrow> nat \<Rightarrow> real list" where
  "window vals period i = take period (drop (i + 1 - period) vals)"

lemma sum_list_take_Suc: "i < length xs \<Longrightarrow> sum_list (take (Suc i) xs) = sum_list (take i xs) + (xs ! i :: real)"
  by (simp add: take_Suc_conv_app_nth)

lemma sma_loop_nth:
  assumes "0 < p" and "i = length vals - length vs" and "vs = drop i vals" and "i \<le> length vals"
    and "acc = sum_list (take i vals) - sum_list (take (i - p) vals)"
  shows "length (sma_loop vals p i acc vs) = length vs \<and>
    (\<forall>k < length vs. sma_loop vals p i acc vs ! k =
      (if i + k + 1 \<ge> p then Some ((sum_list (take (i + k + 1) vals) - sum_list (take (i + k + 1 - p) vals)) / real p) else None))"
  using assms(2-)
proof (induction vs arbitrary: i acc)
  case (Cons v vs)
  have d: "drop i vals = v # vs" using Cons.prems(2) by simp
  have i: "i < length vals" using d by (metis drop_all leI list.distinct(1))
  have v: "v = vals ! i" using nth_via_drop [OF d] by simp
  have vs: "vs = drop (i + 1) vals" using arg_cong [OF d, of tl] by (simp add: tl_drop drop_Suc)
  let ?acc = "(if i \<ge> p then acc + v - vals ! (i - p) else acc + v)"
  have acc: "?acc = sum_list (take (i + 1) vals) - sum_list (take (i + 1 - p) vals)"
  proof (cases "i \<ge> p")
    case True
    then have "sum_list (take (i + 1 - p) vals) = sum_list (take (i - p) vals) + vals ! (i - p)"
      using sum_list_take_Suc [of "i - p" vals] i assms(1) by (simp add: Suc_diff_le)
    then show ?thesis using True i v Cons.prems(4) by (simp add: sum_list_take_Suc)
  next
    case False
    then show ?thesis using i v Cons.prems(4) by (simp add: sum_list_take_Suc)
  qed
  have ih: "length (sma_loop vals p (i + 1) ?acc vs) = length vs \<and>
    (\<forall>k < length vs. sma_loop vals p (i + 1) ?acc vs ! k =
      (if i + 1 + k + 1 \<ge> p then Some ((sum_list (take (i + 1 + k + 1) vals) - sum_list (take (i + 1 + k + 1 - p) vals)) / real p) else None))"
    using Cons.prems i vs acc by (intro Cons.IH) auto
  show ?case
  proof (intro conjI allI impI)
    show "length (sma_loop vals p i acc (v # vs)) = length (v # vs)" using ih by (simp add: Let_def)
    fix k assume "k < length (v # vs)"
    then show "sma_loop vals p i acc (v # vs) ! k =
      (if i + k + 1 \<ge> p then Some ((sum_list (take (i + k + 1) vals) - sum_list (take (i + k + 1 - p) vals)) / real p) else None)"
      using ih acc assms(1) by (cases k) (auto simp: Let_def)
  qed
qed simp

lemma window_sum:
  assumes "p \<le> i + 1" and "i < length vals"
  shows "sum_list (window vals p i) = sum_list (take (i + 1) vals) - sum_list (take (i + 1 - p) vals)"
proof -
  have "take (i + 1) vals = take (i + 1 - p) vals @ take p (drop (i + 1 - p) vals)"
    using take_add [of "i + 1 - p" p vals] assms(1) by simp
  then show ?thesis by (simp add: window_def)
qed

lemma length_sma [simp]: "length (sma vals period) = length vals"
proof (cases "period \<le> 0 \<or> int (length vals) < period")
  case False
  then show ?thesis
    using sma_loop_nth [of "nat period" 0 vals vals 0] by (simp add: sma_def)
qed (simp add: sma_def)

lemma sma_nth:
  assumes "0 < period" and "i < length vals"
  shows "sma vals period ! i =
    (if nat period \<le> i + 1 then Some (sum_list (window vals (nat period) i) / real_of_int period) else None)"
proof (cases "int (length vals) < period")
  case True
  then show ?thesis using assms by (simp add: sma_def)
next
  case False
  then have "sma vals period ! i =
      (if nat period \<le> i + 1 then Some ((sum_list (take (i + 1) vals) - sum_list (take (i + 1 - nat period) vals)) / real (nat period)) else None)"
    using sma_loop_nth [of "nat period" 0 vals vals 0] assms by (simp add: sma_def)
  then show ?thesis using window_sum [of "nat period" i vals] assms by simp
qed

text \<open>The running sum computes the moving average: every value of \<open>sma\<close> is the mean of the window of \<open>period\<close> vals
  that ends there, and there is no value before the first full window.\<close>

theorem sma_is_window_mean:
  assumes "0 < period" and "i < length vals"
  shows "sma vals period ! i =
    (if nat period \<le> i + 1 then Some (sum_list (window vals (nat period) i) / real_of_int period) else None)"
  using assms by (rule sma_nth)

theorem sma_is_window_mean_witness: "sma [1, 2, 3, 6] 2 ! 3 = Some (9 / 2)"
  using sma_is_window_mean [of 2 3 "[1, 2, 3, 6]"] by (simp add: window_def)

definition population_sd :: "real list \<Rightarrow> real \<Rightarrow> real" where
  "population_sd xs m = sqrt (sum_list (map (\<lambda>x. (x - m) * (x - m)) xs) / real (length xs))"

lemma window_upto:
  assumes "0 < p" and "p \<le> i + 1" and "i < length vals"
  shows "map (\<lambda>k. vals ! nat k) [int i - int p + 1..int i] = window vals p i"
  using assms by (intro nth_equalityI) (auto simp: window_def nth_upto intro!: arg_cong [where f = "(!) vals"])

lemma length_window: "p \<le> i + 1 \<Longrightarrow> i < length vals \<Longrightarrow> length (window vals p i) = p"
  by (simp add: window_def)

lemma stddev_nth:
  assumes "0 < period" and "i < length vals" and "sma vals period ! i = Some m"
  shows "stddev vals period ! i = Some (population_sd (window vals (nat period) i) m)"
proof -
  have p: "nat period \<le> i + 1" using assms(3) sma_nth [OF assms(1,2)] by (simp split: if_splits)
  have "map (\<lambda>k. let d = vals ! nat k - m in d * d) [int i - period + 1..int i]
      = map (\<lambda>x. (x - m) * (x - m)) (map (\<lambda>k. vals ! nat k) [int i - int (nat period) + 1..int i])"
    using assms(1) by (simp add: Let_def)
  also have "\<dots> = map (\<lambda>x. (x - m) * (x - m)) (window vals (nat period) i)"
    using window_upto [of "nat period" i vals] assms(1,2) p by simp
  finally show ?thesis
    using assms p by (simp add: stddev_def stddev_at_def population_sd_def length_window Let_def)
qed

lemma band_values: "band k (Some m) (Some d) = Some (m + max (k * d) (\<bar>m\<bar> / 1000), max 0 (m - max (k * d) (\<bar>m\<bar> / 1000)))"
proof -
  have "(if a < b then b else a) = max a b" for a b :: real by auto
  then show ?thesis by (simp only: band_def Let_def prod.case option.case minBandWidthFrac_def) simp
qed

text \<open>Around every value of the moving average the bands lie at \<open>numStdDev\<close> population standard deviations of the window, but
  at least a thousandth of it away; the lower band is never negative, and for a positive average the two bands
  enclose it strictly.\<close>

theorem bands_enclose:
  assumes "bollingerBands vals period k = (mid, upper, lower)" and "0 < period" and "i < length vals" and "mid ! i = Some m"
  shows "\<exists>u l. upper ! i = Some u \<and> lower ! i = Some l \<and>
    u = m + max (k * population_sd (window vals (nat period) i) m) (\<bar>m\<bar> / 1000) \<and>
    l = max 0 (m - max (k * population_sd (window vals (nat period) i) m) (\<bar>m\<bar> / 1000)) \<and>
    0 \<le> l \<and> (0 < m \<longrightarrow> l < m \<and> m < u)"
proof -
  let ?w = "max (k * population_sd (window vals (nat period) i) m) (\<bar>m\<bar> / 1000)"
  have m: "sma vals period ! i = Some m" using assms(1,4) by (simp add: bollingerBands_def Let_def)
  have b: "band k (sma vals period ! i) (stddev vals period ! i) = Some (m + ?w, max 0 (m - ?w))"
    using stddev_nth [OF assms(2,3) m] m by (simp only: band_values)
  have "upper ! i = Some (m + ?w)" "lower ! i = Some (max 0 (m - ?w))"
    using assms(1,3) b by (auto simp: bollingerBands_def Let_def stddev_def)
  moreover have "0 < m \<longrightarrow> 0 < ?w" by (simp add: less_max_iff_disj)
  ultimately show ?thesis by auto
qed

theorem bands_enclose_witness:
  "\<exists>u l. fst (snd (bollingerBands [1, 2, 3] 2 2)) ! 2 = Some u \<and> snd (snd (bollingerBands [1, 2, 3] 2 2)) ! 2 = Some l \<and> l < 5 / 2 \<and> 5 / 2 < u"
proof -
  have "sma [1, 2, 3] 2 ! 2 = Some (5 / 2)" using sma_nth [of 2 2 "[1, 2, 3]"] by (simp add: window_def)
  moreover obtain mid upper lower where b: "bollingerBands [1, 2, 3] 2 2 = (mid, upper, lower)" by (metis prod_cases3)
  ultimately have "mid ! 2 = Some (5 / 2)" by (simp add: bollingerBands_def Let_def)
  from bands_enclose [OF b _ _ this] show ?thesis by (auto simp: b)
qed

section \<open>The strength index\<close>

lemma gain_loss_nonneg [simp]: "0 \<le> gain_of c" "0 \<le> loss_of c"
  by (simp_all add: gain_of_def loss_of_def)

lemma rsi_value_range: "0 \<le> g \<Longrightarrow> 0 \<le> l \<Longrightarrow> 0 \<le> rsi_value g l \<and> rsi_value g l \<le> 100"
proof (cases "l = 0")
  case False
  assume "0 \<le> g" "0 \<le> l"
  then have "1 \<le> 1 + g / l" by simp
  then have "0 \<le> 100 / (1 + g / l)" "100 / (1 + g / l) \<le> 100" by (simp_all add: divide_le_eq)
  then show ?thesis using False by (simp add: rsi_value_def)
qed (simp add: rsi_value_def)

lemma rsi_loop_range:
  assumes "0 \<le> g" and "0 \<le> l" and "x \<in> set (rsi_loop vals p g l is)"
  shows "\<exists>r. x = Some r \<and> 0 \<le> r \<and> r \<le> 100"
  using assms
proof (induction "is" arbitrary: g l)
  case (Cons i "is")
  let ?g = "(g * real (p - 1) + gain_of (change_at vals i)) / real p" and ?l = "(l * real (p - 1) + loss_of (change_at vals i)) / real p"
  have "0 \<le> ?g" "0 \<le> ?l" using Cons.prems(1,2) by (auto intro!: divide_nonneg_nonneg add_nonneg_nonneg)
  with Cons.IH [of ?g ?l] Cons.prems(3) rsi_value_range [of ?g ?l] show ?case by (auto simp: Let_def)
qed simp

lemma length_rsi_loop [simp]: "length (rsi_loop vals p g l is) = length is"
  by (induction "is" arbitrary: g l) (simp_all add: Let_def)

text \<open>The strength index is between 0 and 100 wherever it is defined, and it is defined exactly from index \<open>period\<close> on.\<close>

theorem rsi_range:
  assumes "0 < period" and "i < length vals"
  shows "(rsi vals period ! i = None \<longleftrightarrow> int i < period) \<and>
    (\<forall>r. rsi vals period ! i = Some r \<longrightarrow> 0 \<le> r \<and> r \<le> 100)"
proof (cases "int (length vals) < period + 1")
  case True
  then show ?thesis using assms by (simp add: rsi_def)
next
  case False
  let ?p = "nat period"
  let ?g = "sum_list (map (\<lambda>i. gain_of (change_at vals i)) [1..<?p + 1]) / real ?p"
  let ?l = "sum_list (map (\<lambda>i. loss_of (change_at vals i)) [1..<?p + 1]) / real ?p"
  let ?rest = "Some (rsi_value ?g ?l) # rsi_loop vals ?p ?g ?l [?p + 1..<length vals]"
  have r: "rsi vals period = replicate ?p None @ ?rest" using False assms(1) by (simp add: rsi_def Let_def)
  have nn: "0 \<le> ?g" "0 \<le> ?l" by (auto intro!: divide_nonneg_nonneg sum_list_nonneg simp del: upt_Suc)
  have rest: "\<exists>r. x = Some r \<and> 0 \<le> r \<and> r \<le> 100" if "x \<in> set ?rest" for x
    using that rsi_value_range [OF nn] rsi_loop_range [OF nn] by auto
  show ?thesis
  proof (cases "i < ?p")
    case True
    then show ?thesis by (simp add: r nth_append)
  next
    case False
    have "length ?rest = Suc (length vals - (?p + 1))" by (simp only: list.size length_rsi_loop length_upt)
    moreover have "i - ?p < Suc (length vals - (?p + 1))" using assms(2) False by simp
    moreover have "rsi vals period ! i = ?rest ! (i - ?p)" using False by (simp only: r nth_append length_replicate if_False)
    ultimately have "rsi vals period ! i \<in> set ?rest" by (metis nth_mem)
    from rest [OF this] False show ?thesis by auto
  qed
qed

theorem rsi_range_witness: "\<exists>r. rsi [1, 2, 1, 3] 2 ! 3 = Some r \<and> r \<le> 100"
  using rsi_range [of 2 3 "[1, 2, 1, 3]"] by (cases "rsi [1, 2, 1, 3] 2 ! 3") auto

section \<open>The Braille chart\<close>

text \<open>A layer's grid of dots, row by row, and the chart's sizes. \<open>'s\<close> is the type of styles.\<close>

record 's chart_layer =
  dots :: "bool list"
  style :: 's

record braille_chart =
  cols :: int
  rows :: int
  dotW :: int
  dotH :: int

definition newBrailleChart :: "int \<Rightarrow> int \<Rightarrow> braille_chart" where
  "newBrailleChart c r =
     (let c = (if c < 1 then 1 else c); r = (if r < 1 then 1 else r)
      in \<lparr>cols = c, rows = r, dotW = c * 2, dotH = r * 4\<rparr>)"

definition newLayer :: "braille_chart \<Rightarrow> 's \<Rightarrow> 's chart_layer" where
  "newLayer c st = \<lparr>dots = replicate (nat (dotW c * dotH c)) False, style = st\<rparr>"

definition set_dot :: "braille_chart \<Rightarrow> int \<Rightarrow> int \<Rightarrow> 's chart_layer \<Rightarrow> 's chart_layer" where
  "set_dot c x y l =
     (if x < 0 \<or> x \<ge> dotW c \<or> y < 0 \<or> y \<ge> dotH c then l
      else l\<lparr>dots := (dots l)[nat (y * dotW c + x) := True]\<rparr>)"

definition iabs :: "int \<Rightarrow> int" where "iabs x = (if x < 0 then - x else x)"

text \<open>The loop of \<open>line\<close>, which ends when the end point is reached.\<close>

partial_function (option) line_loop ::
  "braille_chart \<Rightarrow> int \<Rightarrow> int \<Rightarrow> int \<Rightarrow> int \<Rightarrow> int \<Rightarrow> int \<Rightarrow> int \<Rightarrow> int \<Rightarrow> int \<Rightarrow> 's chart_layer \<Rightarrow> 's chart_layer option" where
  "line_loop c dx dy sx sy x1 y1 err x y l =
     (let l = set_dot c x y l
      in if x = x1 \<and> y = y1 then Some l
         else let e2 = 2 * err;
                  (err1, x') = (if e2 \<ge> dy then (err + dy, x + sx) else (err, x));
                  (err2, y') = (if e2 \<le> dx then (err1 + dx, y + sy) else (err1, y))
              in line_loop c dx dy sx sy x1 y1 err2 x' y' l)"

definition line :: "braille_chart \<Rightarrow> int \<Rightarrow> int \<Rightarrow> int \<Rightarrow> int \<Rightarrow> 's chart_layer \<Rightarrow> 's chart_layer option" where
  "line c x0 y0 x1 y1 l =
     (let dx = iabs (x1 - x0); dy = - iabs (y1 - y0); sx = (if x0 > x1 then -1 else 1); sy = (if y0 > y1 then -1 else 1)
      in line_loop c dx dy sx sy x1 y1 (dx + dy) x0 y0 l)"




definition horizontalLine :: "braille_chart \<Rightarrow> int \<Rightarrow> 's chart_layer \<Rightarrow> 's chart_layer" where
  "horizontalLine c y l = fold (\<lambda>x. set_dot c x y) [0..dotW c - 1] l"

definition brailleDotBit :: "nat list list" where
  "brailleDotBit = [[0x01, 0x08], [0x02, 0x10], [0x04, 0x20], [0x40, 0x80]]"

text \<open>The order in which the two inner loops visit a cell.\<close>

definition cell_positions :: "(nat \<times> nat) list" where
  "cell_positions = [(dy, dx). dy \<leftarrow> [0, 1, 2, 3], dx \<leftarrow> [0, 1]]"

text \<open>The dots of one cell of a layer: \<open>None\<close> is an index out of range.\<close>

definition cell_dots :: "braille_chart \<Rightarrow> int \<Rightarrow> int \<Rightarrow> 's chart_layer \<Rightarrow> ((nat \<times> nat) \<times> bool) list option" where
  "cell_dots c r col l =
     those (map (\<lambda>(dy, dx). map_option (Pair (dy, dx)) (go_index (dots l) (nat ((r * 4 + int dy) * dotW c + (col * 2 + int dx)))))
       cell_positions)"

text \<open>A cell's mask and the layer that owns it.\<close>

definition add_layer :: "'s chart_layer \<Rightarrow> ((nat \<times> nat) \<times> bool) list \<Rightarrow> nat \<times> 's option \<Rightarrow> nat \<times> 's option" where
  "add_layer l ds = (\<lambda>(mask, owner).
     (fold (\<lambda>((dy, dx), b) m. if b then m OR (brailleDotBit ! dy ! dx) else m) ds mask,
      if \<exists>d \<in> set ds. snd d then Some (style l) else owner))"

fun render_cell :: "braille_chart \<Rightarrow> int \<Rightarrow> int \<Rightarrow> 's chart_layer list \<Rightarrow> nat \<times> 's option \<Rightarrow> (nat \<times> 's option) option" where
  "render_cell c r col [] acc = Some acc"
| "render_cell c r col (l # ls) acc =
     (case cell_dots c r col l of None \<Rightarrow> None | Some ds \<Rightarrow> render_cell c r col ls (add_layer l ds acc))"

text \<open>\<open>render\<close>: the rows of cells; a cell is a blank or a glyph with the owner's style.\<close>

datatype 's cell = Blank | Glyph nat "'s option"

definition cell_of :: "nat \<times> 's option \<Rightarrow> 's cell" where
  "cell_of = (\<lambda>(mask, owner). if mask = 0 then Blank else Glyph (0x2800 + mask) owner)"

definition render :: "braille_chart \<Rightarrow> 's chart_layer list \<Rightarrow> 's cell list list option" where
  "render c ls =
     those (map (\<lambda>r. those (map (\<lambda>col. map_option cell_of (render_cell c r col ls (0, None))) [0..cols c - 1])) [0..rows c - 1])"

section \<open>Lines\<close>

definition set_dots :: "braille_chart \<Rightarrow> (int \<times> int) list \<Rightarrow> 's chart_layer \<Rightarrow> 's chart_layer" where
  "set_dots c path l = fold (\<lambda>(x, y). set_dot c x y) path l"

definition neighbours :: "int \<times> int \<Rightarrow> int \<times> int \<Rightarrow> bool" where
  "neighbours p q \<longleftrightarrow> p \<noteq> q \<and> \<bar>fst p - fst q\<bar> \<le> 1 \<and> \<bar>snd p - snd q\<bar> \<le> 1"

definition between :: "int \<Rightarrow> int \<Rightarrow> int \<Rightarrow> bool" where
  "between a b x \<longleftrightarrow> min a b \<le> x \<and> x \<le> max a b"

definition path_of :: "int \<times> int \<Rightarrow> int \<times> int \<Rightarrow> (int \<times> int) list \<Rightarrow> bool" where
  "path_of p q path \<longleftrightarrow> path \<noteq> [] \<and> hd path = p \<and> last path = q \<and> successively neighbours path \<and>
     (\<forall>r \<in> set path. between (fst p) (fst q) (fst r) \<and> between (snd p) (snd q) (snd r))"

text \<open>After \<open>i\<close> steps along x and \<open>j\<close> along y the error term is \<open>a (1 + j) - b (1 + i)\<close>: it never asks for a step past the
  end point, and always for at least one.\<close>

lemma step_x_inside: "0 \<le> a \<Longrightarrow> j < b \<Longrightarrow> 2 * (a * (1 + j) - b * (1 + a)) < - (b :: int)" if "0 \<le> j"
proof -
  assume "0 \<le> a" "j < b"
  then have "a * (1 + j - b) \<le> 0" by (intro mult_nonneg_nonpos) auto
  with \<open>j < b\<close> that show ?thesis by (simp add: algebra_simps)
qed

lemma step_y_inside: "0 \<le> b \<Longrightarrow> i < a \<Longrightarrow> 2 * (a * (1 + b) - b * (1 + i)) > (a :: int)" if "0 \<le> i"
proof -
  assume "0 \<le> b" "i < a"
  then have "0 \<le> b * (a - 1 - i)" by (intro mult_nonneg_nonneg) auto
  with \<open>i < a\<close> that show ?thesis by (simp add: algebra_simps)
qed

lemma path_of_step:
  assumes "path_of p' q path" and "neighbours p p'" and "between (fst p) (fst q) (fst p')" and "between (snd p) (snd q) (snd p')"
  shows "path_of p q (p # path)"
  using assms by (cases path) (auto simp: path_of_def between_def)

lemma between_step: "0 \<le> n \<Longrightarrow> n \<le> m \<Longrightarrow> s = 1 \<or> s = -1 \<Longrightarrow> between (x0 + s * k) (x0 + s * (k + m)) (x0 + s * (k + n))"
  by (auto simp: between_def algebra_simps)

lemma line_loop_path:
  assumes "0 \<le> a" and "0 \<le> b" and "0 \<le> i" and "i \<le> a" and "0 \<le> j" and "j \<le> b"
    and sx: "sx = 1 \<or> sx = (-1 :: int)" and sy: "sy = 1 \<or> sy = (-1 :: int)"
  shows "\<exists>path. line_loop c a (- b) sx sy (x0 + sx * a) (y0 + sy * b) (a * (1 + j) - b * (1 + i)) (x0 + sx * i) (y0 + sy * j) l
      = Some (set_dots c path l) \<and> path_of (x0 + sx * i, y0 + sy * j) (x0 + sx * a, y0 + sy * b) path"
  using assms(3-6)
proof (induction "nat (a - i + (b - j))" arbitrary: i j l rule: less_induct)
  case less
  let ?p = "(x0 + sx * i, y0 + sy * j)" and ?q = "(x0 + sx * a, y0 + sy * b)" and ?e = "a * (1 + j) - b * (1 + i)"
  have at_end: "x0 + sx * i = x0 + sx * a \<and> y0 + sy * j = y0 + sy * b \<longleftrightarrow> i = a \<and> j = b" using sx sy by auto
  show ?case
  proof (cases "i = a \<and> j = b")
    case True
    then have "path_of ?p ?q [?p]" by (simp add: path_of_def between_def)
    moreover have "line_loop c a (- b) sx sy (x0 + sx * a) (y0 + sy * b) ?e (x0 + sx * i) (y0 + sy * j) l = Some (set_dots c [?p] l)"
      using True by (subst line_loop.simps) (simp add: set_dots_def)
    ultimately show ?thesis by blast
  next
    case False
    define n m where "n = (if 2 * ?e \<ge> - b then 1 else 0 :: int)" and "m = (if 2 * ?e \<le> a then 1 else 0 :: int)"
    have "n = 0" if "i = a" using that less.prems False step_x_inside [of j a b] assms(1) by (simp add: n_def)
    moreover have "0 \<le> n" "n \<le> 1" by (simp_all add: n_def)
    ultimately have n: "0 \<le> n" "n \<le> 1" "i + n \<le> a" using less.prems(2) by (cases "i = a"; simp)+
    have "m = 0" if "j = b" using that less.prems False step_y_inside [of i b a] assms(2) by (simp add: m_def)
    moreover have "0 \<le> m" "m \<le> 1" by (simp_all add: m_def)
    ultimately have m: "0 \<le> m" "m \<le> 1" "j + m \<le> b" using less.prems(4) by (cases "j = b"; simp)+
    have nm: "0 < n + m" using assms(1,2) by (auto simp: n_def m_def)
    let ?l = "set_dot c (x0 + sx * i) (y0 + sy * j) l"
    have e: "a * (1 + (j + m)) - b * (1 + (i + n)) = ?e + n * (- b) + m * a" by (simp add: algebra_simps)
    have step: "line_loop c a (- b) sx sy (x0 + sx * a) (y0 + sy * b) ?e (x0 + sx * i) (y0 + sy * j) l =
        line_loop c a (- b) sx sy (x0 + sx * a) (y0 + sy * b) (a * (1 + (j + m)) - b * (1 + (i + n))) (x0 + sx * (i + n)) (y0 + sy * (j + m)) ?l"
      using False at_end unfolding e by (subst line_loop.simps) (auto simp: Let_def n_def m_def algebra_simps)
    obtain path where path: "line_loop c a (- b) sx sy (x0 + sx * a) (y0 + sy * b) (a * (1 + (j + m)) - b * (1 + (i + n)))
          (x0 + sx * (i + n)) (y0 + sy * (j + m)) ?l = Some (set_dots c path ?l)"
        "path_of (x0 + sx * (i + n), y0 + sy * (j + m)) ?q path"
      using less.hyps [of "i + n" "j + m" ?l] less.prems n m nm by auto
    have "path_of ?p ?q (?p # path)"
    proof (rule path_of_step [OF path(2)])
      show "neighbours ?p (x0 + sx * (i + n), y0 + sy * (j + m))" using n m nm sx sy by (auto simp: neighbours_def algebra_simps)
      show "between (fst ?p) (fst ?q) (fst (x0 + sx * (i + n), y0 + sy * (j + m)))"
        using between_step [of n "a - i" sx x0 i] n sx by simp
      show "between (snd ?p) (snd ?q) (snd (x0 + sx * (i + n), y0 + sy * (j + m)))"
        using between_step [of m "b - j" sy y0 j] m sy by simp
    qed
    moreover have "set_dots c path ?l = set_dots c (?p # path) l" by (simp add: set_dots_def)
    ultimately show ?thesis using step path(1) by metis
  qed
qed

lemma line_connects_ex:
  "\<exists>path. line c x0 y0 x1 y1 l = Some (set_dots c path l) \<and> path_of (x0, y0) (x1, y1) path"
proof -
  let ?a = "iabs (x1 - x0)" and ?b = "iabs (y1 - y0)"
  let ?sx = "if x0 > x1 then -1 else 1 :: int" and ?sy = "if y0 > y1 then -1 else 1 :: int"
  have "x0 + ?sx * ?a = x1" "y0 + ?sy * ?b = y1" by (auto simp: iabs_def)
  then show ?thesis
    using line_loop_path [of ?a ?b 0 0 ?sx ?sy c x0 y0 l] by (simp add: line_def Let_def iabs_def)
qed

text \<open>Drawing a line ends: it sets the dots of a path from one end point to the other in which each dot is next to the
  one before, and which stays in the rectangle between the end points.\<close>

theorem line_connects:
  "\<exists>path. line c x0 y0 x1 y1 l = Some (set_dots c path l) \<and> path_of (x0, y0) (x1, y1) path"
  by (rule line_connects_ex)

section \<open>Rendering\<close>

text \<open>The sizes of a chart, and a layer of the chart.\<close>

definition sized :: "braille_chart \<Rightarrow> bool" where
  "sized c \<longleftrightarrow> 1 \<le> cols c \<and> 1 \<le> rows c \<and> dotW c = cols c * 2 \<and> dotH c = rows c * 4"

definition fits :: "braille_chart \<Rightarrow> 's chart_layer \<Rightarrow> bool" where
  "fits c l \<longleftrightarrow> length (dots l) = nat (dotW c * dotH c)"

definition dot_at :: "braille_chart \<Rightarrow> 's chart_layer \<Rightarrow> int \<Rightarrow> int \<Rightarrow> bool" where
  "dot_at c l x y = dots l ! nat (y * dotW c + x)"

lemma sized_new: "sized (newBrailleChart a b)"
  by (simp add: sized_def newBrailleChart_def Let_def)

lemma fits_newLayer: "fits c (newLayer c st)"
  by (simp add: fits_def newLayer_def)

lemma fits_set_dot [simp]: "fits c (set_dot c x y l) = fits c l"
  by (simp add: fits_def set_dot_def)

lemma fits_set_dots [simp]: "fits c (set_dots c path l) = fits c l"
proof (induction path arbitrary: l)
  case (Cons p path)
  have "set_dots c (p # path) l = set_dots c path (set_dot c (fst p) (snd p) l)" by (cases p) (simp add: set_dots_def)
  with Cons show ?case by simp
qed (simp add: set_dots_def)

lemma fits_horizontalLine [simp]: "fits c (horizontalLine c y l) = fits c l"
proof -
  have "fits c (fold (\<lambda>x. set_dot c x y) xs l) = fits c l" for xs by (induction xs arbitrary: l) simp_all
  then show ?thesis by (simp add: horizontalLine_def)
qed



lemma index_in:
  assumes "sized c" and "fits c l" and "0 \<le> x" and "x < dotW c" and "0 \<le> y" and "y < dotH c"
  shows "nat (y * dotW c + x) < length (dots l)"
proof -
  have "y * dotW c \<le> (dotH c - 1) * dotW c" using assms by (intro mult_right_mono) (auto simp: sized_def)
  then have "y * dotW c + x < dotW c * dotH c" using assms(4) by (simp add: algebra_simps)
  moreover have "0 \<le> y * dotW c + x" using assms by (auto simp: sized_def)
  ultimately show ?thesis using assms(2) by (simp add: fits_def nat_less_iff)
qed

lemma less_4: "(dy :: nat) < 4 \<longleftrightarrow> dy = 0 \<or> dy = 1 \<or> dy = 2 \<or> dy = 3"
  by auto

lemma less_2: "(dx :: nat) < 2 \<longleftrightarrow> dx = 0 \<or> dx = 1"
  by auto

lemma cell_positions_iff: "(dy, dx) \<in> set cell_positions \<longleftrightarrow> dy < 4 \<and> dx < 2"
  by (auto simp: cell_positions_def less_4 less_2)

lemma cell_dots_in:
  assumes "sized c" and "fits c l" and "0 \<le> r" and "r < rows c" and "0 \<le> col" and "col < cols c"
  shows "cell_dots c r col l =
    Some (map (\<lambda>(dy, dx). ((dy, dx), dot_at c l (col * 2 + int dx) (r * 4 + int dy))) cell_positions)"
proof -
  have "go_index (dots l) (nat ((r * 4 + int dy) * dotW c + (col * 2 + int dx))) = Some (dot_at c l (col * 2 + int dx) (r * 4 + int dy))"
    if "dy < 4" "dx < 2" for dy dx
    using index_in [OF assms(1,2), of "col * 2 + int dx" "r * 4 + int dy"] assms that
    by (simp add: dot_at_def go_reads sized_def)
  then have "map_option (Pair (dy, dx)) (go_index (dots l) (nat ((r * 4 + int dy) * dotW c + (col * 2 + int dx)))) =
      Some ((dy, dx), dot_at c l (col * 2 + int dx) (r * 4 + int dy))" if "(dy, dx) \<in> set cell_positions" for dy dx
    using that by (simp add: cell_positions_iff)
  then show ?thesis unfolding cell_dots_def by (intro those_map_Some) auto
qed

text \<open>The bit of a dot in the glyph.\<close>

definition dot_bit :: "nat \<Rightarrow> nat \<Rightarrow> nat" where
  "dot_bit dy dx = [[0, 3], [1, 4], [2, 5], [6, 7]] ! dy ! dx"

lemma bit_brailleDotBit:
  assumes "dy < 4" and "dx < 2" and "dy' < 4" and "dx' < 2"
  shows "bit (brailleDotBit ! dy ! dx) (dot_bit dy' dx') \<longleftrightarrow> dy = dy' \<and> dx = dx'"
proof -
  have "\<forall>dy \<in> set [0..<4]. \<forall>dx \<in> set [0..<2]. \<forall>dy' \<in> set [0..<4]. \<forall>dx' \<in> set [0..<2].
      bit (brailleDotBit ! dy ! dx) (dot_bit dy' dx') = (dy = dy' \<and> dx = dx')" by code_simp
  with assms show ?thesis by simp
qed

lemma bit_fold_or:
  "bit (fold (\<lambda>(k, b) m. if b then m OR f k else m) ds (m0 :: nat)) n \<longleftrightarrow> bit m0 n \<or> (\<exists>(k, b) \<in> set ds. b \<and> bit (f k) n)"
proof (induction ds arbitrary: m0)
  case (Cons d ds)
  obtain k b where d: "d = (k, b)" by (cases d)
  have "bit (if b then m0 OR f k else m0) n \<longleftrightarrow> bit m0 n \<or> b \<and> bit (f k) n" by (simp add: bit_or_iff)
  with Cons.IH [of "if b then m0 OR f k else m0"] show ?case by (simp only: d fold_simps prod.case list.set bex_simps) blast
qed simp

lemma render_cell_shows:
  assumes "sized c" and "\<forall>l \<in> set ls. fits c l" and "0 \<le> r" and "r < rows c" and "0 \<le> col" and "col < cols c"
  shows "\<exists>m own. render_cell c r col ls (m0, own0) = Some (m, own) \<and>
    (\<forall>dy < 4. \<forall>dx < 2. bit m (dot_bit dy dx) \<longleftrightarrow> bit m0 (dot_bit dy dx) \<or> (\<exists>l \<in> set ls. dot_at c l (col * 2 + int dx) (r * 4 + int dy)))"
  using assms(2)
proof (induction ls arbitrary: m0 own0)
  case (Cons l ls)
  let ?ds = "map (\<lambda>(dy, dx). ((dy, dx), dot_at c l (col * 2 + int dx) (r * 4 + int dy))) cell_positions"
  let ?m = "fold (\<lambda>((dy, dx), b) m. if b then m OR (brailleDotBit ! dy ! dx) else m) ?ds m0"
  have ds: "cell_dots c r col l = Some ?ds" using Cons.prems by (intro cell_dots_in [OF assms(1) _ assms(3-6)]) simp
  have set: "(k, b) \<in> set ?ds \<longleftrightarrow> fst k < 4 \<and> snd k < 2 \<and> b = dot_at c l (col * 2 + int (snd k)) (r * 4 + int (fst k))" for k b
    using cell_positions_iff [of "fst k" "snd k"] by (cases k) (force simp: image_iff)
  have bits: "bit ?m (dot_bit dy dx) \<longleftrightarrow> bit m0 (dot_bit dy dx) \<or> dot_at c l (col * 2 + int dx) (r * 4 + int dy)"
    if "dy < 4" "dx < 2" for dy dx
  proof -
    have "?m = fold (\<lambda>(k, b) m. if b then m OR (case k of (dy, dx) \<Rightarrow> brailleDotBit ! dy ! dx) else m) ?ds m0"
      by (intro fold_cong) auto
    then have "bit ?m (dot_bit dy dx) \<longleftrightarrow>
        bit m0 (dot_bit dy dx) \<or> (\<exists>(k, b) \<in> set ?ds. b \<and> bit (case k of (dy, dx) \<Rightarrow> brailleDotBit ! dy ! dx) (dot_bit dy dx))"
      by (simp only: bit_fold_or)
    also have "(\<exists>(k, b) \<in> set ?ds. b \<and> bit (case k of (dy, dx) \<Rightarrow> brailleDotBit ! dy ! dx) (dot_bit dy dx)) \<longleftrightarrow>
        dot_at c l (col * 2 + int dx) (r * 4 + int dy)"
      unfolding Bex_def split_paired_Ex prod.case set using that bit_brailleDotBit by (auto, metis)
    finally show ?thesis .
  qed
  obtain m own where ih: "render_cell c r col ls (add_layer l ?ds (m0, own0)) = Some (m, own)"
      "\<forall>dy < 4. \<forall>dx < 2. bit m (dot_bit dy dx) \<longleftrightarrow> bit ?m (dot_bit dy dx) \<or> (\<exists>l \<in> set ls. dot_at c l (col * 2 + int dx) (r * 4 + int dy))"
    using Cons.IH [of ?m] Cons.prems by (force simp only: add_layer_def prod.case list.set_intros)
  have "render_cell c r col (l # ls) (m0, own0) = Some (m, own)" using ih(1) by (simp only: render_cell.simps ds option.case)
  moreover have "\<forall>dy < 4. \<forall>dx < 2. bit m (dot_bit dy dx) \<longleftrightarrow>
      bit m0 (dot_bit dy dx) \<or> (\<exists>l' \<in> set (l # ls). dot_at c l' (col * 2 + int dx) (r * 4 + int dy))"
    using ih(2) bits by auto
  ultimately show ?case by blast
qed simp

lemma those_map_ex: "(\<And>x. x \<in> set xs \<Longrightarrow> \<exists>y. f x = Some y \<and> P x y) \<Longrightarrow>
  \<exists>ys. those (map f xs) = Some ys \<and> length ys = length xs \<and> (\<forall>i < length xs. P (xs ! i) (ys ! i))"
proof (induction xs)
  case (Cons x xs)
  obtain y where "f x = Some y" "P x y" using Cons.prems [of x] by auto
  moreover obtain ys where "those (map f xs) = Some ys" "length ys = length xs" "\<forall>i < length xs. P (xs ! i) (ys ! i)"
    using Cons.IH Cons.prems by auto
  ultimately show ?case by (intro exI [of _ "y # ys"]) (auto simp: nth_Cons split: nat.split)
qed simp

text \<open>The bits of a cell: a blank has none.\<close>

fun cell_bits :: "'s cell \<Rightarrow> nat" where
  "cell_bits Blank = 0"
| "cell_bits (Glyph g owner) = g - 0x2800"

definition cell_shows :: "braille_chart \<Rightarrow> 's chart_layer list \<Rightarrow> int \<Rightarrow> int \<Rightarrow> 's cell \<Rightarrow> bool" where
  "cell_shows c ls r col cell \<longleftrightarrow>
     (\<forall>dy < 4. \<forall>dx < 2. bit (cell_bits cell) (dot_bit dy dx) \<longleftrightarrow> (\<exists>l \<in> set ls. dot_at c l (col * 2 + int dx) (r * 4 + int dy)))"

lemma render_shows_ex:
  assumes "sized c" and "\<forall>l \<in> set ls. fits c l"
  shows "\<exists>cells. render c ls = Some cells \<and> length cells = nat (rows c) \<and>
    (\<forall>r < nat (rows c). length (cells ! r) = nat (cols c) \<and> (\<forall>col < nat (cols c). cell_shows c ls (int r) (int col) (cells ! r ! col)))"
proof -
  have cell: "\<exists>y. map_option cell_of (render_cell c r col ls (0, None)) = Some y \<and> cell_shows c ls r col y"
    if b: "0 \<le> r" "r < rows c" "0 \<le> col" "col < cols c" for r col
  proof -
    obtain m own where m: "render_cell c r col ls (0, None) = Some (m, own)"
      "\<forall>dy < 4. \<forall>dx < 2. bit m (dot_bit dy dx) \<longleftrightarrow> bit (0 :: nat) (dot_bit dy dx) \<or> (\<exists>l \<in> set ls. dot_at c l (col * 2 + int dx) (r * 4 + int dy))"
      using render_cell_shows [OF assms b, of 0 None] by blast
    have "cell_bits (cell_of (m, own)) = m" by (simp add: cell_of_def)
    then have "cell_shows c ls r col (cell_of (m, own))" unfolding cell_shows_def using m(2) by (simp only: bit_0_eq bot_apply) simp
    then show ?thesis using m(1) by simp
  qed
  have row: "\<exists>y. those (map (\<lambda>col. map_option cell_of (render_cell c r col ls (0, None))) [0..cols c - 1]) = Some y \<and>
      length y = nat (cols c) \<and> (\<forall>i < nat (cols c). cell_shows c ls r (int i) (y ! i))" if "0 \<le> r" "r < rows c" for r
    using those_map_ex [of "[0..cols c - 1]" "\<lambda>col. map_option cell_of (render_cell c r col ls (0, None))" "cell_shows c ls r"] cell [OF that]
    by (auto simp: nth_upto)
  show ?thesis
    unfolding render_def
    using those_map_ex [of "[0..rows c - 1]" "\<lambda>r. those (map (\<lambda>col. map_option cell_of (render_cell c r col ls (0, None))) [0..cols c - 1])"
      "\<lambda>r y. length y = nat (cols c) \<and> (\<forall>i < nat (cols c). cell_shows c ls r (int i) (y ! i))"] row
    by (auto simp: nth_upto)
qed

text \<open>Rendering never reads outside a grid, and it loses nothing: it gives one cell per column of every row, and the
  eight bits of a cell say exactly which of its dots some layer has set.\<close>

theorem render_shows:
  assumes "sized c" and "\<forall>l \<in> set ls. fits c l"
  shows "\<exists>cells. render c ls = Some cells \<and> length cells = nat (rows c) \<and>
    (\<forall>r < nat (rows c). length (cells ! r) = nat (cols c) \<and> (\<forall>col < nat (cols c). cell_shows c ls (int r) (int col) (cells ! r ! col)))"
  using assms by (rule render_shows_ex)

theorem render_shows_witness:
  "\<exists>cells. render (newBrailleChart 2 1) [newLayer (newBrailleChart 2 1) ()] = Some cells \<and> length cells = 1"
  using render_shows [of "newBrailleChart 2 1" "[newLayer (newBrailleChart 2 1) ()]"] sized_new fits_newLayer
  by (fastforce simp: newBrailleChart_def)

section \<open>Panels\<close>

definition taChartRowsDefault :: int where "taChartRowsDefault = 12"
definition taRSIRowsDefault :: int where "taRSIRowsDefault = 4"
definition taChartRowsMin :: int where "taChartRowsMin = 4"
definition taRSIRowsMin :: int where "taRSIRowsMin = 2"

definition taChartHeights :: "int \<Rightarrow> int \<times> int" where
  "taChartHeights budget =
     (let chrome = 8 + 4
      in if budget \<le> 0 then (taChartRowsDefault, taRSIRowsDefault)
         else let remaining = budget - chrome
              in if remaining < taChartRowsMin + taRSIRowsMin then (taChartRowsMin, taRSIRowsMin)
                 else let priceRows = remaining * 3 div 4;
                          priceRows = (if priceRows > taChartRowsDefault then taChartRowsDefault else priceRows);
                          priceRows = (if priceRows < taChartRowsMin then taChartRowsMin else priceRows);
                          rsiRows = remaining - priceRows;
                          rsiRows = (if rsiRows > taRSIRowsDefault then taRSIRowsDefault else rsiRows);
                          rsiRows = (if rsiRows < taRSIRowsMin then taRSIRowsMin else rsiRows)
                      in (priceRows, rsiRows))"

text \<open>\<open>seriesRange\<close>: before the first number the bounds are the infinities, here \<open>None\<close>.\<close>

definition widen :: "real option \<Rightarrow> (real \<times> real) option \<Rightarrow> (real \<times> real) option" where
  "widen v acc =
     (case v of
        None \<Rightarrow> acc
      | Some v \<Rightarrow>
          (case acc of
             None \<Rightarrow> Some (v, v)
           | Some (lo, hi) \<Rightarrow> Some (if v < lo then v else lo, if v > hi then v else hi)))"



text \<open>Go's conversion of a double to an integer truncates.\<close>

definition trunc :: "real \<Rightarrow> int" where
  "trunc x = (if x \<ge> 0 then \<lfloor>x\<rfloor> else \<lceil>x\<rceil>)"

text \<open>The functions \<open>toY\<close> of the panels, from the fraction of the height.\<close>

definition row_of :: "braille_chart \<Rightarrow> real \<Rightarrow> int" where
  "row_of c fr =
     (let y = trunc ((1 - fr) * real_of_int (dotH c - 1)); y = (if y < 0 then 0 else y)
      in if y \<ge> dotH c then dotH c - 1 else y)"







text \<open>\<open>formatCount\<close>: \<open>None\<close> is a slice out of range.\<close>

definition formatCount :: "u64 \<Rightarrow> string option" where
  "formatCount n =
     (let s = dec (unat n)
      in if length s \<le> 3 then Some s
         else let lead = (if length s mod 3 = 0 then 3 else length s mod 3)
              in (case (go_slice 0 lead s, those (map (\<lambda>k. go_slice (lead + 3 * k) 3 s) [0..<(length s - lead + 2) div 3])) of
                    (Some first, Some groups) \<Rightarrow> Some (first @ concat (map (\<lambda>g. '','' @ g) groups))
                  | _ \<Rightarrow> None))"

section \<open>What the panels promise\<close>

text \<open>The heights fit the budget they are given, whenever the minimal ones do.\<close>

lemma taChartHeights_fit:
  assumes "18 \<le> budget" and "taChartHeights budget = (p, r)"
  shows "p + r + 12 \<le> budget \<and> taChartRowsMin \<le> p \<and> taRSIRowsMin \<le> r"
  using assms
  by (auto simp: taChartHeights_def Let_def taChartRowsDefault_def taRSIRowsDefault_def taChartRowsMin_def taRSIRowsMin_def split: if_splits)

lemma row_of_range: "sized c \<Longrightarrow> 0 \<le> row_of c x \<and> row_of c x < dotH c"
  by (auto simp: row_of_def Let_def sized_def)


lemma widen_simps [simp]:
  "widen None acc = acc" "widen (Some v) None = Some (v, v)"
  "widen (Some v) (Some (lo, hi)) = Some (if v < lo then v else lo, if v > hi then v else hi)"
  by (simp_all add: widen_def)






lemma rows_new [simp]: "rows (newBrailleChart a b) = (if b < 1 then 1 else b)"
  by (simp add: newBrailleChart_def Let_def)





section \<open>Grouped digits\<close>

lemma dec_no_comma: "c \<in> set (dec n) \<Longrightarrow> c \<noteq> CHR '','' "
  using dec_digits [of n] by (auto simp: list_all_iff is_digit_def)

lemma concat_slices:
  "lead + 3 * k \<le> length s \<Longrightarrow> concat (map (\<lambda>j. take 3 (drop (lead + 3 * j) s)) [0..<k]) = take (3 * k) (drop lead s)"
proof (induction k)
  case (Suc k)
  then show ?case using take_add [of "3 * k" 3 "drop lead s"] by (simp add: add.commute)
qed simp

lemma filter_grouped: "filter (\<lambda>c. c \<noteq> CHR '','') (concat (map (\<lambda>g. '','' @ g) gs)) = filter (\<lambda>c. c \<noteq> CHR '','') (concat gs)"
  by (induction gs) simp_all

lemma ungroup:
  assumes "length s = lead + 3 * k" and "\<forall>c \<in> set s. c \<noteq> CHR '',''"
  shows "filter (\<lambda>c. c \<noteq> CHR '','') (take lead s @ concat (map (\<lambda>g. '','' @ g) (map (\<lambda>j. take 3 (drop (lead + 3 * j) s)) [0..<k]))) = s"
proof -
  have "filter (\<lambda>c. c \<noteq> CHR '','') (take lead s @ concat (map (\<lambda>g. '','' @ g) (map (\<lambda>j. take 3 (drop (lead + 3 * j) s)) [0..<k])))
      = filter (\<lambda>c. c \<noteq> CHR '','') (take lead s @ take (3 * k) (drop lead s))"
    using concat_slices [of lead k s] assms(1) by (simp only: filter_append filter_grouped order_refl)
  also have "take lead s @ take (3 * k) (drop lead s) = s" using assms(1) by simp
  finally show ?thesis using assms(2) by (simp add: filter_id_conv)
qed

text \<open>Grouping never slices out of range, and only adds commas to the digits.\<close>

lemma formatCount_digits: "\<exists>s. formatCount n = Some s \<and> filter (\<lambda>c. c \<noteq> CHR '','') s = dec (unat n)"
proof (cases "length (dec (unat n)) \<le> 3")
  case True
  then show ?thesis using dec_no_comma by (auto simp: formatCount_def Let_def filter_id_conv)
next
  case False
  let ?s = "dec (unat n)"
  let ?lead = "if length ?s mod 3 = 0 then 3 else length ?s mod 3" and ?k = "length ?s div 3 - (if length ?s mod 3 = 0 then 1 else 0)"
  have len: "length ?s = ?lead + 3 * ?k" using False by (auto simp: mod_eq_0_iff_dvd)
  have div3: "(3 * k + 2) div 3 = k" for k :: nat by presburger
  from len have "length ?s - ?lead = 3 * ?k" by (metis diff_add_inverse)
  then have k: "(length ?s - ?lead + 2) div 3 = ?k" using div3 by metis
  have "those (map (\<lambda>j. go_slice (?lead + 3 * j) 3 ?s) [0..<?k]) = Some (map (\<lambda>j. take 3 (drop (?lead + 3 * j) ?s)) [0..<?k])"
    using len by (intro those_map_Some go_slice_in) auto
  moreover have "go_slice 0 ?lead ?s = Some (take ?lead ?s)" using len by (subst go_slice_in) simp_all
  ultimately have "formatCount n = Some (take ?lead ?s @ concat (map (\<lambda>g. '','' @ g) (map (\<lambda>j. take 3 (drop (?lead + 3 * j) ?s)) [0..<?k])))"
    using False unfolding formatCount_def Let_def k by (simp only: if_False prod.case option.case)
  then show ?thesis using ungroup [OF len] dec_no_comma by blast
qed

end
