(* ===== verification/PriceHub.thy ===== *)
theory PriceHub
  imports Accounts
begin

text \<open>
  Live prices: the decoder of Pyth accounts (\<open>src/prefetch/pyth/pyth.go\<close>), the hook that turns account updates into price
  updates (\<open>watcher.go\<close>), the hub that fans them out to subscribers (\<open>hub.go\<close>), and the poller of the price service
  (\<open>src/prefetch/price-feed\<close>).

  Prices are reals: \<open>math.Pow(10, e)\<close> is the power with an integer exponent. The hub is shared by goroutines: its methods
  are cut into the sections they run under the lock and the single channel operations outside it, and \<open>hub_step\<close> says
  which of these can happen in a state and what it does; a channel operation that would block cannot happen. Program
  addresses and the price service are parameters.
\<close>

section \<open>Decoding a price account\<close>

definition PushDiscriminator :: "byte list" where
  "PushDiscriminator = [34, 241, 35, 99, 157, 126, 244, 205]"

definition offVerificationLevel :: nat where "offVerificationLevel = 40"

record price_v2 =
  PriceUSD :: real
  ConfidenceUSD :: real
  FeedID :: "byte list"
  PublishTime :: int

datatype pyth_error =
    PTooShort nat
  | PWrongDiscriminator "byte list"
  | PUnknownLevel byte
  | PTooShortForLevel nat
  | PNoFeeds
  | PDerive

definition read_i64 :: "byte list \<Rightarrow> nat \<Rightarrow> int option" where
  "read_i64 bs off = do { x \<leftarrow> read_u64 bs off; Some (to_int64 x) }"

definition message_offset :: "byte \<Rightarrow> nat option" where
  "message_offset level =
     (if level = 1 then Some (offVerificationLevel + 1) else if level = 0 then Some (offVerificationLevel + 2) else None)"

definition price_message :: "byte list \<Rightarrow> nat \<Rightarrow> price_v2 option" where
  "price_message body off = do {
     feedID \<leftarrow> go_slice off 32 body;
     price \<leftarrow> read_i64 body (off + 32);
     conf \<leftarrow> read_u64 body (off + 40);
     exponent \<leftarrow> read_i32 body (off + 48);
     publishTime \<leftarrow> read_i64 body (off + 52);
     let scale = power_int (10 :: real) exponent;
     Some \<lparr>PriceUSD = real_of_int price * scale, ConfidenceUSD = real (unat conf) * scale, FeedID = feedID, PublishTime = publishTime\<rparr> }"

text \<open>\<open>None\<close> is a panic.\<close>

definition ParsePushOracle :: "byte list \<Rightarrow> (pyth_error + price_v2) option" where
  "ParsePushOracle body =
     (if length body < 8 + 32 + 1 then Some (Inl (PTooShort (length body)))
      else do {
        disc \<leftarrow> go_slice 0 8 body;
        if disc \<noteq> PushDiscriminator then Some (Inl (PWrongDiscriminator disc))
        else do {
          level \<leftarrow> go_index body offVerificationLevel;
          case message_offset level of
            None \<Rightarrow> Some (Inl (PUnknownLevel level))
          | Some off \<Rightarrow>
              if length body < off + 84 + 8 then Some (Inl (PTooShortForLevel (length body)))
              else map_option Inr (price_message body off) } })"

text \<open>\<open>FeedAccount\<close>: \<open>findProgramAddress\<close> is that of the library.\<close>

definition FeedAccount :: "(byte list list \<Rightarrow> pubkey option) \<Rightarrow> byte list \<Rightarrow> pyth_error + pubkey" where
  "FeedAccount findProgramAddress feedID =
     (case findProgramAddress [[0, 0], feedID] of None \<Rightarrow> Inl PDerive | Some pda \<Rightarrow> Inr pda)"

section \<open>The watching hook\<close>

record price_update =
  Feed :: "byte list"
  payload :: price_v2

text \<open>The accounts \<open>Watch\<close> subscribes to, with the feed each belongs to.\<close>

definition Watch :: "(byte list list \<Rightarrow> pubkey option) \<Rightarrow> byte list list \<Rightarrow> pyth_error + (pubkey \<times> byte list) list" where
  "Watch findProgramAddress feeds =
     (if feeds = [] then Inl PNoFeeds
      else fold_err (\<lambda>feed accounts.
             case FeedAccount findProgramAddress feed of
               Inl e \<Rightarrow> Inl e
             | Inr pda \<Rightarrow> Inr (AList.update pda feed accounts)) feeds [])"

text \<open>\<open>OnAccount\<close>: the update that is sent, if any (\<open>None\<close>: a panic).\<close>

definition watch_on_account :: "(pubkey \<times> byte list) list \<Rightarrow> pubkey \<Rightarrow> byte list \<Rightarrow> price_update option option" where
  "watch_on_account accounts key body =
     (case map_of accounts key of
        None \<Rightarrow> Some None
      | Some feed \<Rightarrow>
          (case ParsePushOracle body of
             None \<Rightarrow> None
           | Some (Inl e) \<Rightarrow> Some None
           | Some (Inr parsed) \<Rightarrow> Some (Some \<lparr>Feed = feed, payload = parsed\<rparr>)))"

section \<open>The hub\<close>

definition subscriberBuffer :: nat where "subscriberBuffer = 4"

type_synonym sub_id = nat

text \<open>Where a call of \<open>Subscribe\<close> stands: it still has to send cached updates, or it has returned.\<close>

datatype 'u phase = NotStarted | Sending "'u list" | Returned

text \<open>The hub, the channels, and the goroutine that publishes: \<open>outbox\<close> are the sends left of its current \<open>Publish\<close>.
  \<open>panicked\<close> records a send on a closed channel. \<open>'f\<close> are feeds and \<open>'u\<close> updates.\<close>

record ('f, 'u) hub =
  subs :: "sub_id list"
  lastOf :: "('f \<times> 'u) list"
  buffer :: "sub_id \<Rightarrow> 'u list"
  shut :: "sub_id \<Rightarrow> bool"
  phase :: "sub_id \<Rightarrow> 'u phase"
  received :: "sub_id \<Rightarrow> 'u list"
  outbox :: "('u \<times> sub_id) list"
  published :: "'u list"
  panicked :: bool

definition NewHub :: "('f, 'u) hub" where
  "NewHub = \<lparr>subs = [], lastOf = [], buffer = (\<lambda>c. []), shut = (\<lambda>c. False), phase = (\<lambda>c. NotStarted), received = (\<lambda>c. []),
     outbox = [], published = [], panicked = False\<rparr>"

datatype 'u hub_event =
    SubLock sub_id
  | SubSend sub_id
  | SubReturn sub_id
  | Receive sub_id
  | PubLock 'u
  | PubSend
  | Unsubscribe sub_id

text \<open>One step: \<open>None\<close> when it cannot happen. \<open>feedOf\<close> is the feed of an update. Go leaves open in which order a
  map is walked; the model takes the order of the list.\<close>

fun hub_step :: "('u \<Rightarrow> 'f) \<Rightarrow> 'u hub_event \<Rightarrow> ('f, 'u) hub \<Rightarrow> ('f, 'u) hub option" where
  "hub_step feedOf (SubLock c) h =
     (if phase h c \<noteq> NotStarted then None
      else Some (h\<lparr>subs := subs h @ [c], phase := (phase h)(c := Sending (map snd (lastOf h)))\<rparr>))"
| "hub_step feedOf (SubSend c) h =
     (case phase h c of
        Sending (u # us) \<Rightarrow>
          if length (buffer h c) < subscriberBuffer
          then Some (h\<lparr>buffer := (buffer h)(c := buffer h c @ [u]), phase := (phase h)(c := Sending us)\<rparr>)
          else None
      | _ \<Rightarrow> None)"
| "hub_step feedOf (SubReturn c) h =
     (if phase h c = Sending [] then Some (h\<lparr>phase := (phase h)(c := Returned)\<rparr>) else None)"
| "hub_step feedOf (Receive c) h =
     (if phase h c = Returned then
        (case buffer h c of
           [] \<Rightarrow> None
         | u # us \<Rightarrow> Some (h\<lparr>buffer := (buffer h)(c := us), received := (received h)(c := received h c @ [u])\<rparr>))
      else None)"
| "hub_step feedOf (PubLock u) h =
     (if outbox h \<noteq> [] then None
      else Some (h\<lparr>lastOf := AList.update (feedOf u) u (lastOf h), outbox := map (Pair u) (subs h), published := published h @ [u]\<rparr>))"
| "hub_step feedOf PubSend h =
     (case outbox h of
        [] \<Rightarrow> None
      | (u, c) # rest \<Rightarrow>
          Some (if shut h c then h\<lparr>outbox := rest, panicked := True\<rparr>
                else if length (buffer h c) < subscriberBuffer
                then h\<lparr>outbox := rest, buffer := (buffer h)(c := buffer h c @ [u])\<rparr>
                else h\<lparr>outbox := rest\<rparr>))"
| "hub_step feedOf (Unsubscribe c) h =
     (if phase h c = Returned then
        Some (if c \<in> set (subs h) then h\<lparr>subs := removeAll c (subs h), shut := (shut h)(c := True)\<rparr> else h)
      else None)"

fun hub_run :: "('u \<Rightarrow> 'f) \<Rightarrow> 'u hub_event list \<Rightarrow> ('f, 'u) hub \<Rightarrow> ('f, 'u) hub option" where
  "hub_run feedOf [] h = Some h"
| "hub_run feedOf (e # es) h = (case hub_step feedOf e h of None \<Rightarrow> None | Some h \<Rightarrow> hub_run feedOf es h)"

definition Latest :: "('f, 'u) hub \<Rightarrow> 'f \<Rightarrow> 'u option" where
  "Latest h feed = map_of (lastOf h) feed"

section \<open>The price poller\<close>

record token_price =
  tpUSDPrice :: real
  tpBlockID :: u64
  tpDecimals :: byte
  tpChange24h :: real

record feed_update =
  uMint :: pubkey
  uPrice :: token_price
  uFetchedAt :: nat

definition MaxMintsPerRequest :: nat where "MaxMintsPerRequest = 50"

definition FreeTierInterval :: int where "FreeTierInterval = 3 * 1000000000"

record poller_config =
  cMints :: "pubkey list"
  cInterval :: int

record poller =
  pcfg :: poller_config
  pbatches :: "pubkey list list"

text \<open>The loop of \<open>batchMints\<close>; \<open>None\<close> for a size of zero, where the code divides by it.\<close>

function batch_loop :: "nat \<Rightarrow> 'a list \<Rightarrow> 'a list list" where
  "batch_loop sz mints =
     (if mints = [] \<or> sz = 0 then []
      else let n = (if length mints < sz then length mints else sz)
           in take n mints # batch_loop sz (drop n mints))"
  by auto
termination by (relation "measure (\<lambda>(sz, mints). length mints)") auto

declare batch_loop.simps [simp del]

definition batchMints :: "'a list \<Rightarrow> nat \<Rightarrow> 'a list list option" where
  "batchMints mints sz = (if sz = 0 then None else Some (batch_loop sz mints))"

definition New :: "poller_config \<Rightarrow> (string + poller) option" where
  "New cfg =
     (if cMints cfg = [] then Some (Inl ''jupiter: at least one mint is required'')
      else let c = (if cInterval cfg \<le> 0 then cfg\<lparr>cInterval := FreeTierInterval\<rparr> else cfg)
           in map_option (\<lambda>bs. Inr \<lparr>pcfg = c, pbatches = bs\<rparr>) (batchMints (cMints cfg) MaxMintsPerRequest))"

text \<open>\<open>pollBatch\<close>: the updates it puts on the channel; \<open>fetch\<close> is the request (\<open>None\<close>: it fails).\<close>

definition pollBatch :: "(pubkey list \<Rightarrow> (pubkey \<rightharpoonup> token_price) option) \<Rightarrow> nat \<Rightarrow> pubkey list \<Rightarrow> feed_update list" where
  "pollBatch fetch now batch =
     (case fetch batch of
        None \<Rightarrow> []
      | Some prices \<Rightarrow>
          concat (map (\<lambda>mint. case prices mint of None \<Rightarrow> [] | Some tp \<Rightarrow> [\<lparr>uMint = mint, uPrice = tp, uFetchedAt = now\<rparr>]) batch))"

text \<open>\<open>loop\<close>: one batch per tick, in turn; the ticks are given by their times.\<close>

fun poll_loop :: "(pubkey list \<Rightarrow> (pubkey \<rightharpoonup> token_price) option) \<Rightarrow> pubkey list list \<Rightarrow> nat \<Rightarrow> nat list \<Rightarrow> feed_update list" where
  "poll_loop fetch batches idx [] = []"
| "poll_loop fetch batches idx (now # ticks) =
     pollBatch fetch now (batches ! idx) @ poll_loop fetch batches ((idx + 1) mod length batches) ticks"

section \<open>The decoder is total and reads the layout\<close>

lemma read_i64_in [go_reads]: "off + 8 \<le> length bs \<Longrightarrow> read_i64 bs off = Some (to_int64 (u64_at bs off))"
  by (simp add: read_i64_def read_u64_in)

lemma message_offset_bound: "message_offset level = Some off \<Longrightarrow> off \<le> 42"
  by (auto simp: message_offset_def offVerificationLevel_def split: if_splits)

lemma price_message_in:
  assumes "off + 60 \<le> length body"
  shows "price_message body off = Some
    \<lparr>PriceUSD = real_of_int (to_int64 (u64_at body (off + 32))) * power_int 10 (sint (u32_at body (off + 48))),
     ConfidenceUSD = real (unat (u64_at body (off + 40))) * power_int 10 (sint (u32_at body (off + 48))),
     FeedID = take 32 (drop off body), PublishTime = to_int64 (u64_at body (off + 52))\<rparr>"
  using assms by (simp add: price_message_def go_slice_in read_i64_in read_u64_in read_i32_in Let_def)

lemma ParsePushOracle_total: "ParsePushOracle body \<noteq> None"
proof -
  have "price_message body off \<noteq> None" if "off + 92 \<le> length body" for off
    using that price_message_in [of off body] by simp
  then show ?thesis
    by (auto simp: ParsePushOracle_def go_slice_in go_index_in offVerificationLevel_def split: option.splits)
qed

text \<open>An account laid out as documented: \<open>Some n\<close> is the partial verification level with \<open>n\<close> signatures.\<close>

definition put_u32 :: "u32 \<Rightarrow> byte list" where "put_u32 x = le_bytes 4 (unat x)"

definition level_bytes :: "byte option \<Rightarrow> byte list" where
  "level_bytes level = (case level of None \<Rightarrow> [1] | Some n \<Rightarrow> [0, n])"

definition push_account :: "byte list \<Rightarrow> byte option \<Rightarrow> byte list \<Rightarrow> u64 \<Rightarrow> u64 \<Rightarrow> u32 \<Rightarrow> u64 \<Rightarrow> byte list \<Rightarrow> byte list" where
  "push_account auth level feed price conf expo t rest =
     PushDiscriminator @ auth @ level_bytes level @ feed @ put_u64 price @ put_u64 conf @ put_u32 expo @ put_u64 t @ rest"

lemma length_put_u32 [simp]: "length (put_u32 x) = 4"
  by (simp add: put_u32_def)

lemma u32_at_append [wire_fields]: "length xs \<le> off \<Longrightarrow> u32_at (xs @ ys) off = u32_at ys (off - length xs)"
  by (simp add: u32_at_def)

lemma u32_at_hd [wire_fields]: "u32_at (put_u32 x @ ys) 0 = x"
proof -
  have "unat x < 256 ^ 4" using unsigned_less [of x] by simp
  then have "le_nat (put_u32 x) = unat x" by (simp add: put_u32_def le_nat_le_bytes)
  then show ?thesis by (simp add: u32_at_def put_u32_def)
qed

text \<open>A price account laid out as documented, with either verification level, is decoded to the price and confidence
  scaled by the exponent, the feed and the publish time; and no bytes make the decoder panic.\<close>

theorem ParsePushOracle_decodes:
  assumes "length auth = 32" and "length feed = 32" and "32 \<le> length rest"
  shows "ParsePushOracle (push_account auth level feed price conf expo t rest) = Some (Inr
      \<lparr>PriceUSD = real_of_int (to_int64 price) * power_int 10 (sint expo), ConfidenceUSD = real (unat conf) * power_int 10 (sint expo),
       FeedID = feed, PublishTime = to_int64 t\<rparr>) \<and>
    (\<forall>body. ParsePushOracle body \<noteq> None)"
proof -
  let ?pre = "PushDiscriminator @ auth @ level_bytes level"
  let ?msg = "feed @ put_u64 price @ put_u64 conf @ put_u32 expo @ put_u64 t @ rest"
  let ?b = "push_account auth level feed price conf expo t rest"
  have b: "?b = ?pre @ ?msg" by (simp add: push_account_def)
  have d: "length PushDiscriminator = 8" by (simp add: PushDiscriminator_def)
  let ?off = "40 + length (level_bytes level)"
  have pre: "length ?pre = ?off" using assms(1) d by simp
  have off: "message_offset (?b ! 40) = Some ?off"
    using assms(1) d by (cases level) (simp_all add: push_account_def level_bytes_def message_offset_def offVerificationLevel_def nth_append)
  have len: "?off + 92 \<le> length ?b" using assms d by (simp add: b)
  have f: "u64_at ?b (?off + 32) = price" "u64_at ?b (?off + 40) = conf" "u32_at ?b (?off + 48) = expo" "u64_at ?b (?off + 52) = t"
    unfolding b using assms(2) pre
    by (simp_all add: u64_at_append u32_at_append u64_at_hd u32_at_hd del: append_assoc)
  have g: "take 32 (drop ?off ?b) = feed" unfolding b using assms(2) pre by (simp del: append_assoc)
  have h: "take 8 ?b = PushDiscriminator" using d by (simp add: push_account_def)
  have "?off + 60 \<le> length ?b" using len by simp
  note pm = price_message_in [OF this, unfolded f g]
  have "ParsePushOracle ?b = Some (Inr
      \<lparr>PriceUSD = real_of_int (to_int64 price) * power_int 10 (sint expo), ConfidenceUSD = real (unat conf) * power_int 10 (sint expo),
       FeedID = feed, PublishTime = to_int64 t\<rparr>)"
    using len off pm by (simp add: ParsePushOracle_def go_slice_in go_index_in offVerificationLevel_def h)
  with ParsePushOracle_total show ?thesis by blast
qed

theorem ParsePushOracle_decodes_witness:
  "ParsePushOracle (push_account (replicate 32 0) (Some 5) (replicate 32 7) 150 1 (- 1) 1000 (replicate 32 0)) = Some (Inr
     \<lparr>PriceUSD = real_of_int (to_int64 150) * power_int 10 (sint (- 1 :: u32)), ConfidenceUSD = real (unat (1 :: u64)) * power_int 10 (sint (- 1 :: u32)),
      FeedID = replicate 32 7, PublishTime = to_int64 1000\<rparr>)"
  by (rule ParsePushOracle_decodes [THEN conjunct1]) simp_all

section \<open>What the hub guarantees\<close>

definition latest_of :: "('u \<Rightarrow> 'f) \<Rightarrow> 'u list \<Rightarrow> 'f \<Rightarrow> 'u option" where
  "latest_of feedOf us f = (let vs = filter (\<lambda>u. feedOf u = f) us in if vs = [] then None else Some (last vs))"

fun unsent :: "'u phase \<Rightarrow> 'u list" where
  "unsent (Sending us) = us"
| "unsent _ = []"

definition hub_inv :: "('u \<Rightarrow> 'f) \<Rightarrow> ('f, 'u) hub \<Rightarrow> bool" where
  "hub_inv feedOf h \<longleftrightarrow>
     (\<forall>f. map_of (lastOf h) f = latest_of feedOf (published h) f) \<and> snd ` set (lastOf h) \<subseteq> set (published h) \<and>
     fst ` set (outbox h) \<subseteq> set (published h) \<and>
     (\<forall>c. length (buffer h c) \<le> subscriberBuffer \<and> set (unsent (phase h c)) \<union> set (buffer h c) \<union> set (received h c) \<subseteq> set (published h))"

lemma hub_inv_new: "hub_inv feedOf NewHub"
  by (simp add: hub_inv_def NewHub_def latest_of_def)

lemma latest_of_snoc: "latest_of feedOf (us @ [u]) f = (if feedOf u = f then Some u else latest_of feedOf us f)"
  by (simp add: latest_of_def Let_def)

lemma hub_inv_step:
  assumes "hub_inv feedOf h" and "hub_step feedOf e h = Some h'"
  shows "hub_inv feedOf h'"
proof (cases e)
  case (SubLock c)
  then have "h' = h\<lparr>subs := subs h @ [c], phase := (phase h)(c := Sending (map snd (lastOf h)))\<rparr>"
    using assms(2) by (simp split: if_splits)
  then show ?thesis using assms(1) by (auto simp: hub_inv_def)
next
  case (SubSend c)
  then obtain u us where p: "phase h c = Sending (u # us)" "length (buffer h c) < subscriberBuffer"
    and h': "h' = h\<lparr>buffer := (buffer h)(c := buffer h c @ [u]), phase := (phase h)(c := Sending us)\<rparr>"
    using assms(2) by (auto split: phase.splits list.splits if_splits)
  have "set (u # us) \<subseteq> set (published h)" using assms(1) p(1) unfolding hub_inv_def by (metis le_sup_iff unsent.simps(1))
  then show ?thesis using assms(1) p(2) by (auto simp: hub_inv_def h')
next
  case (Receive c)
  then obtain u us where p: "buffer h c = u # us"
    and h': "h' = h\<lparr>buffer := (buffer h)(c := us), received := (received h)(c := received h c @ [u])\<rparr>"
    using assms(2) by (auto split: list.splits if_splits)
  have "set (u # us) \<subseteq> set (published h)" "length (u # us) \<le> subscriberBuffer"
    using assms(1) p unfolding hub_inv_def by (metis le_sup_iff)+
  then show ?thesis using assms(1) by (auto simp: hub_inv_def h')
next
  case (PubLock u)
  then have "h' = h\<lparr>lastOf := AList.update (feedOf u) u (lastOf h), outbox := map (Pair u) (subs h), published := published h @ [u]\<rparr>"
    using assms(2) by (simp split: if_splits)
  moreover have "snd ` set (AList.update (feedOf u) u (lastOf h)) \<subseteq> snd ` insert (feedOf u, u) (set (lastOf h))"
    by (rule image_mono [OF set_alist_update])
  then have "snd ` set (AList.update (feedOf u) u (lastOf h)) \<subseteq> insert u (set (published h))"
    using assms(1) by (auto simp: hub_inv_def)
  ultimately show ?thesis using assms(1) by (simp add: hub_inv_def latest_of_snoc update_conv' subset_insertI2 image_image) auto
next
  case PubSend
  then obtain u c rest where o: "outbox h = (u, c) # rest"
    and h': "h' = (if shut h c then h\<lparr>outbox := rest, panicked := True\<rparr>
                else if length (buffer h c) < subscriberBuffer
                then h\<lparr>outbox := rest, buffer := (buffer h)(c := buffer h c @ [u])\<rparr>
                else h\<lparr>outbox := rest\<rparr>)"
    using assms(2) by (auto split: list.splits)
  show ?thesis using assms(1) o by (auto simp: hub_inv_def h')
next
  case (SubReturn c)
  then have "h' = h\<lparr>phase := (phase h)(c := Returned)\<rparr>" using assms(2) by (simp split: if_splits)
  then show ?thesis using assms(1) by (simp add: hub_inv_def)
next
  case (Unsubscribe c)
  then have "h' = h \<or> h' = h\<lparr>subs := removeAll c (subs h), shut := (shut h)(c := True)\<rparr>"
    using assms(2) by (auto split: if_splits)
  then show ?thesis using assms(1) by (elim disjE) (simp_all add: hub_inv_def)
qed

lemma hub_inv_run: "hub_run feedOf es h = Some h' \<Longrightarrow> hub_inv feedOf h \<Longrightarrow> hub_inv feedOf h'"
  by (induction es arbitrary: h) (auto split: option.splits intro: hub_inv_step)

text \<open>(C15) However subscribers and the publisher interleave: \<open>Latest\<close> is the last update published for a feed, a subscriber is
  never more than four updates behind, and it is only ever given updates that were published.\<close>

theorem hub_safe:
  assumes "hub_run feedOf es NewHub = Some h"
  shows "Latest h f = latest_of feedOf (published h) f \<and> length (buffer h c) \<le> subscriberBuffer \<and>
    set (received h c @ buffer h c) \<subseteq> set (published h)"
  using hub_inv_run [OF assms hub_inv_new] by (auto simp: hub_inv_def Latest_def)

theorem hub_safe_witness:
  "\<exists>h. hub_run fst [SubLock 0, SubReturn 0, PubLock (1 :: nat, True), PubSend, Receive 0] NewHub = Some h \<and> received h 0 = [(1, True)] \<and>
    Latest h 1 = latest_of fst (published h) 1"
proof -
  let ?es = "[SubLock 0, SubReturn 0, PubLock (1 :: nat, True), PubSend, Receive 0]"
  obtain h where "hub_run fst ?es NewHub = Some h" "received h 0 = [(1, True)]"
    by (simp add: NewHub_def subscriberBuffer_def)
  with hub_safe [of fst ?es h 1] show ?thesis by blast
qed

text \<open>A call of \<open>Subscribe\<close> whose cached updates do not fit into the buffer never returns: nobody reads the channel before.\<close>

lemma stuck_step:
  assumes "hub_step feedOf e h = Some h'" and "phase h c = Sending us" and "subscriberBuffer < length us + length (buffer h c)"
    and "length (buffer h c) \<le> subscriberBuffer"
  shows "\<exists>us'. phase h' c = Sending us' \<and> subscriberBuffer < length us' + length (buffer h' c) \<and> length (buffer h' c) \<le> subscriberBuffer"
proof (cases e)
  case (SubSend c')
  then show ?thesis using assms by (cases "c' = c") (auto split: phase.splits list.splits if_splits)
next
  case (SubReturn c')
  then show ?thesis using assms by (cases "c' = c") (auto split: if_splits)
next
  case (Receive c')
  then show ?thesis using assms by (cases "c' = c") (auto split: list.splits if_splits)
next
  case PubSend
  then obtain u d rest where o: "outbox h = (u, d) # rest" using assms(1) by (auto split: list.splits)
  then show ?thesis using assms PubSend by (cases "d = c") (auto split: if_splits)
next
  case (Unsubscribe c')
  then show ?thesis using assms by (auto split: if_splits)
qed (use assms in \<open>auto split: if_splits\<close>)

lemma stuck_run:
  assumes "hub_run feedOf es h = Some h'" and "phase h c = Sending us" and "subscriberBuffer < length us + length (buffer h c)"
    and "length (buffer h c) \<le> subscriberBuffer"
  shows "\<exists>us'. phase h' c = Sending us'"
  using assms
proof (induction es arbitrary: h us)
  case (Cons e es)
  then obtain h1 where h1: "hub_step feedOf e h = Some h1" "hub_run feedOf es h1 = Some h'" by (auto split: option.splits)
  from stuck_step [OF h1(1) Cons.prems(2-)] Cons.IH [OF h1(2)] show ?case by blast
qed simp

text \<open>(C37) \<open>Subscribe\<close> sends the cached updates into a buffer of four before it returns the channel: if more of them are left than the
  buffer has room, which is so with five known feeds or when the publisher is faster, the call never
  returns, whatever happens afterwards.\<close>

theorem Subscribe_never_returns:
  assumes "hub_run feedOf es0 NewHub = Some h" and "phase h c = Sending us" and "subscriberBuffer < length us + length (buffer h c)"
    and "hub_run feedOf es h = Some h'"
  shows "phase h' c \<noteq> Returned"
proof -
  have "length (buffer h c) \<le> subscriberBuffer" using hub_inv_run [OF assms(1) hub_inv_new] by (simp add: hub_inv_def)
  from stuck_run [OF assms(4,2,3) this] show ?thesis by auto
qed

theorem Subscribe_never_returns_witness:
  "\<exists>h us. hub_run id (map PubLock [1, 2, 3, 4, 5 :: nat] @ [SubLock 0]) NewHub = Some h \<and> phase h 0 = Sending us \<and> length us = 5 \<and>
    (\<forall>es h'. hub_run id es h = Some h' \<longrightarrow> phase h' 0 \<noteq> Returned)"
proof -
  let ?es = "map PubLock [1, 2, 3, 4, 5 :: nat] @ [SubLock 0]"
  obtain h where h: "hub_run id ?es NewHub = Some h" "phase h 0 = Sending [1, 2, 3, 4, 5]"
    by (simp add: NewHub_def)
  then have "subscriberBuffer < length [1, 2, 3, 4, 5 :: nat] + length (buffer h 0)" by (simp add: subscriberBuffer_def)
  from Subscribe_never_returns [OF h this] h show ?thesis by fastforce
qed

text \<open>The cached update can arrive after a newer one: a subscriber that has received everything sent to it ends with the
  older price of the feed, while the hub knows the newer.\<close>

theorem stale_price_delivered_last:
  assumes "feedOf a = feedOf b"
  shows "\<exists>es h. hub_run feedOf es NewHub = Some h \<and> received h c = [b, a] \<and> published h = [a, b] \<and> buffer h c = [] \<and> outbox h = [] \<and>
    Latest h (feedOf a) = Some b"
  using assms
  by (intro exI [of _ "[PubLock a, SubLock c, PubLock b, PubSend, SubSend c, SubReturn c, Receive c, Receive c]"])
     (simp add: NewHub_def subscriberBuffer_def Latest_def)

theorem stale_price_delivered_last_witness:
  "\<exists>es h. hub_run fst es NewHub = Some h \<and> received h 0 = [(1 :: nat, False), (1, True)] \<and> Latest h 1 = Some (1, False)"
  using stale_price_delivered_last [of fst "(1 :: nat, True)" "(1, False)" 0] by auto

text \<open>\<open>Publish\<close> sends outside the lock: a subscriber that unsubscribes in between makes it send on a closed channel, which panics.\<close>

lemma publish_on_closed: "\<exists>es h. hub_run feedOf es NewHub = Some h \<and> panicked h"
  by (intro exI [of _ "[SubLock 0, SubReturn 0, PubLock u, Unsubscribe 0, PubSend]"]) (simp add: NewHub_def)

section \<open>What the poller guarantees\<close>

lemma batch_loop_concat: "0 < n \<Longrightarrow> concat (batch_loop n mints) = mints"
proof (induction n mints rule: batch_loop.induct)
  case (1 n mints)
  then show ?case by (subst batch_loop.simps) (auto simp: Let_def)
qed

lemma batch_loop_bound: "b \<in> set (batch_loop n mints) \<Longrightarrow> b \<noteq> [] \<and> length b \<le> n"
proof (induction n mints rule: batch_loop.induct)
  case (1 n mints)
  let ?k = "if length mints < n then length mints else n"
  show ?case
  proof (cases "mints = [] \<or> n = 0")
    case True
    then show ?thesis using 1(2) by (simp add: batch_loop.simps [of n mints])
  next
    case False
    then have "b = take ?k mints \<or> b \<in> set (batch_loop n (drop ?k mints))"
      using 1(2) by (subst (asm) batch_loop.simps) (simp add: Let_def)
    with 1(1) False show ?thesis by (auto split: if_splits)
  qed
qed

lemma poll_loop_rotate:
  "idx < length batches \<Longrightarrow>
   poll_loop fetch batches idx ticks = concat (map (\<lambda>i. pollBatch fetch (ticks ! i) (batches ! ((idx + i) mod length batches))) [0..<length ticks])"
proof (induction ticks arbitrary: idx)
  case (Cons now ticks)
  have n: "0 < length batches" using Cons.prems by auto
  have "[0..<length (now # ticks)] = 0 # map Suc [0..<length ticks]" by (simp add: upt_conv_Cons map_Suc_upt del: upt_Suc)
  moreover have "(Suc idx mod length batches + i) mod length batches = Suc (idx + i) mod length batches" for i
    by (simp add: mod_add_left_eq)
  ultimately show ?case using Cons.IH [of "(idx + 1) mod length batches"] Cons.prems n by (simp add: comp_def del: upt_Suc)
qed simp

lemma mod_rotation: "idx < n \<Longrightarrow> mset (map (\<lambda>i. (idx + i) mod n) [0..<n]) = mset [0..<n]"
proof -
  assume "idx < n"
  have "map (\<lambda>i. (idx + i) mod n) [0..<n] = rotate idx [0..<n]"
    by (rule nth_equalityI) (simp_all add: nth_rotate)
  then have "distinct (map (\<lambda>i. (idx + i) mod n) [0..<n])" "set (map (\<lambda>i. (idx + i) mod n) [0..<n]) = set [0..<n]"
    by (simp_all only: distinct_rotate distinct_upt set_rotate)
  then show ?thesis using set_eq_iff_mset_eq_distinct distinct_upt by blast
qed

lemma mints_pollBatch:
  assumes "fetch batch = Some prices"
  shows "map uMint (pollBatch fetch now batch) = filter (\<lambda>m. prices m \<noteq> None) batch"
proof -
  have "map uMint (concat (map (\<lambda>mint. case prices mint of None \<Rightarrow> [] | Some tp \<Rightarrow> [\<lparr>uMint = mint, uPrice = tp, uFetchedAt = now\<rparr>]) ms))
      = filter (\<lambda>m. prices m \<noteq> None) ms" for ms
    by (induction ms) (auto split: option.split)
  with assms show ?thesis by (simp add: pollBatch_def)
qed

lemma mset_concat_map: "mset (concat (map F ys)) = sum_mset (image_mset (\<lambda>y. mset (F y)) (mset ys))"
  by (induction ys) simp_all

lemma concat_map_filter: "concat (map (\<lambda>b. filter P b) bs) = filter P (concat bs)"
  by (induction bs) simp_all

text \<open>Polling is fair: in as many ticks as there are batches, from whichever batch on, every mint of the configuration is asked
  for once, in requests of at most fifty, and exactly the mints the service has a price for are published.\<close>

theorem poll_round:
  assumes "New cfg = Some (Inr p)" and "idx < length (pbatches p)" and "length ticks = length (pbatches p)"
    and "\<And>b. length b \<le> MaxMintsPerRequest \<Longrightarrow> fetch b = Some (quote |` set b)"
  shows "(\<forall>b \<in> set (pbatches p). length b \<le> MaxMintsPerRequest) \<and>
    mset (map uMint (poll_loop fetch (pbatches p) idx ticks)) = mset (filter (\<lambda>m. quote m \<noteq> None) (cMints cfg))"
proof -
  let ?B = "pbatches p" and ?P = "\<lambda>m. quote m \<noteq> None"
  have B: "?B = batch_loop MaxMintsPerRequest (cMints cfg)"
    using assms(1) by (auto simp: New_def Let_def batchMints_def MaxMintsPerRequest_def split: if_splits)
  have bound: "\<forall>b \<in> set ?B. length b \<le> MaxMintsPerRequest" using batch_loop_bound unfolding B by blast
  have each: "map uMint (pollBatch fetch now b) = filter ?P b" if "b \<in> set ?B" for now b
  proof -
    have "fetch b = Some (quote |` set b)" using that bound assms(4) by simp
    then have "map uMint (pollBatch fetch now b) = filter (\<lambda>m. (quote |` set b) m \<noteq> None) b"
      by (rule mints_pollBatch)
    then show ?thesis by (auto intro!: filter_cong)
  qed
  have n: "0 < length ?B" using assms(2) by auto
  have "map uMint (poll_loop fetch ?B idx ticks) =
      concat (map (\<lambda>i. map uMint (pollBatch fetch (ticks ! i) (?B ! ((idx + i) mod length ?B)))) [0..<length ?B])"
    by (simp only: poll_loop_rotate [OF assms(2)] map_concat map_map comp_def assms(3))
  also have "\<dots> = concat (map (\<lambda>j. filter ?P (?B ! j)) (map (\<lambda>i. (idx + i) mod length ?B) [0..<length ?B]))"
    using each n by (simp add: comp_def)
  finally have "mset (map uMint (poll_loop fetch ?B idx ticks)) = mset (concat (map (\<lambda>j. filter ?P (?B ! j)) [0..<length ?B]))"
    using mod_rotation [OF assms(2)] by (simp only: mset_concat_map)
  also have "map (\<lambda>j. filter ?P (?B ! j)) [0..<length ?B] = map (filter ?P) ?B"
    by (rule nth_equalityI) simp_all
  also have "concat (map (filter ?P) ?B) = filter ?P (cMints cfg)"
    using batch_loop_concat [of MaxMintsPerRequest "cMints cfg"] by (simp only: concat_map_filter B) (simp add: MaxMintsPerRequest_def)
  finally show ?thesis using bound by blast
qed

theorem poll_round_witness:
  "\<exists>p. New \<lparr>cMints = [[1], [2]], cInterval = 0\<rparr> = Some (Inr p) \<and>
    mset (map uMint (poll_loop (\<lambda>b. Some (Map.empty |` set b)) (pbatches p) 0 [7])) = {#}"
proof -
  have b: "batch_loop MaxMintsPerRequest [[1], [2] :: pubkey] = [[[1], [2]]]"
    by (simp add: batch_loop.simps MaxMintsPerRequest_def)
  obtain p where p: "New \<lparr>cMints = [[1], [2]], cInterval = 0\<rparr> = Some (Inr p)" "pbatches p = [[[1], [2]]]"
    using b by (simp add: New_def Let_def batchMints_def) (simp add: MaxMintsPerRequest_def)
  from poll_round [OF p(1), of 0 "[7]" "\<lambda>b. Some (Map.empty |` set b)" Map.empty] p show ?thesis by simp
qed

end
