(* ===== verification/Board.thy ===== *)
theory Board
  imports Wire "HOL-Library.List_Lexorder" "HOL-Library.Char_ord" "HOL-Library.Multiset"
begin

unbundle bit_operations_syntax

text \<open>
  The health board of \<open>src/brain/xstockshealthv1\<close>: the loop that takes the bot's messages into four stores
  (\<open>instance.go\<close>), the stores, and the page data built from them for a request (\<open>dashboard.go\<close>).

  Doubles arrive as bit patterns and are read as IEEE 754 values where the code compares or prints them; the percentages
  the page computes are reals. \<open>sort.Slice\<close> and the order of a map are parameters, since ties and
  iteration are in no fixed order; base-58, the request's query and HTML rendering are parameters or left out.
\<close>

section \<open>Doubles\<close>

definition float_value :: "float64 \<Rightarrow> gofloat" where
  "float_value f =
     (let b = Float64bits f; neg = bit b 63; e = uint (drop_bit 52 b AND 0x7FF); m = uint (b AND 0xFFFFFFFFFFFFF)
      in if e = 0x7FF then (if m \<noteq> 0 then NaN else if neg then NegInf else PosInf)
         else let r = (if e = 0 then of_int m * 2 powi (- 1074) else of_int (m + 2 ^ 52) * 2 powi (e - 1075))
              in Finite (if neg then - r else r))"

fun float_less :: "gofloat \<Rightarrow> gofloat \<Rightarrow> bool" where
  "float_less (Finite x) (Finite y) = (x < y)"
| "float_less NaN _ = False"
| "float_less _ NaN = False"
| "float_less PosInf _ = False"
| "float_less _ PosInf = True"
| "float_less NegInf y = (y \<noteq> NegInf)"
| "float_less _ NegInf = False"

text \<open>\<open>math.IsInf(f, 1)\<close>.\<close>

definition IsInf :: "float64 \<Rightarrow> bool" where "IsInf f = (float_value f = PosInf)"

text \<open>Printing with \<open>d\<close> decimals: round to the nearest, ties to even.\<close>

definition round_even :: "real \<Rightarrow> int" where
  "round_even x =
     (let n = \<lfloor>x\<rfloor>; r = x - of_int n
      in if r < 1 / 2 then n else if r > 1 / 2 then n + 1 else if even n then n else n + 1)"

definition pad :: "nat \<Rightarrow> string \<Rightarrow> string" where
  "pad d s = replicate (d - length s) (CHR ''0'') @ s"

definition fixed :: "nat \<Rightarrow> real \<Rightarrow> string" where
  "fixed d x =
     (let n = nat (round_even (x * 10 ^ d))
      in if d = 0 then dec n else dec (n div 10 ^ d) @ ''.'' @ pad d (dec (n mod 10 ^ d)))"

definition sprintf_f :: "nat \<Rightarrow> float64 \<Rightarrow> string" where
  "sprintf_f d f =
     (case float_value f of
        NaN \<Rightarrow> ''NaN''
      | PosInf \<Rightarrow> ''+Inf''
      | NegInf \<Rightarrow> ''-Inf''
      | Finite x \<Rightarrow> (if bit (Float64bits f) 63 then ''-'' else []) @ fixed d \<bar>x\<bar>)"

definition dec_int :: "int \<Rightarrow> string" where
  "dec_int i = (if i < 0 then ''-'' @ dec (nat (- i)) else dec (nat i))"

text \<open>The characters of the page outside ASCII, as UTF-8.\<close>

definition utf8 :: "nat list \<Rightarrow> string" where "utf8 bs = map char_of bs"

definition infinity_sign :: string where "infinity_sign = utf8 [0xE2, 0x88, 0x9E]"

section \<open>The stores\<close>

record board_store =
  total :: u64
  entries :: "health_entry list"
  updated :: bool

definition maxLiquidationEvents :: nat where "maxLiquidationEvents = 50"
definition maxDexTicks :: nat where "maxDexTicks = 40"

record stores =
  board :: board_store
  liquidations :: "liquidation_event list"
  dex :: "dex_tick list"
  overview :: "market_overview \<times> bool"

definition set_board :: "u64 \<Rightarrow> health_entry list \<Rightarrow> board_store \<Rightarrow> board_store" where
  "set_board t es b = b\<lparr>total := t, entries := es, updated := True\<rparr>"

definition add_liquidation :: "liquidation_event \<Rightarrow> liquidation_event list \<Rightarrow> liquidation_event list" where
  "add_liquidation ev evs =
     (let evs = [ev] @ evs in if length evs > maxLiquidationEvents then take maxLiquidationEvents evs else evs)"

definition add_ticks :: "dex_tick list \<Rightarrow> dex_tick list \<Rightarrow> dex_tick list" where
  "add_ticks ts d =
     (if length ts = 0 then d
      else let reversed = map (\<lambda>i. ts ! (length ts - 1 - i)) [0..<length ts]; d = reversed @ d
           in if length d > maxDexTicks then take maxDexTicks d else d)"

definition set_overview :: "market_overview \<Rightarrow> market_overview \<times> bool \<Rightarrow> market_overview \<times> bool" where
  "set_overview m o' = (m, True)"

definition zero_overview :: market_overview where
  "zero_overview =
     \<lparr>ReservesMonitored = 0, PoolsMonitored = 0, RiskTierCounts = [0, 0, 0, 0], ArbDetectedUSD = Float64frombits 0,
      LiquidationPnLUSD = Float64frombits 0, ArbDetectionCount = 0, ArbByTicker = []\<rparr>"

definition new_stores :: stores where
  "new_stores =
     \<lparr>board = \<lparr>total = 0, entries = [], updated = False\<rparr>, liquidations = [], dex = [], overview = (zero_overview, False)\<rparr>"

section \<open>The message loop\<close>

definition KeyFlagHealthBoard :: byte where "KeyFlagHealthBoard = 10"
definition KeyFlagLiquidationEvent :: byte where "KeyFlagLiquidationEvent = 11"
definition KeyFlagDexActivity :: byte where "KeyFlagDexActivity = 13"
definition KeyFlagMarketOverview :: byte where "KeyFlagMarketOverview = 14"

text \<open>\<open>with_parsed\<close>: a message that does not parse is logged and skipped; \<open>None\<close> is a panic of the parser.\<close>

definition with_parsed :: "(wire_error + 'a) option \<Rightarrow> ('a \<Rightarrow> stores \<Rightarrow> stores) \<Rightarrow> stores \<Rightarrow> stores option" where
  "with_parsed r f s = (case r of None \<Rightarrow> None | Some (Inl e) \<Rightarrow> Some s | Some (Inr x) \<Rightarrow> Some (f x s))"

definition on_message :: "byte list \<Rightarrow> byte list \<Rightarrow> stores \<Rightarrow> stores option" where
  "on_message key value s =
     (if length key \<noteq> 1 then Some s
      else if key ! 0 = KeyFlagHealthBoard then
        with_parsed (ParseHealthBoard value) (\<lambda>(t, es). board_update (set_board t es)) s
      else if key ! 0 = KeyFlagLiquidationEvent then
        with_parsed (ParseLiquidationEvent value) (\<lambda>ev. liquidations_update (add_liquidation ev)) s
      else if key ! 0 = KeyFlagDexActivity then
        with_parsed (ParseDexActivity value) (\<lambda>ts. dex_update (add_ticks ts)) s
      else if key ! 0 = KeyFlagMarketOverview then
        with_parsed (ParseMarketOverview value) (\<lambda>m. overview_update (set_overview m)) s
      else Some s)"

text \<open>What the \<open>select\<close> takes: a message, or one of the three events that end the loop with their cause.\<close>

datatype loop_event = Message "byte list" "byte list" | CtxDone | StdoutError string | BotClosed "string option"

fun loopInstance :: "loop_event list \<Rightarrow> stores \<Rightarrow> (stores \<times> string option option) option" where
  "loopInstance [] s = Some (s, None)"
| "loopInstance (Message key value # es) s = do { s \<leftarrow> on_message key value s; loopInstance es s }"
| "loopInstance (CtxDone # es) s = Some (s, Some None)"
| "loopInstance (StdoutError e # es) s = Some (s, Some (Some (''sub stdout error: '' @ e)))"
| "loopInstance (BotClosed e # es) s = Some (s, Some e)"

section \<open>Markets that move\<close>

record ticker_activity =
  aTicker :: string
  aCount :: nat

record display_ticker_activity =
  dTicker :: string
  dCount :: nat
  WidthPct :: string

text \<open>\<open>counts[t.Ticker]++\<close>.\<close>

definition count_ticks :: "dex_tick list \<Rightarrow> (string \<times> nat) list" where
  "count_ticks ts = fold (\<lambda>t m. AList.update (Ticker t) (map_get 0 (map_of m) (Ticker t) + 1) m) ts []"

definition busier :: "ticker_activity \<Rightarrow> ticker_activity \<Rightarrow> bool" where
  "busier a b = (if aCount a \<noteq> aCount b then aCount a > aCount b else aTicker a < aTicker b)"

text \<open>\<open>iter\<close> is the order in which \<open>range counts\<close> visits the map, \<open>sortSlice\<close> is \<open>sort.Slice\<close> on this type.\<close>

definition movingMarkets ::
  "((string \<times> nat) list \<Rightarrow> (string \<times> nat) list) \<Rightarrow>
   ((ticker_activity \<Rightarrow> ticker_activity \<Rightarrow> bool) \<Rightarrow> ticker_activity list \<Rightarrow> ticker_activity list) \<Rightarrow> dex_tick list \<Rightarrow> ticker_activity list" where
  "movingMarkets iter sortSlice ts =
     sortSlice busier (map (\<lambda>(t, n). \<lparr>aTicker = t, aCount = n\<rparr>) (iter (count_ticks ts)))"

definition toDisplayMovingMarkets :: "ticker_activity list \<Rightarrow> display_ticker_activity list" where
  "toDisplayMovingMarkets activity =
     (let mx = fold (\<lambda>a mx. if aCount a > mx then aCount a else mx) activity 0
      in map (\<lambda>a. \<lparr>dTicker = aTicker a, dCount = aCount a,
                    WidthPct = fixed 0 (if mx > 0 then real (aCount a) / real mx * 100 else 0)\<rparr>) activity)"

section \<open>Rows\<close>

record display_entry =
  dAccountID :: u64
  Collateral :: string
  Debt :: string
  dHealthFactor :: string
  Risky :: bool

definition one_and_half :: gofloat where "one_and_half = Finite (3 / 2)"

definition health_text :: "float64 \<Rightarrow> string" where
  "health_text hf = (if IsInf hf then infinity_sign else sprintf_f 2 hf)"

definition side_text :: "string \<Rightarrow> float64 \<Rightarrow> string" where
  "side_text t usd =
     (if float_less (Finite 0) (float_value usd) then t @ ''  $'' @ sprintf_f 2 usd else ''$'' @ sprintf_f 2 usd)"

definition toDisplay :: "health_entry list \<Rightarrow> display_entry list" where
  "toDisplay es =
     map (\<lambda>e. \<lparr>dAccountID = AccountID e, Collateral = side_text (CollateralTicker e) (CollateralUSD e),
               Debt = side_text (DebtTicker e) (DebtUSD e), dHealthFactor = health_text (HealthFactor e),
               Risky = float_less (float_value (HealthFactor e)) one_and_half\<rparr>) es"

record display_liquidation =
  dObligation :: u64
  dRepayTicker :: string
  dWithdrawTicker :: string
  dRepayUSD :: string
  EstimatedBonus :: string
  HealthBefore :: string
  dSlot :: u64
  ExplorerURL :: string
  SigShort :: string
  dSentOK :: bool

definition sig_short :: "string \<Rightarrow> string" where
  "sig_short sig = (if length sig > 12 then take 6 sig @ utf8 [0xE2, 0x80, 0xA6] @ drop (length sig - 6) sig else sig)"

text \<open>\<open>encode\<close> is the library's \<open>Signature.String\<close>.\<close>

definition toDisplayLiquidations :: "(byte list \<Rightarrow> string) \<Rightarrow> liquidation_event list \<Rightarrow> display_liquidation list" where
  "toDisplayLiquidations encode evs =
     map (\<lambda>ev. let sig = encode (Signature ev)
               in \<lparr>dObligation = Obligation ev, dRepayTicker = RepayTicker ev, dWithdrawTicker = WithdrawTicker ev,
                   dRepayUSD = ''$'' @ sprintf_f 2 (RepayUSD ev), EstimatedBonus = ''~$'' @ sprintf_f 2 (EstimatedBonusUSD ev),
                   HealthBefore = health_text (HealthFactorBefore ev), dSlot = Slot ev,
                   ExplorerURL = ''https://explorer.solana.com/tx/'' @ sig, SigShort = sig_short sig, dSentOK = SentOK ev\<rparr>) evs"

record display_dex_tick =
  tTicker :: string
  tPriceUSD :: string
  tUp :: bool
  tSlot :: u64

definition toDisplayDexTicks :: "dex_tick list \<Rightarrow> display_dex_tick list" where
  "toDisplayDexTicks ts =
     map (\<lambda>t. \<lparr>tTicker = Ticker t, tPriceUSD = ''$'' @ sprintf_f 2 (PriceUSD t), tUp = Up t, tSlot = TSlot t\<rparr>) ts"

section \<open>Pages\<close>

definition pageSize :: int where "pageSize = 20"

record page_window =
  Page :: int
  TotalPages :: int
  TotalRows :: int
  HasPrev :: bool
  HasNext :: bool
  PrevURL :: string
  NextURL :: string

definition page_url :: "string \<Rightarrow> string \<Rightarrow> int \<Rightarrow> int \<Rightarrow> string" where
  "page_url thisParam otherParam otherPage p =
     ''/?'' @ thisParam @ ''='' @ dec_int p @ ''&'' @ otherParam @ ''='' @ dec_int otherPage"

text \<open>\<open>items[start:end]\<close> panics outside \<open>0 \<le> start \<le> end \<le> len(items)\<close>.\<close>

definition slice_between :: "int \<Rightarrow> int \<Rightarrow> 'a list \<Rightarrow> 'a list option" where
  "slice_between start stop xs =
     (if 0 \<le> start \<and> start \<le> stop \<and> stop \<le> int (length xs) then Some (take (nat (stop - start)) (drop (nat start) xs)) else None)"

definition paginateSlice :: "'a list \<Rightarrow> int \<Rightarrow> string \<Rightarrow> string \<Rightarrow> int \<Rightarrow> ('a list \<times> page_window) option" where
  "paginateSlice items page thisParam otherParam otherPage =
     (let tot = int (length items);
          totalPages = (tot + pageSize - 1) div pageSize;
          totalPages = (if totalPages < 1 then 1 else totalPages);
          page = (if page < 1 then 1 else page);
          page = (if page > totalPages then totalPages else page);
          start = (page - 1) * pageSize;
          stop = start + pageSize;
          start = (if start > tot then tot else start);
          stop = (if stop > tot then tot else stop);
          url = page_url thisParam otherParam otherPage
      in do {
        rows \<leftarrow> slice_between start stop items;
        Some (rows, \<lparr>Page = page, TotalPages = totalPages, TotalRows = tot, HasPrev = page > 1, HasNext = page < totalPages,
                     PrevURL = url (page - 1), NextURL = url (page + 1)\<rparr>) })"

section \<open>The pie of risk tiers\<close>

record risk_slice =
  Label :: string
  RCount :: u64
  Pct :: string
  Color :: string

definition riskTierLabels :: "string list" where
  "riskTierLabels =
     [''Eligible now ('' @ utf8 [0xE2, 0x89, 0xA4] @ ''1.0)'', ''At risk (1.0-1.5)'', ''Watch (1.5-3.0)'',
      ''Safe ('' @ utf8 [0xE2, 0x89, 0xA5] @ ''3.0)'']"

definition riskTierColors :: "string list" where
  "riskTierColors = [''#f85149'', ''#f0883e'', ''#d29922'', ''#3fb950'']"

definition share :: "u64 \<Rightarrow> u64 \<Rightarrow> real" where
  "share tot c = real (unat c) / real (unat tot) * 100"

text \<open>One turn of the loop; a segment is kept as its colour and its two ends until it is printed.\<close>

fun pie_loop :: "u64 \<Rightarrow> (string \<times> string \<times> u64) list \<Rightarrow> real \<Rightarrow> risk_slice list \<times> (string \<times> real \<times> real) list" where
  "pie_loop tot [] cumulative = ([], [])"
| "pie_loop tot ((lab, color, c) # rest) cumulative =
     (let pct = share tot c;
          sl = \<lparr>Label = lab, RCount = c, Pct = fixed 1 pct, Color = color\<rparr>;
          nxt = cumulative + pct;
          (sls, segs) = pie_loop tot rest nxt
      in (sl # sls, (if c > 0 then [(color, cumulative, nxt)] else []) @ segs))"

definition segment_text :: "string \<times> real \<times> real \<Rightarrow> string" where
  "segment_text = (\<lambda>(color, a, b). color @ '' '' @ fixed 2 a @ ''% '' @ fixed 2 b @ ''%'')"

definition pie_rows :: "u64 list \<Rightarrow> (string \<times> string \<times> u64) list" where
  "pie_rows counts = zip riskTierLabels (zip riskTierColors counts)"

definition buildRiskPie :: "u64 list \<Rightarrow> risk_slice list \<times> string" where
  "buildRiskPie counts =
     (let tot = fold (\<lambda>c t. t + c) counts 0
      in if tot = 0 then (map (\<lambda>(lab, color, c). \<lparr>Label = lab, RCount = 0, Pct = ''0.0'', Color = color\<rparr>) (pie_rows counts),
           ''conic-gradient(#30363d 0% 100%)'')
         else let (sls, segs) = pie_loop tot (pie_rows counts) 0
              in (sls, ''conic-gradient('' @ join '', '' (map segment_text segs) @ '')''))"

section \<open>The page of a request\<close>

record page_data =
  Updated :: bool
  TotalTracked :: u64
  Entries :: "display_entry list"
  BoardWindow :: page_window
  WorstHealthFactor :: string
  AtRiskCount :: int
  Liquidations :: "display_liquidation list"
  LiqWindow :: page_window
  DexTicks :: "display_dex_tick list"
  MovingMarkets :: "display_ticker_activity list"
  OverviewUpdated :: bool
  pReservesMonitored :: u16
  pPoolsMonitored :: u16
  pArbDetectedUSD :: string
  pArbDetectionCount :: u64
  pArbByTicker :: "arb_ticker_amount list"
  pLiquidationPnLUSD :: string
  RiskSlices :: "risk_slice list"
  RiskPieCSS :: string

definition dearer :: "arb_ticker_amount \<Rightarrow> arb_ticker_amount \<Rightarrow> bool" where
  "dearer a b = float_less (float_value (USD b)) (float_value (USD a))"

definition buildPageData ::
  "(byte list \<Rightarrow> string) \<Rightarrow>
   ((arb_ticker_amount \<Rightarrow> arb_ticker_amount \<Rightarrow> bool) \<Rightarrow> arb_ticker_amount list \<Rightarrow> arb_ticker_amount list) \<Rightarrow>
   board_store \<Rightarrow> liquidation_event list \<Rightarrow> dex_tick list \<Rightarrow> ticker_activity list \<Rightarrow> market_overview \<times> bool \<Rightarrow>
   int \<Rightarrow> int \<Rightarrow> page_data option" where
  "buildPageData encode sortSlice b liqs ticks moving ov boardPage liqPage =
     (let disp = toDisplay (entries b);
          worst = (case entries b of [] \<Rightarrow> ''n/a'' | e # _ \<Rightarrow> health_text (HealthFactor e));
          atRisk = fold (\<lambda>e n. if float_less (float_value (HealthFactor e)) one_and_half then n + 1 else n) (entries b) 0;
          (slices, css) = buildRiskPie (RiskTierCounts (fst ov));
          displayLiqs = toDisplayLiquidations encode liqs
      in do {
        (boardRows, boardWindow) \<leftarrow> paginateSlice disp boardPage ''boardPage'' ''liqPage'' liqPage;
        (liqRows, liqWindow) \<leftarrow> paginateSlice displayLiqs liqPage ''liqPage'' ''boardPage'' boardPage;
        Some \<lparr>Updated = updated b, TotalTracked = total b, Entries = boardRows, BoardWindow = boardWindow,
              WorstHealthFactor = worst, AtRiskCount = atRisk, Liquidations = liqRows, LiqWindow = liqWindow,
              DexTicks = toDisplayDexTicks ticks, MovingMarkets = toDisplayMovingMarkets moving,
              OverviewUpdated = snd ov, pReservesMonitored = ReservesMonitored (fst ov),
              pPoolsMonitored = PoolsMonitored (fst ov), pArbDetectedUSD = ''$'' @ sprintf_f 2 (ArbDetectedUSD (fst ov)),
              pArbDetectionCount = ArbDetectionCount (fst ov), pArbByTicker = sortSlice dearer (ArbByTicker (fst ov)),
              pLiquidationPnLUSD = ''$'' @ sprintf_f 2 (LiquidationPnLUSD (fst ov)), RiskSlices = slices,
              RiskPieCSS = css\<rparr> })"

text \<open>\<open>strconv.Atoi\<close>.\<close>

definition sign_split :: "string \<Rightarrow> bool \<times> string" where
  "sign_split s =
     (case s of
        [] \<Rightarrow> (False, [])
      | c # cs \<Rightarrow> if c = CHR ''-'' then (True, cs) else if c = CHR ''+'' then (False, cs) else (False, s))"

definition Atoi :: "string \<Rightarrow> int option" where
  "Atoi s =
     (let (neg, ds) = sign_split s; n = (if neg then - int (undec ds) else int (undec ds))
      in if ds = [] \<or> \<not> list_all is_digit ds \<or> n < - (2 ^ 63) \<or> 2 ^ 63 \<le> n then None else Some n)"

text \<open>\<open>query\<close> is \<open>r.URL.Query().Get\<close>: the empty string for an absent key.\<close>

definition queryInt :: "(string \<Rightarrow> string) \<Rightarrow> string \<Rightarrow> int \<Rightarrow> int" where
  "queryInt query key dflt =
     (let v = query key in if v = [] then dflt else case Atoi v of None \<Rightarrow> dflt | Some n \<Rightarrow> n)"

definition serve_page ::
  "(byte list \<Rightarrow> string) \<Rightarrow> ((string \<times> nat) list \<Rightarrow> (string \<times> nat) list) \<Rightarrow>
   ((ticker_activity \<Rightarrow> ticker_activity \<Rightarrow> bool) \<Rightarrow> ticker_activity list \<Rightarrow> ticker_activity list) \<Rightarrow>
   ((arb_ticker_amount \<Rightarrow> arb_ticker_amount \<Rightarrow> bool) \<Rightarrow> arb_ticker_amount list \<Rightarrow> arb_ticker_amount list) \<Rightarrow>
   (string \<Rightarrow> string) \<Rightarrow> stores \<Rightarrow> page_data option" where
  "serve_page encode iter sortT sortA query s =
     buildPageData encode sortA (board s) (liquidations s) (dex s) (movingMarkets iter sortT (dex s)) (overview s)
       (queryInt query ''boardPage'' 1) (queryInt query ''liqPage'' 1)"

section \<open>The stores follow the messages\<close>

text \<open>The payloads of the messages with a flag that parse, in the order of their arrival.\<close>

definition parsed :: "byte \<Rightarrow> (byte list \<Rightarrow> (wire_error + 'a) option) \<Rightarrow> (byte list \<times> byte list) list \<Rightarrow> 'a list" where
  "parsed flag parse ms =
     List.map_filter (\<lambda>(key, val). if key = [flag] then (case parse val of Some (Inr x) \<Rightarrow> Some x | _ \<Rightarrow> None) else None) ms"

definition stores_of :: "(byte list \<times> byte list) list \<Rightarrow> stores" where
  "stores_of ms =
     \<lparr>board = (case rev (parsed KeyFlagHealthBoard ParseHealthBoard ms) of
                [] \<Rightarrow> board new_stores | (t, es) # _ \<Rightarrow> \<lparr>total = t, entries = es, updated = True\<rparr>),
      liquidations = take 50 (rev (parsed KeyFlagLiquidationEvent ParseLiquidationEvent ms)),
      dex = take 40 (rev (concat (parsed KeyFlagDexActivity ParseDexActivity ms))),
      overview = (case rev (parsed KeyFlagMarketOverview ParseMarketOverview ms) of
                [] \<Rightarrow> overview new_stores | m # _ \<Rightarrow> (m, True))\<rparr>"

lemma parsed_Nil [simp]: "parsed flag parse [] = []"
  by (simp add: parsed_def map_filter_def)

lemma parsed_snoc:
  "parsed flag parse (ms @ [(key, val)]) =
     parsed flag parse ms @ (if key = [flag] then (case parse val of Some (Inr x) \<Rightarrow> [x] | _ \<Rightarrow> []) else [])"
  by (auto simp: parsed_def map_filter_def split: option.splits sum.splits)

lemma add_liquidation_take: "add_liquidation ev (take 50 evs) = take 50 (ev # evs)"
  by (simp add: add_liquidation_def maxLiquidationEvents_def Let_def take_Cons' min_def)

lemma reversed_is_rev: "map (\<lambda>i. ts ! (length ts - Suc i)) [0..<length ts] = rev ts"
  by (rule nth_equalityI) (auto simp: rev_nth)

lemma add_ticks_take: "add_ticks ts (take 40 d) = take 40 (rev ts @ d)"
  by (auto simp: add_ticks_def reversed_is_rev maxDexTicks_def min_def Let_def)

lemma on_message_keys:
  assumes "length key \<noteq> 1"
  shows "key \<noteq> [flag]"
  using assms by auto

lemma on_message_follows: "on_message key val (stores_of ms) = Some (stores_of (ms @ [(key, val)]))"
proof (cases "length key = 1")
  case True
  then obtain b where key: "key = [b]" by (cases key) auto
  show ?thesis
    using parsers_total(1-4) [of val]
    by (auto simp: key on_message_def with_parsed_def stores_of_def parsed_snoc KeyFlagHealthBoard_def KeyFlagLiquidationEvent_def
        KeyFlagDexActivity_def KeyFlagMarketOverview_def set_board_def set_overview_def add_liquidation_take add_ticks_take
        new_stores_def split: sum.splits list.splits)
next
  case False
  then show ?thesis by (simp add: on_message_def stores_of_def parsed_snoc on_message_keys)
qed

lemma stores_of_Nil: "stores_of [] = new_stores"
  by (simp add: stores_of_def new_stores_def)

lemma loop_follows: "loopInstance (map (case_prod Message) ms @ es) (stores_of prev) = loopInstance es (stores_of (prev @ ms))"
proof (induction ms arbitrary: prev)
  case (Cons m ms)
  obtain key val where m: "m = (key, val)" by (cases m)
  have "loopInstance (map (case_prod Message) (m # ms) @ es) (stores_of prev) =
      loopInstance (map (case_prod Message) ms @ es) (stores_of (prev @ [m]))"
    by (simp add: m on_message_follows)
  then show ?case using Cons.IH [of "prev @ [m]"] by simp
qed simp

text \<open>(C25) Whatever messages arrive, malformed ones included, the loop does not panic, and when it is stopped, in any of the three ways, the stores hold the
  last health board and overview that parsed, the newest 50 liquidations and the newest 40 ticks, newest first.\<close>

theorem stores_follow_messages:
  "loopInstance (map (case_prod Message) ms) new_stores = Some (stores_of ms, None) \<and>
   loopInstance (map (case_prod Message) ms @ CtxDone # es) new_stores = Some (stores_of ms, Some None) \<and>
   loopInstance (map (case_prod Message) ms @ StdoutError e # es) new_stores = Some (stores_of ms, Some (Some (''sub stdout error: '' @ e))) \<and>
   loopInstance (map (case_prod Message) ms @ BotClosed c # es) new_stores = Some (stores_of ms, Some c)"
  using loop_follows [of ms _ "[]"] loop_follows [of ms "[]" "[]"] by (simp add: stores_of_Nil)

section \<open>Printed numbers\<close>

lemma dec_head: "dec n = c # cs \<Longrightarrow> is_digit c"
  using dec_digits [of n] by simp

lemma Atoi_dec_int: "- (2 ^ 63) \<le> i \<Longrightarrow> i < 2 ^ 63 \<Longrightarrow> Atoi (dec_int i) = Some i"
proof -
  assume i: "- (2 ^ 63) \<le> i" "i < 2 ^ 63"
  have "sign_split (dec (nat i)) = (False, dec (nat i))"
    using dec_head [of "nat i"] dec_digits [of "nat i"] by (cases "dec (nat i)") (auto simp: sign_split_def is_digit_def)
  then show ?thesis
    using i dec_digits by (auto simp: dec_int_def Atoi_def sign_split_def undec_dec)
qed

section \<open>Pages cover the rows\<close>

definition total_pages :: "'a list \<Rightarrow> int" where
  "total_pages items = max 1 ((int (length items) + 19) div 20)"

definition page_rows :: "'a list \<Rightarrow> int \<Rightarrow> 'a list" where
  "page_rows items p = take 20 (drop (nat (20 * (p - 1))) items)"

definition clamp :: "int \<Rightarrow> int \<Rightarrow> int" where
  "clamp n p = max 1 (min n p)"

definition window_of :: "'a list \<Rightarrow> int \<Rightarrow> string \<Rightarrow> string \<Rightarrow> int \<Rightarrow> page_window" where
  "window_of items p this other otherPage =
     \<lparr>Page = p, TotalPages = total_pages items, TotalRows = int (length items), HasPrev = p > 1,
      HasNext = p < total_pages items, PrevURL = page_url this other otherPage (p - 1),
      NextURL = page_url this other otherPage (p + 1)\<rparr>"

lemma paginateSlice_page:
  assumes "p = clamp (total_pages items) page"
  shows "paginateSlice items page this other otherPage = Some (page_rows items p, window_of items p this other otherPage)"
proof -
  let ?n = "int (length items)"
  have p: "(if (if page < 1 then 1 else page) > total_pages items then total_pages items else if page < 1 then 1 else page) = p"
    using assms by (auto simp: clamp_def total_pages_def)
  have t: "(if (?n + 20 - 1) div 20 < 1 then 1 else (?n + 20 - 1) div 20) = total_pages items"
    by (auto simp: total_pages_def max_def add.commute)
  have "1 \<le> p" "p \<le> total_pages items" using assms by (auto simp: clamp_def total_pages_def)
  then have "20 * (p - 1) \<le> ?n" by (auto simp: total_pages_def max_def split: if_splits)
  moreover from this have "slice_between ((p - 1) * 20) (if (p - 1) * 20 + 20 > ?n then ?n else (p - 1) * 20 + 20) items = Some (page_rows items p)"
    using \<open>1 \<le> p\<close> by (auto simp: slice_between_def page_rows_def mult.commute nat_diff_distrib)
  ultimately show ?thesis
    unfolding paginateSlice_def Let_def pageSize_def t p by (simp add: window_of_def mult.commute)
qed

lemma concat_pages: "concat (map (\<lambda>q. take k (drop (k * q) xs)) [0..<n]) = take (k * n) xs"
proof (induction n)
  case (Suc n)
  have "k * Suc n = k * n + k" by simp
  then show ?case using Suc.IH by (simp only: take_add) simp
qed simp

lemma pages_concat: "concat (map (\<lambda>q. page_rows items (int q)) [1..<Suc (nat (total_pages items))]) = items"
proof -
  let ?n = "nat (total_pages items)"
  have "map (\<lambda>q. page_rows items (int q)) [1..<Suc ?n] = map (\<lambda>q. take 20 (drop (20 * q) items)) [0..<?n]"
    by (simp add: page_rows_def nat_mult_distrib comp_def One_nat_def flip: map_Suc_upt del: upt_Suc)
  moreover have "length items \<le> 20 * ?n" by (simp add: total_pages_def)
  ultimately show ?thesis by (simp only: concat_pages) simp
qed

section \<open>Following the links\<close>

lemma atRisk_count:
  "fold (\<lambda>e n. if P e then n + 1 else n) es k = k + int (length (filter P es))"
  by (induction es arbitrary: k) auto

text \<open>The tables of a page: which rows are shown, and that the counter in the header is the number of red rows on all pages.\<close>

lemma serve_page_tables:
  assumes "rows = toDisplay (entries (board s))" and "liqs = toDisplayLiquidations encode (liquidations s)"
    and "p = clamp (total_pages rows) (queryInt query ''boardPage'' 1)" and "q = clamp (total_pages liqs) (queryInt query ''liqPage'' 1)"
  obtains d where "serve_page encode iter sortT sortA query s = Some d" "Entries d = page_rows rows p" "Liquidations d = page_rows liqs q"
    "BoardWindow d = window_of rows p ''boardPage'' ''liqPage'' (queryInt query ''liqPage'' 1)"
    "LiqWindow d = window_of liqs q ''liqPage'' ''boardPage'' (queryInt query ''boardPage'' 1)"
    "AtRiskCount d = int (length (filter Risky rows))"
    "WorstHealthFactor d = (case rows of [] \<Rightarrow> ''n/a'' | r # _ \<Rightarrow> dHealthFactor r)"
proof -
  have "fold (\<lambda>e n. if float_less (float_value (HealthFactor e)) one_and_half then n + 1 else n) (entries (board s)) 0 =
      int (length (filter Risky rows))"
    by (simp add: atRisk_count assms(1) toDisplay_def filter_map comp_def)
  moreover have "(case entries (board s) of [] \<Rightarrow> ''n/a'' | e # _ \<Rightarrow> health_text (HealthFactor e)) =
      (case rows of [] \<Rightarrow> ''n/a'' | r # _ \<Rightarrow> dHealthFactor r)"
    by (cases "entries (board s)") (simp_all add: assms(1) toDisplay_def)
  ultimately show thesis
    using that unfolding serve_page_def buildPageData_def Let_def
    by (cases "buildRiskPie (RiskTierCounts (fst (overview s)))")
      (simp add: paginateSlice_page [OF assms(3)] paginateSlice_page [OF assms(4)] flip: assms(1,2))
qed

text \<open>What the code relies on of \<open>net/url\<close>: a link the page itself has printed is read back by key.\<close>

definition reads_links :: "(string \<Rightarrow> string \<Rightarrow> string) \<Rightarrow> bool" where
  "reads_links Query \<longleftrightarrow>
     (\<forall>p q. Query (page_url ''boardPage'' ''liqPage'' q p) ''boardPage'' = dec_int p \<and>
            Query (page_url ''boardPage'' ''liqPage'' q p) ''liqPage'' = dec_int q)"

definition next_link :: "(string \<Rightarrow> page_data option) \<Rightarrow> string \<Rightarrow> string" where
  "next_link serve url = (case serve url of None \<Rightarrow> url | Some d \<Rightarrow> NextURL (BoardWindow d))"

lemma next_link_Some: "serve url = Some d \<Longrightarrow> next_link serve url = NextURL (BoardWindow d)"
  by (simp add: next_link_def)

lemma dec_int_nonempty [simp]: "dec_int i \<noteq> []"
  using dec_digits by (simp add: dec_int_def)

lemma queryInt_link:
  assumes "reads_links Query" and "- (2 ^ 63) \<le> p" "p < 2 ^ 63" and "- (2 ^ 63) \<le> q" "q < 2 ^ 63"
  shows "queryInt (Query (page_url ''boardPage'' ''liqPage'' q p)) ''boardPage'' 1 = p"
    "queryInt (Query (page_url ''boardPage'' ''liqPage'' q p)) ''liqPage'' 1 = q"
  using assms Atoi_dec_int [of p] Atoi_dec_int [of q] by (auto simp: reads_links_def queryInt_def Let_def dec_int_nonempty)

lemma total_pages_bound: "int (length items) < 2 ^ 63 \<Longrightarrow> total_pages items < 2 ^ 63"
  by (simp add: total_pages_def)

lemma total_pages_pos: "1 \<le> total_pages items"
  by (simp add: total_pages_def)

lemma next_link_page:
  assumes "reads_links Query" and "rows = toDisplay (entries (board s))" and "int (length rows) < 2 ^ 63"
    and "- (2 ^ 63) \<le> q" "q < 2 ^ 63" and "1 \<le> p" "p \<le> total_pages rows"
    and "serve = (\<lambda>url. serve_page encode iter sortT sortA (Query url) s)"
  obtains d where "serve (page_url ''boardPage'' ''liqPage'' q p) = Some d" "Entries d = page_rows rows p"
    "HasNext (BoardWindow d) = (p < total_pages rows)" "NextURL (BoardWindow d) = page_url ''boardPage'' ''liqPage'' q (p + 1)"
    "Liquidations d = page_rows (toDisplayLiquidations encode (liquidations s))
       (clamp (total_pages (toDisplayLiquidations encode (liquidations s))) q)"
    "AtRiskCount d = int (length (filter Risky rows))"
proof -
  let ?query = "Query (page_url ''boardPage'' ''liqPage'' q p)"
  have "- (2 ^ 63) \<le> p" "p < 2 ^ 63" using assms(6,7) total_pages_bound [OF assms(3)] by simp_all
  then have i: "queryInt ?query ''boardPage'' 1 = p" "queryInt ?query ''liqPage'' 1 = q"
    using queryInt_link [OF assms(1)] assms(4,5) by blast+
  have "clamp (total_pages rows) p = p" using assms(6,7) by (simp add: clamp_def)
  then show thesis
    using that serve_page_tables
      [where encode = encode and query = ?query and iter = iter and sortT = sortT and sortA = sortA, OF assms(2) refl refl refl]
    unfolding i assms(8) by (metis window_of_def page_window.select_convs(5,7))
qed

text \<open>(C26) Whoever opens the first page and follows the links to the next page sees every row of the health board exactly once, in order, until no
  link is offered; the header's count is the number of red rows on all of them, and the page of the liquidation table stays where it was.\<close>

theorem next_links_show_all:
  assumes "reads_links Query" and "rows = toDisplay (entries (board s))" and "int (length rows) < 2 ^ 63"
    and "- (2 ^ 63) \<le> q" and "q < 2 ^ 63"
    and "serve = (\<lambda>url. serve_page encode iter sortT sortA (Query url) s)"
    and "visit = (\<lambda>n. serve ((next_link serve ^^ n) (page_url ''boardPage'' ''liqPage'' q 1)))"
  shows "\<exists>ds. map Some ds = map visit [0..<nat (total_pages rows)] \<and> concat (map Entries ds) = rows \<and>
    map (HasNext \<circ> BoardWindow) ds = replicate (length ds - 1) True @ [False] \<and>
    (\<forall>d \<in> set ds. AtRiskCount d = int (length (filter Risky (concat (map Entries ds)))) \<and>
      Liquidations d = page_rows (toDisplayLiquidations encode (liquidations s))
        (clamp (total_pages (toDisplayLiquidations encode (liquidations s))) q))"
proof -
  let ?n = "nat (total_pages rows)" and ?url = "\<lambda>p. page_url ''boardPage'' ''liqPage'' q p"
  let ?d = "\<lambda>n. the (serve (?url (int n + 1)))"
  have step: "serve (?url (int n + 1)) = Some (?d n) \<and> Entries (?d n) = page_rows rows (int n + 1) \<and>
      HasNext (BoardWindow (?d n)) = (Suc n < ?n) \<and> NextURL (BoardWindow (?d n)) = ?url (int (Suc n) + 1) \<and>
      AtRiskCount (?d n) = int (length (filter Risky rows)) \<and>
      Liquidations (?d n) = page_rows (toDisplayLiquidations encode (liquidations s))
        (clamp (total_pages (toDisplayLiquidations encode (liquidations s))) q)" if "n < ?n" for n
  proof -
    have "int n + 1 \<le> total_pages rows" using that by linarith
    then obtain d where "serve (?url (int n + 1)) = Some d" "Entries d = page_rows rows (int n + 1)"
      "HasNext (BoardWindow d) = (int n + 1 < total_pages rows)" "NextURL (BoardWindow d) = ?url (int n + 1 + 1)"
      "Liquidations d = page_rows (toDisplayLiquidations encode (liquidations s))
         (clamp (total_pages (toDisplayLiquidations encode (liquidations s))) q)" "AtRiskCount d = int (length (filter Risky rows))"
      using next_link_page [OF assms(1-5) _ _ assms(6), of "int n + 1"] by auto
    moreover have "(int n + 1 < total_pages rows) = (Suc n < ?n)" by linarith
    ultimately show ?thesis by (simp add: add.commute)
  qed
  have at: "(next_link serve ^^ n) (?url 1) = ?url (int n + 1)" if "n < ?n" for n
    using that
  proof (induction n)
    case (Suc n)
    then show ?case using step [of n] next_link_Some [of serve "?url (int n + 1)" "?d n"] by simp
  qed simp
  let ?ds = "map ?d [0..<?n]"
  have e: "concat (map Entries ?ds) = rows"
  proof -
    have "map Entries ?ds = map (\<lambda>q. page_rows rows (int q)) [1..<Suc ?n]"
      using step by (auto simp: comp_def One_nat_def add.commute simp flip: map_Suc_upt simp del: upt_Suc)
    then show ?thesis by (simp only: pages_concat)
  qed
  have "map (HasNext \<circ> BoardWindow) ?ds = replicate (length ?ds - 1) True @ [False]"
    using step total_pages_pos [of rows] by (intro nth_equalityI) (auto simp: nth_append)
  moreover have "map Some ?ds = map visit [0..<?n]" using step at by (simp add: assms(7))
  ultimately show ?thesis using e step by (intro exI [of _ ?ds]) (auto simp: e simp del: map_map)
qed

text \<open>A reader of such links, and a board of 25 rows.\<close>

definition query_of :: "string \<Rightarrow> string \<Rightarrow> string" where
  "query_of url key =
     (if key = ''boardPage'' then takeWhile (\<lambda>c. c \<noteq> CHR ''&'') (drop 12 url)
      else tl (dropWhile (\<lambda>c. c \<noteq> CHR ''='') (dropWhile (\<lambda>c. c \<noteq> CHR ''&'') url)))"

lemma dec_int_chars: "c \<in> set (dec_int i) \<Longrightarrow> c \<noteq> CHR ''&'' \<and> c \<noteq> CHR ''=''"
  using dec_digits by (fastforce simp: dec_int_def list_all_iff is_digit_def split: if_splits)

lemma query_of_reads: "reads_links query_of"
proof -
  have "takeWhile (\<lambda>c. c \<noteq> CHR ''&'') (dec_int p @ CHR ''&'' # r) = dec_int p" for p r
    using dec_int_chars by (subst takeWhile_append2) auto
  moreover have "dropWhile (\<lambda>c. c \<noteq> CHR ''&'') (dec_int p @ CHR ''&'' # r) = CHR ''&'' # r" for p r
    using dec_int_chars by (subst dropWhile_append2) auto
  ultimately show ?thesis by (simp add: reads_links_def page_url_def query_of_def)
qed

definition sample_stores :: stores where
  "sample_stores = new_stores\<lparr>board := \<lparr>total = 25, entries = replicate 25
     \<lparr>AccountID = 7, CollateralUSD = Float64frombits 0, DebtUSD = Float64frombits 0, HealthFactor = Float64frombits 0,
      CollateralTicker = ''SPYx'', DebtTicker = ''USDC''\<rparr>, updated = True\<rparr>\<rparr>"

theorem next_links_show_all_witness:
  "\<exists>ds :: page_data list. length ds = 2 \<and> length (concat (map Entries ds)) = 25 \<and> map (HasNext \<circ> BoardWindow) ds = [True, False]"
proof -
  let ?rows = "toDisplay (entries (board sample_stores))"
  have n: "length ?rows = 25" by (simp add: toDisplay_def sample_stores_def)
  then have t: "nat (total_pages ?rows) = 2" by (simp add: total_pages_def)
  obtain visit :: "nat \<Rightarrow> page_data option" and ds where ds: "map Some ds = map visit [0..<nat (total_pages ?rows)]"
      "concat (map Entries ds) = ?rows" "map (HasNext \<circ> BoardWindow) ds = replicate (length ds - 1) True @ [False]"
    using next_links_show_all [OF query_of_reads refl _ _ _ refl refl, where s = sample_stores and q = 1 and encode = "\<lambda>_. []" and
        iter = id and sortT = "\<lambda>_ xs. xs" and sortA = "\<lambda>_ xs. xs"] n by fastforce
  then have "length ds = 2" using t by (metis length_map length_upt diff_zero)
  then show ?thesis using ds(2,3) n by (intro exI [of _ ds]) simp
qed

section \<open>The ranking of markets\<close>

text \<open>What the documentation of \<open>sort.Slice\<close> promises: a permutation, sorted when \<open>less\<close> is a strict weak order.\<close>

definition strict_weak :: "('a \<Rightarrow> 'a \<Rightarrow> bool) \<Rightarrow> bool" where
  "strict_weak lt \<longleftrightarrow> (\<forall>x. \<not> lt x x) \<and> (\<forall>x y z. lt x y \<longrightarrow> lt y z \<longrightarrow> lt x z) \<and>
     (\<forall>x y z. \<not> lt x y \<longrightarrow> \<not> lt y z \<longrightarrow> \<not> lt x z)"

definition sorts :: "(('a \<Rightarrow> 'a \<Rightarrow> bool) \<Rightarrow> 'a list \<Rightarrow> 'a list) \<Rightarrow> bool" where
  "sorts f \<longleftrightarrow> (\<forall>lt xs. mset (f lt xs) = mset xs \<and> (strict_weak lt \<longrightarrow> sorted_wrt (\<lambda>x y. \<not> lt y x) (f lt xs)))"

lemma sorted_wrt_unique:
  assumes "\<And>x. \<not> r x x" and "\<And>x y z. r x y \<Longrightarrow> r y z \<Longrightarrow> r x z"
  shows "sorted_wrt r xs \<Longrightarrow> sorted_wrt r ys \<Longrightarrow> set xs = set ys \<Longrightarrow> xs = ys"
proof (induction xs arbitrary: ys)
  case (Cons x xs)
  then obtain y zs where ys: "ys = y # zs" by (cases ys) auto
  have "x = y"
  proof (rule ccontr)
    assume "x \<noteq> y"
    then have "r x y" "r y x" using Cons.prems ys by auto
    then show False using assms by blast
  qed
  moreover have "x \<notin> set xs" "y \<notin> set zs" using Cons.prems(1,2) assms(1) by (auto simp: ys)
  ultimately have "set xs = set zs" using Cons.prems(3) by (auto simp: ys)
  then show ?case using Cons.IH [of zs] Cons.prems(1,2) \<open>x = y\<close> by (simp add: ys)
qed simp

lemma strict_weak_busier: "strict_weak busier"
  by (auto simp: strict_weak_def busier_def not_less split: if_splits)

lemma busier_irrefl: "\<not> busier a a" and busier_trans: "busier a b \<Longrightarrow> busier b c \<Longrightarrow> busier a c"
  using strict_weak_busier unfolding strict_weak_def by blast+

lemma busier_total: "aTicker a \<noteq> aTicker b \<Longrightarrow> \<not> busier b a \<Longrightarrow> busier a b"
  by (auto simp: busier_def split: if_splits)

lemma sorted_wrt_distinct_key:
  assumes "sorted_wrt (\<lambda>x y. \<not> busier y x) xs" and "distinct (map aTicker xs)"
  shows "sorted_wrt busier xs"
  using assms by (induction xs) (auto intro!: busier_total)

lemma count_ticks_snoc:
  "count_ticks (ts @ [t]) = AList.update (Ticker t) (map_get 0 (map_of (count_ticks ts)) (Ticker t) + 1) (count_ticks ts)"
  by (simp add: count_ticks_def)

lemma count_ticks_spec:
  "distinct (map fst (count_ticks ts)) \<and>
   map_of (count_ticks ts) s = (if s \<in> Ticker ` set ts then Some (length (filter (\<lambda>t. Ticker t = s) ts)) else None)"
proof (induction ts rule: rev_induct)
  case Nil
  then show ?case by (simp add: count_ticks_def)
next
  case (snoc t ts)
  then show ?case
    by (fastforce simp: count_ticks_snoc distinct_update update_conv' map_get_def filter_empty_conv image_iff)
qed

definition activity_of :: "dex_tick list \<Rightarrow> string \<Rightarrow> ticker_activity" where
  "activity_of ts s = \<lparr>aTicker = s, aCount = length (filter (\<lambda>t. Ticker t = s) ts)\<rparr>"

lemma activities_of_counts:
  "(\<lambda>(t, n). \<lparr>aTicker = t, aCount = n\<rparr>) ` set (count_ticks ts) = activity_of ts ` Ticker ` set ts"
proof -
  have "distinct (map fst (count_ticks ts))" using count_ticks_spec by blast
  then have "set (count_ticks ts) = {(s, n). map_of (count_ticks ts) s = Some n}" by (auto simp: map_of_eq_Some_iff)
  also have "\<dots> = (\<lambda>s. (s, length (filter (\<lambda>t. Ticker t = s) ts))) ` Ticker ` set ts"
    using count_ticks_spec [of ts] by (auto split: if_splits)
  finally show ?thesis by (force simp: activity_of_def)
qed

text \<open>The ranking lists every ticker of the recent ticks once, with its number of ticks, the busiest first and equal ones by name; it is the same
  list in whatever order the map is walked and however ties are treated by the sort.\<close>

theorem movingMarkets_ranked:
  assumes "\<And>xs. mset (iter xs) = mset xs" and "sorts sortT"
  shows "sorted_wrt busier (movingMarkets iter sortT ts) \<and> set (movingMarkets iter sortT ts) = activity_of ts ` Ticker ` set ts \<and>
    (\<forall>xs. sorted_wrt busier xs \<and> set xs = activity_of ts ` Ticker ` set ts \<longrightarrow> xs = movingMarkets iter sortT ts)"
proof -
  let ?act = "\<lambda>(t, n). \<lparr>aTicker = t, aCount = n\<rparr>" and ?out = "movingMarkets iter sortT ts"
  have m: "mset ?out = mset (map ?act (iter (count_ticks ts)))" using assms(2) by (simp add: movingMarkets_def sorts_def)
  then have st: "set ?out = activity_of ts ` Ticker ` set ts"
    using mset_eq_setD [OF m] mset_eq_setD [OF assms(1)] activities_of_counts by simp
  have "mset (map aTicker ?out) = mset (map fst (count_ticks ts))"
    using m assms(1) by (simp add: mset_map comp_def case_prod_beta image_mset.compositionality)
  then have "distinct (map aTicker ?out)" using count_ticks_spec mset_eq_imp_distinct_iff by blast
  moreover have "sorted_wrt (\<lambda>x y. \<not> busier y x) ?out"
    using assms(2) strict_weak_busier by (simp add: movingMarkets_def sorts_def)
  ultimately have "sorted_wrt busier ?out" by (rule sorted_wrt_distinct_key [rotated])
  moreover have "xs = ?out" if "sorted_wrt busier xs" "set xs = activity_of ts ` Ticker ` set ts" for xs
    by (rule sorted_wrt_unique [OF busier_irrefl busier_trans that(1) \<open>sorted_wrt busier ?out\<close>]) (simp_all only: that(2) st)
  ultimately show ?thesis using st by blast
qed

text \<open>A sort as the documentation describes it: insertion.\<close>

fun insert_by :: "('a \<Rightarrow> 'a \<Rightarrow> bool) \<Rightarrow> 'a \<Rightarrow> 'a list \<Rightarrow> 'a list" where
  "insert_by lt x [] = [x]"
| "insert_by lt x (y # ys) = (if lt y x then y # insert_by lt x ys else x # y # ys)"

definition sort_by :: "('a \<Rightarrow> 'a \<Rightarrow> bool) \<Rightarrow> 'a list \<Rightarrow> 'a list" where
  "sort_by lt xs = foldr (insert_by lt) xs []"

lemma mset_insert_by [simp]: "mset (insert_by lt x xs) = add_mset x (mset xs)"
  by (induction xs) auto

lemma set_insert_by [simp]: "set (insert_by lt x xs) = insert x (set xs)"
  using mset_eq_setD [of "insert_by lt x xs" "x # xs"] by simp

lemma sorted_insert_by:
  assumes "strict_weak lt"
  shows "sorted_wrt (\<lambda>x y. \<not> lt y x) xs \<Longrightarrow> sorted_wrt (\<lambda>x y. \<not> lt y x) (insert_by lt x xs)"
proof (induction xs)
  case (Cons y ys)
  have "\<not> lt x y" if "lt y x" using assms that unfolding strict_weak_def by blast
  moreover have "\<forall>z \<in> set ys. \<not> lt z x" if "\<not> lt y x" 
  proof
    fix z assume "z \<in> set ys"
    then have "\<not> lt z y" using Cons.prems by simp
    then show "\<not> lt z x" using assms that unfolding strict_weak_def by blast
  qed
  ultimately show ?case using Cons by simp
qed simp

lemma sort_by_sorts: "sorts sort_by"
proof -
  have "mset (sort_by lt xs) = mset xs" for lt and xs :: "'a list" by (induction xs) (simp_all add: sort_by_def)
  moreover have "strict_weak lt \<Longrightarrow> sorted_wrt (\<lambda>x y. \<not> lt y x) (sort_by lt xs)" for lt and xs :: "'a list"
    by (induction xs) (simp_all add: sort_by_def sorted_insert_by)
  ultimately show ?thesis by (simp add: sorts_def)
qed

abbreviation tick_of :: "string \<Rightarrow> dex_tick" where
  "tick_of s \<equiv> \<lparr>Ticker = s, PriceUSD = Float64frombits 0, Up = True, TSlot = 0\<rparr>"

theorem movingMarkets_ranked_witness:
  "movingMarkets rev sort_by (map tick_of [''SPYx'', ''QQQx'', ''QQQx'', ''USDC'']) =
     [\<lparr>aTicker = ''QQQx'', aCount = 2\<rparr>, \<lparr>aTicker = ''SPYx'', aCount = 1\<rparr>, \<lparr>aTicker = ''USDC'', aCount = 1\<rparr>]"
  (is "_ = ?out")
proof -
  let ?ts = "map tick_of [''SPYx'', ''QQQx'', ''QQQx'', ''USDC'']"
  have "sorted_wrt busier ?out" by (simp add: busier_def)
  moreover have "set ?out = activity_of ?ts ` Ticker ` set ?ts" by (auto simp: activity_of_def)
  ultimately show ?thesis
    using movingMarkets_ranked [OF mset_rev sort_by_sorts, of ?ts, THEN conjunct2, THEN conjunct2, rule_format, of ?out] by simp
qed

section \<open>The pie is tiled\<close>









end
