(* ===== verification/Pumpswap.thy ===== *)
theory Pumpswap
  imports Accounts Subscribe
begin

text \<open>
  The PumpSwap prefetcher (\<open>src/prefetch/pumpswap\<close>): the parser of a pool account (\<open>pool.go\<close>), the event handler (\<open>event.go\<close>),
  the table (\<open>store.go\<close>, \<open>schema.sql\<close>), the query of the largest pools (\<open>query.go\<close>) and the rows of the export (\<open>export.go\<close>).

  Conventions as in the Raydium prefetchers: failing statements are arguments, \<open>None\<close> is a panic, decoders and keys of
  other modules are parameters. Reading a negative column into a \<open>uint64\<close> is an error of \<open>rows.Scan\<close>.
\<close>

section \<open>Parser\<close>

datatype swap_error =
  PoolTooShort nat | BeginFailed | CommitFailed | MissingTx | UpsertFailed | BalanceFailed | QueryFailed | ScanFailed | Canceled | HookFailed | CreateFileFailed

definition poolMinLen :: nat where "poolMinLen = 261"
definition offPoolBaseMint :: nat where "offPoolBaseMint = 43"
definition offPoolQuoteMint :: nat where "offPoolQuoteMint = 75"
definition offPoolBaseVault :: nat where "offPoolBaseVault = 139"
definition offPoolQuoteVault :: nat where "offPoolQuoteVault = 171"
definition offPoolCoinCreator :: nat where "offPoolCoinCreator = 211"

lemmas swap_layout = poolMinLen_def offPoolBaseMint_def offPoolQuoteMint_def offPoolBaseVault_def offPoolQuoteVault_def
  offPoolCoinCreator_def

definition poolDiscriminator :: "byte list" where
  "poolDiscriminator = [241, 154, 109, 4, 17, 177, 109, 188]"

record pool =
  Pool :: pubkey
  BaseMint :: pubkey
  QuoteMint :: pubkey
  BaseVault :: pubkey
  QuoteVault :: pubkey
  CoinCreator :: pubkey
  BaseBalance :: u64
  QuoteBalance :: u64

definition parsePool :: "(byte list \<Rightarrow> pubkey) \<Rightarrow> pubkey \<Rightarrow> byte list \<Rightarrow> (swap_error + pool) option" where
  "parsePool pkfb pk data =
     (if length data < poolMinLen then Some (Inl (PoolTooShort (length data)))
      else do {
        cc \<leftarrow> read_pubkey pkfb data offPoolCoinCreator;
        bm \<leftarrow> read_pubkey pkfb data offPoolBaseMint;
        qm \<leftarrow> read_pubkey pkfb data offPoolQuoteMint;
        bv \<leftarrow> read_pubkey pkfb data offPoolBaseVault;
        qv \<leftarrow> read_pubkey pkfb data offPoolQuoteVault;
        Some (Inr \<lparr>Pool = pk, BaseMint = bm, QuoteMint = qm, BaseVault = bv, QuoteVault = qv, CoinCreator = cc,
                   BaseBalance = 0, QuoteBalance = 0\<rparr>) })"

section \<open>The table\<close>

record pool_row =
  base_mint :: "byte list"
  quote_mint :: "byte list"
  base_vault :: "byte list"
  quote_vault :: "byte list"
  coin_creator :: "byte list"
  base_balance :: int
  quote_balance :: int

type_synonym pool_table = "(pubkey \<times> pool_row) list"

datatype stmt = SBegin | SCommit | SUpsert | SBalance | SRead

text \<open>\<open>COALESCE((SELECT base_balance ... WHERE pool = ?), 0)\<close>.\<close>

definition old_balance :: "(pool_row \<Rightarrow> int) \<Rightarrow> pubkey \<Rightarrow> pool_table \<Rightarrow> int" where
  "old_balance col k t = (case map_of t k of None \<Rightarrow> 0 | Some r \<Rightarrow> col r)"

definition upsertPool :: "bool \<Rightarrow> pool \<Rightarrow> pool_table \<Rightarrow> swap_error + pool_table" where
  "upsertPool execFails p t =
     (if execFails then Inl UpsertFailed
      else Inr (replace_row (Pool p)
        \<lparr>base_mint = BaseMint p, quote_mint = QuoteMint p, base_vault = BaseVault p, quote_vault = QuoteVault p,
         coin_creator = CoinCreator p, base_balance = old_balance base_balance (Pool p) t,
         quote_balance = old_balance quote_balance (Pool p) t\<rparr> t))"

definition saveBalance :: "bool \<Rightarrow> pubkey \<Rightarrow> bool \<Rightarrow> u64 \<Rightarrow> pool_table \<Rightarrow> swap_error + pool_table" where
  "saveBalance execFails k isBase amt t =
     (if execFails then Inl BalanceFailed
      else Inr (update_row k (\<lambda>r. if isBase then r\<lparr>base_balance := to_int64 amt\<rparr> else r\<lparr>quote_balance := to_int64 amt\<rparr>) t))"

definition poolCount :: "(stmt \<Rightarrow> bool) \<Rightarrow> pool_table \<Rightarrow> swap_error + nat" where
  "poolCount fails t = (if fails SRead then Inl QueryFailed else Inr (length t))"

text \<open>\<open>rows.Scan\<close> into a \<open>uint64\<close>.\<close>

definition scan_uint64 :: "int \<Rightarrow> swap_error + u64" where
  "scan_uint64 i = (if i < 0 then Inl ScanFailed else Inr (of_int i))"

definition scan_pool :: "(byte list \<Rightarrow> pubkey) \<Rightarrow> pubkey \<times> pool_row \<Rightarrow> swap_error + pool" where
  "scan_pool pkfb = (\<lambda>(k, r).
     case scan_uint64 (base_balance r) of
       Inl e \<Rightarrow> Inl e
     | Inr b \<Rightarrow>
         (case scan_uint64 (quote_balance r) of
            Inl e \<Rightarrow> Inl e
          | Inr q \<Rightarrow>
              Inr \<lparr>Pool = pkfb k, BaseMint = pkfb (base_mint r), QuoteMint = pkfb (quote_mint r), BaseVault = pkfb (base_vault r),
                   QuoteVault = pkfb (quote_vault r), CoinCreator = pkfb (coin_creator r), BaseBalance = b, QuoteBalance = q\<rparr>))"

definition loadPools :: "(byte list \<Rightarrow> pubkey) \<Rightarrow> (stmt \<Rightarrow> bool) \<Rightarrow> pool_table \<Rightarrow> swap_error + pool list" where
  "loadPools pkfb fails t =
     (if fails SRead then Inl QueryFailed
      else fold_err (\<lambda>row out. case scan_pool pkfb row of Inl e \<Rightarrow> Inl e | Inr p \<Rightarrow> Inr (out @ [p])) t [])"

section \<open>The handler\<close>

record vault_ref =
  ref_pool :: pubkey
  isBase :: bool

record 't handler =
  slot :: u64
  db :: "pool_table option"
  tx :: "pool_table option"
  sendSubCount :: u32
  pss :: "'t option"
  mVaultToPool :: "pubkey \<rightharpoonup> vault_ref"
  mPendingBalance :: "pubkey \<rightharpoonup> u64"
  cause :: "swap_error option"

record env =
  programID :: pubkey
  tokenProgramID :: pubkey
  globalConfigPDA :: pubkey
  decodeToken :: "byte list \<Rightarrow> token_account option"
  fromBytes :: "byte list \<Rightarrow> pubkey"

definition pumpswapQuietSlots :: u64 where "pumpswapQuietSlots = 4500"

definition cancel :: "swap_error \<Rightarrow> 't handler \<Rightarrow> 't handler" where
  "cancel e h = (if cause h = None then h\<lparr>cause := Some e\<rparr> else h)"

definition createHandler :: "pool_table option \<Rightarrow> 't handler" where
  "createHandler d =
     \<lparr>slot = 0, db = d, tx = None, sendSubCount = 0, pss = None, mVaultToPool = Map.empty, mPendingBalance = Map.empty, cause = None\<rparr>"

definition CommitStart :: "(stmt \<Rightarrow> bool) \<Rightarrow> u64 \<Rightarrow> 't handler \<Rightarrow> 't handler" where
  "CommitStart fails s h =
     (let h = h\<lparr>slot := s\<rparr>
      in case db h of
           None \<Rightarrow> h
         | Some d \<Rightarrow> if fails SBegin then cancel BeginFailed h else h\<lparr>tx := Some d\<rparr>)"

text \<open>\<open>check\<close> is the tracker's \<open>Check\<close>. \<open>Init\<close> is the only place that counts a subscription, and it creates the tracker.\<close>

definition CommitFinish :: "(stmt \<Rightarrow> bool) \<Rightarrow> (u64 \<Rightarrow> 't \<Rightarrow> bool \<times> 't) \<Rightarrow> 't handler \<Rightarrow> bool \<times> 't handler" where
  "CommitFinish fails check h =
     (case tx h of
        None \<Rightarrow> (False, cancel MissingTx h)
      | Some t \<Rightarrow>
          if fails SCommit then (False, cancel CommitFailed h)
          else
            let h = h\<lparr>db := Some t, tx := None\<rparr>
            in if sendSubCount h = 0 then (False, h)
               else case pss h of
                 None \<Rightarrow> (False, h)
               | Some g \<Rightarrow>
                   (case check (slot h) g of
                      (isDone, g') \<Rightarrow> let h = h\<lparr>pss := Some g'\<rparr> in if isDone then (True, cancel Canceled h) else (False, h)))"

definition Init :: "env \<Rightarrow> u32 \<Rightarrow> 't \<Rightarrow> (pending_subscription \<Rightarrow> 't \<Rightarrow> 't) \<Rightarrow> 't handler \<Rightarrow> 't handler" where
  "Init e weightAll newTracker subscribe h =
     h\<lparr>sendSubCount := sendSubCount h + 1,
       pss := Some (subscribe \<lparr>root = globalConfigPDA e, weight = weightAll, depth = 3\<rparr> newTracker)\<rparr>"

text \<open>The loop over the two vaults of a pool, with its early return.\<close>

fun save_pending :: "(stmt \<Rightarrow> bool) \<Rightarrow> pubkey list \<Rightarrow> pool_table \<Rightarrow> 't handler \<Rightarrow> 't handler" where
  "save_pending fails [] t h = h\<lparr>tx := Some t\<rparr>"
| "save_pending fails (v # vs) t h =
     (case mPendingBalance h v of
        None \<Rightarrow> save_pending fails vs t h
      | Some amt \<Rightarrow>
          let h = h\<lparr>mPendingBalance := (mPendingBalance h)(v := None)\<rparr>;
              r = map_get \<lparr>ref_pool = zero_key, isBase = False\<rparr> (mVaultToPool h) v
          in case saveBalance (fails SBalance) (ref_pool r) (isBase r) amt t of
               Inl err \<Rightarrow> cancel err (h\<lparr>tx := Some t\<rparr>)
             | Inr t \<Rightarrow> save_pending fails vs t h)"

definition poolOnAccount :: "(stmt \<Rightarrow> bool) \<Rightarrow> pool \<Rightarrow> 't handler \<Rightarrow> 't handler" where
  "poolOnAccount fails p h =
     (case tx h of
        None \<Rightarrow> cancel MissingTx h
      | Some t \<Rightarrow>
          (case upsertPool (fails SUpsert) p t of
             Inl err \<Rightarrow> cancel err h
           | Inr t \<Rightarrow>
               save_pending fails [BaseVault p, QuoteVault p] t
                 (h\<lparr>mVaultToPool := (mVaultToPool h)(BaseVault p \<mapsto> \<lparr>ref_pool = Pool p, isBase = True\<rparr>,
                                                   QuoteVault p \<mapsto> \<lparr>ref_pool = Pool p, isBase = False\<rparr>)\<rparr>)))"

definition vaultOnAccount :: "(stmt \<Rightarrow> bool) \<Rightarrow> pubkey \<Rightarrow> u64 \<Rightarrow> 't handler \<Rightarrow> 't handler" where
  "vaultOnAccount fails v amt h =
     (case mVaultToPool h v of
        None \<Rightarrow> h\<lparr>mPendingBalance := (mPendingBalance h)(v \<mapsto> amt)\<rparr>
      | Some r \<Rightarrow>
          (case tx h of
             None \<Rightarrow> cancel MissingTx h
           | Some t \<Rightarrow>
               (case saveBalance (fails SBalance) (ref_pool r) (isBase r) amt t of
                  Inl err \<Rightarrow> cancel err h
                | Inr t \<Rightarrow> h\<lparr>tx := Some t\<rparr>)))"

definition OnAccount :: "env \<Rightarrow> (stmt \<Rightarrow> bool) \<Rightarrow> account \<Rightarrow> 't handler \<Rightarrow> 't handler option" where
  "OnAccount e fails a h =
     (if Owner a = programID e then
        if length (Data a) < 8 then Some h
        else do {
          d \<leftarrow> go_slice 0 8 (Data a);
          if d \<noteq> poolDiscriminator then Some h
          else do {
            r \<leftarrow> parsePool (fromBytes e) (Pubkey a) (Data a);
            Some (case r of Inl err \<Rightarrow> h | Inr p \<Rightarrow> poolOnAccount fails p h) } }
      else if tokenProgramID e \<noteq> Owner a then Some h
      else if length (Data a) < 165 \<or> 200 \<le> length (Data a) then Some h
      else case decodeToken e (Data a) of
        None \<Rightarrow> Some h
      | Some b \<Rightarrow> Some (vaultOnAccount fails (Pubkey a) (TAmount b) h))"

section \<open>Queries\<close>

text \<open>\<open>TopPools\<close>: the keys, largest sum of balances first; \<open>hex\<close> is SQLite's. A sum beyond 63 bits, where SQLite goes over to
  doubles, is the exact sum here.\<close>

definition TopPools :: "(byte list \<Rightarrow> string) \<Rightarrow> bool \<Rightarrow> nat \<Rightarrow> pool_table \<Rightarrow> swap_error + string" where
  "TopPools hex fails n t =
     (if fails then Inl QueryFailed
      else let rows = map (\<lambda>(k, r). ''pool='' @ hex k) (top_rows (\<lambda>(k, r). base_balance r + quote_balance r) n t);
               header = ''Pumpswap pools, ranked by combined base+quote balance (liquidity proxy) highest first:'' @ [CHR 0x0A]
           in Inr (if rows = [] then header @ ''(no pools found)'' else header @ join '';'' rows))"

text \<open>The stream that drives the handler is an argument: it ends with an error or leaves the table it has committed.\<close>

definition fetch :: "('t handler \<Rightarrow> unit + pool_table) \<Rightarrow> pool_table \<Rightarrow> swap_error + pool_table" where
  "fetch hook t = (case hook (createHandler (Some t)) of Inl err \<Rightarrow> Inl HookFailed | Inr t' \<Rightarrow> Inr t')"

definition Pumpswap_fetch :: "(byte list \<Rightarrow> pubkey) \<Rightarrow> (stmt \<Rightarrow> bool) \<Rightarrow> ('t handler \<Rightarrow> unit + pool_table) \<Rightarrow> pool_table \<Rightarrow> swap_error + pool list" where
  "Pumpswap_fetch pkfb fails hook t = (case fetch hook t of Inl err \<Rightarrow> Inl err | Inr t' \<Rightarrow> loadPools pkfb fails t')"

definition Create :: "(byte list \<Rightarrow> pubkey) \<Rightarrow> (stmt \<Rightarrow> bool) \<Rightarrow> ('t handler \<Rightarrow> unit + pool_table) \<Rightarrow> bool \<Rightarrow> pool_table \<Rightarrow> swap_error + pool list" where
  "Create pkfb fails hook force t =
     (case poolCount fails t of
        Inl err \<Rightarrow> Inl err
      | Inr n \<Rightarrow> if n = 0 \<or> force then Pumpswap_fetch pkfb fails hook t else loadPools pkfb fails t)"

text \<open>\<open>readPools\<close>: a query that fails gives no rows, for the table may not exist yet. \<open>ExportJSON\<close> is modelled up to the list that is encoded.\<close>

record pool_json =
  JPool :: pubkey
  JBaseMint :: pubkey
  JQuoteMint :: pubkey
  JBaseVault :: pubkey
  JQuoteVault :: pubkey
  JBaseBalance :: int
  JQuoteBalance :: int

definition readPools :: "(byte list \<Rightarrow> pubkey) \<Rightarrow> (stmt \<Rightarrow> bool) \<Rightarrow> pool_table \<Rightarrow> swap_error + pool_json list" where
  "readPools pkfb fails t =
     (if fails SRead then Inr []
      else Inr (map (\<lambda>(k, r). \<lparr>JPool = pkfb k, JBaseMint = pkfb (base_mint r), JQuoteMint = pkfb (quote_mint r), JBaseVault = pkfb (base_vault r),
             JQuoteVault = pkfb (quote_vault r), JBaseBalance = base_balance r, JQuoteBalance = quote_balance r\<rparr>) t))"

definition ExportJSON :: "(byte list \<Rightarrow> pubkey) \<Rightarrow> (stmt \<Rightarrow> bool) \<Rightarrow> bool \<Rightarrow> pool_table \<Rightarrow> swap_error + pool_json list" where
  "ExportJSON pkfb fails createFails t =
     (case readPools pkfb fails t of Inl err \<Rightarrow> Inl err | Inr out \<Rightarrow> if createFails then Inl CreateFileFailed else Inr out)"

section \<open>Pools and balances in any order\<close>

definition next_commit :: "(u64 \<Rightarrow> 't \<Rightarrow> bool \<times> 't) \<Rightarrow> u64 \<Rightarrow> 't handler \<Rightarrow> 't handler" where
  "next_commit check s h = CommitStart (\<lambda>_. False) s (snd (CommitFinish (\<lambda>_. False) check h))"

definition as_pool :: "env \<Rightarrow> account \<Rightarrow> pool option" where
  "as_pool e a =
     (if Owner a = programID e \<and> 8 \<le> length (Data a) \<and> take 8 (Data a) = poolDiscriminator
      then case parsePool (fromBytes e) (Pubkey a) (Data a) of Some (Inr p) \<Rightarrow> Some p | _ \<Rightarrow> None else None)"

definition as_vault :: "env \<Rightarrow> account \<Rightarrow> (pubkey \<times> u64) option" where
  "as_vault e a =
     (if Owner a \<noteq> programID e \<and> Owner a = tokenProgramID e \<and> 165 \<le> length (Data a) \<and> length (Data a) < 200
      then map_option (\<lambda>b. (Pubkey a, TAmount b)) (decodeToken e (Data a)) else None)"

definition pools_in :: "env \<Rightarrow> account list \<Rightarrow> pool list" where
  "pools_in e as = List.map_filter (as_pool e) as"

definition amounts_in :: "env \<Rightarrow> account list \<Rightarrow> (pubkey \<times> u64) list" where
  "amounts_in e as = List.map_filter (as_vault e) as"

text \<open>A vault belongs to one side of one pool, and a pool keeps its vaults.\<close>

definition consistent :: "pool list \<Rightarrow> bool" where
  "consistent ps \<longleftrightarrow> (\<forall>p \<in> set ps. \<forall>q \<in> set ps. BaseVault p \<noteq> QuoteVault q \<and>
     (BaseVault p = BaseVault q \<longleftrightarrow> Pool p = Pool q) \<and> (QuoteVault p = QuoteVault q \<longleftrightarrow> Pool p = Pool q))"

definition last_amount :: "(pubkey \<times> u64) list \<Rightarrow> pubkey \<Rightarrow> int" where
  "last_amount ams v = (case map_of (rev ams) v of None \<Rightarrow> 0 | Some x \<Rightarrow> to_int64 x)"

definition row_of :: "(pubkey \<times> u64) list \<Rightarrow> pool \<Rightarrow> pool_row" where
  "row_of ams p =
     \<lparr>base_mint = BaseMint p, quote_mint = QuoteMint p, base_vault = BaseVault p, quote_vault = QuoteVault p,
      coin_creator = CoinCreator p, base_balance = last_amount ams (BaseVault p), quote_balance = last_amount ams (QuoteVault p)\<rparr>"

definition last_pool :: "pool list \<Rightarrow> pubkey \<Rightarrow> pool option" where
  "last_pool ps k = find (\<lambda>p. Pool p = k) (rev ps)"

text \<open>The state after pools \<open>ps\<close> and amounts \<open>ams\<close> have arrived.\<close>

definition ref_of :: "pool list \<Rightarrow> pubkey \<Rightarrow> vault_ref option" where
  "ref_of ps v =
     (case find (\<lambda>p. BaseVault p = v) ps of
        Some p \<Rightarrow> Some \<lparr>ref_pool = Pool p, isBase = True\<rparr>
      | None \<Rightarrow> map_option (\<lambda>p. \<lparr>ref_pool = Pool p, isBase = False\<rparr>) (find (\<lambda>p. QuoteVault p = v) ps))"

definition swap_inv :: "pool list \<Rightarrow> (pubkey \<times> u64) list \<Rightarrow> 't handler \<Rightarrow> bool" where
  "swap_inv ps ams h \<longleftrightarrow>
     (\<exists>t. tx h = Some t \<and> wf_table t \<and> map_of t = (\<lambda>k. map_option (row_of ams) (last_pool ps k)) \<and>
        mVaultToPool h = ref_of ps \<and> mPendingBalance h = (\<lambda>v. if ref_of ps v = None then map_of (rev ams) v else None))"

lemma find_snoc: "find P (xs @ [x]) = (case find P xs of None \<Rightarrow> if P x then Some x else None | Some y \<Rightarrow> Some y)"
  by (induction xs) auto

lemma find_Some_elem: "find P xs = Some x \<Longrightarrow> x \<in> set xs \<and> P x"
  by (auto simp: find_Some_iff)

lemma last_pool_snoc: "last_pool (ps @ [p]) k = (if Pool p = k then Some p else last_pool ps k)"
  by (simp add: last_pool_def)

lemma last_pool_elem: "last_pool ps k = Some p \<Longrightarrow> p \<in> set ps \<and> Pool p = k"
  by (auto simp: last_pool_def dest: find_Some_elem)

lemma last_pool_None: "last_pool ps k = None \<longleftrightarrow> (\<forall>p \<in> set ps. Pool p \<noteq> k)"
  by (auto simp: last_pool_def find_None_iff)

lemma last_amount_snoc: "last_amount (ams @ [(v, x)]) u = (if u = v then to_int64 x else last_amount ams u)"
  by (simp add: last_amount_def)

lemma ref_of_None: "ref_of ps v = None \<longleftrightarrow> (\<forall>p \<in> set ps. BaseVault p \<noteq> v \<and> QuoteVault p \<noteq> v)"
  by (auto simp: ref_of_def find_None_iff split: option.split dest: find_Some_elem)

lemma ref_of_Some:
  assumes "ref_of ps v = Some r"
  obtains p where "p \<in> set ps" "BaseVault p = v" "r = \<lparr>ref_pool = Pool p, isBase = True\<rparr>"
  | p where "p \<in> set ps" "QuoteVault p = v" "r = \<lparr>ref_pool = Pool p, isBase = False\<rparr>"
  using assms by (auto simp: ref_of_def split: option.splits dest: find_Some_elem)

lemma consistentD:
  assumes "consistent ps" and "p \<in> set ps" and "q \<in> set ps"
  shows "BaseVault p \<noteq> QuoteVault q" "QuoteVault p \<noteq> BaseVault q" "BaseVault p = BaseVault q \<longleftrightarrow> Pool p = Pool q"
    "QuoteVault p = QuoteVault q \<longleftrightarrow> Pool p = Pool q"
  using assms unfolding consistent_def by metis+

lemma ref_of_snoc:
  assumes "consistent (ps @ [p])"
  shows "ref_of (ps @ [p]) = (ref_of ps)(BaseVault p \<mapsto> \<lparr>ref_pool = Pool p, isBase = True\<rparr>, QuoteVault p \<mapsto> \<lparr>ref_pool = Pool p, isBase = False\<rparr>)"
proof
  fix v
  have c: "BaseVault p \<noteq> QuoteVault p" "\<And>q. q \<in> set ps \<Longrightarrow> BaseVault q \<noteq> QuoteVault p \<and> QuoteVault q \<noteq> BaseVault p \<and>
      (BaseVault q = BaseVault p \<longleftrightarrow> Pool q = Pool p) \<and> (QuoteVault q = QuoteVault p \<longleftrightarrow> Pool q = Pool p)"
    using assms consistentD [of "ps @ [p]" _ p] consistentD [of "ps @ [p]" p p] by auto
  then show "ref_of (ps @ [p]) v = ((ref_of ps)(BaseVault p \<mapsto> \<lparr>ref_pool = Pool p, isBase = True\<rparr>, QuoteVault p \<mapsto> \<lparr>ref_pool = Pool p, isBase = False\<rparr>)) v"
    by (auto simp: ref_of_def find_snoc split: option.splits dest: find_Some_elem)
qed

text \<open>A vault's amount arrives.\<close>

lemma row_of_other: "BaseVault p \<noteq> v \<Longrightarrow> QuoteVault p \<noteq> v \<Longrightarrow> row_of (ams @ [(v, x)]) p = row_of ams p"
  by (simp add: row_of_def last_amount_snoc)

lemma vault_step:
  assumes "consistent ps" and "swap_inv ps ams h"
  shows "swap_inv ps (ams @ [(v, x)]) (vaultOnAccount (\<lambda>_. False) v x h)"
proof -
  obtain t where t: "tx h = Some t" "wf_table t" "map_of t = (\<lambda>k. map_option (row_of ams) (last_pool ps k))"
      "mVaultToPool h = ref_of ps" "mPendingBalance h = (\<lambda>v. if ref_of ps v = None then map_of (rev ams) v else None)"
    using assms(2) by (auto simp: swap_inv_def)
  show ?thesis
  proof (cases "ref_of ps v")
    case None
    then have "map_option (row_of (ams @ [(v, x)])) (last_pool ps k) = map_option (row_of ams) (last_pool ps k)" for k
      by (cases "last_pool ps k") (auto simp: ref_of_None row_of_other dest: last_pool_elem)
    then show ?thesis using t None by (auto simp: swap_inv_def vaultOnAccount_def fun_eq_iff)
  next
    case (Some r)
    let ?f = "\<lambda>y. if isBase r then y\<lparr>base_balance := to_int64 x\<rparr> else y\<lparr>quote_balance := to_int64 x\<rparr>"
    have "map_option (row_of (ams @ [(v, x)])) (last_pool ps k) =
        (if k = ref_pool r then map_option ?f (map_option (row_of ams) (last_pool ps k)) else map_option (row_of ams) (last_pool ps k))" for k
    proof (cases "last_pool ps k")
      case (Some q)
      then have q: "q \<in> set ps" "Pool q = k" by (auto dest: last_pool_elem)
      show ?thesis
        using \<open>ref_of ps v = Some r\<close>
      proof (cases rule: ref_of_Some)
        case (1 p)
        then show ?thesis using consistentD [OF assms(1) q(1) 1(1)] q Some by (auto simp: row_of_def last_amount_snoc)
      next
        case (2 p)
        then show ?thesis using consistentD [OF assms(1) q(1) 2(1)] q Some by (auto simp: row_of_def last_amount_snoc)
      qed
    qed auto
    moreover have "map_of (update_row (ref_pool r) ?f t) = (map_of t)(ref_pool r := map_option ?f (map_of t (ref_pool r)))"
      by (rule map_of_update_row)
    ultimately show ?thesis
      using t Some by (auto simp: swap_inv_def vaultOnAccount_def saveBalance_def wf_update_row fun_eq_iff)
  qed
qed

text \<open>A pool account arrives. The loop over its vaults moves both pending amounts into its row.\<close>

definition set_side :: "bool \<Rightarrow> u64 option \<Rightarrow> pool_row \<Rightarrow> pool_row" where
  "set_side b x r = (case x of None \<Rightarrow> r | Some x \<Rightarrow> if b then r\<lparr>base_balance := to_int64 x\<rparr> else r\<lparr>quote_balance := to_int64 x\<rparr>)"

lemma update_row_id: "update_row k (\<lambda>r. r) t = t"
  by (induction t) (auto simp: update_row_def)

lemma update_row_twice: "update_row k f (update_row k g t) = update_row k (\<lambda>r. f (g r)) t"
  by (simp add: update_row_def)

lemma save_pending_both:
  assumes "bv \<noteq> qv" and "mVaultToPool h bv = Some \<lparr>ref_pool = k, isBase = True\<rparr>" and "mVaultToPool h qv = Some \<lparr>ref_pool = k, isBase = False\<rparr>"
  shows "save_pending (\<lambda>_. False) [bv, qv] t h =
    h\<lparr>tx := Some (update_row k (\<lambda>r. set_side False (mPendingBalance h qv) (set_side True (mPendingBalance h bv) r)) t),
      mPendingBalance := (mPendingBalance h)(bv := None, qv := None)\<rparr>"
  using assms
  by (auto simp: set_side_def saveBalance_def update_row_id update_row_twice fun_upd_idem split: option.split)

lemma swap_pool_step:
  assumes "consistent (ps @ [p])" and "swap_inv ps ams h"
  shows "swap_inv (ps @ [p]) ams (poolOnAccount (\<lambda>_. False) p h)"
proof -
  obtain t where t: "tx h = Some t" "wf_table t" "map_of t = (\<lambda>k. map_option (row_of ams) (last_pool ps k))"
      "mVaultToPool h = ref_of ps" "mPendingBalance h = (\<lambda>v. if ref_of ps v = None then map_of (rev ams) v else None)"
    using assms(2) by (auto simp: swap_inv_def)
  have c: "BaseVault p \<noteq> QuoteVault p" "\<And>q. q \<in> set ps \<Longrightarrow> BaseVault q \<noteq> QuoteVault p \<and> QuoteVault q \<noteq> BaseVault p \<and>
      (BaseVault q = BaseVault p \<longleftrightarrow> Pool q = Pool p) \<and> (QuoteVault q = QuoteVault p \<longleftrightarrow> Pool q = Pool p)"
    using assms(1) consistentD [of "ps @ [p]" _ p] consistentD [of "ps @ [p]" p p] by auto
  let ?r = "\<lparr>base_mint = BaseMint p, quote_mint = QuoteMint p, base_vault = BaseVault p, quote_vault = QuoteVault p, coin_creator = CoinCreator p,
      base_balance = old_balance base_balance (Pool p) t, quote_balance = old_balance quote_balance (Pool p) t\<rparr>"
  let ?side = "\<lambda>v. if ref_of ps v = None then map_of (rev ams) v else None"
  have row: "set_side False (?side (QuoteVault p)) (set_side True (?side (BaseVault p)) ?r) = row_of ams p"
  proof (cases "last_pool ps (Pool p)")
    case (Some q)
    then have q: "q \<in> set ps" "Pool q = Pool p" by (auto dest: last_pool_elem)
    then have "BaseVault q = BaseVault p" "QuoteVault q = QuoteVault p" using c(2) by auto
    moreover from this have "ref_of ps (BaseVault p) \<noteq> None" "ref_of ps (QuoteVault p) \<noteq> None" using q(1) by (auto simp: ref_of_None)
    ultimately show ?thesis using Some t(3) by (auto simp: set_side_def row_of_def old_balance_def)
  next
    case None
    then have "ref_of ps (BaseVault p) = None" "ref_of ps (QuoteVault p) = None" using c(2) by (auto simp: last_pool_None ref_of_None)
    then show ?thesis using None t(3) by (simp add: set_side_def row_of_def old_balance_def last_amount_def split: option.split)
  qed
  have "poolOnAccount (\<lambda>_. False) p h =
      h\<lparr>mVaultToPool := ref_of (ps @ [p]),
        tx := Some (update_row (Pool p) (\<lambda>r. set_side False (?side (QuoteVault p)) (set_side True (?side (BaseVault p)) r)) (replace_row (Pool p) ?r t)),
        mPendingBalance := (mPendingBalance h)(BaseVault p := None, QuoteVault p := None)\<rparr>"
  proof -
    let ?h = "h\<lparr>mVaultToPool := ref_of (ps @ [p])\<rparr>"
    have "mPendingBalance ?h v = ?side v" for v by (simp add: t(5))
    then show ?thesis
      using save_pending_both [of "BaseVault p" "QuoteVault p" ?h "Pool p" "replace_row (Pool p) ?r t"] c(1) t(1,4)
      by (simp add: poolOnAccount_def upsertPool_def ref_of_snoc [OF assms(1)] del: save_pending.simps)
  qed
  moreover have "map_of (update_row (Pool p) (\<lambda>r. set_side False (?side (QuoteVault p)) (set_side True (?side (BaseVault p)) r)) (replace_row (Pool p) ?r t)) =
      (\<lambda>k. map_option (row_of ams) (last_pool (ps @ [p]) k))"
    using row t(3) by (auto simp: last_pool_snoc fun_eq_iff)
  moreover have "(mPendingBalance h)(BaseVault p := None, QuoteVault p := None) =
      (\<lambda>v. if ref_of (ps @ [p]) v = None then map_of (rev ams) v else None)"
    using t(5) by (auto simp: ref_of_snoc [OF assms(1)] fun_eq_iff)
  ultimately show ?thesis using t(2) by (simp add: swap_inv_def wf_update_row wf_replace_row)
qed

lemma as_pool_total: "parsePool pkfb pk data \<noteq> None"
  by (simp add: parsePool_def swap_layout go_reads)

lemma on_account_step:
  assumes "consistent (ps @ (case as_pool e a of None \<Rightarrow> [] | Some p \<Rightarrow> [p]))" and "swap_inv ps ams h"
  shows "\<exists>h'. OnAccount e (\<lambda>_. False) a h = Some h' \<and>
    swap_inv (ps @ (case as_pool e a of None \<Rightarrow> [] | Some p \<Rightarrow> [p])) (ams @ (case as_vault e a of None \<Rightarrow> [] | Some x \<Rightarrow> [x])) h'"
proof (cases "Owner a = programID e")
  case True
  then have v: "as_vault e a = None" by (simp add: as_vault_def)
  show ?thesis
    using True v assms as_pool_total [of "fromBytes e" "Pubkey a" "Data a"] swap_pool_step [of ps _ ams h]
    by (auto simp: OnAccount_def as_pool_def go_slice_def split: sum.splits if_splits)
next
  case False
  then have p: "as_pool e a = None" by (simp add: as_pool_def)
  show ?thesis
    using False p assms vault_step [of ps ams h]
    by (auto simp: OnAccount_def as_vault_def split: option.splits)
qed

lemma commit_step: "swap_inv ps ams h \<Longrightarrow> swap_inv ps ams (next_commit check s h)"
  by (auto simp: swap_inv_def next_commit_def CommitFinish_def CommitStart_def cancel_def Let_def split: prod.split option.splits)

interpretation swap: handler_history "OnAccount e (\<lambda>_. False)" "next_commit check" "\<lambda>_. True" "\<lambda>as. consistent (pools_in e as)"
  "\<lambda>as. swap_inv (pools_in e as) (amounts_in e as)"
  for e check
proof
  fix as bs
  show "consistent (pools_in e (as @ bs)) \<Longrightarrow> consistent (pools_in e as)"
    by (simp add: pools_in_def map_filter_append consistent_def)
next
  fix as a and h :: "'a handler"
  assume "consistent (pools_in e (as @ [a]))" and "swap_inv (pools_in e as) (amounts_in e as) h"
  then show "\<exists>h'. OnAccount e (\<lambda>_. False) a h = Some h' \<and> swap_inv (pools_in e (as @ [a])) (amounts_in e (as @ [a])) h'"
    using on_account_step [of "pools_in e as" e a "amounts_in e as" h] by (simp add: pools_in_def amounts_in_def map_filter_snoc)
qed (rule commit_step)

abbreviation first_commit :: "env \<Rightarrow> u32 \<Rightarrow> 't \<Rightarrow> (pending_subscription \<Rightarrow> 't \<Rightarrow> 't) \<Rightarrow> u64 \<Rightarrow> 't handler" where
  "first_commit e weightAll newTracker subscribe s \<equiv>
     CommitStart (\<lambda>_. False) s (Init e weightAll newTracker subscribe (createHandler (Some [])))"

lemma first_commit_inv: "swap_inv (pools_in e' []) (amounts_in e' []) (first_commit e weightAll newTracker subscribe s)"
  by (simp add: pools_in_def amounts_in_def List.map_filter_def swap_inv_def CommitStart_def Init_def createHandler_def last_pool_def ref_of_def fun_eq_iff)

text \<open>(C14) Whatever accounts arrive, in whatever order and over however many commits, as long as no statement fails: the table has exactly the pools whose
  accounts have arrived, each with the keys of its last account, and with the last amounts seen on its two vaults, no matter whether those
  came before or after the pool; 0 for a vault that has not been seen.\<close>

theorem pumpswap_balances:
  assumes "consistent (pools_in e (accounts_of cs))"
  shows "\<exists>h t. run_calls (OnAccount e (\<lambda>_. False)) (next_commit check) cs (first_commit e weightAll newTracker subscribe s) = Some h \<and> tx h = Some t \<and> wf_table t \<and>
    map_of t = (\<lambda>k. map_option (row_of (amounts_in e (accounts_of cs))) (last_pool (pools_in e (accounts_of cs)) k))"
proof -
  obtain h where "run_calls (OnAccount e (\<lambda>_. False)) (next_commit check) cs (first_commit e weightAll newTracker subscribe s) = Some h" "swap_inv (pools_in e (accounts_of cs)) (amounts_in e (accounts_of cs)) h"
    using swap.run_inv [of e "[]" cs "first_commit e weightAll newTracker subscribe s" check] first_commit_inv [of e s e weightAll newTracker subscribe] assms
    by auto
  then show ?thesis by (auto simp: swap_inv_def)
qed

abbreviation swap_env :: env where
  "swap_env \<equiv> \<lparr>programID = [1], tokenProgramID = [2], globalConfigPDA = [3],
     decodeToken = (\<lambda>b. Some \<lparr>TMint = [7], TAmount = 500\<rparr>), fromBytes = (\<lambda>b. take 1 b)\<rparr>"

abbreviation swap_bytes :: "byte list" where
  "swap_bytes \<equiv> poolDiscriminator @ replicate 35 0 @ replicate 96 4 @ replicate 32 5 @ replicate 32 6 @ replicate 58 0"

abbreviation pool_account :: account where
  "pool_account \<equiv> \<lparr>Pubkey = [9], Owner = [1], HSlot = 0, DataSize = 261, Deleted = False, Data = swap_bytes\<rparr>"

abbreviation vault_account :: account where
  "vault_account \<equiv> \<lparr>Pubkey = [5], Owner = [2], HSlot = 0, DataSize = 165, Deleted = False, Data = replicate 165 0\<rparr>"

lemma sample_pools: "pools_in swap_env (accounts_of [CAccount vault_account, CCommit 8, CAccount pool_account]) =
    [\<lparr>Pool = [9], BaseMint = [4], QuoteMint = [4], BaseVault = [5], QuoteVault = [6], CoinCreator = [0], BaseBalance = 0, QuoteBalance = 0\<rparr>]"
  by (simp add: pools_in_def List.map_filter_def as_pool_def parsePool_def swap_layout read_pubkey_def go_slice_def poolDiscriminator_def)

lemma sample_amounts: "amounts_in swap_env (accounts_of [CAccount vault_account, CCommit 8, CAccount pool_account]) = [([5], 500)]"
  by (simp add: amounts_in_def List.map_filter_def as_vault_def)

theorem pumpswap_balances_witness:
  "\<exists>h t r. run_calls (OnAccount swap_env (\<lambda>_. False)) (next_commit (\<lambda>_ g. (False, g))) [CAccount vault_account, CCommit 8, CAccount pool_account]
       (first_commit swap_env 0 (0 :: nat) (\<lambda>_ n. n + 1) 7) = Some h \<and> tx h = Some t \<and> map_of t [9] = Some r \<and>
     base_balance r = 500 \<and> quote_balance r = 0"
  using pumpswap_balances [of swap_env "[CAccount vault_account, CCommit 8, CAccount pool_account]" "\<lambda>_ g. (False, g)" 7 0 "0 :: nat" "\<lambda>_ n. n + 1"]
  unfolding sample_pools sample_amounts
  by (auto simp: consistent_def last_pool_def row_of_def last_amount_def to_int64_def)

section \<open>Loading the table\<close>

lemma to_int64_negative: "to_int64 x < 0 \<longleftrightarrow> 2 ^ 63 \<le> unat x"
proof -
  have u: "0 \<le> uint x" "uint x < 2 ^ 64" using uint_lt2p [of x] by simp_all
  have "uint x div 2 ^ 63 = (if uint x < 2 ^ 63 then 0 else 1)"
    using u int_div_pos_eq [of "uint x" "2 ^ 63" 1 "uint x - 2 ^ 63"] by (cases "uint x < 2 ^ 63") simp_all
  then have "bit (uint x) 63 \<longleftrightarrow> 2 ^ 63 \<le> uint x"
    unfolding bit_iff_odd by (metis even_zero odd_one not_le)
  moreover have "2 ^ 63 \<le> unat x \<longleftrightarrow> 2 ^ 63 \<le> uint x" by (simp only: unat_eq_nat_uint le_nat_iff [OF u(1)] of_nat_power of_nat_numeral)
  moreover have "to_int64 x < 0 \<longleftrightarrow> bit (uint x) 63" unfolding to_int64_def sint_uint by (simp add: signed_take_bit_negative_iff)
  ultimately show ?thesis by blast
qed

lemma scan_uint64_int64: "scan_uint64 (to_int64 x) = (if unat x < 2 ^ 63 then Inr x else Inl ScanFailed)"
  using to_uint64_int64 [of x] by (simp add: scan_uint64_def to_int64_negative to_uint64_def not_le)

definition loaded :: "(byte list \<Rightarrow> pubkey) \<Rightarrow> pubkey \<times> pool_row \<Rightarrow> pool" where
  "loaded pkfb = (\<lambda>(k, r). \<lparr>Pool = pkfb k, BaseMint = pkfb (base_mint r), QuoteMint = pkfb (quote_mint r), BaseVault = pkfb (base_vault r),
     QuoteVault = pkfb (quote_vault r), CoinCreator = pkfb (coin_creator r), BaseBalance = of_int (base_balance r), QuoteBalance = of_int (quote_balance r)\<rparr>)"

definition scannable :: "pubkey \<times> pool_row \<Rightarrow> bool" where
  "scannable = (\<lambda>(k, r). 0 \<le> base_balance r \<and> 0 \<le> quote_balance r)"

lemma scan_pool_iff: "scan_pool pkfb kr = (if scannable kr then Inr (loaded pkfb kr) else Inl ScanFailed)"
  by (cases kr) (auto simp: scan_pool_def scan_uint64_def scannable_def loaded_def)

lemma loadPools_loop:
  "fold_err (\<lambda>row out. case scan_pool pkfb row of Inl e \<Rightarrow> Inl e | Inr p \<Rightarrow> Inr (out @ [p])) t out =
     (if list_all scannable t then Inr (out @ map (loaded pkfb) t) else Inl ScanFailed)"
  by (induction t arbitrary: out) (auto simp: scan_pool_iff)

text \<open>The table loads back unless one vault holds \<open>2 ^ 63\<close> units or more: then its column is negative, and not one pool is loaded.
  When it loads, the pools come back in table order with the amounts last seen.\<close>

theorem loadPools_all_or_nothing:
  assumes "consistent (pools_in e (accounts_of cs))"
    and "run_calls (OnAccount e (\<lambda>_. False)) (next_commit check) cs (first_commit e weightAll newTracker subscribe s) = Some h" and "tx h = Some t"
  shows "loadPools pkfb (\<lambda>_. False) t =
    (if \<forall>p \<in> set (pools_in e (accounts_of cs)). 0 \<le> last_amount (amounts_in e (accounts_of cs)) (BaseVault p) \<and> 0 \<le> last_amount (amounts_in e (accounts_of cs)) (QuoteVault p)
     then Inr (map (loaded pkfb) t) else Inl ScanFailed)"
proof -
  let ?ps = "pools_in e (accounts_of cs)" and ?ams = "amounts_in e (accounts_of cs)"
  have "swap_inv ?ps ?ams h"
    using swap.run_inv [of e "[]" cs "first_commit e weightAll newTracker subscribe s" check] first_commit_inv [of e s e weightAll newTracker subscribe] assms
    by auto
  then have t: "wf_table t" "map_of t = (\<lambda>k. map_option (row_of ?ams) (last_pool ?ps k))" using assms(3) by (auto simp: swap_inv_def)
  have "list_all scannable t \<longleftrightarrow>
      (\<forall>p \<in> set ?ps. 0 \<le> last_amount ?ams (BaseVault p) \<and> 0 \<le> last_amount ?ams (QuoteVault p))"
  proof
    assume "list_all scannable t"
    then have a: "\<And>k r. map_of t k = Some r \<Longrightarrow> scannable (k, r)" by (auto simp: list_all_iff dest: map_of_SomeD)
    show "\<forall>p \<in> set ?ps. 0 \<le> last_amount ?ams (BaseVault p) \<and> 0 \<le> last_amount ?ams (QuoteVault p)"
    proof
      fix p assume p: "p \<in> set ?ps"
      then obtain q where q: "last_pool ?ps (Pool p) = Some q" by (cases "last_pool ?ps (Pool p)") (auto simp: last_pool_None)
      then have "BaseVault q = BaseVault p" "QuoteVault q = QuoteVault p"
        using consistentD(3,4) [OF assms(1)] p last_pool_elem [OF q] by auto
      then show "0 \<le> last_amount ?ams (BaseVault p) \<and> 0 \<le> last_amount ?ams (QuoteVault p)"
        using a [of "Pool p"] q t(2) by (simp add: scannable_def row_of_def)
    qed
  next
    assume "\<forall>p \<in> set ?ps. 0 \<le> last_amount ?ams (BaseVault p) \<and> 0 \<le> last_amount ?ams (QuoteVault p)"
    then have "scannable (k, r)" if "map_of t k = Some r" for k r
      using that t(2) last_pool_elem by (fastforce simp: scannable_def row_of_def)
    then show "list_all scannable t" using t(1) by (auto simp: list_all_iff wf_table_def)
  qed
  then show ?thesis by (simp add: loadPools_def loadPools_loop)
qed

lemma large_amount_negative: "map_of (rev ams) v = Some x \<Longrightarrow> last_amount ams v < 0 \<longleftrightarrow> 2 ^ 63 \<le> unat x"
  by (simp add: last_amount_def to_int64_negative)

theorem loadPools_all_or_nothing_witness:
  "\<exists>h t. run_calls (OnAccount swap_env (\<lambda>_. False)) (next_commit (\<lambda>_ g. (False, g))) [CAccount vault_account, CCommit 8, CAccount pool_account]
       (first_commit swap_env 0 (0 :: nat) (\<lambda>_ n. n + 1) 7) = Some h \<and> tx h = Some t \<and>
     loadPools (\<lambda>b. b) (\<lambda>_. False) t = Inr (map (loaded (\<lambda>b. b)) t)"
proof -
  let ?cs = "[CAccount vault_account, CCommit 8, CAccount pool_account]" and ?h0 = "first_commit swap_env 0 (0 :: nat) (\<lambda>_ n. n + 1) 7"
  have c: "consistent (pools_in swap_env (accounts_of ?cs))" unfolding sample_pools by (simp add: consistent_def)
  obtain h where h: "run_calls (OnAccount swap_env (\<lambda>_. False)) (next_commit (\<lambda>_ g. (False, g))) ?cs ?h0 = Some h" "swap_inv (pools_in swap_env (accounts_of ?cs)) (amounts_in swap_env (accounts_of ?cs)) h"
    using swap.run_inv [of swap_env "[]" ?cs ?h0 "\<lambda>_ g. (False, g)"] first_commit_inv [of swap_env 7 swap_env 0 "0 :: nat" "\<lambda>_ n. n + 1"] c by auto
  then obtain t where t: "tx h = Some t" by (auto simp: swap_inv_def)
  have "\<forall>p \<in> set (pools_in swap_env (accounts_of ?cs)). 0 \<le> last_amount (amounts_in swap_env (accounts_of ?cs)) (BaseVault p) \<and>
      0 \<le> last_amount (amounts_in swap_env (accounts_of ?cs)) (QuoteVault p)"
    unfolding sample_pools sample_amounts by (simp add: last_amount_def to_int64_def)
  then show ?thesis using loadPools_all_or_nothing [OF c h(1) t, of "\<lambda>b. b"] h(1) t by auto
qed

text \<open>\<open>TopPools\<close> lists the pools with the largest sums of stored balances.\<close>

lemma swap_TopPools_best:
  assumes "t \<noteq> []" and "0 < n"
  shows "\<exists>top rest. TopPools hex False n t =
      Inr (''Pumpswap pools, ranked by combined base+quote balance (liquidity proxy) highest first:'' @ [CHR 0x0A] @ join '';'' (map (\<lambda>(k, r). ''pool='' @ hex k) top)) \<and>
    mset (top @ rest) = mset t \<and> length top = min n (length t) \<and>
    (\<forall>(k, r) \<in> set top. \<forall>(k', r') \<in> set rest. base_balance r' + quote_balance r' \<le> base_balance r + quote_balance r)"
proof -
  let ?key = "\<lambda>(k, r). base_balance r + quote_balance r"
  obtain rest where r: "mset (top_rows ?key n t @ rest) = mset t" "length (top_rows ?key n t) = min n (length t)"
      "\<forall>x \<in> set (top_rows ?key n t). \<forall>y \<in> set rest. ?key y \<le> ?key x"
    using top_rows_best [of ?key n t] by blast
  then have "top_rows ?key n t \<noteq> []" using assms by (auto simp: min_def split: if_splits)
  then show ?thesis using r by (intro exI [of _ "top_rows ?key n t"] exI [of _ rest]) (auto simp: TopPools_def Let_def)
qed

section \<open>Every call keeps one row per pool\<close>

definition swap_ok :: "'t handler \<Rightarrow> bool" where
  "swap_ok h \<longleftrightarrow> (\<forall>t. db h = Some t \<longrightarrow> wf_table t) \<and> (\<forall>t. tx h = Some t \<longrightarrow> wf_table t)"

lemma swap_cancel_frame [simp]: "db (cancel err h) = db h" "tx (cancel err h) = tx h"
  by (simp_all add: cancel_def)

lemma saveBalance_wf: "saveBalance ef k b x t = Inr t' \<Longrightarrow> wf_table t \<Longrightarrow> wf_table t'"
  by (auto simp: saveBalance_def wf_update_row split: if_splits)

lemma save_pending_ok: "wf_table t \<Longrightarrow> swap_ok h \<Longrightarrow> swap_ok (save_pending fails vs t h)"
proof (induction fails vs t h rule: save_pending.induct)
  case (2 fails v vs t h)
  then show ?case
    by (auto simp: Let_def saveBalance_wf swap_ok_def split: option.splits sum.splits)
qed (simp add: swap_ok_def)

lemma poolOnAccount_ok: "swap_ok h \<Longrightarrow> swap_ok (poolOnAccount fails p h)"
  by (auto simp: poolOnAccount_def upsertPool_def swap_ok_def wf_replace_row intro!: save_pending_ok [unfolded swap_ok_def]
      simp del: save_pending.simps split: option.split sum.splits if_splits)

lemma vaultOnAccount_ok: "swap_ok h \<Longrightarrow> swap_ok (vaultOnAccount fails v x h)"
  by (auto simp: vaultOnAccount_def swap_ok_def dest: saveBalance_wf split: option.split sum.splits)

interpretation pumpswap: event_handler "\<lambda>w. Init e w newTracker subscribe" CommitStart "OnAccount e"
  "\<lambda>fails ready. CommitFinish fails (check ready)" swap_ok
  for e subscribe check newTracker
proof
  fix h h' :: "'a handler" and fails a
  assume "swap_ok h" and "OnAccount e fails a h = Some h'"
  then show "swap_ok h'"
    by (auto simp: OnAccount_def poolOnAccount_ok vaultOnAccount_ok split: if_splits option.splits sum.splits bind_splits)
qed (auto simp: swap_ok_def Init_def CommitStart_def CommitFinish_def cancel_def Let_def split: option.splits prod.splits)

text \<open>Whatever the stream delivers and whichever statements fail, no pool ever has two rows.\<close>

lemma pumpswap_one_row:
  assumes "hook_runs (\<lambda>w. Init e w newTracker subscribe) CommitStart (OnAccount e) (\<lambda>fails ready. CommitFinish fails (check ready)) (createHandler (Some [])) h"
    and "db h = Some t"
  shows "wf_table t"
  using pumpswap.runs_ok [OF assms(1)] assms(2) by (simp add: swap_ok_def createHandler_def)

end
