(* ===== verification/Pumpfun.thy ===== *)
theory Pumpfun
  imports Accounts Subscribe
begin

text \<open>
  The Pump.fun prefetcher (\<open>src/prefetch/pumpfun\<close>): the parser of a bonding curve (\<open>curve.go\<close>), the event handler that joins a curve with the mint of
  its token account (\<open>event.go\<close>), the table (\<open>store.go\<close>, \<open>schema.sql\<close>) and the query (\<open>query.go\<close>).

  Conventions as in the other prefetchers: failing statements are arguments, \<open>None\<close> is a panic, the token decoder and the
  derivation of program addresses are parameters.
\<close>

section \<open>Parser\<close>

datatype curve_error =
  CurveTooShort nat | BeginFailed | CommitFailed | MissingTx | UpsertFailed | QueryFailed | ScanFailed | HookFailed | CreateFileFailed

definition bondingCurveMinLen :: nat where "bondingCurveMinLen = 115"
definition offBcVirtualTokenReserves :: nat where "offBcVirtualTokenReserves = 8"
definition offBcVirtualSolReserves :: nat where "offBcVirtualSolReserves = 16"
definition offBcRealTokenReserves :: nat where "offBcRealTokenReserves = 24"
definition offBcRealSolReserves :: nat where "offBcRealSolReserves = 32"
definition offBcComplete :: nat where "offBcComplete = 48"
definition offBcCreator :: nat where "offBcCreator = 49"
definition offBcQuoteMint :: nat where "offBcQuoteMint = 83"

lemmas curve_layout = bondingCurveMinLen_def offBcVirtualTokenReserves_def offBcVirtualSolReserves_def offBcRealTokenReserves_def
  offBcRealSolReserves_def offBcComplete_def offBcCreator_def offBcQuoteMint_def

definition bondingCurveDiscriminator :: "byte list" where
  "bondingCurveDiscriminator = [23, 183, 248, 55, 96, 216, 172, 96]"

record curve_entry =
  Mint :: pubkey
  BondingCurve :: pubkey
  Creator :: pubkey
  QuoteMint :: pubkey
  VirtualTokenReserves :: u64
  VirtualSolReserves :: u64
  RealTokenReserves :: u64
  RealSolReserves :: u64
  Complete :: bool

text \<open>\<open>binary.LittleEndian.Uint64(data[off:])\<close>.\<close>

definition uint64_from :: "byte list \<Rightarrow> nat \<Rightarrow> u64 option" where
  "uint64_from data off = do { s \<leftarrow> go_slice_from off data; le_u64 s }"

definition parseBondingCurve :: "(byte list \<Rightarrow> pubkey) \<Rightarrow> pubkey \<Rightarrow> pubkey \<Rightarrow> byte list \<Rightarrow> (curve_error + curve_entry) option" where
  "parseBondingCurve pkfb mint bondingCurve data =
     (if length data < bondingCurveMinLen then Some (Inl (CurveTooShort (length data)))
      else do {
        cr \<leftarrow> read_pubkey pkfb data offBcCreator;
        qm \<leftarrow> read_pubkey pkfb data offBcQuoteMint;
        vt \<leftarrow> uint64_from data offBcVirtualTokenReserves;
        vs \<leftarrow> uint64_from data offBcVirtualSolReserves;
        rt \<leftarrow> uint64_from data offBcRealTokenReserves;
        rs \<leftarrow> uint64_from data offBcRealSolReserves;
        c \<leftarrow> go_index data offBcComplete;
        Some (Inr \<lparr>Mint = mint, BondingCurve = bondingCurve, Creator = cr, QuoteMint = qm, VirtualTokenReserves = vt,
                   VirtualSolReserves = vs, RealTokenReserves = rt, RealSolReserves = rs, Complete = (c \<noteq> 0)\<rparr>) })"

section \<open>The table\<close>

record curve_row =
  bonding_curve :: "byte list"
  creator :: "byte list"
  quote_mint :: "byte list"
  virtual_token_reserves :: int
  virtual_sol_reserves :: int
  real_token_reserves :: int
  real_sol_reserves :: int
  complete :: bool

type_synonym curve_table = "(pubkey \<times> curve_row) list"

datatype stmt = SBegin | SCommit | SUpsert | SRead

definition row_of_entry :: "curve_entry \<Rightarrow> curve_row" where
  "row_of_entry c =
     \<lparr>bonding_curve = BondingCurve c, creator = Creator c, quote_mint = QuoteMint c,
      virtual_token_reserves = to_int64 (VirtualTokenReserves c), virtual_sol_reserves = to_int64 (VirtualSolReserves c),
      real_token_reserves = to_int64 (RealTokenReserves c), real_sol_reserves = to_int64 (RealSolReserves c), complete = Complete c\<rparr>"

definition upsertCurve :: "bool \<Rightarrow> curve_entry \<Rightarrow> curve_table \<Rightarrow> curve_error + curve_table" where
  "upsertCurve execFails c t = (if execFails then Inl UpsertFailed else Inr (replace_row (Mint c) (row_of_entry c) t))"

definition curveCount :: "(stmt \<Rightarrow> bool) \<Rightarrow> curve_table \<Rightarrow> curve_error + nat" where
  "curveCount fails t = (if fails SRead then Inl QueryFailed else Inr (length t))"

text \<open>\<open>rows.Scan\<close> into four \<open>uint64\<close>s fails on a negative column.\<close>

definition scan_curve :: "(byte list \<Rightarrow> pubkey) \<Rightarrow> pubkey \<times> curve_row \<Rightarrow> curve_error + curve_entry" where
  "scan_curve pkfb = (\<lambda>(m, r).
     if virtual_token_reserves r < 0 \<or> virtual_sol_reserves r < 0 \<or> real_token_reserves r < 0 \<or> real_sol_reserves r < 0 then Inl ScanFailed
     else Inr \<lparr>Mint = pkfb m, BondingCurve = pkfb (bonding_curve r), Creator = pkfb (creator r), QuoteMint = pkfb (quote_mint r),
               VirtualTokenReserves = of_int (virtual_token_reserves r), VirtualSolReserves = of_int (virtual_sol_reserves r),
               RealTokenReserves = of_int (real_token_reserves r), RealSolReserves = of_int (real_sol_reserves r), Complete = complete r\<rparr>)"

definition loadCurves :: "(byte list \<Rightarrow> pubkey) \<Rightarrow> (stmt \<Rightarrow> bool) \<Rightarrow> curve_table \<Rightarrow> curve_error + curve_entry list" where
  "loadCurves pkfb fails t =
     (if fails SRead then Inl QueryFailed
      else fold_err (\<lambda>row out. case scan_curve pkfb row of Inl e \<Rightarrow> Inl e | Inr c \<Rightarrow> Inr (out @ [c])) t [])"

section \<open>The handler\<close>

record pending_curve =
  curveData :: "byte list option"
  pmint :: pubkey

record 't handler =
  slot :: u64
  db :: "curve_table option"
  tx :: "curve_table option"
  sendSubCount :: u32
  pss :: "'t option"
  mPending :: "pubkey \<rightharpoonup> pending_curve"
  cause :: "curve_error option"

text \<open>\<open>decodeToken\<close> gives the mint and the owner of a token account, \<open>findPDA\<close> is \<open>FindProgramAddress\<close>.\<close>

record env =
  programID :: pubkey
  tokenProgramID :: pubkey
  globalPDA :: pubkey
  decodeToken :: "byte list \<Rightarrow> (pubkey \<times> pubkey) option"
  fromBytes :: "byte list \<Rightarrow> pubkey"
  findPDA :: "byte list list \<Rightarrow> pubkey \<Rightarrow> pubkey option"

definition bondingCurveAddress :: "env \<Rightarrow> pubkey \<Rightarrow> pubkey option" where
  "bondingCurveAddress e mint = findPDA e [map (\<lambda>c. of_nat (of_char c)) ''bonding-curve'', mint] (programID e)"

definition pumpfunQuietSlots :: u64 where "pumpfunQuietSlots = 4500"

definition cancel :: "curve_error \<Rightarrow> 't handler \<Rightarrow> 't handler" where
  "cancel e h = (if cause h = None then h\<lparr>cause := Some e\<rparr> else h)"

definition createHandler :: "curve_table option \<Rightarrow> 't handler" where
  "createHandler d = \<lparr>slot = 0, db = d, tx = None, sendSubCount = 0, pss = None, mPending = Map.empty, cause = None\<rparr>"

definition CommitStart :: "(stmt \<Rightarrow> bool) \<Rightarrow> u64 \<Rightarrow> 't handler \<Rightarrow> 't handler" where
  "CommitStart fails s h =
     (let h = h\<lparr>slot := s\<rparr>
      in case db h of
           None \<Rightarrow> h
         | Some d \<Rightarrow> if fails SBegin then cancel BeginFailed h else h\<lparr>tx := Some d\<rparr>)"

definition CommitFinish :: "(stmt \<Rightarrow> bool) \<Rightarrow> (u64 \<Rightarrow> 't \<Rightarrow> bool \<times> 't) \<Rightarrow> 't handler \<Rightarrow> bool \<times> 't handler" where
  "CommitFinish fails check h =
     (case tx h of
        None \<Rightarrow> (False, cancel MissingTx h)
      | Some t \<Rightarrow>
          if fails SCommit then (False, cancel CommitFailed h)
          else
            let h = h\<lparr>db := Some t, tx := None\<rparr>
            in if sendSubCount h = 0 then (False, h)
               else case pss h of
                 None \<Rightarrow> (False, h)
               | Some g \<Rightarrow> (case check (slot h) g of (isDone, g') \<Rightarrow> (isDone, h\<lparr>pss := Some g'\<rparr>)))"

definition Init :: "env \<Rightarrow> u32 \<Rightarrow> 't \<Rightarrow> (pending_subscription \<Rightarrow> 't \<Rightarrow> 't) \<Rightarrow> 't handler \<Rightarrow> 't handler" where
  "Init e weightAll newTracker subscribe h =
     h\<lparr>sendSubCount := sendSubCount h + 1,
       pss := Some (subscribe \<lparr>root = globalPDA e, weight = weightAll, depth = 3\<rparr> newTracker)\<rparr>"

text \<open>\<open>handler.pending(k)\<close> followed by an assignment to one of the two fields.\<close>

definition pending :: "pubkey \<Rightarrow> (pending_curve \<Rightarrow> pending_curve) \<Rightarrow> 't handler \<Rightarrow> 't handler" where
  "pending k f h = h\<lparr>mPending := (mPending h)(k \<mapsto> f (map_get \<lparr>curveData = None, pmint = zero_key\<rparr> (mPending h) k))\<rparr>"

definition tryFinalize :: "env \<Rightarrow> (stmt \<Rightarrow> bool) \<Rightarrow> pubkey \<Rightarrow> 't handler \<Rightarrow> 't handler option" where
  "tryFinalize e fails k h =
     (case mPending h k of
        None \<Rightarrow> Some h
      | Some p \<Rightarrow>
          (case curveData p of
             None \<Rightarrow> Some h
           | Some data \<Rightarrow>
               if pmint p = zero_key then Some h
               else do {
                 r \<leftarrow> parseBondingCurve (fromBytes e) (pmint p) k data;
                 Some (case r of
                   Inl err \<Rightarrow> h
                 | Inr entry \<Rightarrow>
                     if (case bondingCurveAddress e (pmint p) of None \<Rightarrow> False | Some derived \<Rightarrow> derived \<noteq> k) then h
                     else case tx h of
                       None \<Rightarrow> cancel MissingTx h
                     | Some t \<Rightarrow>
                         (case upsertCurve (fails SUpsert) entry t of
                            Inl err \<Rightarrow> cancel err h
                          | Inr t \<Rightarrow> h\<lparr>tx := Some t\<rparr>)) }))"

definition OnAccount :: "env \<Rightarrow> (stmt \<Rightarrow> bool) \<Rightarrow> account \<Rightarrow> 't handler \<Rightarrow> 't handler option" where
  "OnAccount e fails a h =
     (if Owner a = programID e then
        if length (Data a) < 8 then Some h
        else do {
          d \<leftarrow> go_slice 0 8 (Data a);
          if d \<noteq> bondingCurveDiscriminator then Some h
          else tryFinalize e fails (Pubkey a) (pending (Pubkey a) (curveData_update (\<lambda>_. Some (Data a))) h) }
      else if tokenProgramID e \<noteq> Owner a then Some h
      else if length (Data a) < 165 \<or> 200 \<le> length (Data a) then Some h
      else case decodeToken e (Data a) of
        None \<Rightarrow> Some h
      | Some (m, o') \<Rightarrow> tryFinalize e fails o' (pending o' (pmint_update (\<lambda>_. m)) h))"

section \<open>Queries\<close>

definition TopPools :: "(byte list \<Rightarrow> string) \<Rightarrow> bool \<Rightarrow> nat \<Rightarrow> curve_table \<Rightarrow> curve_error + string" where
  "TopPools hex fails n t =
     (if fails then Inl QueryFailed
      else let rows = map (\<lambda>(m, r). ''mint='' @ hex m) (top_rows (\<lambda>(m, r). real_sol_reserves r) n t);
               header = ''Pump.fun bonding curves, ranked by real SOL reserves highest first:'' @ [CHR 0x0A]
           in Inr (if rows = [] then header @ ''(no bonding curves found)'' else header @ join '';'' rows))"

text \<open>The stream that drives the handler is an argument: it ends with an error or leaves the table it has committed.\<close>

definition fetch :: "('t handler \<Rightarrow> unit + curve_table) \<Rightarrow> curve_table \<Rightarrow> curve_error + curve_table" where
  "fetch hook t = (case hook (createHandler (Some t)) of Inl err \<Rightarrow> Inl HookFailed | Inr t' \<Rightarrow> Inr t')"

definition Pumpfun_fetch :: "(byte list \<Rightarrow> pubkey) \<Rightarrow> (stmt \<Rightarrow> bool) \<Rightarrow> ('t handler \<Rightarrow> unit + curve_table) \<Rightarrow> curve_table \<Rightarrow> curve_error + curve_entry list" where
  "Pumpfun_fetch pkfb fails hook t = (case fetch hook t of Inl err \<Rightarrow> Inl err | Inr t' \<Rightarrow> loadCurves pkfb fails t')"

definition Create :: "(byte list \<Rightarrow> pubkey) \<Rightarrow> (stmt \<Rightarrow> bool) \<Rightarrow> ('t handler \<Rightarrow> unit + curve_table) \<Rightarrow> bool \<Rightarrow> curve_table \<Rightarrow> curve_error + curve_entry list" where
  "Create pkfb fails hook force t =
     (case curveCount fails t of
        Inl err \<Rightarrow> Inl err
      | Inr n \<Rightarrow> if n = 0 \<or> force then Pumpfun_fetch pkfb fails hook t else loadCurves pkfb fails t)"

text \<open>\<open>ExportJSON\<close>, up to the list that is encoded: a query that fails gives no rows.\<close>

record curve_json =
  JMint :: pubkey
  JQuoteMint :: pubkey
  JRealSolReserves :: int
  JComplete :: bool

definition ExportJSON :: "(byte list \<Rightarrow> pubkey) \<Rightarrow> (stmt \<Rightarrow> bool) \<Rightarrow> bool \<Rightarrow> curve_table \<Rightarrow> curve_error + curve_json list" where
  "ExportJSON pkfb fails createFails t =
     (let out = if fails SRead then []
        else map (\<lambda>(m, r). \<lparr>JMint = pkfb m, JQuoteMint = pkfb (quote_mint r), JRealSolReserves = real_sol_reserves r, JComplete = complete r\<rparr>) t
      in if createFails then Inl CreateFileFailed else Inr out)"

section \<open>The parser is total\<close>

definition entry_at :: "(byte list \<Rightarrow> pubkey) \<Rightarrow> pubkey \<Rightarrow> pubkey \<Rightarrow> byte list \<Rightarrow> curve_entry" where
  "entry_at pkfb m k d =
     \<lparr>Mint = m, BondingCurve = k, Creator = key_at pkfb d 49, QuoteMint = key_at pkfb d 83, VirtualTokenReserves = u64_at d 8,
      VirtualSolReserves = u64_at d 16, RealTokenReserves = u64_at d 24, RealSolReserves = u64_at d 32, Complete = (d ! 48 \<noteq> 0)\<rparr>"

lemma uint64_from_in [go_reads]: "off + 8 \<le> length d \<Longrightarrow> uint64_from d off = Some (u64_at d off)"
  by (simp add: uint64_from_def go_slice_from_in le_u64_in)

lemma parseBondingCurve_reads:
  "parseBondingCurve pkfb m k d = Some (if length d < 115 then Inl (CurveTooShort (length d)) else Inr (entry_at pkfb m k d))"
  by (auto simp: parseBondingCurve_def curve_layout entry_at_def go_reads)

section \<open>Joining curves and mints in any order\<close>

definition next_commit :: "(u64 \<Rightarrow> 't \<Rightarrow> bool \<times> 't) \<Rightarrow> u64 \<Rightarrow> 't handler \<Rightarrow> 't handler" where
  "next_commit check s h = CommitStart (\<lambda>_. False) s (snd (CommitFinish (\<lambda>_. False) check h))"

definition as_curve :: "env \<Rightarrow> account \<Rightarrow> (pubkey \<times> byte list) option" where
  "as_curve e a =
     (if Owner a = programID e \<and> 8 \<le> length (Data a) \<and> take 8 (Data a) = bondingCurveDiscriminator then Some (Pubkey a, Data a) else None)"

text \<open>The owner of a token account with its mint.\<close>

definition as_holding :: "env \<Rightarrow> account \<Rightarrow> (pubkey \<times> pubkey) option" where
  "as_holding e a =
     (if Owner a \<noteq> programID e \<and> Owner a = tokenProgramID e \<and> 165 \<le> length (Data a) \<and> length (Data a) < 200
      then map_option (\<lambda>(m, o'). (o', m)) (decodeToken e (Data a)) else None)"

definition curves_in :: "env \<Rightarrow> account list \<Rightarrow> (pubkey \<times> byte list) list" where
  "curves_in e as = List.map_filter (as_curve e) as"

definition holdings_in :: "env \<Rightarrow> account list \<Rightarrow> (pubkey \<times> pubkey) list" where
  "holdings_in e as = List.map_filter (as_holding e) as"

text \<open>Curve accounts have their full size, an owner has accounts of one mint only, and addresses can be derived.\<close>

definition genuine :: "env \<Rightarrow> (pubkey \<times> byte list) list \<Rightarrow> (pubkey \<times> pubkey) list \<Rightarrow> bool" where
  "genuine e cs ms \<longleftrightarrow> (\<forall>(k, d) \<in> set cs. 115 \<le> length d) \<and>
     (\<forall>(k, m) \<in> set ms. m \<noteq> zero_key \<and> bondingCurveAddress e m \<noteq> None \<and> (\<forall>(k', m') \<in> set ms. k' = k \<longrightarrow> m' = m))"

definition curve_row_of :: "env \<Rightarrow> pubkey \<Rightarrow> pubkey \<Rightarrow> byte list \<Rightarrow> curve_row" where
  "curve_row_of e m k d = row_of_entry (entry_at (fromBytes e) m k d)"

definition rows_of :: "env \<Rightarrow> (pubkey \<times> byte list) list \<Rightarrow> (pubkey \<times> pubkey) list \<Rightarrow> pubkey \<rightharpoonup> curve_row" where
  "rows_of e cs ms m =
     (case bondingCurveAddress e m of
        None \<Rightarrow> None
      | Some k \<Rightarrow> if map_of (rev ms) k = Some m then map_option (curve_row_of e m k) (map_of (rev cs) k) else None)"

definition pending_of :: "(pubkey \<times> byte list) list \<Rightarrow> (pubkey \<times> pubkey) list \<Rightarrow> pubkey \<rightharpoonup> pending_curve" where
  "pending_of cs ms k =
     (if map_of (rev cs) k = None \<and> map_of (rev ms) k = None then None
      else Some \<lparr>curveData = map_of (rev cs) k, pmint = map_get zero_key (map_of (rev ms)) k\<rparr>)"

definition curve_inv :: "env \<Rightarrow> (pubkey \<times> byte list) list \<Rightarrow> (pubkey \<times> pubkey) list \<Rightarrow> 't handler \<Rightarrow> bool" where
  "curve_inv e cs ms h \<longleftrightarrow> (\<exists>t. tx h = Some t \<and> wf_table t \<and> map_of t = rows_of e cs ms \<and> mPending h = pending_of cs ms)"

lemma tryFinalize_row:
  assumes "tx h = Some t" and "mPending h k = Some \<lparr>curveData = Some d, pmint = m\<rparr>" and "m \<noteq> zero_key" and "115 \<le> length d"
    and "bondingCurveAddress e m = Some k'"
  shows "tryFinalize e (\<lambda>_. False) k h = Some (h\<lparr>tx := Some (if k' = k then replace_row m (curve_row_of e m k d) t else t)\<rparr>)"
  using assms by (simp add: tryFinalize_def parseBondingCurve_reads upsertCurve_def curve_row_of_def entry_at_def)

lemma tryFinalize_half:
  "mPending h k = Some p \<Longrightarrow> curveData p = None \<or> pmint p = zero_key \<Longrightarrow> tryFinalize e fails k h = Some h"
  by (auto simp: tryFinalize_def split: option.split)

lemma map_of_rev_elem: "map_of (rev xs) k = Some v \<Longrightarrow> (k, v) \<in> set xs"
  by (auto dest: map_of_SomeD)

text \<open>After an arrival for \<open>k\<close> the row is the one the new halves determine.\<close>

lemma finalize_inv:
  assumes "genuine e cs ms" and "mPending h = pending_of cs ms" and "tx h = Some t" and "wf_table t"
    and "map_of (rev cs) k \<noteq> None \<or> map_of (rev ms) k \<noteq> None"
    and "\<And>m. bondingCurveAddress e m \<noteq> Some k \<Longrightarrow> map_of t m = rows_of e cs ms m"
    and "\<And>m. bondingCurveAddress e m = Some k \<Longrightarrow> map_of (rev cs) k = None \<or> map_of (rev ms) k \<noteq> Some m \<Longrightarrow> map_of t m = rows_of e cs ms m"
  shows "\<exists>h'. tryFinalize e (\<lambda>_. False) k h = Some h' \<and> curve_inv e cs ms h'"
proof (cases "map_of (rev cs) k = None \<or> map_of (rev ms) k = None")
  case True
  have "pmint (the (pending_of cs ms k)) = zero_key \<or> curveData (the (pending_of cs ms k)) = None"
    using True assms(5) by (auto simp: pending_of_def)
  then have "tryFinalize e (\<lambda>_. False) k h = Some h"
    using tryFinalize_half [of h k "the (pending_of cs ms k)"] assms(2,5) by (auto simp: pending_of_def)
  moreover have "map_of t m = rows_of e cs ms m" for m using True assms(6,7) by (cases "bondingCurveAddress e m = Some k") auto
  ultimately show ?thesis using assms(2-4) by (auto simp: curve_inv_def)
next
  case False
  then obtain d m where dm: "map_of (rev cs) k = Some d" "map_of (rev ms) k = Some m" by auto
  then have g: "115 \<le> length d" "m \<noteq> zero_key" "bondingCurveAddress e m \<noteq> None"
    using assms(1) map_of_rev_elem [of cs k d] map_of_rev_elem [of ms k m] by (auto simp: genuine_def)
  then obtain k' where k': "bondingCurveAddress e m = Some k'" by auto
  have p: "mPending h k = Some \<lparr>curveData = Some d, pmint = m\<rparr>" using dm assms(2) by (simp add: pending_of_def)
  let ?t = "if k' = k then replace_row m (curve_row_of e m k d) t else t"
  have "map_of ?t x = rows_of e cs ms x" for x
  proof (cases "x = m \<and> k' = k")
    case True
    then show ?thesis using dm k' by (simp add: rows_of_def)
  next
    case False
    then have "map_of ?t x = map_of t x" by auto
    also have "\<dots> = rows_of e cs ms x"
    proof (cases "bondingCurveAddress e x = Some k")
      case True
      then have "x \<noteq> m" using False k' by auto
      then show ?thesis using assms(7) [OF True] dm by simp
    qed (rule assms(6))
    finally show ?thesis .
  qed
  moreover have "wf_table ?t" using assms(4) by (simp add: wf_replace_row)
  ultimately show ?thesis
    using tryFinalize_row [OF assms(3) p g(2,1) k'] assms(2) by (auto simp: curve_inv_def)
qed

lemma curve_step:
  assumes "genuine e (cs @ [(k, d)]) ms" and "curve_inv e cs ms h"
  shows "\<exists>h'. tryFinalize e (\<lambda>_. False) k (pending k (curveData_update (\<lambda>_. Some d)) h) = Some h' \<and> curve_inv e (cs @ [(k, d)]) ms h'"
proof -
  obtain t where t: "tx h = Some t" "wf_table t" "map_of t = rows_of e cs ms" "mPending h = pending_of cs ms"
    using assms(2) by (auto simp: curve_inv_def)
  have "mPending (pending k (curveData_update (\<lambda>_. Some d)) h) = pending_of (cs @ [(k, d)]) ms"
    using t(4) by (auto simp: pending_def pending_of_def fun_eq_iff map_get_def split: option.split)
  moreover have "map_of t m = rows_of e (cs @ [(k, d)]) ms m" if "bondingCurveAddress e m \<noteq> Some k" for m
    using that t(3) by (auto simp: rows_of_def split: option.split)
  moreover have "map_of t m = rows_of e (cs @ [(k, d)]) ms m" if "map_of (rev (cs @ [(k, d)])) k = None \<or> map_of (rev ms) k \<noteq> Some m" for m
    using that t(3) by (auto simp: rows_of_def split: option.split)
  ultimately show ?thesis
    using finalize_inv [OF assms(1), of "pending k (curveData_update (\<lambda>_. Some d)) h" t k] t(1,2) by (simp add: pending_def)
qed

lemma holding_step:
  assumes "genuine e cs (ms @ [(k, m)])" and "curve_inv e cs ms h"
  shows "\<exists>h'. tryFinalize e (\<lambda>_. False) k (pending k (pmint_update (\<lambda>_. m)) h) = Some h' \<and> curve_inv e cs (ms @ [(k, m)]) h'"
proof -
  obtain t where t: "tx h = Some t" "wf_table t" "map_of t = rows_of e cs ms" "mPending h = pending_of cs ms"
    using assms(2) by (auto simp: curve_inv_def)
  have same: "map_of (rev ms) k = Some m' \<Longrightarrow> m' = m" for m'
    using assms(1) map_of_rev_elem [of ms k m'] by (fastforce simp: genuine_def)
  have "mPending (pending k (pmint_update (\<lambda>_. m)) h) = pending_of cs (ms @ [(k, m)])"
    using t(4) by (auto simp: pending_def pending_of_def fun_eq_iff map_get_def split: option.split)
  moreover have "map_of t x = rows_of e cs (ms @ [(k, m)]) x" if "bondingCurveAddress e x \<noteq> Some k" for x
    using that t(3) by (auto simp: rows_of_def split: option.split)
  moreover have "map_of t x = rows_of e cs (ms @ [(k, m)]) x"
    if "bondingCurveAddress e x = Some k" "map_of (rev cs) k = None \<or> map_of (rev (ms @ [(k, m)])) k \<noteq> Some x" for x
    using that t(3) same by (auto simp: rows_of_def)
  ultimately show ?thesis
    using finalize_inv [OF assms(1), of "pending k (pmint_update (\<lambda>_. m)) h" t k] t(1,2) by (simp add: pending_def)
qed

lemma curve_account_step:
  assumes "genuine e (curves_in e (as @ [a])) (holdings_in e (as @ [a]))" and "curve_inv e (curves_in e as) (holdings_in e as) h"
  shows "\<exists>h'. OnAccount e (\<lambda>_. False) a h = Some h' \<and> curve_inv e (curves_in e (as @ [a])) (holdings_in e (as @ [a])) h'"
proof (cases "Owner a = programID e")
  case True
  then have "as_holding e a = None" by (simp add: as_holding_def)
  then show ?thesis
    using True assms curve_step [of e "curves_in e as" "Pubkey a" "Data a" "holdings_in e as" h]
    by (auto simp: OnAccount_def as_curve_def curves_in_def holdings_in_def map_filter_snoc go_slice_def split: if_splits)
next
  case False
  then have "as_curve e a = None" by (simp add: as_curve_def)
  then show ?thesis
    using False assms holding_step [of e "curves_in e as" "holdings_in e as" _ _ h]
    by (auto simp: OnAccount_def as_holding_def curves_in_def holdings_in_def map_filter_snoc split: option.splits prod.splits)
qed

interpretation curves: handler_history "OnAccount e (\<lambda>_. False)" "next_commit check" "\<lambda>_. True" "\<lambda>as. genuine e (curves_in e as) (holdings_in e as)"
  "\<lambda>as. curve_inv e (curves_in e as) (holdings_in e as)"
  for e check
proof
  fix as bs
  show "genuine e (curves_in e (as @ bs)) (holdings_in e (as @ bs)) \<Longrightarrow> genuine e (curves_in e as) (holdings_in e as)"
    unfolding genuine_def curves_in_def holdings_in_def map_filter_append set_append by blast
next
  fix as and h :: "'a handler" and s
  assume "curve_inv e (curves_in e as) (holdings_in e as) h"
  then show "curve_inv e (curves_in e as) (holdings_in e as) (next_commit check s h)"
    by (auto simp: curve_inv_def next_commit_def CommitFinish_def CommitStart_def Let_def split: prod.split option.splits)
qed (rule curve_account_step)

abbreviation first_commit :: "env \<Rightarrow> u32 \<Rightarrow> 't \<Rightarrow> (pending_subscription \<Rightarrow> 't \<Rightarrow> 't) \<Rightarrow> u64 \<Rightarrow> 't handler" where
  "first_commit e weightAll newTracker subscribe s \<equiv>
     CommitStart (\<lambda>_. False) s (Init e weightAll newTracker subscribe (createHandler (Some [])))"

lemma first_curve_inv: "curve_inv e' (curves_in e' []) (holdings_in e' []) (first_commit e weightAll newTracker subscribe s)"
  by (simp add: curve_inv_def curves_in_def holdings_in_def List.map_filter_def CommitStart_def Init_def createHandler_def rows_of_def
      pending_of_def fun_eq_iff split: option.split)

text \<open>(C16) In whatever order and over however many commits curves and their token accounts arrive, if no owner holds accounts of two mints and no
  statement fails: the table has a row for a mint exactly when both halves have arrived and the mint's address is the curve's, and the row
  holds the reserves of the curve's last account.\<close>

theorem pumpfun_curves_joined:
  assumes "genuine e (curves_in e (accounts_of cs)) (holdings_in e (accounts_of cs))"
  shows "\<exists>h t. run_calls (OnAccount e (\<lambda>_. False)) (next_commit check) cs (first_commit e weightAll newTracker subscribe s) = Some h \<and>
    tx h = Some t \<and> wf_table t \<and> map_of t = rows_of e (curves_in e (accounts_of cs)) (holdings_in e (accounts_of cs))"
proof -
  obtain h where "run_calls (OnAccount e (\<lambda>_. False)) (next_commit check) cs (first_commit e weightAll newTracker subscribe s) = Some h"
      "curve_inv e (curves_in e (accounts_of cs)) (holdings_in e (accounts_of cs)) h"
    using curves.run_inv [of e "[]" cs "first_commit e weightAll newTracker subscribe s" check] first_curve_inv [of e s e weightAll newTracker subscribe] assms
    by auto
  then show ?thesis by (auto simp: curve_inv_def)
qed

abbreviation curve_env :: env where
  "curve_env \<equiv> \<lparr>programID = [1], tokenProgramID = [2], globalPDA = [3], decodeToken = (\<lambda>b. Some (take 1 b, [9])),
     fromBytes = (\<lambda>b. take 1 b), findPDA = (\<lambda>seeds p. Some (if seeds ! 1 = [7] then [9] else [0]))\<rparr>"

abbreviation curve_account :: account where
  "curve_account \<equiv> \<lparr>Pubkey = [9], Owner = [1], HSlot = 0, DataSize = 115, Deleted = False,
     Data = bondingCurveDiscriminator @ put_u64 5 @ put_u64 6 @ put_u64 7 @ put_u64 8 @ replicate 75 0\<rparr>"

abbreviation holding_account :: "byte \<Rightarrow> account" where
  "holding_account m \<equiv> \<lparr>Pubkey = [8], Owner = [2], HSlot = 0, DataSize = 165, Deleted = False, Data = m # replicate 164 0\<rparr>"

lemma sample_curves:
  "curves_in curve_env (accounts_of [CAccount (holding_account m), CCommit 5, CAccount curve_account]) = [([9], Data curve_account)]"
  "holdings_in curve_env (accounts_of [CAccount (holding_account m), CCommit 5, CAccount curve_account]) = [([9], [m])]"
  by (simp_all add: curves_in_def holdings_in_def List.map_filter_def as_curve_def as_holding_def bondingCurveDiscriminator_def)

lemma sample_row: "\<exists>r. rows_of curve_env [([9], Data curve_account)] [([9], [7])] [7] = Some r \<and> real_sol_reserves r = 8"
proof -
  have "length bondingCurveDiscriminator = 8" by (simp add: bondingCurveDiscriminator_def)
  then have "u64_at (Data curve_account) 32 = 8" by (simp add: wire_fields)
  then show ?thesis by (simp add: rows_of_def bondingCurveAddress_def curve_row_of_def row_of_entry_def entry_at_def to_int64_def)
qed

theorem pumpfun_curves_joined_witness:
  "\<exists>h t r. run_calls (OnAccount curve_env (\<lambda>_. False)) (next_commit (\<lambda>_ g. (False, g))) [CAccount (holding_account 7), CCommit 5, CAccount curve_account]
       (first_commit curve_env 0 (0 :: nat) (\<lambda>_ n. n + 1) 4) = Some h \<and> tx h = Some t \<and> map_of t [7] = Some r \<and> real_sol_reserves r = 8"
proof -
  let ?cs = "[CAccount (holding_account 7), CCommit 5, CAccount curve_account]"
  have "genuine curve_env (curves_in curve_env (accounts_of ?cs)) (holdings_in curve_env (accounts_of ?cs))"
    unfolding sample_curves by (simp add: genuine_def zero_key_def numeral_eq_Suc bondingCurveAddress_def bondingCurveDiscriminator_def)
  then obtain h t where "run_calls (OnAccount curve_env (\<lambda>_. False)) (next_commit (\<lambda>_ g. (False, g))) ?cs
       (first_commit curve_env 0 (0 :: nat) (\<lambda>_ n. n + 1) 4) = Some h" "tx h = Some t"
      "map_of t = rows_of curve_env (curves_in curve_env (accounts_of ?cs)) (holdings_in curve_env (accounts_of ?cs))"
    using pumpfun_curves_joined [of curve_env ?cs "\<lambda>_ g. (False, g)" 4 0 "0 :: nat" "\<lambda>_ n. n + 1"] by blast
  then show ?thesis using sample_row unfolding sample_curves by metis
qed

section \<open>A foreign token account\<close>



section \<open>Every call keeps one row per mint\<close>

definition curve_ok :: "'t handler \<Rightarrow> bool" where
  "curve_ok h \<longleftrightarrow> (\<forall>t. db h = Some t \<longrightarrow> wf_table t) \<and> (\<forall>t. tx h = Some t \<longrightarrow> wf_table t)"

lemma curve_cancel_frame [simp]: "db (cancel err h) = db h" "tx (cancel err h) = tx h"
  by (simp_all add: cancel_def)

lemma tryFinalize_ok: "tryFinalize e fails k h = Some h' \<Longrightarrow> curve_ok h \<Longrightarrow> curve_ok h'"
  by (auto simp: tryFinalize_def parseBondingCurve_reads upsertCurve_def curve_ok_def wf_replace_row split: option.splits if_splits)

interpretation pumpfun: event_handler "\<lambda>w. Init e w newTracker subscribe" CommitStart "OnAccount e"
  "\<lambda>fails ready. CommitFinish fails (check ready)" curve_ok
  for e subscribe check newTracker
proof
  fix h h' :: "'a handler" and fails a
  assume "curve_ok h" and "OnAccount e fails a h = Some h'"
  moreover have "curve_ok (pending k f h)" for k f using \<open>curve_ok h\<close> by (simp add: curve_ok_def pending_def)
  ultimately show "curve_ok h'"
    by (auto simp: OnAccount_def split: if_splits option.splits bind_splits dest: tryFinalize_ok)
qed (auto simp: curve_ok_def Init_def CommitStart_def CommitFinish_def Let_def split: option.splits prod.splits)

lemma pumpfun_one_row:
  assumes "hook_runs (\<lambda>w. Init e w newTracker subscribe) CommitStart (OnAccount e) (\<lambda>fails ready. CommitFinish fails (check ready)) (createHandler (Some [])) h"
    and "db h = Some t"
  shows "wf_table t"
  using pumpfun.runs_ok [OF assms(1)] assms(2) by (simp add: curve_ok_def createHandler_def)

end
