(* ===== verification/Markets.thy ===== *)
theory Markets
  imports Accounts Subscribe "HOL-Library.List_Lexorder"
begin

text \<open>
  What the prefetchers of lending and spot markets share (\<open>src/prefetch/kamino\<close>, \<open>jet\<close>, \<open>drift\<close>, \<open>marginfi\<close>, \<open>solend\<close>, and the loading of
  Orca's pools): a list of records with an index by key, the transaction that inserts a list of rows, and what a table that skips
  fresh rows holds after a run.
\<close>

section \<open>Lists with an index\<close>

text \<open>The loop of every \<open>load...\<close> function: \<open>m[p.Pubkey] = len(out); out = append(out, p)\<close>.\<close>

definition index_rows :: "('p \<Rightarrow> pubkey) \<Rightarrow> 'p list \<Rightarrow> 'p list \<times> (pubkey \<rightharpoonup> nat)" where
  "index_rows key ps = fold (\<lambda>p (out, m). (out @ [p], m(key p \<mapsto> length out))) ps ([], Map.empty)"

text \<open>Every \<open>Find\<close>: no record for a missing key; an index beyond the list would panic.\<close>

definition index_find :: "'p list \<times> (pubkey \<rightharpoonup> nat) \<Rightarrow> pubkey \<Rightarrow> 'p option option" where
  "index_find ix k = (case snd ix k of None \<Rightarrow> Some None | Some i \<Rightarrow> map_option Some (go_index (fst ix) i))"

lemma index_rows_snoc: "index_rows key (ps @ [p]) = (case index_rows key ps of (out, m) \<Rightarrow> (out @ [p], m(key p \<mapsto> length out)))"
  by (simp add: index_rows_def)

lemma index_rows_inv:
  "fst (index_rows key ps) = ps \<and> (\<forall>k i. snd (index_rows key ps) k = Some i \<longrightarrow> i < length ps) \<and>
     (\<forall>k. index_find (index_rows key ps) k = Some (find (\<lambda>p. key p = k) (rev ps)))"
proof (induction ps rule: rev_induct)
  case Nil
  then show ?case by (simp add: index_rows_def index_find_def)
next
  case (snoc p ps)
  obtain m where m: "index_rows key ps = (ps, m)" using snoc by (cases "index_rows key ps") auto
  have lt: "i < length ps" if "m k = Some i" for k i using that snoc m by auto
  have old: "index_find (ps, m) k = Some (find (\<lambda>p. key p = k) (rev ps))" for k using snoc m by auto
  have "index_find (ps @ [p], m(key p \<mapsto> length ps)) k = (if key p = k then Some (Some p) else index_find (ps, m) k)" for k
    using lt [of k] by (auto simp: index_find_def go_index_def nth_append split: option.split)
  then show ?case using old lt by (auto simp: index_rows_snoc m less_Suc_eq)
qed

lemma index_rows_fst [simp]: "fst (index_rows key ps) = ps"
  using index_rows_inv by blast

lemma index_find_rows: "index_find (index_rows key ps) k = Some (find (\<lambda>p. key p = k) (rev ps))"
  using index_rows_inv by blast

lemma find_append: "find P (xs @ ys) = (case find P xs of None \<Rightarrow> find P ys | Some x \<Rightarrow> Some x)"
  by (induction xs) auto

lemma find_scanned:
  assumes "wf_table t" and "\<And>k r. (k, r) \<in> set t \<Longrightarrow> key (scan (k, r)) = k"
  shows "find (\<lambda>p. key p = k) (rev (map scan t)) = map_option (\<lambda>r. scan (k, r)) (map_of t k)"
  using assms
proof (induction t)
  case (Cons kr t)
  obtain k' r where kr: "kr = (k', r)" by (cases kr)
  have "map_of t k' = None" using Cons.prems(1) by (simp add: kr wf_table_def map_of_eq_None_iff)
  moreover have "key (scan (k', r)) = k'" using Cons.prems(2) kr by simp
  ultimately show ?case using Cons.IH Cons.prems by (auto simp: kr wf_table_def find_append split: option.split)
qed simp

text \<open>A table whose keys survive the conversion of the library is found again key by key.\<close>

lemma index_find_table:
  assumes "wf_table t" and "\<And>k r. (k, r) \<in> set t \<Longrightarrow> key (scan (k, r)) = k"
  shows "index_find (index_rows key (map scan t)) k = Some (map_option (\<lambda>r. scan (k, r)) (map_of t k))"
  using find_scanned [of t key scan k] assms by (simp only: index_find_rows)

section \<open>Inserting a list of rows\<close>

text \<open>The statements of the stores, for the argument that says which of them fail.\<close>

datatype stmt = SBegin | SPrepare | SExec pubkey | SClose | SCommit | SCount | SSelect

datatype store_error =
  BeginFailed | PrepareFailed | InsertFailed pubkey | CloseFailed | CommitFailed | CountFailed | QueryFailed | HookFailed | CreateFileFailed

text \<open>One transaction with a prepared \<open>INSERT OR REPLACE\<close>; every error rolls it back, so the table is that of before.\<close>

definition insert_rows :: "(stmt \<Rightarrow> bool) \<Rightarrow> ('p \<Rightarrow> pubkey) \<Rightarrow> ('p \<Rightarrow> 'r) \<Rightarrow> 'p list \<Rightarrow> (pubkey \<times> 'r) list \<Rightarrow> store_error + (pubkey \<times> 'r) list" where
  "insert_rows fails key row ps t =
     (if fails SBegin then Inl BeginFailed
      else if fails SPrepare then Inl PrepareFailed
      else case fold_err (\<lambda>p t. if fails (SExec (key p)) then Inl (InsertFailed (key p)) else Inr (replace_row (key p) (row p) t)) ps t of
             Inl err \<Rightarrow> Inl err
           | Inr t' \<Rightarrow> if fails SClose then Inl CloseFailed else if fails SCommit then Inl CommitFailed else Inr t')"

lemma insert_loop:
  "\<exists>t'. fold_err (\<lambda>p t. Inr (replace_row (key p) (row p) t)) ps t = (Inr t' :: 'e + (pubkey \<times> 'r) list) \<and> map_of t' = map_of t ++ map_of (rev (map (\<lambda>p. (key p, row p)) ps)) \<and>
     (wf_table t \<longrightarrow> wf_table t')"
proof (induction ps arbitrary: t)
  case (Cons p ps)
  obtain t' where "fold_err (\<lambda>p t. Inr (replace_row (key p) (row p) t)) ps (replace_row (key p) (row p) t) = (Inr t' :: 'e + (pubkey \<times> 'r) list)"
      "map_of t' = map_of (replace_row (key p) (row p) t) ++ map_of (rev (map (\<lambda>p. (key p, row p)) ps))" "wf_table (replace_row (key p) (row p) t) \<longrightarrow> wf_table t'"
    using Cons by blast
  then show ?case by (simp add: wf_replace_row map_add_upd_left map_add_assoc)
qed simp

lemma insert_rows_ok:
  "\<exists>t'. insert_rows (\<lambda>_. False) key row ps t = Inr t' \<and> map_of t' = map_of t ++ map_of (rev (map (\<lambda>p. (key p, row p)) ps)) \<and> (wf_table t \<longrightarrow> wf_table t')"
proof -
  obtain t' where "fold_err (\<lambda>p t. Inr (replace_row (key p) (row p) t)) ps t = (Inr t' :: store_error + (pubkey \<times> 'a) list)"
      "map_of t' = map_of t ++ map_of (rev (map (\<lambda>p. (key p, row p)) ps))" "wf_table t \<longrightarrow> wf_table t'"
    using insert_loop [of key row ps t] by blast
  then show ?thesis by (simp add: insert_rows_def)
qed

section \<open>The tracker\<close>

text \<open>The tracker is the one of \<open>util/subscribe.go\<close>, over lists.\<close>

abbreviation track :: "pending_subscription \<Rightarrow> (pending_subscription list, ack_receive list) pss \<Rightarrow> (pending_subscription list, ack_receive list) pss" where
  "track \<equiv> Subscribe hol_list"

abbreviation poll :: "(u64 \<Rightarrow> nat \<Rightarrow> bool) \<Rightarrow> u64 \<Rightarrow> (pending_subscription list, ack_receive list) pss \<Rightarrow> bool \<times> (pending_subscription list, ack_receive list) pss" where
  "poll ready \<equiv> \<lambda>s. Check hol_list hol_list (ready s) s"

abbreviation new_tracker :: "u64 \<Rightarrow> (pending_subscription list, ack_receive list) pss" where
  "new_tracker quiet \<equiv> CreatePendingSubscriptionList [] [] 50 quiet"

lemma new_tracker_ok: "tracker_inv id id (new_tracker quiet) \<and> mDedup (new_tracker quiet) = {}"
  using pssl.Create_inv by (auto simp: CreatePendingSubscriptionList_def)

lemma poll_frame: "tracker_inv id id g \<Longrightarrow> tracker_inv id id (snd (poll ready s g)) \<and> mDedup (snd (poll ready s g)) = mDedup g"
  by (simp add: pssl.check_inv pssl.known_check)

section \<open>Keys\<close>

text \<open>\<open>PublicKeyFromBytes\<close> gives 32 bytes, and gives back 32 bytes unchanged.\<close>

definition key_codec :: "(byte list \<Rightarrow> pubkey) \<Rightarrow> bool" where
  "key_codec pkfb \<longleftrightarrow> (\<forall>b. length (pkfb b) = 32 \<and> (length b = 32 \<longrightarrow> pkfb b = b))"

lemma copy_key_codec: "key_codec copy_key"
  by (auto simp: key_codec_def copy_key_def)

lemma key_codec_idem [simp]: "key_codec pkfb \<Longrightarrow> pkfb (pkfb b) = pkfb b" "key_codec pkfb \<Longrightarrow> length (pkfb b) = 32" "key_codec pkfb \<Longrightarrow> pkfb (key_at pkfb bs off) = key_at pkfb bs off"
  by (simp_all add: key_codec_def key_at_def)

lemma key_codec_id: "key_codec pkfb \<Longrightarrow> length b = 32 \<Longrightarrow> pkfb b = b"
  by (simp add: key_codec_def)

section \<open>Copying a map out\<close>

text \<open>The order in which Go walks a map: each key once.\<close>

definition map_order :: "((pubkey \<rightharpoonup> 'p) \<Rightarrow> pubkey list) \<Rightarrow> bool" where
  "map_order order \<longleftrightarrow> (\<forall>m. finite (dom m) \<longrightarrow> distinct (order m) \<and> set (order m) = dom m)"

lemma sorted_order: "map_order (\<lambda>m. sorted_list_of_set (dom m))"
  by (simp add: map_order_def)

text \<open>The loop of \<open>fetch\<close>: the values of the map, with an index by key.\<close>

definition copy_out :: "((pubkey \<rightharpoonup> 'p) \<Rightarrow> pubkey list) \<Rightarrow> (pubkey \<rightharpoonup> 'p) \<Rightarrow> 'p list \<times> (pubkey \<rightharpoonup> nat)" where
  "copy_out order m = fold (\<lambda>pk (out, ix). (out @ [the (m pk)], ix(pk \<mapsto> length out))) (order m) ([], Map.empty)"

lemma copy_out_index:
  assumes "\<And>k p. m k = Some p \<Longrightarrow> key p = k" and "set (order m) \<subseteq> dom m"
  shows "copy_out order m = index_rows key (map (\<lambda>k. the (m k)) (order m))"
  unfolding copy_out_def index_rows_def fold_map
  by (rule fold_cong) (use assms in \<open>auto simp: fun_eq_iff\<close>)

lemma find_keyed:
  assumes "\<And>k. k \<in> set ks \<Longrightarrow> key (f k) = k"
  shows "find (\<lambda>p. key p = k) (map f ks) = (if k \<in> set ks then Some (f k) else None)"
  using assms by (induction ks) auto

lemma copy_out_find:
  assumes "map_order order" and "finite (dom m)" and "\<And>k p. m k = Some p \<Longrightarrow> key p = k"
  shows "index_find (copy_out order m) k = Some (m k)" "fst (copy_out order m) = map (\<lambda>k. the (m k)) (order m)"
proof -
  have o: "set (order m) = dom m" using assms(1,2) by (simp add: map_order_def)
  have c: "copy_out order m = index_rows key (map (\<lambda>k. the (m k)) (order m))" by (rule copy_out_index) (use assms(3) o in auto)
  have "find (\<lambda>p. key p = k) (map (\<lambda>k. the (m k)) (rev (order m))) = m k"
    using find_keyed [of "rev (order m)" key "\<lambda>k. the (m k)" k] assms(3) o by (auto simp: domIff)
  then show "index_find (copy_out order m) k = Some (m k)" by (simp add: c index_find_rows rev_map)
  show "fst (copy_out order m) = map (\<lambda>k. the (m k)) (order m)" by (simp add: c)
qed

lemma map_of_keyed_rows:
  assumes "map_order order" and "finite (dom m)" and "\<And>k p. m k = Some p \<Longrightarrow> key p = k"
  shows "map_of (rev (map (\<lambda>p. (key p, row p)) (map (\<lambda>k. the (m k)) (order m)))) k = map_option row (m k)"
proof -
  have o: "set (order m) = dom m" using assms(1,2) by (simp add: map_order_def)
  have "map (\<lambda>p. (key p, row p)) (map (\<lambda>k. the (m k)) (order m)) = map (\<lambda>k. (k, row (the (m k)))) (order m)"
    using o assms(3) by (auto simp: domIff)
  then have "rev (map (\<lambda>p. (key p, row p)) (map (\<lambda>k. the (m k)) (order m))) = map (\<lambda>k. (k, row (the (m k)))) (rev (order m))" by (simp only: rev_map)
  moreover have "map_of (map (\<lambda>k. (k, f k)) ks) k = (if k \<in> set ks then Some (f k) else None)" for f :: "pubkey \<Rightarrow> 'b" and ks by (induction ks) auto
  ultimately show ?thesis using o by (auto simp: domIff)
qed

lemma saved_and_loaded:
  assumes "map_order order" and "finite (dom m)" and "\<And>k p. m k = Some p \<Longrightarrow> key p = k" and "wf_table t"
    and "\<And>k p. m k = Some p \<Longrightarrow> scan (k, row p) = p" and "\<And>k r. (k, r) \<in> set t \<Longrightarrow> key (scan (k, r)) = k"
  shows "\<exists>t'. insert_rows (\<lambda>_. False) key row (fst (copy_out order m)) t = Inr t' \<and> wf_table t' \<and>
    (\<forall>k. index_find (index_rows key (map scan t')) k = Some (case m k of Some p \<Rightarrow> Some p | None \<Rightarrow> map_option (\<lambda>r. scan (k, r)) (map_of t k)))"
proof -
  obtain t' where t': "insert_rows (\<lambda>_. False) key row (fst (copy_out order m)) t = Inr t'" "wf_table t'"
      "map_of t' = map_of t ++ map_of (rev (map (\<lambda>p. (key p, row p)) (fst (copy_out order m))))"
    using insert_rows_ok [of key row "fst (copy_out order m)" t] assms(4) by blast
  have mo: "map_of t' k = (case m k of Some p \<Rightarrow> Some (row p) | None \<Rightarrow> map_of t k)" for k
    using copy_out_find(2) [of order m key] map_of_keyed_rows [of order m key row k] assms(1-3) t'(3) by (auto simp: map_add_def split: option.split)
  have "key (scan (k, r)) = k" if "(k, r) \<in> set t'" for k r
  proof -
    have "map_of t' k = Some r" using that t'(2) by (simp add: wf_table_def)
    then show ?thesis using assms(3,5,6) mo [of k] by (auto split: option.splits dest: map_of_SomeD)
  qed
  then have "index_find (index_rows key (map scan t')) k = Some (map_option (\<lambda>r. scan (k, r)) (map_of t' k))" for k
    by (rule index_find_table [OF t'(2)])
  then show ?thesis using t'(1,2) assms(5) mo by (auto split: option.split)
qed

text \<open>The contract of a store: a row is read back as it was written, when the record's keys survive the conversion.\<close>

locale market_store =
  fixes key :: "'p \<Rightarrow> pubkey"
    and row :: "'p \<Rightarrow> 'r"
    and scan :: "(byte list \<Rightarrow> pubkey) \<Rightarrow> pubkey \<times> 'r \<Rightarrow> 'p"
    and good :: "(byte list \<Rightarrow> pubkey) \<Rightarrow> 'p \<Rightarrow> bool"
  assumes scan_row: "good pkfb p \<Longrightarrow> scan pkfb (key p, row p) = p"
    and scan_key: "pkfb k = k \<Longrightarrow> key (scan pkfb (k, r)) = k"
begin

text \<open>Saving the values of a map and loading the table again finds every one of them.\<close>

lemma save_load:
  assumes "map_order order" and "key_codec pkfb" and "finite (dom m)" and "wf_table t" and "\<forall>(k, r) \<in> set t. length k = 32"
    and "\<And>k p. m k = Some p \<Longrightarrow> key p = k \<and> good pkfb p"
  shows "\<exists>t'. insert_rows (\<lambda>_. False) key row (fst (copy_out order m)) t = Inr t' \<and> (\<forall>k. index_find (copy_out order m) k = Some (m k)) \<and>
    (\<forall>k p. m k = Some p \<longrightarrow> index_find (index_rows key (map (scan pkfb) t')) k = Some (Some p))"
proof -
  have k: "\<And>k p. m k = Some p \<Longrightarrow> key p = k" using assms(6) by blast
  have old: "key (scan pkfb (k, r)) = k" if "(k, r) \<in> set t" for k r
    using that assms(5) by (intro scan_key key_codec_id [OF assms(2)]) auto
  have "scan pkfb (k, row p) = p" if "m k = Some p" for k p using assms(6) [OF that] scan_row by auto
  then obtain t' where "insert_rows (\<lambda>_. False) key row (fst (copy_out order m)) t = Inr t'"
      "\<And>k. index_find (index_rows key (map (scan pkfb) t')) k = Some (case m k of Some p \<Rightarrow> Some p | None \<Rightarrow> map_option (\<lambda>r. scan pkfb (k, r)) (map_of t k))"
    using saved_and_loaded [of order m key t "scan pkfb" row] assms(1,3,4) k old by blast
  then show ?thesis using copy_out_find(1) [OF assms(1,3) k] by auto
qed

end

section \<open>Walks over markets\<close>

text \<open>The contract of a handler that walks from a program over its markets to the items: an account is an item, a market to ask for, or neither. How an item
  changes what is kept is \<open>upd\<close>; \<open>fits\<close> says which slots a run may reach.\<close>

locale market_walk =
  fixes on_account :: "account \<Rightarrow> 'h \<Rightarrow> 'h option"
    and next_commit :: "u64 \<Rightarrow> 'h \<Rightarrow> 'h"
    and fits :: "u64 \<Rightarrow> bool"
    and upd :: "pubkey \<times> 'p \<Rightarrow> (pubkey \<rightharpoonup> 'p) \<Rightarrow> (pubkey \<rightharpoonup> 'p)"
    and items :: "'h \<Rightarrow> pubkey \<rightharpoonup> 'p"
    and asked :: "'h \<Rightarrow> pubkey set"
    and ok :: "'h \<Rightarrow> bool"
    and as_item :: "account \<Rightarrow> (pubkey \<times> 'p) option"
    and as_market :: "account \<Rightarrow> pubkey option"
  assumes item_step: "ok h \<Longrightarrow> as_item a = Some (k, p) \<Longrightarrow>
      \<exists>h'. on_account a h = Some h' \<and> ok h' \<and> items h' = upd (k, p) (items h) \<and> asked h' = asked h"
    and market_step: "ok h \<Longrightarrow> as_market a = Some k \<Longrightarrow>
      \<exists>h'. on_account a h = Some h' \<and> ok h' \<and> items h' = items h \<and> asked h' = insert k (asked h)"
    and other_step: "as_item a = None \<Longrightarrow> as_market a = None \<Longrightarrow> on_account a h = Some h"
    and item_no_market: "as_item a = Some (k, p) \<Longrightarrow> as_market a = None"
    and commit_step: "fits s \<Longrightarrow> ok h \<Longrightarrow> ok (next_commit s h) \<and> items (next_commit s h) = items h \<and> asked (next_commit s h) = asked h"
begin

lemma account_step:
  assumes "ok h"
  shows "\<exists>h'. on_account a h = Some h' \<and> ok h' \<and> items h' = (case as_item a of None \<Rightarrow> items h | Some kp \<Rightarrow> upd kp (items h)) \<and>
    asked h' = asked h \<union> set_option (as_market a)"
proof (cases "as_item a")
  case (Some kp)
  obtain k p where kp: "kp = (k, p)" by (cases kp)
  then show ?thesis using item_step [OF assms, of a k p] item_no_market [of a k p] Some by auto
next
  case None
  then show ?thesis using other_step [of a h] market_step [OF assms, of a] assms by (cases "as_market a") auto
qed

lemma run_walk:
  "ok h \<Longrightarrow> \<forall>s \<in> set (slots_of cs). fits s \<Longrightarrow> \<exists>h'. run_calls on_account next_commit cs h = Some h' \<and> ok h' \<and>
     items h' = fold upd (List.map_filter as_item (accounts_of cs)) (items h) \<and> asked h' = asked h \<union> set (List.map_filter as_market (accounts_of cs))"
proof (induction cs arbitrary: h)
  case (Cons c cs)
  show ?case
  proof (cases c)
    case (CAccount a)
    obtain h1 where h1: "on_account a h = Some h1" "ok h1" "items h1 = (case as_item a of None \<Rightarrow> items h | Some kp \<Rightarrow> upd kp (items h))"
        "asked h1 = asked h \<union> set_option (as_market a)"
      using account_step [OF Cons.prems(1)] by blast
    have "fold upd (List.map_filter as_item (accounts_of cs)) (items h1) = fold upd (List.map_filter as_item (a # accounts_of cs)) (items h)"
      unfolding h1(3) by (simp split: option.split)
    moreover have "asked h1 \<union> set (List.map_filter as_market (accounts_of cs)) = asked h \<union> set (List.map_filter as_market (a # accounts_of cs))"
      unfolding h1(4) by (auto split: option.splits)
    ultimately show ?thesis using Cons.IH [OF h1(2)] Cons.prems(2) h1(1) CAccount by simp
  next
    case (CCommit s)
    then show ?thesis using Cons.IH [of "next_commit s h"] commit_step [of s h] Cons.prems by auto
  qed
qed simp

end

text \<open>The two ways to keep an item: the last account wins, or the first.\<close>

definition put_last :: "pubkey \<times> 'p \<Rightarrow> (pubkey \<rightharpoonup> 'p) \<Rightarrow> (pubkey \<rightharpoonup> 'p)" where
  "put_last kp m = m(fst kp \<mapsto> snd kp)"

definition put_first :: "pubkey \<times> 'p \<Rightarrow> (pubkey \<rightharpoonup> 'p) \<Rightarrow> (pubkey \<rightharpoonup> 'p)" where
  "put_first kp m = (if m (fst kp) = None then m(fst kp \<mapsto> snd kp) else m)"

lemma fold_put_last: "fold put_last xs m = m ++ map_of (rev xs)"
  by (induction xs arbitrary: m) (auto simp: put_last_def)

lemma fold_put_first: "fold put_first xs m = map_of xs ++ m"
proof (induction xs arbitrary: m)
  case (Cons kp xs)
  have "fold put_first (kp # xs) m = map_of xs ++ put_first kp m" using Cons by simp
  also have "\<dots> = map_of (kp # xs) ++ m" by (auto simp: put_first_def map_add_def fun_eq_iff split: option.splits)
  finally show ?case .
qed simp

lemma no_markets [simp]: "List.map_filter (\<lambda>_. None) xs = []"
  by (induction xs) simp_all

section \<open>Freshness over a run\<close>

text \<open>The slots of a run that takes less than the seven days for which a row stays fresh.\<close>

definition in_window :: "u64 \<Rightarrow> u64 \<Rightarrow> bool" where
  "in_window s0 s \<longleftrightarrow> unat s0 \<le> unat s \<and> unat s < unat s0 + 1512000"

lemma in_window_fresh: "unat s0 < 2 ^ 62 \<Longrightarrow> in_window s0 ls \<Longrightarrow> in_window s0 s \<Longrightarrow> is_fresh ls s"
  by (subst is_fresh_iff) (auto simp: in_window_def)

end
