(* ===== verification/Orca.thy ===== *)
theory Orca
  imports Markets "HOL-Library.Product_Lexorder"
begin

text \<open>
  The Orca prefetcher (\<open>src/prefetch/orca\<close>): the parsers of configurations and Whirlpools (\<open>whirlpool.go\<close>), the event
  handler that walks program, configurations, pools and vaults (\<open>event.go\<close>), loading (\<open>store.go\<close>, \<open>orca.go\<close>), the pools with the
  most liquidity (\<open>top.go\<close>, \<open>query.go\<close>) and the estimate in dollars (\<open>liquidity.go\<close>).

  Conventions as in the Raydium prefetchers: failing statements are arguments, \<open>None\<close> is a panic, decoders of other modules
  are parameters. The spot price is modelled with the price graph.
\<close>

section \<open>Parsers\<close>

datatype orca_error =
    ConfigTooShort nat nat | PoolTooShort nat nat | TokenParseFailed | ParsingFailed
  | BeginFailed | CommitFailed | MissingTx | InsertConfigFailed | InsertPoolFailed | UpdateVaultFailed | QueryFailed
  | HookFailed | CreateFileFailed

definition offWhirlpoolsConfig :: nat where "offWhirlpoolsConfig = 8"
definition offTickSpacing :: nat where "offTickSpacing = 41"
definition offFeeRate :: nat where "offFeeRate = 45"
definition offLiquidity :: nat where "offLiquidity = 49"
definition offSqrtPrice :: nat where "offSqrtPrice = 65"
definition offTickCurrent :: nat where "offTickCurrent = 81"
definition offMintA :: nat where "offMintA = 101"
definition offVaultA :: nat where "offVaultA = 133"
definition offMintB :: nat where "offMintB = 181"
definition offVaultB :: nat where "offVaultB = 213"
definition minWhirlpoolLen :: nat where "minWhirlpoolLen = offVaultB + 32"
definition offCfgFeeAuthority :: nat where "offCfgFeeAuthority = 8"
definition offCfgCollectProtocolFeesAuthority :: nat where "offCfgCollectProtocolFeesAuthority = 40"
definition offCfgRewardEmissionsSuperAuthority :: nat where "offCfgRewardEmissionsSuperAuthority = 72"
definition offCfgDefaultProtocolFeeRate :: nat where "offCfgDefaultProtocolFeeRate = 104"
definition minWhirlpoolConfigLen :: nat where "minWhirlpoolConfigLen = offCfgDefaultProtocolFeeRate + 2"

lemmas orca_layout = offWhirlpoolsConfig_def offTickSpacing_def offFeeRate_def offLiquidity_def offSqrtPrice_def offTickCurrent_def
  offMintA_def offVaultA_def offMintB_def offVaultB_def minWhirlpoolLen_def offCfgFeeAuthority_def
  offCfgCollectProtocolFeesAuthority_def offCfgRewardEmissionsSuperAuthority_def offCfgDefaultProtocolFeeRate_def minWhirlpoolConfigLen_def

record whirlpool_config =
  CPubkey :: pubkey
  FeeAuthority :: pubkey
  CollectProtocolFeesAuthority :: pubkey
  RewardEmissionsSuperAuthority :: pubkey
  DefaultProtocolFeeRate :: u16

record whirlpool =
  WPubkey :: pubkey
  WhirlpoolsConfig :: pubkey
  TokenMintA :: pubkey
  TokenMintB :: pubkey
  VaultA :: pubkey
  VaultB :: pubkey
  SqrtPriceHi :: u64
  SqrtPriceLo :: u64
  LiquidityLo :: u64
  LiquidityHi :: u64
  TickCurrentIndex :: int
  TickSpacing :: u16
  FeeRate :: u16

definition FeeBps :: "whirlpool \<Rightarrow> u16" where "FeeBps w = FeeRate w div 100"

definition parseWhirlpoolConfig :: "(byte list \<Rightarrow> pubkey) \<Rightarrow> pubkey \<Rightarrow> byte list \<Rightarrow> (orca_error + whirlpool_config) option" where
  "parseWhirlpoolConfig pkfb pk data =
     (if length data < minWhirlpoolConfigLen then Some (Inl (ConfigTooShort (length data) minWhirlpoolConfigLen))
      else do {
        fa \<leftarrow> read_pubkey pkfb data offCfgFeeAuthority;
        ca \<leftarrow> read_pubkey pkfb data offCfgCollectProtocolFeesAuthority;
        ra \<leftarrow> read_pubkey pkfb data offCfgRewardEmissionsSuperAuthority;
        fr \<leftarrow> read_u16 data offCfgDefaultProtocolFeeRate;
        Some (Inr \<lparr>CPubkey = pk, FeeAuthority = fa, CollectProtocolFeesAuthority = ca, RewardEmissionsSuperAuthority = ra,
                   DefaultProtocolFeeRate = fr\<rparr>) })"

definition parseWhirlpool :: "(byte list \<Rightarrow> pubkey) \<Rightarrow> pubkey \<Rightarrow> byte list \<Rightarrow> (orca_error + whirlpool) option" where
  "parseWhirlpool pkfb pk data =
     (if length data < minWhirlpoolLen then Some (Inl (PoolTooShort (length data) minWhirlpoolLen))
      else do {
        sqrtLo \<leftarrow> read_u64 data offSqrtPrice;
        sqrtHi \<leftarrow> read_u64 data (offSqrtPrice + 8);
        liqLo \<leftarrow> read_u64 data offLiquidity;
        liqHi \<leftarrow> read_u64 data (offLiquidity + 8);
        cfg \<leftarrow> read_pubkey pkfb data offWhirlpoolsConfig;
        ma \<leftarrow> read_pubkey pkfb data offMintA;
        mb \<leftarrow> read_pubkey pkfb data offMintB;
        va \<leftarrow> read_pubkey pkfb data offVaultA;
        vb \<leftarrow> read_pubkey pkfb data offVaultB;
        tc \<leftarrow> read_i32 data offTickCurrent;
        ts \<leftarrow> read_u16 data offTickSpacing;
        fr \<leftarrow> read_u16 data offFeeRate;
        Some (Inr \<lparr>WPubkey = pk, WhirlpoolsConfig = cfg, TokenMintA = ma, TokenMintB = mb, VaultA = va, VaultB = vb,
                   SqrtPriceHi = sqrtHi, SqrtPriceLo = sqrtLo, LiquidityLo = liqLo, LiquidityHi = liqHi,
                   TickCurrentIndex = tc, TickSpacing = ts, FeeRate = fr\<rparr>) })"

definition DiscriminatorWhirlpoolConfig :: "byte list" where
  "DiscriminatorWhirlpoolConfig = [157, 20, 49, 224, 217, 87, 193, 254]"

definition DiscriminatorWhirlpool :: "byte list" where
  "DiscriminatorWhirlpool = [63, 149, 209, 12, 225, 128, 99, 9]"

lemma discriminators_differ: "DiscriminatorWhirlpool \<noteq> DiscriminatorWhirlpoolConfig"
  by (simp add: DiscriminatorWhirlpool_def DiscriminatorWhirlpoolConfig_def)

section \<open>Tables\<close>

record pool_row =
  whirlpools_config :: "byte list"
  mint_a :: "byte list"
  mint_b :: "byte list"
  vault_a :: "byte list"
  vault_b :: "byte list"
  vault_a_balance :: "int option"
  vault_b_balance :: "int option"
  sqrt_price_lo :: int
  sqrt_price_hi :: int
  liquidity_lo :: int
  liquidity_hi :: int
  tick_current_index :: int
  tick_spacing :: int
  fee_rate :: int
  last_slot :: u64

record tables =
  pools :: "(pubkey \<times> pool_row) list"
  configs_seen :: "(pubkey \<times> u64) list"
  mints :: mint_table

datatype stmt = SBegin | SCommit | SConfigFresh | SPoolFresh | SFindVault | SInsertConfig | SInsertPool | SUpdateVault | SSaveMint | SRead

section \<open>The handler\<close>

record 't handler =
  slot :: u64
  db :: "tables option"
  tx :: "tables option"
  mRoot :: "pubkey set"
  sendSubCount :: u32
  pss :: "'t option"
  mintTracker :: mint_tracker
  mPendingToken :: "pubkey \<rightharpoonup> token_account"
  force :: bool
  cause :: "orca_error option"

record env =
  programID :: pubkey
  tokenProgramID :: pubkey
  weightAll :: u32
  decodeToken :: "byte list \<Rightarrow> token_account option"
  decodeMint :: "byte list \<Rightarrow> byte option"
  fromBytes :: "byte list \<Rightarrow> pubkey"

definition cancel :: "orca_error \<Rightarrow> 't handler \<Rightarrow> 't handler" where
  "cancel e h = (if cause h = None then h\<lparr>cause := Some e\<rparr> else h)"

definition createHandler :: "tables option \<Rightarrow> mint_tracker \<Rightarrow> bool \<Rightarrow> 't handler" where
  "createHandler d mt f =
     \<lparr>slot = 0, db = d, tx = None, mRoot = {}, sendSubCount = 0, pss = None, mintTracker = mt, mPendingToken = Map.empty,
      force = f, cause = None\<rparr>"

definition CommitStart :: "(stmt \<Rightarrow> bool) \<Rightarrow> u64 \<Rightarrow> 't handler \<Rightarrow> 't handler" where
  "CommitStart fails s h =
     (let h = h\<lparr>slot := s\<rparr>
      in case db h of
           None \<Rightarrow> h
         | Some d \<Rightarrow> if fails SBegin then cancel BeginFailed h else h\<lparr>tx := Some d\<rparr>)"

definition CommitFinish :: "(stmt \<Rightarrow> bool) \<Rightarrow> (u64 \<Rightarrow> 't \<Rightarrow> bool \<times> 't) \<Rightarrow> 't handler \<Rightarrow> bool \<times> 't handler" where
  "CommitFinish fails check h =
     (case tx h of
        None \<Rightarrow> (False, cancel MissingTx h)
      | Some t \<Rightarrow>
          if fails SCommit then (False, cancel CommitFailed h)
          else
            let h = h\<lparr>db := Some t, tx := None\<rparr>
            in if sendSubCount h = 0 then (False, h)
               else case pss h of
                 None \<Rightarrow> (False, h)
               | Some g \<Rightarrow> (case check (slot h) g of (isDone, g') \<Rightarrow> (isDone, h\<lparr>pss := Some g'\<rparr>)))"

definition Init :: "env \<Rightarrow> 't \<Rightarrow> (pending_subscription \<Rightarrow> 't \<Rightarrow> 't) \<Rightarrow> 't handler \<Rightarrow> 't handler" where
  "Init e newTracker subscribe h =
     h\<lparr>sendSubCount := sendSubCount h + 1, mRoot := insert (programID e) (mRoot h),
       pss := Some (subscribe \<lparr>root = programID e, weight = weightAll e, depth = 2\<rparr> newTracker)\<rparr>"

definition dbQuery :: "'t handler \<Rightarrow> tables option" where
  "dbQuery h = (case tx h of Some t \<Rightarrow> Some t | None \<Rightarrow> db h)"

definition isConfigFresh :: "(stmt \<Rightarrow> bool) \<Rightarrow> pubkey \<Rightarrow> 't handler \<Rightarrow> bool" where
  "isConfigFresh fails pk h =
     (if force h \<or> db h = None \<or> fails SConfigFresh then False
      else case map_of (configs_seen (the (dbQuery h))) pk of
        None \<Rightarrow> False
      | Some ls \<Rightarrow> is_fresh ls (slot h))"

definition isPoolFresh :: "(stmt \<Rightarrow> bool) \<Rightarrow> pubkey \<Rightarrow> 't handler \<Rightarrow> bool" where
  "isPoolFresh fails pk h =
     (if force h \<or> db h = None \<or> fails SPoolFresh then False
      else case map_of (pools (the (dbQuery h))) pk of
        None \<Rightarrow> False
      | Some r \<Rightarrow> is_fresh (last_slot r) (slot h))"

definition findPoolByVault ::
  "(byte list \<Rightarrow> pubkey) \<Rightarrow> (stmt \<Rightarrow> bool) \<Rightarrow> pubkey \<Rightarrow> 't handler \<Rightarrow> (pubkey \<times> bool) option option" where
  "findPoolByVault pkfb fails vault h =
     (case dbQuery h of
        None \<Rightarrow> None
      | Some t \<Rightarrow>
          if fails SFindVault then Some None
          else Some (case find (\<lambda>(pk, r). vault_a r = vault \<or> vault_b r = vault) (pools t) of
                       None \<Rightarrow> None
                     | Some (pk, r) \<Rightarrow> Some (pkfb pk, pkfb (vault_a r) = vault)))"

definition set_vault :: "bool \<Rightarrow> token_account \<Rightarrow> u64 \<Rightarrow> pool_row \<Rightarrow> pool_row" where
  "set_vault isA ta s r =
     (if isA then r\<lparr>vault_a_balance := Some (to_int64 (TAmount ta)), last_slot := s\<rparr>
      else r\<lparr>vault_b_balance := Some (to_int64 (TAmount ta)), last_slot := s\<rparr>)"

definition saveToken :: "(stmt \<Rightarrow> bool) \<Rightarrow> token_account \<Rightarrow> pubkey \<Rightarrow> bool \<Rightarrow> 't handler \<Rightarrow> 't handler" where
  "saveToken fails ta pool isA h =
     (case tx h of
        None \<Rightarrow> h
      | Some t \<Rightarrow>
          if fails SUpdateVault then cancel UpdateVaultFailed h
          else h\<lparr>tx := Some (t\<lparr>pools := update_row pool (set_vault isA ta (slot h)) (pools t)\<rparr>)\<rparr>)"

definition tokenOnAccount :: "env \<Rightarrow> (stmt \<Rightarrow> bool) \<Rightarrow> account \<Rightarrow> 't handler \<Rightarrow> 't handler option" where
  "tokenOnAccount e fails a h =
     (let n = length (Data a)
      in if 165 \<le> n \<and> n < 200 then
           (case decodeToken e (Data a) of
              None \<Rightarrow> Some (cancel TokenParseFailed h)
            | Some b \<Rightarrow> do {
                found \<leftarrow> findPoolByVault (fromBytes e) fails (Pubkey a) h;
                Some (case found of
                  Some (pool, isA) \<Rightarrow> saveToken fails b pool isA h
                | None \<Rightarrow> h\<lparr>mPendingToken := (mPendingToken h)(Pubkey a \<mapsto> b)\<rparr>) })
         else if n = MintAccountSize then
           Some (case (tx h, decodeMint e (Data a)) of
             (Some t, Some d) \<Rightarrow>
               (case mint_save (fails SSaveMint) (Pubkey a) d (mintTracker h, mints t) of
                  (ok, known, mt) \<Rightarrow> h\<lparr>mintTracker := known, tx := Some (t\<lparr>mints := mt\<rparr>)\<rparr>)
           | _ \<Rightarrow> h)
         else Some h)"

text \<open>The repeated pattern: a key is requested once per run.\<close>

definition request :: "(pending_subscription \<Rightarrow> 't \<Rightarrow> 't) \<Rightarrow> pubkey \<Rightarrow> u32 \<Rightarrow> u32 \<Rightarrow> 't handler \<Rightarrow> 't handler option" where
  "request subscribe pk w d h =
     (if pk \<in> mRoot h then Some h
      else case pss h of
        None \<Rightarrow> None
      | Some g \<Rightarrow> Some (h\<lparr>mRoot := insert pk (mRoot h), pss := Some (subscribe \<lparr>root = pk, weight = w, depth = d\<rparr> g)\<rparr>))"

definition on_config :: "env \<Rightarrow> (stmt \<Rightarrow> bool) \<Rightarrow> (pending_subscription \<Rightarrow> 't \<Rightarrow> 't) \<Rightarrow> pubkey \<Rightarrow> whirlpool_config \<Rightarrow> 't handler \<Rightarrow> 't handler option" where
  "on_config e fails subscribe pk c h =
     (if isConfigFresh fails pk h then Some h
      else case tx h of
        None \<Rightarrow> Some (cancel MissingTx h)
      | Some t \<Rightarrow>
          if fails SInsertConfig then Some (cancel InsertConfigFailed h)
          else request subscribe pk (weightAll e) 2
                 (h\<lparr>tx := Some (t\<lparr>configs_seen := replace_row (CPubkey c) (slot h) (configs_seen t)\<rparr>), sendSubCount := sendSubCount h + 1\<rparr>))"

definition new_pool_row :: "whirlpool \<Rightarrow> u64 \<Rightarrow> pool_row" where
  "new_pool_row p s =
     \<lparr>whirlpools_config = WhirlpoolsConfig p, mint_a = TokenMintA p, mint_b = TokenMintB p, vault_a = VaultA p, vault_b = VaultB p,
      vault_a_balance = None, vault_b_balance = None, sqrt_price_lo = to_int64 (SqrtPriceLo p), sqrt_price_hi = to_int64 (SqrtPriceHi p),
      liquidity_lo = to_int64 (LiquidityLo p), liquidity_hi = to_int64 (LiquidityHi p), tick_current_index = TickCurrentIndex p,
      tick_spacing = uint (TickSpacing p), fee_rate = uint (FeeRate p), last_slot = s\<rparr>"

definition request_mint :: "env \<Rightarrow> (pending_subscription \<Rightarrow> 't \<Rightarrow> 't) \<Rightarrow> pubkey \<Rightarrow> 't handler \<Rightarrow> 't handler option" where
  "request_mint e subscribe mint h =
     (if Known mint (mintTracker h) then Some h
      else case MarkPending mint (mintTracker h) of
        (first, known) \<Rightarrow>
          let h = h\<lparr>mintTracker := known\<rparr>
          in if first then request subscribe mint (weightAll e) 1 h else Some h)"

definition request_vault ::
  "(stmt \<Rightarrow> bool) \<Rightarrow> (pending_subscription \<Rightarrow> 't \<Rightarrow> 't) \<Rightarrow> pubkey \<Rightarrow> bool \<Rightarrow> pubkey \<Rightarrow> 't handler \<Rightarrow> 't handler option" where
  "request_vault fails subscribe pool isA vault h = do {
     h \<leftarrow> request subscribe vault 0 1 h;
     Some (case mPendingToken h vault of
       None \<Rightarrow> h
     | Some ta \<Rightarrow> saveToken fails ta pool isA (h\<lparr>mPendingToken := (mPendingToken h)(vault := None)\<rparr>)) }"

definition on_pool :: "env \<Rightarrow> (stmt \<Rightarrow> bool) \<Rightarrow> (pending_subscription \<Rightarrow> 't \<Rightarrow> 't) \<Rightarrow> pubkey \<Rightarrow> whirlpool \<Rightarrow> 't handler \<Rightarrow> 't handler option" where
  "on_pool e fails subscribe pk p h =
     (if isPoolFresh fails pk h then Some h
      else case tx h of
        None \<Rightarrow> Some (cancel MissingTx h)
      | Some t \<Rightarrow>
          if fails SInsertPool then Some (cancel InsertPoolFailed h)
          else do {
            h \<leftarrow> request_mint e subscribe (TokenMintA p) (h\<lparr>tx := Some (t\<lparr>pools := replace_row (WPubkey p) (new_pool_row p (slot h)) (pools t)\<rparr>)\<rparr>);
            h \<leftarrow> request_mint e subscribe (TokenMintB p) h;
            h \<leftarrow> request_vault fails subscribe (WPubkey p) True (VaultA p) h;
            request_vault fails subscribe (WPubkey p) False (VaultB p) h })"

definition OnAccount ::
  "env \<Rightarrow> (stmt \<Rightarrow> bool) \<Rightarrow> (pending_subscription \<Rightarrow> 't \<Rightarrow> 't) \<Rightarrow> account \<Rightarrow> 't handler \<Rightarrow> 't handler option" where
  "OnAccount e fails subscribe a h =
     (if tokenProgramID e = Owner a then tokenOnAccount e fails a h
      else if length (Data a) < 8 then Some h
      else do {
        discriminator \<leftarrow> go_slice 0 8 (Data a);
        if Owner a \<noteq> programID e then Some h
        else if discriminator = DiscriminatorWhirlpoolConfig then do {
          r \<leftarrow> parseWhirlpoolConfig (fromBytes e) (Pubkey a) (Data a);
          case r of Inl err \<Rightarrow> Some (cancel ParsingFailed h) | Inr c \<Rightarrow> on_config e fails subscribe (Pubkey a) c h }
        else if discriminator = DiscriminatorWhirlpool then do {
          r \<leftarrow> parseWhirlpool (fromBytes e) (Pubkey a) (Data a);
          case r of Inl err \<Rightarrow> Some (cancel ParsingFailed h) | Inr p \<Rightarrow> on_pool e fails subscribe (Pubkey a) p h }
        else Some h })"

section \<open>Loading and queries\<close>

definition poolCount :: "(stmt \<Rightarrow> bool) \<Rightarrow> tables \<Rightarrow> orca_error + nat" where
  "poolCount fails t = (if fails SRead then Inl QueryFailed else Inr (length (pools t)))"

definition scanPool :: "(byte list \<Rightarrow> pubkey) \<Rightarrow> pubkey \<times> pool_row \<Rightarrow> whirlpool" where
  "scanPool pkfb = (\<lambda>(k, r).
     \<lparr>WPubkey = pkfb k, WhirlpoolsConfig = pkfb (whirlpools_config r), TokenMintA = pkfb (mint_a r), TokenMintB = pkfb (mint_b r),
      VaultA = pkfb (vault_a r), VaultB = pkfb (vault_b r), SqrtPriceHi = to_uint64 (sqrt_price_hi r), SqrtPriceLo = to_uint64 (sqrt_price_lo r),
      LiquidityLo = to_uint64 (liquidity_lo r), LiquidityHi = to_uint64 (liquidity_hi r), TickCurrentIndex = tick_current_index r,
      TickSpacing = of_int (tick_spacing r), FeeRate = of_int (fee_rate r)\<rparr>)"

text \<open>\<open>loadPools\<close>: the list and the index of each key.\<close>

definition loadPools :: "(byte list \<Rightarrow> pubkey) \<Rightarrow> (stmt \<Rightarrow> bool) \<Rightarrow> tables \<Rightarrow> orca_error + whirlpool list \<times> (pubkey \<rightharpoonup> nat)" where
  "loadPools pkfb fails t =
     (if fails SRead then Inl QueryFailed
      else Inr (index_rows WPubkey (map (scanPool pkfb) (pools t))))"

text \<open>The stream that drives the handler is an argument: it ends with an error or leaves the tables it has committed.\<close>

definition fetchWhirlpool ::
  "(byte list \<Rightarrow> pubkey) \<Rightarrow> (stmt \<Rightarrow> bool) \<Rightarrow> ('t handler \<Rightarrow> unit + tables) \<Rightarrow> mint_tracker \<Rightarrow> bool \<Rightarrow> tables \<Rightarrow> orca_error + whirlpool list \<times> (pubkey \<rightharpoonup> nat)" where
  "fetchWhirlpool pkfb fails hook mt f t =
     (case hook (createHandler (Some t) mt f) of Inl err \<Rightarrow> Inl HookFailed | Inr t' \<Rightarrow> loadPools pkfb fails t')"

definition Create ::
  "(byte list \<Rightarrow> pubkey) \<Rightarrow> (stmt \<Rightarrow> bool) \<Rightarrow> ('t handler \<Rightarrow> unit + tables) \<Rightarrow> mint_tracker \<Rightarrow> bool \<Rightarrow> tables \<Rightarrow> orca_error + whirlpool list \<times> (pubkey \<rightharpoonup> nat)" where
  "Create pkfb fails hook mt f t =
     (case poolCount fails t of
        Inl err \<Rightarrow> Inl err
      | Inr n \<Rightarrow> if n = 0 \<or> f then fetchWhirlpool pkfb fails hook mt f t else loadPools pkfb fails t)"

definition Find :: "whirlpool list \<times> (pubkey \<rightharpoonup> nat) \<Rightarrow> pubkey \<Rightarrow> whirlpool option option" where
  "Find orca k = index_find orca k"

text \<open>\<open>ORDER BY (liquidity_hi < 0) DESC, liquidity_hi DESC, (liquidity_lo < 0) DESC, liquidity_lo DESC LIMIT ?\<close>.\<close>

definition liquidity_key :: "pool_row \<Rightarrow> bool \<times> int \<times> bool \<times> int" where
  "liquidity_key r = (\<not> liquidity_hi r < 0, - liquidity_hi r, \<not> liquidity_lo r < 0, - liquidity_lo r)"

definition TopPools :: "(byte list \<Rightarrow> pubkey) \<Rightarrow> (stmt \<Rightarrow> bool) \<Rightarrow> nat \<Rightarrow> tables \<Rightarrow> orca_error + whirlpool list" where
  "TopPools pkfb fails n t =
     (if fails SRead then Inl QueryFailed
      else Inr (map (scanPool pkfb) (take n (sort_key (\<lambda>(k, r). liquidity_key r) (pools t)))))"

text \<open>The query for prompts orders by the signed high half.\<close>

definition Query_TopPools :: "(byte list \<Rightarrow> string) \<Rightarrow> bool \<Rightarrow> nat \<Rightarrow> tables \<Rightarrow> orca_error + string" where
  "Query_TopPools hex fails n t =
     (if fails then Inl QueryFailed
      else let rows = map (\<lambda>(k, r). ''pubkey='' @ hex k) (top_rows (\<lambda>(k, r). liquidity_hi r) n (pools t));
               header = ''Orca Whirlpool pools, ranked by liquidity_hi (on-chain liquidity proxy) highest first:'' @ [CHR 0x0A]
           in Inr (if rows = [] then header @ ''(no pools found)'' else header @ join '';'' rows))"

text \<open>\<open>ExportJSON\<close>, up to the list that is encoded; a balance that is \<open>NULL\<close> is left out.\<close>

record pool_json =
  JPubkey :: pubkey
  JMintA :: pubkey
  JMintB :: pubkey
  JVaultA :: pubkey
  JVaultB :: pubkey
  JVaultABalance :: "int option"
  JVaultBBalance :: "int option"
  JSqrtPriceLo :: int
  JSqrtPriceHi :: int
  JLiquidityLo :: int
  JLiquidityHi :: int

definition ExportJSON :: "(byte list \<Rightarrow> pubkey) \<Rightarrow> (stmt \<Rightarrow> bool) \<Rightarrow> bool \<Rightarrow> tables \<Rightarrow> orca_error + pool_json list" where
  "ExportJSON pkfb fails createFails t =
     (if fails SRead then Inl QueryFailed
      else let out = map (\<lambda>(k, r). \<lparr>JPubkey = pkfb k, JMintA = pkfb (mint_a r), JMintB = pkfb (mint_b r), JVaultA = pkfb (vault_a r), JVaultB = pkfb (vault_b r),
                 JVaultABalance = vault_a_balance r, JVaultBBalance = vault_b_balance r, JSqrtPriceLo = sqrt_price_lo r, JSqrtPriceHi = sqrt_price_hi r,
                 JLiquidityLo = liquidity_lo r, JLiquidityHi = liquidity_hi r\<rparr>) (pools t)
           in if createFails then Inl CreateFileFailed else Inr out)"

definition liquidityFloat :: "u64 \<Rightarrow> u64 \<Rightarrow> real" where
  "liquidityFloat lo hi = (if hi = 0 then real (unat lo) else real (unat hi * 2 ^ 64 + unat lo))"

definition LiquidityUsd :: "(pubkey \<rightharpoonup> real) \<Rightarrow> (pubkey \<rightharpoonup> byte) \<Rightarrow> whirlpool \<Rightarrow> real" where
  "LiquidityUsd prices decimals w =
     (case (prices (TokenMintA w), prices (TokenMintB w)) of
        (Some priceA, Some priceB) \<Rightarrow>
          let liq = liquidityFloat (LiquidityLo w) (LiquidityHi w)
          in if liq = 0 then 0
             else let sq = real (unat (SqrtPriceHi w)) + real (unat (SqrtPriceLo w)) / 2 ^ 64
                  in if sq = 0 then 0
                     else let scaleA = 10 ^ unat (map_get 0 decimals (TokenMintA w)); scaleB = 10 ^ unat (map_get 0 decimals (TokenMintB w))
                          in (liq / sq) / scaleA * priceA + (liq * sq) / scaleB * priceB
      | _ \<Rightarrow> 0)"

definition vaultBalance :: "byte list \<Rightarrow> u64 option" where
  "vaultBalance data = (if length data < 64 + 8 then Some 0 else do { s \<leftarrow> go_slice 64 8 data; le_u64 s })"

section \<open>Pools and balances in any order\<close>

definition next_commit :: "(u64 \<Rightarrow> 't \<Rightarrow> bool \<times> 't) \<Rightarrow> u64 \<Rightarrow> 't handler \<Rightarrow> 't handler" where
  "next_commit check s h = CommitStart (\<lambda>_. False) s (snd (CommitFinish (\<lambda>_. False) check h))"

definition as_pool :: "env \<Rightarrow> account \<Rightarrow> whirlpool option" where
  "as_pool e a =
     (if tokenProgramID e \<noteq> Owner a \<and> Owner a = programID e \<and> 8 \<le> length (Data a) \<and> take 8 (Data a) = DiscriminatorWhirlpool
      then case parseWhirlpool (fromBytes e) (Pubkey a) (Data a) of Some (Inr p) \<Rightarrow> Some p | _ \<Rightarrow> None else None)"

definition as_vault :: "env \<Rightarrow> account \<Rightarrow> (pubkey \<times> token_account) option" where
  "as_vault e a =
     (if tokenProgramID e = Owner a \<and> 165 \<le> length (Data a) \<and> length (Data a) < 200
      then map_option (Pair (Pubkey a)) (decodeToken e (Data a)) else None)"

definition pools_in :: "env \<Rightarrow> account list \<Rightarrow> whirlpool list" where
  "pools_in e as = List.map_filter (as_pool e) as"

definition tokens_in :: "env \<Rightarrow> account list \<Rightarrow> (pubkey \<times> token_account) list" where
  "tokens_in e as = List.map_filter (as_vault e) as"

text \<open>A vault belongs to one side of one pool, a pool keeps its vaults, and the keys are read back as they were written.\<close>

definition consistent :: "env \<Rightarrow> whirlpool list \<Rightarrow> bool" where
  "consistent e ps \<longleftrightarrow> (\<forall>p \<in> set ps. fromBytes e (WPubkey p) = WPubkey p \<and> fromBytes e (VaultA p) = VaultA p \<and>
     (\<forall>q \<in> set ps. VaultA p \<noteq> VaultB q \<and> (VaultA p = VaultA q \<longleftrightarrow> WPubkey p = WPubkey q) \<and> (VaultB p = VaultB q \<longleftrightarrow> WPubkey p = WPubkey q)))"

definition first_pool :: "whirlpool list \<Rightarrow> pubkey \<Rightarrow> whirlpool option" where
  "first_pool ps k = find (\<lambda>p. WPubkey p = k) ps"

definition last_balance :: "(pubkey \<times> token_account) list \<Rightarrow> pubkey \<Rightarrow> int option" where
  "last_balance vs v = map_option (to_int64 \<circ> TAmount) (map_of (rev vs) v)"

definition row_of :: "(pubkey \<times> token_account) list \<Rightarrow> whirlpool \<Rightarrow> pool_row" where
  "row_of vs p = (new_pool_row p 0)\<lparr>vault_a_balance := last_balance vs (VaultA p), vault_b_balance := last_balance vs (VaultB p)\<rparr>"

definition is_vault :: "whirlpool list \<Rightarrow> pubkey \<Rightarrow> bool" where
  "is_vault ps v \<longleftrightarrow> (\<exists>p \<in> set ps. VaultA p = v \<or> VaultB p = v)"

abbreviation unslotted :: "pool_row \<Rightarrow> pool_row" where
  "unslotted r \<equiv> r\<lparr>last_slot := 0\<rparr>"

definition orca_inv :: "u64 \<Rightarrow> whirlpool list \<Rightarrow> (pubkey \<times> token_account) list \<Rightarrow> 't handler \<Rightarrow> bool" where
  "orca_inv s0 ps vs h \<longleftrightarrow>
     (\<exists>t. tx h = Some t \<and> db h \<noteq> None \<and> \<not> force h \<and> pss h \<noteq> None \<and> in_window s0 (slot h) \<and> wf_table (pools t) \<and>
        (\<forall>k. map_option unslotted (map_of (pools t) k) = map_option (row_of vs) (first_pool ps k)) \<and>
        (\<forall>k r. map_of (pools t) k = Some r \<longrightarrow> in_window s0 (last_slot r)) \<and>
        mPendingToken h = (\<lambda>v. if is_vault ps v then None else map_of (rev vs) v))"

lemma first_pool_elem: "first_pool ps k = Some p \<Longrightarrow> p \<in> set ps \<and> WPubkey p = k"
  by (auto simp: first_pool_def find_Some_iff)

lemma first_pool_None: "first_pool ps k = None \<longleftrightarrow> (\<forall>p \<in> set ps. WPubkey p \<noteq> k)"
  by (auto simp: first_pool_def find_None_iff)

lemma first_pool_snoc: "first_pool (ps @ [p]) k = (case first_pool ps k of None \<Rightarrow> if WPubkey p = k then Some p else None | Some q \<Rightarrow> Some q)"
  by (induction ps) (auto simp: first_pool_def)

lemma whirlpools_consistentD:
  assumes "consistent e ps" and "p \<in> set ps" and "q \<in> set ps"
  shows "VaultA p \<noteq> VaultB q" "VaultB p \<noteq> VaultA q" "VaultA p = VaultA q \<longleftrightarrow> WPubkey p = WPubkey q"
    "VaultB p = VaultB q \<longleftrightarrow> WPubkey p = WPubkey q" "fromBytes e (WPubkey p) = WPubkey p" "fromBytes e (VaultA p) = VaultA p"
  using assms unfolding consistent_def by metis+

lemma last_balance_snoc: "last_balance (vs @ [(v, ta)]) u = (if u = v then Some (to_int64 (TAmount ta)) else last_balance vs u)"
  by (simp add: last_balance_def)

lemma row_vaults [simp]: "vault_a (row_of vs p) = VaultA p" "vault_b (row_of vs p) = VaultB p"
  by (simp_all add: row_of_def new_pool_row_def)

lemma row_of_snoc:
  "row_of (vs @ [(v, ta)]) p =
     (if VaultB p = v then unslotted (set_vault False ta 0 (if VaultA p = v then set_vault True ta 0 (row_of vs p) else row_of vs p))
      else if VaultA p = v then unslotted (set_vault True ta 0 (row_of vs p)) else row_of vs p)"
  by (auto simp: row_of_def last_balance_snoc set_vault_def new_pool_row_def)

text \<open>The row that a vault is found in is the row of its pool.\<close>

lemma find_vault_row:
  assumes "consistent e ps" and "wf_table t" and "\<And>k. map_option unslotted (map_of t k) = map_option (row_of vs) (first_pool ps k)"
  shows "find (\<lambda>(k, r). vault_a r = v \<or> vault_b r = v) t = None \<longleftrightarrow> \<not> is_vault ps v"
    and "find (\<lambda>(k, r). vault_a r = v \<or> vault_b r = v) t = Some (k, r) \<Longrightarrow>
      \<exists>p \<in> set ps. first_pool ps k = Some p \<and> (VaultA p = v \<or> VaultB p = v) \<and> vault_a r = VaultA p"
proof -
  have row: "\<exists>p \<in> set ps. first_pool ps k = Some p \<and> vault_a r = VaultA p \<and> vault_b r = VaultB p" if "(k, r) \<in> set t" for k r
  proof -
    have "map_of t k = Some r" using that assms(2) by (simp add: wf_table_def)
    then obtain p where p: "first_pool ps k = Some p" "unslotted r = row_of vs p" using assms(3) [of k] by (auto simp: map_option_case split: option.splits)
    have "vault_a (unslotted r) = VaultA p" "vault_b (unslotted r) = VaultB p" unfolding p(2) by simp_all
    then show ?thesis using p(1) first_pool_elem by auto
  qed
  show "find (\<lambda>(k, r). vault_a r = v \<or> vault_b r = v) t = None \<longleftrightarrow> \<not> is_vault ps v"
  proof
    assume f: "find (\<lambda>(k, r). vault_a r = v \<or> vault_b r = v) t = None"
    show "\<not> is_vault ps v"
    proof
      assume "is_vault ps v"
      then obtain p where p: "p \<in> set ps" "VaultA p = v \<or> VaultB p = v" by (auto simp: is_vault_def)
      then obtain q where q: "first_pool ps (WPubkey p) = Some q" by (cases "first_pool ps (WPubkey p)") (auto simp: first_pool_None)
      then have "VaultA q = VaultA p" "VaultB q = VaultB p" using whirlpools_consistentD(3,4) [OF assms(1), of q p] p(1) first_pool_elem [OF q] by auto
      moreover obtain r where "map_of t (WPubkey p) = Some r" using assms(3) [of "WPubkey p"] q by (auto split: option.splits simp: map_option_case)
      moreover from this have "(WPubkey p, r) \<in> set t" by (rule map_of_SomeD)
      ultimately show False using f row [of "WPubkey p" r] q p(2) by (auto simp: find_None_iff)
    qed
  next
    assume "\<not> is_vault ps v"
    then show "find (\<lambda>(k, r). vault_a r = v \<or> vault_b r = v) t = None"
      using row by (fastforce simp: find_None_iff is_vault_def)
  qed
  assume "find (\<lambda>(k, r). vault_a r = v \<or> vault_b r = v) t = Some (k, r)"
  then have "(k, r) \<in> set t" "vault_a r = v \<or> vault_b r = v" by (auto simp: find_Some_iff in_set_conv_nth)
  then show "\<exists>p \<in> set ps. first_pool ps k = Some p \<and> (VaultA p = v \<or> VaultB p = v) \<and> vault_a r = VaultA p"
    using row [of k r] by auto
qed

lemma vault_arrives:
  assumes "consistent e ps" and "orca_inv s0 ps vs h" and "as_vault e a = Some (v, ta)"
  shows "\<exists>h'. tokenOnAccount e (\<lambda>_. False) a h = Some h' \<and> orca_inv s0 ps (vs @ [(v, ta)]) h'"
proof -
  obtain t where t: "tx h = Some t" "db h \<noteq> None" "\<not> force h" "pss h \<noteq> None" "in_window s0 (slot h)" "wf_table (pools t)"
      "\<And>k. map_option unslotted (map_of (pools t) k) = map_option (row_of vs) (first_pool ps k)"
      "\<And>k r. map_of (pools t) k = Some r \<Longrightarrow> in_window s0 (last_slot r)"
      "mPendingToken h = (\<lambda>v. if is_vault ps v then None else map_of (rev vs) v)"
    using assms(2) by (auto simp: orca_inv_def)
  have a: "v = Pubkey a" "decodeToken e (Data a) = Some ta" "165 \<le> length (Data a)" "length (Data a) < 200"
    using assms(3) by (auto simp: as_vault_def split: if_splits)
  note fv = find_vault_row [OF assms(1) t(6,7), of v]
  show ?thesis
  proof (cases "find (\<lambda>(k, r). vault_a r = v \<or> vault_b r = v) (pools t)")
    case None
    then have nv: "\<not> is_vault ps v" using fv(1) by simp
    have "map_option (row_of (vs @ [(v, ta)])) (first_pool ps k) = map_option (row_of vs) (first_pool ps k)" for k
      using nv by (cases "first_pool ps k") (auto simp: row_of_snoc is_vault_def dest: first_pool_elem)
    then have "orca_inv s0 ps (vs @ [(v, ta)]) (h\<lparr>mPendingToken := (mPendingToken h)(v \<mapsto> ta)\<rparr>)"
      using t nv by (auto simp: orca_inv_def fun_eq_iff)
    then show ?thesis using None t(1) a by (simp add: tokenOnAccount_def findPoolByVault_def dbQuery_def)
  next
    case (Some kr)
    obtain k r where kr: "kr = (k, r)" by (cases kr)
    obtain p where p: "p \<in> set ps" "first_pool ps k = Some p" "VaultA p = v \<or> VaultB p = v" "vault_a r = VaultA p"
      using fv(2) [of k r] Some kr by auto
    have k: "fromBytes e k = k" "fromBytes e (vault_a r) = VaultA p" "WPubkey p = k"
      using whirlpools_consistentD(5,6) [OF assms(1) p(1) p(1)] first_pool_elem [OF p(2)] p(4) by auto
    have iv: "is_vault ps v" using p(1,3) by (auto simp: is_vault_def)
    let ?t = "t\<lparr>pools := update_row k (set_vault (VaultA p = v) ta (slot h)) (pools t)\<rparr>"
    have "map_option unslotted (map_of (pools ?t) k') = map_option (row_of (vs @ [(v, ta)])) (first_pool ps k')" for k'
    proof (cases "k' = k")
      case True
      then obtain r' where r': "map_of (pools t) k = Some r'" "unslotted r' = row_of vs p" using t(7) [of k] p(2) by (auto simp: map_option_case split: option.splits)
      have "unslotted (set_vault b ta (slot h) r') = unslotted (set_vault b ta 0 (unslotted r'))" for b by (simp add: set_vault_def)
      then show ?thesis using True r' p whirlpools_consistentD(1) [OF assms(1) p(1) p(1)] by (auto simp: row_of_snoc)
    next
      case False
      have "row_of (vs @ [(v, ta)]) q = row_of vs q" if "first_pool ps k' = Some q" for q
        using that False p(1,3) k(3) first_pool_elem [OF that] whirlpools_consistentD [OF assms(1), of q p] by (auto simp: row_of_snoc)
      then show ?thesis using False t(7) [of k'] by (cases "first_pool ps k'") auto
    qed
    moreover have "in_window s0 (last_slot r')" if "map_of (pools ?t) k' = Some r'" for k' r'
      using that t(5,8) by (auto simp: set_vault_def split: if_splits)
    ultimately have "orca_inv s0 ps (vs @ [(v, ta)]) (h\<lparr>tx := Some ?t\<rparr>)"
      using t(2-6,9) iv by (auto simp: orca_inv_def wf_update_row fun_eq_iff simp del: map_of_update_row)
    then show ?thesis
      using Some kr t(1) a k by (simp add: tokenOnAccount_def findPoolByVault_def dbQuery_def saveToken_def)
  qed
qed

text \<open>Requests touch only the tracker, the set of requested keys and the mint tracker.\<close>

definition same_data :: "'t handler \<Rightarrow> 't handler \<Rightarrow> bool" where
  "same_data h h' \<longleftrightarrow> slot h' = slot h \<and> db h' = db h \<and> tx h' = tx h \<and> force h' = force h \<and> mPendingToken h' = mPendingToken h \<and> pss h' \<noteq> None"

lemma request_frame: "pss h \<noteq> None \<Longrightarrow> \<exists>h'. request subscribe pk w d h = Some h' \<and> same_data h h'"
  by (auto simp: request_def same_data_def)

lemma orca_request_mint_frame: "pss h \<noteq> None \<Longrightarrow> \<exists>h'. request_mint e subscribe m h = Some h' \<and> same_data h h'"
  using request_frame [of "h\<lparr>mintTracker := snd (MarkPending m (mintTracker h))\<rparr>" subscribe m "weightAll e" 1]
  by (auto simp: request_mint_def same_data_def Let_def split: prod.split)

lemma request_vault_frame:
  assumes "pss h \<noteq> None" and "tx h = Some t"
  shows "\<exists>h'. request_vault (\<lambda>_. False) subscribe k b v h = Some h' \<and> slot h' = slot h \<and> db h' = db h \<and> force h' = force h \<and> pss h' \<noteq> None \<and>
    mPendingToken h' = (mPendingToken h)(v := None) \<and>
    tx h' = Some (t\<lparr>pools := (case mPendingToken h v of None \<Rightarrow> pools t | Some ta \<Rightarrow> update_row k (set_vault b ta (slot h)) (pools t))\<rparr>)"
proof -
  obtain h1 where h1: "request subscribe v 0 1 h = Some h1" "same_data h h1" using request_frame [OF assms(1)] by blast
  then show ?thesis
    using assms(2) by (cases "mPendingToken h v") (auto simp: request_vault_def same_data_def saveToken_def fun_upd_idem)
qed

abbreviation put_balance :: "bool \<Rightarrow> u64 \<Rightarrow> token_account option \<Rightarrow> pool_row \<Rightarrow> pool_row" where
  "put_balance b s x r \<equiv> (case x of None \<Rightarrow> r | Some ta \<Rightarrow> set_vault b ta s r)"

text \<open>A pool that is not fresh gets a new row with the amounts that were waiting for it.\<close>

lemma on_pool_inserts:
  assumes "\<not> isPoolFresh (\<lambda>_. False) pk h" and "tx h = Some t" and "pss h \<noteq> None" and "WPubkey p = pk" and "VaultA p \<noteq> VaultB p" and "wf_table (pools t)"
  shows "\<exists>h' t'. on_pool e (\<lambda>_. False) subscribe pk p h = Some h' \<and> slot h' = slot h \<and> db h' = db h \<and> force h' = force h \<and> pss h' \<noteq> None \<and>
    mPendingToken h' = (mPendingToken h)(VaultA p := None, VaultB p := None) \<and> tx h' = Some t' \<and> wf_table (pools t') \<and>
    map_of (pools t') = (map_of (pools t))(pk \<mapsto>
      put_balance False (slot h) (mPendingToken h (VaultB p)) (put_balance True (slot h) (mPendingToken h (VaultA p)) (new_pool_row p (slot h))))"
proof -
  let ?t1 = "t\<lparr>pools := replace_row pk (new_pool_row p (slot h)) (pools t)\<rparr>"
  obtain h1 where h1: "request_mint e subscribe (TokenMintA p) (h\<lparr>tx := Some ?t1\<rparr>) = Some h1" "same_data (h\<lparr>tx := Some ?t1\<rparr>) h1"
    using orca_request_mint_frame [of "h\<lparr>tx := Some ?t1\<rparr>" e subscribe "TokenMintA p"] assms(3) by auto
  obtain h2 where h2: "request_mint e subscribe (TokenMintB p) h1 = Some h2" "same_data h1 h2"
    using orca_request_mint_frame [of h1 e subscribe "TokenMintB p"] h1(2) by (auto simp: same_data_def)
  have d2: "slot h2 = slot h" "db h2 = db h" "tx h2 = Some ?t1" "force h2 = force h" "mPendingToken h2 = mPendingToken h" "pss h2 \<noteq> None"
    using h1(2) h2(2) by (simp_all add: same_data_def)
  let ?t2 = "?t1\<lparr>pools := (case mPendingToken h (VaultA p) of None \<Rightarrow> pools ?t1 | Some ta \<Rightarrow> update_row pk (set_vault True ta (slot h)) (pools ?t1))\<rparr>"
  obtain h3 where h3: "request_vault (\<lambda>_. False) subscribe pk True (VaultA p) h2 = Some h3" "slot h3 = slot h" "db h3 = db h" "force h3 = force h" "pss h3 \<noteq> None"
      "mPendingToken h3 = (mPendingToken h)(VaultA p := None)" "tx h3 = Some ?t2"
    using request_vault_frame [OF d2(6,3), of subscribe pk True "VaultA p", unfolded d2(1,2,4,5)] by blast
  let ?t3 = "?t2\<lparr>pools := (case mPendingToken h (VaultB p) of None \<Rightarrow> pools ?t2 | Some ta \<Rightarrow> update_row pk (set_vault False ta (slot h)) (pools ?t2))\<rparr>"
  obtain h4 where h4: "request_vault (\<lambda>_. False) subscribe pk False (VaultB p) h3 = Some h4" "slot h4 = slot h" "db h4 = db h" "force h4 = force h" "pss h4 \<noteq> None"
      "mPendingToken h4 = (mPendingToken h)(VaultA p := None, VaultB p := None)" "tx h4 = Some ?t3"
    using request_vault_frame [OF h3(5,7), of subscribe pk False "VaultB p", unfolded h3(2,3,4,6) fun_upd_other [OF assms(5) [symmetric]]] by blast
  have "on_pool e (\<lambda>_. False) subscribe pk p h = Some h4"
    using assms(1,2) h1(1) h2(1) h3(1) h4(1) by (simp add: on_pool_def assms(4))
  moreover have "wf_table (pools ?t3)" using assms(6) by (auto simp: wf_update_row wf_replace_row split: option.split)
  moreover have "map_of (pools ?t3) = (map_of (pools t))(pk \<mapsto>
      put_balance False (slot h) (mPendingToken h (VaultB p)) (put_balance True (slot h) (mPendingToken h (VaultA p)) (new_pool_row p (slot h))))"
    by (auto simp: fun_eq_iff split: option.split)
  ultimately show ?thesis using h4 by blast
qed

lemma pool_arrives:
  assumes "unat s0 < 2 ^ 62" and "consistent e (ps @ [p])" and "orca_inv s0 ps vs h" and "WPubkey p = pk"
  shows "\<exists>h'. on_pool e (\<lambda>_. False) subscribe pk p h = Some h' \<and> orca_inv s0 (ps @ [p]) vs h'"
proof -
  obtain t where t: "tx h = Some t" "db h \<noteq> None" "\<not> force h" "pss h \<noteq> None" "in_window s0 (slot h)" "wf_table (pools t)"
      "\<And>k. map_option unslotted (map_of (pools t) k) = map_option (row_of vs) (first_pool ps k)"
      "\<And>k r. map_of (pools t) k = Some r \<Longrightarrow> in_window s0 (last_slot r)"
      "mPendingToken h = (\<lambda>v. if is_vault ps v then None else map_of (rev vs) v)"
    using assms(3) by (auto simp: orca_inv_def)
  have c: "VaultA p \<noteq> VaultB p" "\<And>q. q \<in> set ps \<Longrightarrow> VaultA q \<noteq> VaultB p \<and> VaultB q \<noteq> VaultA p \<and>
      (VaultA q = VaultA p \<longleftrightarrow> WPubkey q = pk) \<and> (VaultB q = VaultB p \<longleftrightarrow> WPubkey q = pk)"
    using assms(2,4) whirlpools_consistentD [of e "ps @ [p]" _ p] whirlpools_consistentD [of e "ps @ [p]" p p] by auto
  show ?thesis
  proof (cases "first_pool ps pk")
    case (Some q)
    then have q: "q \<in> set ps" "WPubkey q = pk" by (auto dest: first_pool_elem)
    obtain r where r: "map_of (pools t) pk = Some r" using t(7) [of pk] Some by (auto simp: map_option_case split: option.splits)
    then have "isPoolFresh (\<lambda>_. False) pk h"
      using t(1-3) in_window_fresh [OF assms(1) t(8) t(5)] by (simp add: isPoolFresh_def dbQuery_def)
    moreover have "is_vault (ps @ [p]) v = is_vault ps v" for v using q c(2) [OF q(1)] by (auto simp: is_vault_def)
    moreover have "first_pool (ps @ [p]) k = first_pool ps k" for k using Some assms(4) by (auto simp: first_pool_snoc split: option.split)
    ultimately show ?thesis using assms(3) by (simp add: on_pool_def orca_inv_def)
  next
    case None
    then have new: "\<not> is_vault ps (VaultA p)" "\<not> is_vault ps (VaultB p)" using c(2) by (auto simp: first_pool_None is_vault_def)
    have "map_of (pools t) pk = None" using t(7) [of pk] None by simp
    then have stale: "\<not> isPoolFresh (\<lambda>_. False) pk h" using t(1) by (simp add: isPoolFresh_def dbQuery_def)
    let ?r = "put_balance False (slot h) (mPendingToken h (VaultB p)) (put_balance True (slot h) (mPendingToken h (VaultA p)) (new_pool_row p (slot h)))"
    obtain h' t' where h': "on_pool e (\<lambda>_. False) subscribe pk p h = Some h'" "slot h' = slot h" "db h' = db h" "force h' = force h" "pss h' \<noteq> None"
        "mPendingToken h' = (mPendingToken h)(VaultA p := None, VaultB p := None)" "tx h' = Some t'" "wf_table (pools t')"
        "map_of (pools t') = (map_of (pools t))(pk \<mapsto> ?r)"
      using on_pool_inserts [OF stale t(1,4) assms(4) c(1) t(6)] by blast
    have "unslotted ?r = row_of vs p"
      using new by (auto simp: t(9) row_of_def last_balance_def set_vault_def new_pool_row_def split: option.split)
    moreover have "in_window s0 (last_slot ?r)" using t(5) by (auto simp: set_vault_def new_pool_row_def split: option.split)
    moreover have "mPendingToken h' = (\<lambda>v. if is_vault (ps @ [p]) v then None else map_of (rev vs) v)"
      unfolding h'(6) t(9) by (auto simp: fun_eq_iff is_vault_def)
    ultimately show ?thesis
      using h' t(2,3,5,7,8) None assms(4) by (auto simp: orca_inv_def first_pool_snoc split: option.split)
  qed
qed

lemma parse_total: "parseWhirlpool pkfb pk data \<noteq> None" "parseWhirlpoolConfig pkfb pk data \<noteq> None"
  by (simp_all add: parseWhirlpool_def parseWhirlpoolConfig_def orca_layout go_reads)

lemma parse_key: "parseWhirlpool pkfb pk data = Some (Inr p) \<Longrightarrow> WPubkey p = pk"
  by (auto simp: parseWhirlpool_def split: if_splits bind_splits)

lemma cancel_inv: "orca_inv s0 ps vs h \<Longrightarrow> orca_inv s0 ps vs (cancel err h)"
  by (auto simp: orca_inv_def cancel_def)

lemma config_arrives:
  assumes "orca_inv s0 ps vs h"
  shows "\<exists>h'. on_config e (\<lambda>_. False) subscribe pk c h = Some h' \<and> orca_inv s0 ps vs h'"
proof -
  obtain t where t: "tx h = Some t" "pss h \<noteq> None" using assms by (auto simp: orca_inv_def)
  let ?h = "h\<lparr>tx := Some (t\<lparr>configs_seen := replace_row (CPubkey c) (slot h) (configs_seen t)\<rparr>), sendSubCount := sendSubCount h + 1\<rparr>"
  have "orca_inv s0 ps vs ?h" using assms t(1) by (auto simp: orca_inv_def)
  moreover obtain h' where h': "request subscribe pk (weightAll e) 2 ?h = Some h'" "same_data ?h h'"
    using request_frame [of ?h subscribe pk "weightAll e" 2] t(2) by auto
  ultimately have "orca_inv s0 ps vs h'" by (simp add: orca_inv_def same_data_def)
  then show ?thesis using assms t(1) h'(1) by (simp add: on_config_def)
qed

lemma mint_arrives:
  assumes "orca_inv s0 ps vs h" and "\<not> (165 \<le> length (Data a) \<and> length (Data a) < 200)"
  shows "\<exists>h'. tokenOnAccount e (\<lambda>_. False) a h = Some h' \<and> orca_inv s0 ps vs h'"
proof -
  obtain t where t: "tx h = Some t" using assms(1) by (auto simp: orca_inv_def)
  have "orca_inv s0 ps vs (h\<lparr>mintTracker := mt, tx := Some (t\<lparr>mints := m\<rparr>)\<rparr>)" for mt m
    using assms(1) t by (auto simp: orca_inv_def)
  then show ?thesis using assms t by (auto simp: tokenOnAccount_def Let_def split: option.splits prod.splits)
qed

lemma orca_on_account:
  assumes "unat s0 < 2 ^ 62" and "consistent e (ps @ (case as_pool e a of None \<Rightarrow> [] | Some p \<Rightarrow> [p]))" and "orca_inv s0 ps vs h"
  shows "\<exists>h'. OnAccount e (\<lambda>_. False) subscribe a h = Some h' \<and>
    orca_inv s0 (ps @ (case as_pool e a of None \<Rightarrow> [] | Some p \<Rightarrow> [p])) (vs @ (case as_vault e a of None \<Rightarrow> [] | Some x \<Rightarrow> [x])) h'"
proof (cases "tokenProgramID e = Owner a")
  case True
  then have p: "as_pool e a = None" by (simp add: as_pool_def)
  then have c: "consistent e ps" using assms(2) by simp
  show ?thesis
  proof (cases "165 \<le> length (Data a) \<and> length (Data a) < 200")
    case len: True
    show ?thesis
    proof (cases "decodeToken e (Data a)")
      case None
      then show ?thesis using True len p assms(3) cancel_inv [OF assms(3)] by (simp add: OnAccount_def tokenOnAccount_def as_vault_def)
    next
      case (Some ta)
      then have "as_vault e a = Some (Pubkey a, ta)" using True len by (simp add: as_vault_def)
      then show ?thesis using True p vault_arrives [OF c assms(3)] by (simp add: OnAccount_def)
    qed
  next
    case False
    then have "as_vault e a = None" by (simp only: as_vault_def) auto
    then show ?thesis using True p mint_arrives [OF assms(3) False] by (simp add: OnAccount_def)
  qed
next
  case False
  then have v: "as_vault e a = None" by (simp add: as_vault_def)
  obtain x where x: "parseWhirlpool (fromBytes e) (Pubkey a) (Data a) = Some x" using parse_total(1) by fast
  obtain y where y: "parseWhirlpoolConfig (fromBytes e) (Pubkey a) (Data a) = Some y" using parse_total(2) by fast
  show ?thesis
  proof (cases "8 \<le> length (Data a) \<and> Owner a = programID e")
    case own: True
    then have d: "go_slice 0 8 (Data a) = Some (take 8 (Data a))" by (simp add: go_slice_def)
    show ?thesis
    proof (cases "take 8 (Data a) = DiscriminatorWhirlpool")
      case True
      show ?thesis
      proof (cases x)
        case (Inl err)
        then show ?thesis using False own d True x v assms(3) cancel_inv [OF assms(3)] discriminators_differ
          by (simp add: OnAccount_def as_pool_def)
      next
        case (Inr p)
        then have "as_pool e a = Some p" using own False True x by (simp add: as_pool_def)
        then show ?thesis
          using False own d True x v Inr pool_arrives [OF assms(1) _ assms(3) parse_key [of "fromBytes e" "Pubkey a" "Data a"]] assms(2) discriminators_differ
          by (simp add: OnAccount_def)
      qed
    next
      case other: False
      then have "as_pool e a = None" by (simp add: as_pool_def)
      then show ?thesis
        using False own d other v y assms(3) cancel_inv [OF assms(3)] config_arrives [OF assms(3)]
        by (cases y) (auto simp: OnAccount_def)
    qed
  next
    case foreign: False
    then have "as_pool e a = None" by (simp only: as_pool_def) auto
    then show ?thesis using foreign False v assms(3) by (auto simp: OnAccount_def go_slice_def)
  qed
qed

lemma orca_commit: "in_window s0 s \<Longrightarrow> orca_inv s0 ps vs h \<Longrightarrow> orca_inv s0 ps vs (next_commit check s h)"
  by (auto simp: orca_inv_def next_commit_def CommitFinish_def CommitStart_def cancel_def Let_def split: prod.split option.splits)

interpretation orca: handler_history "OnAccount e (\<lambda>_. False) subscribe" "next_commit check" "in_window s0"
  "\<lambda>as. unat s0 < 2 ^ 62 \<and> consistent e (pools_in e as)" "\<lambda>as. orca_inv s0 (pools_in e as) (tokens_in e as)"
  for e subscribe check s0
proof
  fix as bs
  show "unat s0 < 2 ^ 62 \<and> consistent e (pools_in e (as @ bs)) \<Longrightarrow> unat s0 < 2 ^ 62 \<and> consistent e (pools_in e as)"
    by (simp add: pools_in_def map_filter_append consistent_def)
next
  fix as a and h :: "'a handler"
  assume "unat s0 < 2 ^ 62 \<and> consistent e (pools_in e (as @ [a]))" and "orca_inv s0 (pools_in e as) (tokens_in e as) h"
  then show "\<exists>h'. OnAccount e (\<lambda>_. False) subscribe a h = Some h' \<and> orca_inv s0 (pools_in e (as @ [a])) (tokens_in e (as @ [a])) h'"
    using orca_on_account [of s0 e "pools_in e as" a "tokens_in e as" h subscribe] by (simp add: pools_in_def tokens_in_def map_filter_snoc)
qed (rule orca_commit)

abbreviation first_commit :: "env \<Rightarrow> tables \<Rightarrow> mint_tracker \<Rightarrow> 't \<Rightarrow> (pending_subscription \<Rightarrow> 't \<Rightarrow> 't) \<Rightarrow> u64 \<Rightarrow> 't handler" where
  "first_commit e d mt newTracker subscribe s \<equiv> CommitStart (\<lambda>_. False) s (Init e newTracker subscribe (createHandler (Some d) mt False))"

lemma orca_first_commit: "pools d = [] \<Longrightarrow> orca_inv s0 (pools_in e []) (tokens_in e []) (first_commit e d mt newTracker subscribe s0)"
  by (simp add: pools_in_def tokens_in_def List.map_filter_def orca_inv_def CommitStart_def Init_def createHandler_def first_pool_def
      in_window_def is_vault_def wf_table_def fun_eq_iff)

text \<open>(C13) A first fetch, into an empty table, that takes less than seven days of slots and meets no failing statement: whatever accounts arrive, in whatever
  order and over however many commits, it does not panic, and the table has exactly the pools that have arrived, each as its first account described it and
  with the last amounts seen on its two vaults, no matter whether those came before or after the pool; no amount for a vault that has not been seen.\<close>

theorem orca_pools_and_balances:
  assumes "pools d = []" and "unat s0 < 2 ^ 62" and "\<forall>s \<in> set (slots_of cs). in_window s0 s" and "consistent e (pools_in e (accounts_of cs))"
  shows "\<exists>h t. run_calls (OnAccount e (\<lambda>_. False) subscribe) (next_commit check) cs (first_commit e d mt newTracker subscribe s0) = Some h \<and>
    tx h = Some t \<and> wf_table (pools t) \<and>
    (\<forall>k. map_option unslotted (map_of (pools t) k) = map_option (row_of (tokens_in e (accounts_of cs))) (first_pool (pools_in e (accounts_of cs)) k))"
proof -
  obtain h where "run_calls (OnAccount e (\<lambda>_. False) subscribe) (next_commit check) cs (first_commit e d mt newTracker subscribe s0) = Some h"
      "orca_inv s0 (pools_in e (accounts_of cs)) (tokens_in e (accounts_of cs)) h"
    using orca.run_inv [of s0 e "[]" cs "first_commit e d mt newTracker subscribe s0" subscribe check] orca_first_commit [OF assms(1), of s0 e newTracker subscribe mt] assms(2-4)
    by auto
  then show ?thesis by (auto simp: orca_inv_def)
qed

abbreviation orca_env :: env where
  "orca_env \<equiv> \<lparr>programID = [1], tokenProgramID = [2], weightAll = 7,
     decodeToken = (\<lambda>b. Some \<lparr>TMint = [7], TAmount = 500\<rparr>), decodeMint = (\<lambda>_. Some 6), fromBytes = (\<lambda>b. take 1 b)\<rparr>"

abbreviation pool_account :: account where
  "pool_account \<equiv> \<lparr>Pubkey = [9], Owner = [1], HSlot = 0, DataSize = 245, Deleted = False,
     Data = DiscriminatorWhirlpool @ replicate 125 0 @ replicate 48 5 @ replicate 64 6\<rparr>"

abbreviation vault_account :: account where
  "vault_account \<equiv> \<lparr>Pubkey = [5], Owner = [2], HSlot = 0, DataSize = 165, Deleted = False, Data = replicate 165 0\<rparr>"

abbreviation no_rows :: tables where "no_rows \<equiv> \<lparr>pools = [], configs_seen = [], mints = Map.empty\<rparr>"

abbreviation sample_calls :: "call list" where "sample_calls \<equiv> [CAccount vault_account, CCommit 8, CAccount pool_account]"

lemma le_nat_zeros: "le_nat (replicate n 0) = 0"
  by (induction n) simp_all

lemma sample_whirlpools: "pools_in orca_env (accounts_of sample_calls) =
    [\<lparr>WPubkey = [9], WhirlpoolsConfig = [0], TokenMintA = [0], TokenMintB = [6], VaultA = [5], VaultB = [6], SqrtPriceHi = 0, SqrtPriceLo = 0,
      LiquidityLo = 0, LiquidityHi = 0, TickCurrentIndex = 0, TickSpacing = 0, FeeRate = 0\<rparr>]"
  by (simp add: pools_in_def List.map_filter_def as_pool_def parseWhirlpool_def orca_layout read_pubkey_def go_slice_def DiscriminatorWhirlpool_def
      read_u64_def read_u32_def read_i32_def read_u16_def le_u64_def le_u32_def le_u16_def le_nat_zeros)

lemma sample_tokens: "tokens_in orca_env (accounts_of sample_calls) = [([5], \<lparr>TMint = [7], TAmount = 500\<rparr>)]"
  by (simp add: tokens_in_def List.map_filter_def as_vault_def)

theorem orca_pools_and_balances_witness:
  "\<exists>h t r. run_calls (OnAccount orca_env (\<lambda>_. False) (\<lambda>_ n. n + 1)) (next_commit (\<lambda>_ g. (False, g))) sample_calls
       (first_commit orca_env no_rows Map.empty (0 :: nat) (\<lambda>_ n. n + 1) 7) = Some h \<and> tx h = Some t \<and> map_of (pools t) [9] = Some r \<and>
     vault_a_balance r = Some 500 \<and> vault_b_balance r = None"
proof -
  let ?run = "run_calls (OnAccount orca_env (\<lambda>_. False) (\<lambda>_ n. n + 1)) (next_commit (\<lambda>_ g. (False, g))) sample_calls
       (first_commit orca_env no_rows Map.empty (0 :: nat) (\<lambda>_ n. n + 1) 7)"
  have "consistent orca_env (pools_in orca_env (accounts_of sample_calls))" unfolding sample_whirlpools by (simp add: consistent_def)
  moreover have "\<forall>s \<in> set (slots_of sample_calls). in_window 7 s" by (simp add: in_window_def)
  ultimately obtain h t where h: "?run = Some h" "tx h = Some t"
      and r: "\<And>k. map_option unslotted (map_of (pools t) k) =
        map_option (row_of (tokens_in orca_env (accounts_of sample_calls))) (first_pool (pools_in orca_env (accounts_of sample_calls)) k)"
    using orca_pools_and_balances [of no_rows 7 sample_calls orca_env "\<lambda>_ n. n + 1" "\<lambda>_ g. (False, g)" "0 :: nat" Map.empty] by auto
  obtain r' where r': "map_of (pools t) [9] = Some r'" "unslotted r' = row_of [([5], \<lparr>TMint = [7], TAmount = 500\<rparr>)] (hd (pools_in orca_env (accounts_of sample_calls)))"
    using r [of "[9]"] unfolding sample_whirlpools sample_tokens by (auto simp: first_pool_def)
  have "vault_a_balance (unslotted r') = Some 500" "vault_b_balance (unslotted r') = None"
    unfolding r'(2) sample_whirlpools by (simp_all add: row_of_def last_balance_def to_int64_def)
  then show ?thesis using h r'(1) by auto
qed

section \<open>The pools with the most liquidity\<close>

definition liquidity128 :: "whirlpool \<Rightarrow> int" where
  "liquidity128 w = uint (LiquidityHi w) * 2 ^ 64 + uint (LiquidityLo w)"

text \<open>What a column that was filled from an \<open>int64\<close> can hold.\<close>

definition int64_column :: "int \<Rightarrow> bool" where
  "int64_column x \<longleftrightarrow> - (2 ^ 63) \<le> x \<and> x < 2 ^ 63"

lemma uint_of_column: "int64_column x \<Longrightarrow> uint (to_uint64 x) = (if x < 0 then x + 2 ^ 64 else x)"
proof -
  assume c: "int64_column x"
  have "x mod 2 ^ 64 = (if x < 0 then x + 2 ^ 64 else x)"
  proof (cases "x < 0")
    case True
    have "x mod 2 ^ 64 = (x + 2 ^ 64) mod 2 ^ 64" by simp
    also have "\<dots> = x + 2 ^ 64" using c True by (intro mod_pos_pos_trivial) (simp_all add: int64_column_def)
    finally show ?thesis using True by simp
  qed (use c in \<open>simp add: int64_column_def\<close>)
  then show ?thesis by (simp add: to_uint64_def uint_word_of_int)
qed

lemma int64_column_of: "int64_column (to_int64 x)"
  using sint_greater_eq [of x] sint_less [of x] by (simp add: int64_column_def to_int64_def)

lemma column_order:
  assumes "int64_column x" and "int64_column y"
  shows "(\<not> x < 0, - x) < (\<not> y < 0, - y) \<longleftrightarrow> uint (to_uint64 y) < uint (to_uint64 x)"
  using assms by (auto simp: uint_of_column less_prod_def int64_column_def split: if_splits)

lemma column_inj: "int64_column x \<Longrightarrow> int64_column y \<Longrightarrow> uint (to_uint64 x) = uint (to_uint64 y) \<Longrightarrow> x = y"
  by (auto simp: uint_of_column int64_column_def split: if_splits)

lemma halves_order: "a < b \<Longrightarrow> 0 \<le> c \<Longrightarrow> d < 2 ^ 64 \<Longrightarrow> a * 2 ^ 64 + d \<le> b * 2 ^ 64 + c" for a b c d :: int
  by simp

text \<open>The two pairs of columns order the rows by the unsigned 128-bit number.\<close>

lemma liquidity_key_order:
  assumes "int64_column (liquidity_hi r)" "int64_column (liquidity_lo r)" "int64_column (liquidity_hi r')" "int64_column (liquidity_lo r')"
    and "liquidity_key r \<le> liquidity_key r'"
  shows "liquidity128 (scanPool pkfb (k', r')) \<le> liquidity128 (scanPool pkfb (k, r))"
proof -
  let ?u = "\<lambda>x. uint (to_uint64 x)"
  have lt: "?u x < 2 ^ 64" "0 \<le> ?u x" for x using uint_lt2p [of "to_uint64 x"] by simp_all
  have "?u (liquidity_hi r') < ?u (liquidity_hi r) \<or> liquidity_hi r = liquidity_hi r' \<and> ?u (liquidity_lo r') \<le> ?u (liquidity_lo r)"
    using assms(5) column_order [OF assms(1,3)] column_order [OF assms(4,2)]
    by (auto simp: liquidity_key_def less_eq_prod_def less_prod_def not_less)
  moreover have "?u (liquidity_hi r') * 2 ^ 64 + ?u (liquidity_lo r') \<le> ?u (liquidity_hi r) * 2 ^ 64 + ?u (liquidity_lo r)"
    if "?u (liquidity_hi r') < ?u (liquidity_hi r)"
    by (rule halves_order [OF that lt(2) lt(1)])
  ultimately show ?thesis by (auto simp: liquidity128_def scanPool_def)
qed

text \<open>\<open>TopPools\<close> returns the pools with the most liquidity, in descending order of the unsigned 128-bit number, although the columns hold its two
  halves as signed integers.\<close>

theorem TopPools_unsigned:
  assumes "\<forall>(k, r) \<in> set (pools t). int64_column (liquidity_hi r) \<and> int64_column (liquidity_lo r)"
  shows "\<exists>top rest. TopPools pkfb (\<lambda>_. False) n t = Inr top \<and> mset (top @ rest) = mset (map (scanPool pkfb) (pools t)) \<and>
    length top = min n (length (pools t)) \<and> sorted_wrt (\<lambda>p q. liquidity128 q \<le> liquidity128 p) top \<and>
    (\<forall>p \<in> set top. \<forall>q \<in> set rest. liquidity128 q \<le> liquidity128 p)"
proof -
  let ?s = "sort_key (\<lambda>(k, r). liquidity_key r) (pools t)" and ?m = "map (scanPool pkfb)"
  let ?ge = "\<lambda>p q. liquidity128 q \<le> liquidity128 p"
  have "sorted (map (\<lambda>(k, r). liquidity_key r) ?s)" by (rule sorted_sort_key)
  then have "sorted_wrt (\<lambda>x y. ?ge (scanPool pkfb x) (scanPool pkfb y)) ?s"
    unfolding sorted_wrt_map
    by (rule sorted_wrt_mono_rel [rotated]) (use assms in \<open>force intro: liquidity_key_order\<close>)
  then have w: "sorted_wrt ?ge (?m (take n ?s) @ ?m (drop n ?s))" by (simp add: sorted_wrt_map flip: map_append)
  moreover have "mset (?m (take n ?s) @ ?m (drop n ?s)) = mset (?m (pools t))"
    by (simp only: map_append [symmetric] append_take_drop_id mset_map mset_sort)
  ultimately show ?thesis
    by (intro exI [of _ "?m (take n ?s)"] exI [of _ "?m (drop n ?s)"]) (simp add: TopPools_def sorted_wrt_append min.commute)
qed

abbreviation liquid :: "int \<Rightarrow> int \<Rightarrow> pool_row" where
  "liquid hi lo \<equiv> (new_pool_row \<lparr>WPubkey = [9], WhirlpoolsConfig = [0], TokenMintA = [0], TokenMintB = [6], VaultA = [5], VaultB = [6], SqrtPriceHi = 0,
     SqrtPriceLo = 0, LiquidityLo = 0, LiquidityHi = 0, TickCurrentIndex = 0, TickSpacing = 0, FeeRate = 0\<rparr> 0)\<lparr>liquidity_hi := hi, liquidity_lo := lo\<rparr>"

theorem TopPools_unsigned_witness:
  "\<exists>p. TopPools (\<lambda>b. b) (\<lambda>_. False) 1 \<lparr>pools = [([1], liquid 0 5), ([2], liquid 0 (- 1))], configs_seen = [], mints = Map.empty\<rparr> = Inr [p] \<and>
     liquidity128 p = 2 ^ 64 - 1"
proof -
  let ?t = "\<lparr>pools = [([1], liquid 0 5), ([2], liquid 0 (- 1))], configs_seen = [], mints = Map.empty\<rparr>"
  obtain top rest where t: "TopPools (\<lambda>b. b) (\<lambda>_. False) 1 ?t = Inr top" "mset (top @ rest) = mset (map (scanPool (\<lambda>b. b)) (pools ?t))"
      "length top = 1" "\<forall>p \<in> set top. \<forall>q \<in> set rest. liquidity128 q \<le> liquidity128 p"
    using TopPools_unsigned [of ?t "\<lambda>b. b" 1] by (auto simp: int64_column_def)
  then obtain p where p: "top = [p]" by (auto simp: length_Suc_conv)
  have "set (p # rest) = set (map (scanPool (\<lambda>b. b)) (pools ?t))" using t(2) p by (metis append_Cons append_Nil set_mset_mset)
  then have s: "p \<in> {scanPool (\<lambda>b. b) ([1], liquid 0 5), scanPool (\<lambda>b. b) ([2], liquid 0 (- 1))}" "scanPool (\<lambda>b. b) ([2], liquid 0 (- 1)) \<in> set (p # rest)"
    by auto
  have "liquidity128 (scanPool (\<lambda>b. b) ([2], liquid 0 (- 1))) = 2 ^ 64 - 1" "liquidity128 (scanPool (\<lambda>b. b) ([1], liquid 0 5)) = 5"
    by (simp_all add: liquidity128_def scanPool_def uint_of_column int64_column_def)
  then show ?thesis using s t(1,4) p by auto
qed

text \<open>The query behind the prompt orders by the signed column: of the same two halves it takes the smaller number first.\<close>

lemma Query_TopPools_signed:
  "Query_TopPools (\<lambda>k. if k = [1] then ''01'' else ''02'') False 1
     \<lparr>pools = [([1], liquid 5 0), ([2], liquid (- 1) 0)], configs_seen = [], mints = Map.empty\<rparr> =
   Inr (''Orca Whirlpool pools, ranked by liquidity_hi (on-chain liquidity proxy) highest first:'' @ [CHR 0x0A] @ ''pubkey=01'') \<and>
   liquidity128 (scanPool (\<lambda>b. b) ([1], liquid 5 0)) < liquidity128 (scanPool (\<lambda>b. b) ([2], liquid (- 1) 0))"
  by (simp add: Query_TopPools_def top_rows_def Let_def liquidity128_def scanPool_def uint_of_column int64_column_def)

section \<open>Forced fetches\<close>

text \<open>Under \<open>force\<close> every account of a pool replaces its row, and the new row has no balances: an amount that was already stored is gone, and nothing asks for
  the vaults again, for they are among the keys of this run.\<close>

lemma forced_update_drops_balances:
  assumes "force h" and "tx h = Some t" and "pss h = Some g" and "Known (TokenMintA p) (mintTracker h)" and "Known (TokenMintB p) (mintTracker h)"
    and "{VaultA p, VaultB p} \<subseteq> mRoot h" and "mPendingToken h (VaultA p) = None" and "mPendingToken h (VaultB p) = None"
  shows "on_pool e (\<lambda>_. False) subscribe pk p h =
    Some (h\<lparr>tx := Some (t\<lparr>pools := replace_row (WPubkey p) (new_pool_row p (slot h)) (pools t)\<rparr>)\<rparr>)"
  using assms by (simp add: on_pool_def isPoolFresh_def request_mint_def request_vault_def request_def)

lemma new_pool_row_no_balances: "vault_a_balance (new_pool_row p s) = None \<and> vault_b_balance (new_pool_row p s) = None"
  by (simp add: new_pool_row_def)

section \<open>Loading what was stored\<close>

lemma scan_new_row:
  assumes "\<And>b. b \<in> {WPubkey p, WhirlpoolsConfig p, TokenMintA p, TokenMintB p, VaultA p, VaultB p} \<Longrightarrow> pkfb b = b"
  shows "scanPool pkfb (WPubkey p, (new_pool_row p s)\<lparr>vault_a_balance := x, vault_b_balance := y\<rparr>) = p"
  using assms by (simp add: scanPool_def new_pool_row_def)

lemma loadPools_Find:
  assumes "wf_table (pools t)" and "\<And>k r. (k, r) \<in> set (pools t) \<Longrightarrow> pkfb k = k"
  shows "\<exists>o'. loadPools pkfb (\<lambda>_. False) t = Inr o' \<and> (\<forall>k. Find o' k = Some (map_option (\<lambda>r. scanPool pkfb (k, r)) (map_of (pools t) k)))"
proof -
  have "index_find (index_rows WPubkey (map (scanPool pkfb) (pools t))) k = Some (map_option (\<lambda>r. scanPool pkfb (k, r)) (map_of (pools t) k))" for k
    by (rule index_find_table [OF assms(1)]) (simp add: scanPool_def assms(2))
  then show ?thesis by (simp add: loadPools_def Find_def)
qed

text \<open>A database with pools is only read; the stream is run when it is empty or the caller forces it.\<close>

lemma Create_reads: "pools t \<noteq> [] \<Longrightarrow> Create pkfb (\<lambda>_. False) hook mt False t = loadPools pkfb (\<lambda>_. False) t"
  by (simp add: Create_def poolCount_def)

section \<open>Every call keeps one row per pool\<close>

definition orca_ok :: "'t handler \<Rightarrow> bool" where
  "orca_ok h \<longleftrightarrow> (\<forall>t. db h = Some t \<longrightarrow> wf_table (pools t)) \<and> (\<forall>t. tx h = Some t \<longrightarrow> wf_table (pools t))"

lemma orca_cancel_frame [simp]: "db (cancel err h) = db h" "tx (cancel err h) = tx h"
  by (simp_all add: cancel_def)

lemma saveToken_ok: "orca_ok h \<Longrightarrow> orca_ok (saveToken fails ta k b h)"
  by (auto simp: saveToken_def orca_ok_def wf_update_row split: option.split)

lemma request_ok: "request subscribe pk w d h = Some h' \<Longrightarrow> orca_ok h \<Longrightarrow> orca_ok h'"
  by (auto simp: request_def orca_ok_def split: if_splits option.splits)

lemma request_mint_ok: "request_mint e subscribe m h = Some h' \<Longrightarrow> orca_ok h \<Longrightarrow> orca_ok h'"
  using request_ok [of subscribe m "weightAll e" 1 "h\<lparr>mintTracker := snd (MarkPending m (mintTracker h))\<rparr>" h']
  by (auto simp: request_mint_def orca_ok_def Let_def split: if_splits prod.splits)

lemma request_vault_ok:
  assumes "request_vault fails subscribe k b v h = Some h'" and "orca_ok h"
  shows "orca_ok h'"
proof -
  obtain h1 where h1: "request subscribe v 0 1 h = Some h1" using assms(1) by (auto simp: request_vault_def split: bind_splits)
  have "orca_ok (h1\<lparr>mPendingToken := m\<rparr>)" for m using request_ok [OF h1 assms(2)] by (simp add: orca_ok_def)
  then show ?thesis using assms(1) h1 request_ok [OF h1 assms(2)] by (auto simp: request_vault_def intro!: saveToken_ok split: option.splits)
qed

lemma on_pool_ok:
  assumes "on_pool e fails subscribe k p h = Some h'" and "orca_ok h"
  shows "orca_ok h'"
proof (cases "tx h")
  case None
  then show ?thesis using assms by (auto simp: on_pool_def orca_ok_def split: if_splits)
next
  case (Some t)
  have "orca_ok (h\<lparr>tx := Some (t\<lparr>pools := replace_row (WPubkey p) (new_pool_row p (slot h)) (pools t)\<rparr>)\<rparr>)"
    using assms(2) Some by (auto simp: orca_ok_def wf_replace_row)
  moreover have "orca_ok (cancel InsertPoolFailed h)" using assms(2) by (simp add: orca_ok_def)
  ultimately show ?thesis
    using assms Some by (auto simp: on_pool_def split: if_splits bind_splits) (blast intro: request_mint_ok request_vault_ok)
qed

lemma on_config_ok:
  assumes "on_config e fails subscribe k c h = Some h'" and "orca_ok h"
  shows "orca_ok h'"
proof (cases "tx h")
  case None
  then show ?thesis using assms by (auto simp: on_config_def orca_ok_def split: if_splits)
next
  case (Some t)
  have "orca_ok (h\<lparr>tx := Some (t\<lparr>configs_seen := x\<rparr>), sendSubCount := n\<rparr>)" "orca_ok (cancel InsertConfigFailed h)" for x n
    using assms(2) Some by (auto simp: orca_ok_def)
  then show ?thesis using assms Some by (auto simp: on_config_def intro: request_ok split: if_splits)
qed

lemma tokenOnAccount_ok:
  assumes "tokenOnAccount e fails a h = Some h'" and "orca_ok h"
  shows "orca_ok h'"
proof -
  have "orca_ok (cancel err h)" "orca_ok (h\<lparr>mPendingToken := m\<rparr>)" for err m using assms(2) by (simp_all add: orca_ok_def)
  moreover have "orca_ok (h\<lparr>mintTracker := k, tx := Some (t\<lparr>mints := m\<rparr>)\<rparr>)" if "tx h = Some t" for t k m
    using assms(2) that by (simp add: orca_ok_def)
  ultimately show ?thesis
    using assms saveToken_ok [OF assms(2)] by (auto simp: tokenOnAccount_def Let_def split: if_splits option.splits prod.splits bind_splits)
qed

lemma OnAccount_ok: "OnAccount e fails subscribe a h = Some h' \<Longrightarrow> orca_ok h \<Longrightarrow> orca_ok h'"
proof -
  assume o: "OnAccount e fails subscribe a h = Some h'" "orca_ok h"
  then have "orca_ok (cancel ParsingFailed h)" by (simp add: orca_ok_def)
  with o show ?thesis
    by (auto simp: OnAccount_def intro: tokenOnAccount_ok on_pool_ok on_config_ok split: if_splits bind_splits sum.splits)
qed

interpretation orca_handler: event_handler "\<lambda>w. Init (e\<lparr>weightAll := w\<rparr>) newTracker subscribe" CommitStart "\<lambda>fails. OnAccount e fails subscribe"
  "\<lambda>fails ready. CommitFinish fails (check ready)" orca_ok
  for e subscribe check newTracker
proof
  fix h h' :: "'a handler" and f a
  show "orca_ok h \<Longrightarrow> OnAccount e f subscribe a h = Some h' \<Longrightarrow> orca_ok h'" by (rule OnAccount_ok)
qed (auto simp: orca_ok_def Init_def CommitStart_def CommitFinish_def Let_def split: option.splits prod.splits)

text \<open>Whatever the stream delivers, whichever statements fail, forced or not, no pool ever has two rows.\<close>

lemma orca_one_row:
  assumes "hook_runs (\<lambda>w. Init (e\<lparr>weightAll := w\<rparr>) newTracker subscribe) CommitStart (\<lambda>fails. OnAccount e fails subscribe)
      (\<lambda>fails ready. CommitFinish fails (check ready)) (createHandler (Some d) mt f) h"
    and "wf_table (pools d)" and "db h = Some t"
  shows "wf_table (pools t)"
  using orca_handler.runs_ok [OF assms(1)] assms(2,3) by (simp add: orca_ok_def createHandler_def)

end
