(* ===== verification/Kamino.thy ===== *)
theory Kamino
  imports Markets
begin

text \<open>
  The Kamino prefetcher (\<open>src/prefetch/kamino\<close>): reserves walked from the program over its lending markets and kept in memory (\<open>reserve.go\<close>,
  \<open>event.go\<close>), their table (\<open>store.go\<close>, \<open>kamino.go\<close>, \<open>export.go\<close>), and the scan for obligations of the xStocks market
  (\<open>xstocks_obligation.go\<close>).

  Conventions as in the other prefetchers: \<open>None\<close> is a panic, statements that fail are arguments, the key conversion of the library is a
  parameter. The order in which Go walks the map of reserves is a parameter too.
\<close>

section \<open>Reserves\<close>

definition offLendingMarket :: nat where "offLendingMarket = 32"
definition offMint :: nat where "offMint = 128"
definition offSupplyVault :: nat where "offSupplyVault = 160"
definition offFeeVault :: nat where "offFeeVault = 192"
definition minReserveLen :: nat where "minReserveLen = offFeeVault + 32"

lemmas reserve_layout = offLendingMarket_def offMint_def offSupplyVault_def offFeeVault_def minReserveLen_def

record reserve =
  RPubkey :: pubkey
  LendingMarket :: pubkey
  RMint :: pubkey
  SupplyVault :: pubkey
  FeeVault :: pubkey

text \<open>\<open>parseReserve\<close>; a short body gives \<open>nil\<close>.\<close>

definition parseReserve :: "(byte list \<Rightarrow> pubkey) \<Rightarrow> pubkey \<Rightarrow> byte list \<Rightarrow> reserve option option" where
  "parseReserve pkfb pk body =
     (if length body < minReserveLen then Some None
      else do {
        lm \<leftarrow> read_pubkey pkfb body offLendingMarket;
        mi \<leftarrow> read_pubkey pkfb body offMint;
        sv \<leftarrow> read_pubkey pkfb body offSupplyVault;
        fv \<leftarrow> read_pubkey pkfb body offFeeVault;
        Some (Some \<lparr>RPubkey = pk, LendingMarket = lm, RMint = mi, SupplyVault = sv, FeeVault = fv\<rparr>) })"

definition DiscLendingMarket :: "byte list" where "DiscLendingMarket = [246, 114, 50, 98, 72, 157, 28, 120]"
definition DiscReserve :: "byte list" where "DiscReserve = [43, 242, 204, 202, 26, 247, 59, 127]"

section \<open>The handler\<close>

record 't handler =
  slot :: u64
  pss :: "'t option"
  sendSubCount :: u32
  mReserve :: "pubkey \<rightharpoonup> reserve"
  mMarket :: "pubkey set"

record env =
  programID :: pubkey
  weightAll :: u32
  fromBytes :: "byte list \<Rightarrow> pubkey"

definition createHandler :: "'t handler" where
  "createHandler = \<lparr>slot = 0, pss = None, sendSubCount = 0, mReserve = Map.empty, mMarket = {}\<rparr>"

definition CommitStart :: "u64 \<Rightarrow> 't handler \<Rightarrow> 't handler" where
  "CommitStart s h = h\<lparr>slot := s\<rparr>"

definition CommitFinish :: "(u64 \<Rightarrow> 't \<Rightarrow> bool \<times> 't) \<Rightarrow> 't handler \<Rightarrow> bool \<times> 't handler" where
  "CommitFinish check h =
     (if sendSubCount h = 0 then (False, h)
      else case pss h of
        None \<Rightarrow> (False, h)
      | Some g \<Rightarrow> (case check (slot h) g of (isDone, g') \<Rightarrow> (isDone, h\<lparr>pss := Some g'\<rparr>)))"

definition Init :: "env \<Rightarrow> 't \<Rightarrow> (pending_subscription \<Rightarrow> 't \<Rightarrow> 't) \<Rightarrow> 't handler \<Rightarrow> 't handler" where
  "Init e newTracker subscribe h =
     h\<lparr>sendSubCount := sendSubCount h + 1, pss := Some (subscribe \<lparr>root = programID e, weight = weightAll e, depth = 2\<rparr> newTracker)\<rparr>"

definition OnAccount :: "env \<Rightarrow> (pending_subscription \<Rightarrow> 't \<Rightarrow> 't) \<Rightarrow> account \<Rightarrow> 't handler \<Rightarrow> 't handler option" where
  "OnAccount e subscribe a h =
     (if Owner a \<noteq> programID e \<or> length (Data a) < 8 then Some h
      else do {
        discriminator \<leftarrow> go_slice 0 8 (Data a);
        if discriminator = DiscLendingMarket then
          (if Pubkey a \<in> mMarket h then Some h
           else case pss h of
             None \<Rightarrow> None
           | Some g \<Rightarrow> Some (h\<lparr>mMarket := insert (Pubkey a) (mMarket h), sendSubCount := sendSubCount h + 1,
                               pss := Some (subscribe \<lparr>root = Pubkey a, weight = weightAll e, depth = 2\<rparr> g)\<rparr>))
        else if discriminator = DiscReserve then do {
          reserve \<leftarrow> parseReserve (fromBytes e) (Pubkey a) (Data a);
          Some (case reserve of None \<Rightarrow> h | Some r \<Rightarrow> h\<lparr>mReserve := (mReserve h)(Pubkey a \<mapsto> r)\<rparr>) }
        else Some h })"

section \<open>The table\<close>

record reserve_row =
  lending_market :: "byte list"
  mint :: "byte list"
  supply_vault :: "byte list"
  fee_vault :: "byte list"

type_synonym reserve_table = "(pubkey \<times> reserve_row) list"

definition reserveCount :: "(stmt \<Rightarrow> bool) \<Rightarrow> reserve_table \<Rightarrow> store_error + nat" where
  "reserveCount fails t = (if fails SCount then Inl CountFailed else Inr (length t))"

definition reserve_row_of :: "reserve \<Rightarrow> reserve_row" where
  "reserve_row_of r = \<lparr>lending_market = LendingMarket r, mint = RMint r, supply_vault = SupplyVault r, fee_vault = FeeVault r\<rparr>"

definition insertReserves :: "(stmt \<Rightarrow> bool) \<Rightarrow> reserve list \<Rightarrow> reserve_table \<Rightarrow> store_error + reserve_table" where
  "insertReserves fails rs t = insert_rows fails RPubkey reserve_row_of rs t"

definition scan_reserve :: "(byte list \<Rightarrow> pubkey) \<Rightarrow> pubkey \<times> reserve_row \<Rightarrow> reserve" where
  "scan_reserve pkfb = (\<lambda>(k, r). \<lparr>RPubkey = pkfb k, LendingMarket = pkfb (lending_market r), RMint = pkfb (mint r),
     SupplyVault = pkfb (supply_vault r), FeeVault = pkfb (fee_vault r)\<rparr>)"

definition loadReserves :: "(byte list \<Rightarrow> pubkey) \<Rightarrow> (stmt \<Rightarrow> bool) \<Rightarrow> reserve_table \<Rightarrow> store_error + reserve list \<times> (pubkey \<rightharpoonup> nat)" where
  "loadReserves pkfb fails t = (if fails SSelect then Inl QueryFailed else Inr (index_rows RPubkey (map (scan_reserve pkfb) t)))"

text \<open>\<open>fetch\<close>: the stream gives back the handler or an error; then the map is copied out in the order of the keys that \<open>order\<close> gives.\<close>

definition fetch :: "((pubkey \<rightharpoonup> reserve) \<Rightarrow> pubkey list) \<Rightarrow> ('t handler \<Rightarrow> unit + 't handler) \<Rightarrow> store_error + reserve list \<times> (pubkey \<rightharpoonup> nat)" where
  "fetch order hook =
     (case hook createHandler of
        Inl err \<Rightarrow> Inl HookFailed
      | Inr h \<Rightarrow> Inr (copy_out order (mReserve h)))"

definition Create ::
  "(byte list \<Rightarrow> pubkey) \<Rightarrow> ((pubkey \<rightharpoonup> reserve) \<Rightarrow> pubkey list) \<Rightarrow> (stmt \<Rightarrow> bool) \<Rightarrow> ('t handler \<Rightarrow> unit + 't handler) \<Rightarrow> bool \<Rightarrow> reserve_table \<Rightarrow>
     (store_error + reserve list \<times> (pubkey \<rightharpoonup> nat)) \<times> reserve_table" where
  "Create pkfb order fails hook force t =
     (case reserveCount fails t of
        Inl err \<Rightarrow> (Inl err, t)
      | Inr n \<Rightarrow>
          if n = 0 \<or> force then
            (case fetch order hook of
               Inl err \<Rightarrow> (Inl err, t)
             | Inr k \<Rightarrow> (case insertReserves fails (fst k) t of Inl err \<Rightarrow> (Inl err, t) | Inr t' \<Rightarrow> (Inr k, t')))
          else (loadReserves pkfb fails t, t))"

definition Find :: "reserve list \<times> (pubkey \<rightharpoonup> nat) \<Rightarrow> pubkey \<Rightarrow> reserve option option" where
  "Find k reserveID = index_find k reserveID"

definition ExportJSON :: "(byte list \<Rightarrow> pubkey) \<Rightarrow> (stmt \<Rightarrow> bool) \<Rightarrow> bool \<Rightarrow> reserve_table \<Rightarrow> store_error + reserve list" where
  "ExportJSON pkfb fails createFails t =
     (case loadReserves pkfb fails t of
        Inl err \<Rightarrow> Inl err
      | Inr (rs, m) \<Rightarrow> if createFails then Inl CreateFileFailed else Inr rs)"

section \<open>Obligations of the xStocks market\<close>

definition DiscObligation :: "byte list" where "DiscObligation = [168, 206, 141, 106, 88, 76, 172, 167]"

definition offObLendingMarket :: nat where "offObLendingMarket = 32"
definition offObDeposits :: nat where "offObDeposits = 96"
definition obligationDepositsCount :: nat where "obligationDepositsCount = 8"
definition obligationCollateralLen :: nat where "obligationCollateralLen = 136"
definition offOcDepositReserve :: nat where "offOcDepositReserve = 0"
definition offObBorrows :: nat where "offObBorrows = 1208"
definition obligationBorrowsCount :: nat where "obligationBorrowsCount = 5"
definition obligationLiquidityLen :: nat where "obligationLiquidityLen = 200"
definition offOlBorrowReserve :: nat where "offOlBorrowReserve = 0"
definition minObligationScanLen :: nat where "minObligationScanLen = offObBorrows + obligationBorrowsCount * obligationLiquidityLen"

lemmas obligation_layout = offObLendingMarket_def offObDeposits_def obligationDepositsCount_def obligationCollateralLen_def offOcDepositReserve_def
  offObBorrows_def obligationBorrowsCount_def obligationLiquidityLen_def offOlBorrowReserve_def minObligationScanLen_def

definition isDefaultPubkey :: "byte list \<Rightarrow> nat \<Rightarrow> bool" where
  "isDefaultPubkey body off = (if off + 32 > length body then True else list_all (\<lambda>b. b = 0) (take 32 (drop off body)))"

definition hasRealPosition :: "byte list \<Rightarrow> bool" where
  "hasRealPosition body =
     (if length body < minObligationScanLen then False
      else if list_ex (\<lambda>i. \<not> isDefaultPubkey body (offObDeposits + i * obligationCollateralLen + offOcDepositReserve)) [0..<obligationDepositsCount] then True
      else list_ex (\<lambda>i. \<not> isDefaultPubkey body (offObBorrows + i * obligationLiquidityLen + offOlBorrowReserve)) [0..<obligationBorrowsCount])"

text \<open>\<open>FetchXstocksObligations\<close>. The request to the node is an argument: it gets the slice and the comparisons, and answers with keys and, unless
  they are missing, the bytes.\<close>

type_synonym program_accounts = "nat \<Rightarrow> nat \<Rightarrow> (nat \<times> byte list) list \<Rightarrow> unit + (pubkey \<times> byte list option) list"

datatype scan_error = ScanFailed | StoreFailed store_error

definition FetchXstocksObligations :: "pubkey \<Rightarrow> program_accounts \<Rightarrow> scan_error + pubkey list" where
  "FetchXstocksObligations market rpc =
     (case rpc 0 minObligationScanLen [(0, DiscObligation), (offObLendingMarket, market)] of
        Inl err \<Rightarrow> Inl ScanFailed
      | Inr result \<Rightarrow>
          Inr (map fst (filter (\<lambda>(k, data). case data of None \<Rightarrow> False | Some body \<Rightarrow> hasRealPosition body) result)))"

type_synonym obligation_table = "(pubkey \<times> unit) list"

definition xstocksObligationCount :: "(stmt \<Rightarrow> bool) \<Rightarrow> obligation_table \<Rightarrow> store_error + nat" where
  "xstocksObligationCount fails t = (if fails SCount then Inl CountFailed else Inr (length t))"

definition insertXstocksObligations :: "(stmt \<Rightarrow> bool) \<Rightarrow> pubkey list \<Rightarrow> obligation_table \<Rightarrow> store_error + obligation_table" where
  "insertXstocksObligations fails obs t = insert_rows fails (\<lambda>k. k) (\<lambda>_. ()) obs t"

definition loadXstocksObligations :: "(byte list \<Rightarrow> pubkey) \<Rightarrow> (stmt \<Rightarrow> bool) \<Rightarrow> obligation_table \<Rightarrow> store_error + pubkey list" where
  "loadXstocksObligations pkfb fails t = (if fails SSelect then Inl QueryFailed else Inr (map (\<lambda>(k, u). pkfb k) t))"

definition CreateXstocksObligations ::
  "(byte list \<Rightarrow> pubkey) \<Rightarrow> (stmt \<Rightarrow> bool) \<Rightarrow> pubkey \<Rightarrow> program_accounts \<Rightarrow> bool \<Rightarrow> obligation_table \<Rightarrow> (scan_error + pubkey list) \<times> obligation_table" where
  "CreateXstocksObligations pkfb fails market rpc force t =
     (case xstocksObligationCount fails t of
        Inl err \<Rightarrow> (Inl (StoreFailed err), t)
      | Inr n \<Rightarrow>
          if n = 0 \<or> force then
            (case FetchXstocksObligations market rpc of
               Inl err \<Rightarrow> (Inl err, t)
             | Inr obs \<Rightarrow> (case insertXstocksObligations fails obs t of Inl err \<Rightarrow> (Inl (StoreFailed err), t) | Inr t' \<Rightarrow> (Inr obs, t')))
          else (case loadXstocksObligations pkfb fails t of Inl err \<Rightarrow> (Inl (StoreFailed err), t) | Inr obs \<Rightarrow> (Inr obs, t)))"

definition ExportXstocksObligationsJSON :: "(byte list \<Rightarrow> pubkey) \<Rightarrow> (stmt \<Rightarrow> bool) \<Rightarrow> bool \<Rightarrow> obligation_table \<Rightarrow> store_error + pubkey list" where
  "ExportXstocksObligationsJSON pkfb fails createFails t =
     (case loadXstocksObligations pkfb fails t of
        Inl err \<Rightarrow> Inl err
      | Inr obs \<Rightarrow> if createFails then Inl CreateFileFailed else Inr obs)"

section \<open>What a walk finds\<close>

definition as_reserve :: "env \<Rightarrow> account \<Rightarrow> (pubkey \<times> reserve) option" where
  "as_reserve e a =
     (if Owner a = programID e \<and> minReserveLen \<le> length (Data a) \<and> take 8 (Data a) = DiscReserve
      then map_option (Pair (Pubkey a)) (the (parseReserve (fromBytes e) (Pubkey a) (Data a))) else None)"

definition as_market :: "env \<Rightarrow> account \<Rightarrow> pubkey option" where
  "as_market e a = (if Owner a = programID e \<and> 8 \<le> length (Data a) \<and> take 8 (Data a) = DiscLendingMarket then Some (Pubkey a) else None)"

definition reserves_in :: "env \<Rightarrow> account list \<Rightarrow> (pubkey \<times> reserve) list" where
  "reserves_in e as = List.map_filter (as_reserve e) as"

definition markets_in :: "env \<Rightarrow> account list \<Rightarrow> pubkey list" where
  "markets_in e as = List.map_filter (as_market e) as"

definition next_commit :: "(u64 \<Rightarrow> 't \<Rightarrow> bool \<times> 't) \<Rightarrow> u64 \<Rightarrow> 't handler \<Rightarrow> 't handler" where
  "next_commit check s h = CommitStart s (snd (CommitFinish check h))"

lemma discs_differ: "DiscLendingMarket \<noteq> DiscReserve"
  by (simp add: DiscLendingMarket_def DiscReserve_def)

lemma kamino_parseReserve_reads:
  "minReserveLen \<le> length body \<Longrightarrow> parseReserve pkfb pk body =
     Some (Some \<lparr>RPubkey = pk, LendingMarket = key_at pkfb body 32, RMint = key_at pkfb body 128, SupplyVault = key_at pkfb body 160, FeeVault = key_at pkfb body 192\<rparr>)"
  by (simp add: parseReserve_def reserve_layout go_reads)

lemma kamino_as_marketD:
  assumes "as_market e a = Some k"
  shows "k = Pubkey a" "as_reserve e a = None" "Owner a = programID e" "8 \<le> length (Data a)" "take 8 (Data a) = DiscLendingMarket"
  using assms discs_differ by (auto simp: as_market_def as_reserve_def split: if_splits)

lemma kamino_as_reserveD:
  assumes "as_reserve e a = Some (k, r)"
  shows "k = Pubkey a" "as_market e a = None" "Owner a = programID e" "8 \<le> length (Data a)" "take 8 (Data a) = DiscReserve"
    "parseReserve (fromBytes e) (Pubkey a) (Data a) = Some (Some r)"
  using assms discs_differ kamino_parseReserve_reads [of "Data a" "fromBytes e" "Pubkey a"]
  by (auto simp: as_market_def as_reserve_def reserve_layout split: if_splits)

lemma kamino_on_other:
  assumes "as_reserve e a = None" and "as_market e a = None"
  shows "OnAccount e subscribe a h = Some h"
proof (cases "Owner a = programID e \<and> 8 \<le> length (Data a)")
  case True
  then have d: "go_slice 0 8 (Data a) = Some (take 8 (Data a))" "take 8 (Data a) \<noteq> DiscLendingMarket"
    using assms(2) by (auto simp: go_slice_def as_market_def)
  have "length (Data a) < minReserveLen" if "take 8 (Data a) = DiscReserve"
    using that True assms(1) kamino_parseReserve_reads [of "Data a" "fromBytes e" "Pubkey a"] by (auto simp: as_reserve_def not_less split: if_splits)
  then show ?thesis using True d by (auto simp: OnAccount_def parseReserve_def)
qed (auto simp: OnAccount_def)

definition kamino_ok :: "(pending_subscription list, ack_receive list) pss handler \<Rightarrow> bool" where
  "kamino_ok h \<longleftrightarrow> (\<exists>g. pss h = Some g \<and> tracker_inv id id g \<and> mMarket h \<subseteq> mDedup g)"

abbreviation asked_roots :: "(pending_subscription list, ack_receive list) pss handler \<Rightarrow> pubkey set" where
  "asked_roots h \<equiv> mDedup (the (pss h))"

interpretation kamino: market_walk "OnAccount e track" "next_commit (poll ready)" "\<lambda>_. True" put_last mReserve asked_roots kamino_ok "as_reserve e" "as_market e"
  for e ready
proof
  fix h a k r
  assume h: "kamino_ok h" and a: "as_reserve e a = Some (k, r)"
  show "\<exists>h'. OnAccount e track a h = Some h' \<and> kamino_ok h' \<and> mReserve h' = put_last (k, r) (mReserve h) \<and> asked_roots h' = asked_roots h"
    using h kamino_as_reserveD [OF a] discs_differ by (auto simp: put_last_def OnAccount_def kamino_ok_def go_slice_def)
next
  fix h a k
  assume h: "kamino_ok h" and a: "as_market e a = Some k"
  then show "\<exists>h'. OnAccount e track a h = Some h' \<and> kamino_ok h' \<and> mReserve h' = mReserve h \<and> asked_roots h' = insert k (asked_roots h)"
    using kamino_as_marketD [OF a] by (cases "Pubkey a \<in> mMarket h") (auto simp: OnAccount_def kamino_ok_def go_slice_def pssl.subscribe_inv pssl.known_subscribe)
next
  fix h s
  assume "kamino_ok h"
  then obtain g where g: "pss h = Some g" "tracker_inv id id g" "mMarket h \<subseteq> mDedup g" by (auto simp: kamino_ok_def)
  obtain d g' where c: "poll ready (slot h) g = (d, g')" by (cases "poll ready (slot h) g")
  then have "tracker_inv id id g'" "mDedup g' = mDedup g" using poll_frame [OF g(2), of ready "slot h"] by simp_all
  then show "kamino_ok (next_commit (poll ready) s h) \<and> mReserve (next_commit (poll ready) s h) = mReserve h \<and> asked_roots (next_commit (poll ready) s h) = asked_roots h"
    using g c by (simp add: kamino_ok_def next_commit_def CommitStart_def CommitFinish_def)
qed (simp_all add: kamino_on_other kamino_as_reserveD)

abbreviation first_commit :: "env \<Rightarrow> u64 \<Rightarrow> (pending_subscription list, ack_receive list) pss handler" where
  "first_commit e s \<equiv> CommitStart s (Init e (new_tracker 60) track createHandler)"

lemma kamino_run:
  "\<exists>h. run_calls (OnAccount e track) (next_commit (poll ready)) cs (first_commit e s) = Some h \<and> mReserve h = map_of (rev (reserves_in e (accounts_of cs))) \<and>
     (\<exists>g. pss h = Some g \<and> mDedup g = insert (programID e) (set (markets_in e (accounts_of cs))))"
proof -
  have i: "kamino_ok (first_commit e s)" "mReserve (first_commit e s) = Map.empty" "asked_roots (first_commit e s) = {programID e}"
    using new_tracker_ok [of 60] by (simp_all add: kamino_ok_def CommitStart_def Init_def createHandler_def pssl.subscribe_inv pssl.known_subscribe)
  show ?thesis using kamino.run_walk [OF i(1), of cs e ready] i(2,3) by (fastforce simp: fold_put_last reserves_in_def markets_in_def kamino_ok_def)
qed

text \<open>A stream of these calls, as \<open>Hook\<close> runs it on the new handler.\<close>

definition stream :: "env \<Rightarrow> (u64 \<Rightarrow> nat \<Rightarrow> bool) \<Rightarrow> u64 \<Rightarrow> call list \<Rightarrow> (pending_subscription list, ack_receive list) pss handler \<Rightarrow>
    unit + (pending_subscription list, ack_receive list) pss handler" where
  "stream e ready s cs h =
     (case run_calls (OnAccount e track) (next_commit (poll ready)) cs (CommitStart s (Init e (new_tracker 60) track h)) of None \<Rightarrow> Inl () | Some h' \<Rightarrow> Inr h')"

lemma kamino_reserves_in_keys: "map_of (rev (reserves_in e as)) k = Some r \<Longrightarrow> \<exists>a \<in> set as. Pubkey a = k \<and> as_reserve e a = Some (k, r)"
  using kamino_as_reserveD(1) by (fastforce simp: reserves_in_def List.map_filter_def dest!: map_of_SomeD)

lemma kamino_as_reserve_fields: "as_reserve e a = Some (k, r) \<Longrightarrow> RPubkey r = k \<and> LendingMarket r = key_at (fromBytes e) (Data a) 32 \<and> RMint r = key_at (fromBytes e) (Data a) 128 \<and>
    SupplyVault r = key_at (fromBytes e) (Data a) 160 \<and> FeeVault r = key_at (fromBytes e) (Data a) 192"
  using kamino_parseReserve_reads [of "Data a" "fromBytes e" "Pubkey a"] by (auto simp: as_reserve_def split: if_splits)

definition reserve_keys :: "(byte list \<Rightarrow> pubkey) \<Rightarrow> reserve \<Rightarrow> bool" where
  "reserve_keys pkfb r \<longleftrightarrow> pkfb (RPubkey r) = RPubkey r \<and> pkfb (LendingMarket r) = LendingMarket r \<and> pkfb (RMint r) = RMint r \<and> pkfb (SupplyVault r) = SupplyVault r \<and> pkfb (FeeVault r) = FeeVault r"

interpretation kamino_store: market_store RPubkey reserve_row_of scan_reserve reserve_keys
  by unfold_locales (simp_all add: scan_reserve_def reserve_row_of_def reserve_keys_def)

lemma kamino_good:
  assumes "key_codec (fromBytes e)" and "\<forall>a \<in> set as. length (Pubkey a) = 32" and "map_of (rev (reserves_in e as)) k = Some r"
  shows "RPubkey r = k \<and> reserve_keys (fromBytes e) r"
proof -
  obtain a where a: "a \<in> set as" "Pubkey a = k" "as_reserve e a = Some (k, r)" using kamino_reserves_in_keys [OF assms(3)] by blast
  have "length k = 32" using a assms(2) by auto
  then show ?thesis using kamino_as_reserve_fields [OF a(3)] assms(1) by (simp add: reserve_keys_def key_codec_id)
qed

text \<open>(C20) A fetch of Kamino: whatever accounts arrive and in whatever order, it asks for exactly the program and the lending markets seen, and gives back and
  stores each reserve as its last account had it. A later start that loads the table finds every reserve that the fetch gave back.\<close>

theorem kamino_fetched_and_saved:
  assumes "map_order order" and "key_codec (fromBytes e)" and "\<forall>a \<in> set (accounts_of cs). length (Pubkey a) = 32"
    and "t = [] \<or> force" and "wf_table t" and "\<forall>(k, r) \<in> set t. length k = 32"
  shows "\<exists>h g k t' k'. stream e ready s cs createHandler = Inr h \<and> pss h = Some g \<and> mDedup g = insert (programID e) (set (markets_in e (accounts_of cs))) \<and>
    Create (fromBytes e) order (\<lambda>_. False) (stream e ready s cs) force t = (Inr k, t') \<and>
    (\<forall>pk. Find k pk = Some (map_of (rev (reserves_in e (accounts_of cs))) pk)) \<and>
    loadReserves (fromBytes e) (\<lambda>_. False) t' = Inr k' \<and> (\<forall>pk r. map_of (rev (reserves_in e (accounts_of cs))) pk = Some r \<longrightarrow> Find k' pk = Some (Some r))"
proof -
  let ?m = "map_of (rev (reserves_in e (accounts_of cs)))"
  obtain h where h: "run_calls (OnAccount e track) (next_commit (poll ready)) cs (first_commit e s) = Some h" "mReserve h = ?m"
      "\<exists>g. pss h = Some g \<and> mDedup g = insert (programID e) (set (markets_in e (accounts_of cs)))"
    using kamino_run [of e ready cs s] by blast
  have st: "stream e ready s cs createHandler = Inr h" using h(1) by (simp add: stream_def)
  obtain t' where t': "insert_rows (\<lambda>_. False) RPubkey reserve_row_of (fst (copy_out order ?m)) t = Inr t'" "\<And>k. index_find (copy_out order ?m) k = Some (?m k)"
      "\<And>k r. ?m k = Some r \<Longrightarrow> index_find (index_rows RPubkey (map (scan_reserve (fromBytes e)) t')) k = Some (Some r)"
    using kamino_store.save_load [OF assms(1,2) finite_dom_map_of assms(5,6), of "rev (reserves_in e (accounts_of cs))"] kamino_good [OF assms(2,3)] by blast
  have "Create (fromBytes e) order (\<lambda>_. False) (stream e ready s cs) force t = (Inr (copy_out order ?m), t')"
    using assms(4) t'(1) st h(2) by (auto simp: Create_def reserveCount_def fetch_def insertReserves_def)
  then show ?thesis using st h(3) t'(2,3) by (fastforce simp: loadReserves_def Find_def)
qed

abbreviation kamino_env :: env where
  "kamino_env \<equiv> \<lparr>programID = replicate 32 1, weightAll = 7, fromBytes = copy_key\<rparr>"

abbreviation sample_account :: "byte \<Rightarrow> byte list \<Rightarrow> account" where
  "sample_account b d \<equiv> \<lparr>Pubkey = replicate 32 b, Owner = replicate 32 1, HSlot = 0, DataSize = 224, Deleted = False, Data = d @ replicate 216 5\<rparr>"

abbreviation sample_calls :: "call list" where
  "sample_calls \<equiv> [CAccount (sample_account 2 DiscLendingMarket), CCommit 8, CAccount (sample_account 3 DiscReserve)]"

lemma kamino_sample_walk:
  "reserves_in kamino_env (accounts_of sample_calls) = [(replicate 32 3, \<lparr>RPubkey = replicate 32 3, LendingMarket = replicate 32 5, RMint = replicate 32 5,
     SupplyVault = replicate 32 5, FeeVault = replicate 32 5\<rparr>)]"
  "markets_in kamino_env (accounts_of sample_calls) = [replicate 32 2]"
  by (simp_all add: reserves_in_def markets_in_def List.map_filter_def as_reserve_def as_market_def DiscReserve_def DiscLendingMarket_def reserve_layout
      parseReserve_def read_pubkey_def go_slice_def copy_key_def)

theorem kamino_fetched_and_saved_witness:
  "\<exists>k t' k'. Create copy_key (\<lambda>m. sorted_list_of_set (dom m)) (\<lambda>_. False) (stream kamino_env (\<lambda>_ _. True) 7 sample_calls) False [] = (Inr k, t') \<and>
     (\<exists>r. Find k (replicate 32 3) = Some (Some r) \<and> RMint r = replicate 32 5 \<and>
        loadReserves copy_key (\<lambda>_. False) t' = Inr k' \<and> Find k' (replicate 32 3) = Some (Some r))"
proof -
  have l: "\<forall>a \<in> set (accounts_of sample_calls). length (Pubkey a) = 32" "key_codec (fromBytes kamino_env)" by (simp_all add: copy_key_codec)
  obtain k t' k' where k: "Create copy_key (\<lambda>m. sorted_list_of_set (dom m)) (\<lambda>_. False) (stream kamino_env (\<lambda>_ _. True) 7 sample_calls) False [] = (Inr k, t')"
      "\<And>pk. Find k pk = Some (map_of (rev (reserves_in kamino_env (accounts_of sample_calls))) pk)"
      "loadReserves copy_key (\<lambda>_. False) t' = Inr k'"
      "\<And>pk r. map_of (rev (reserves_in kamino_env (accounts_of sample_calls))) pk = Some r \<Longrightarrow> Find k' pk = Some (Some r)"
    using kamino_fetched_and_saved [OF sorted_order l(2,1), of "[]" False "\<lambda>_ _. True" 7] by auto
  have m: "map_of (rev (reserves_in kamino_env (accounts_of sample_calls))) (replicate 32 3) =
      Some \<lparr>RPubkey = replicate 32 3, LendingMarket = replicate 32 5, RMint = replicate 32 5, SupplyVault = replicate 32 5, FeeVault = replicate 32 5\<rparr>"
    unfolding kamino_sample_walk by simp
  show ?thesis using k(1,3) k(2) [of "replicate 32 3"] k(4) [OF m] m by (intro exI [of _ k] exI [of _ t'] exI [of _ k']) simp
qed

section \<open>The scan for obligations\<close>

text \<open>A node with these accounts of the program: the comparisons are on the whole account, the answer has the slice.\<close>

definition node :: "(pubkey \<times> byte list) list \<Rightarrow> program_accounts" where
  "node accs off len filters =
     Inr (map (\<lambda>(k, d). (k, Some (take len (drop off d)))) (filter (\<lambda>(k, d). list_all (\<lambda>(o', bs). take (length bs) (drop o' d) = bs) filters) accs))"

text \<open>An obligation of the market with a nonzero reserve in one of its eight deposits or five borrows.\<close>

definition has_key_at :: "byte list \<Rightarrow> nat \<Rightarrow> bool" where
  "has_key_at d off \<longleftrightarrow> (\<exists>j < 32. d ! (off + j) \<noteq> 0)"

definition open_position :: "pubkey \<Rightarrow> byte list \<Rightarrow> bool" where
  "open_position market d \<longleftrightarrow> take 8 d = DiscObligation \<and> take (length market) (drop 32 d) = market \<and> 2208 \<le> length d \<and>
     ((\<exists>i < 8. has_key_at d (96 + 136 * i)) \<or> (\<exists>i < 5. has_key_at d (1208 + 200 * i)))"

lemma isDefaultPubkey_iff: "off + 32 \<le> length body \<Longrightarrow> isDefaultPubkey body off \<longleftrightarrow> \<not> has_key_at body off"
  by (auto simp: isDefaultPubkey_def has_key_at_def list_all_length)

lemma hasRealPosition_iff:
  "hasRealPosition (take 2208 d) \<longleftrightarrow> 2208 \<le> length d \<and> ((\<exists>i < 8. has_key_at d (96 + 136 * i)) \<or> (\<exists>i < 5. has_key_at d (1208 + 200 * i)))"
proof (cases "2208 \<le> length d")
  case True
  have k: "isDefaultPubkey (take 2208 d) off \<longleftrightarrow> \<not> has_key_at d off" if "off + 32 \<le> 2208" for off
  proof -
    have "has_key_at (take 2208 d) off \<longleftrightarrow> has_key_at d off" using that by (auto simp: has_key_at_def)
    then show ?thesis using isDefaultPubkey_iff [of off "take 2208 d"] that True by simp
  qed
  have "list_ex (\<lambda>i. \<not> isDefaultPubkey (take 2208 d) (96 + i * 136)) [0..<8] \<longleftrightarrow> (\<exists>i < 8. has_key_at d (96 + 136 * i))"
    using k [of "96 + i * 136" for i] by (simp only: list_ex_iff set_upt atLeast0LessThan Bex_def lessThan_iff mult.commute) auto
  moreover have "list_ex (\<lambda>i. \<not> isDefaultPubkey (take 2208 d) (1208 + i * 200)) [0..<5] \<longleftrightarrow> (\<exists>i < 5. has_key_at d (1208 + 200 * i))"
    using k [of "1208 + i * 200" for i] by (simp only: list_ex_iff set_upt atLeast0LessThan Bex_def lessThan_iff mult.commute) auto
  ultimately show ?thesis using True by (simp add: hasRealPosition_def obligation_layout del: upt_rec_numeral) blast
qed (simp add: hasRealPosition_def obligation_layout)

lemma FetchXstocks_exact:
  "FetchXstocksObligations market (node accs) = Inr (map fst (filter (\<lambda>(k, d). open_position market d) accs))"
proof -
  have "filter (\<lambda>(k, data). case data of None \<Rightarrow> False | Some body \<Rightarrow> hasRealPosition body)
      (map (\<lambda>(k, d). (k, Some (take 2208 d))) (filter (\<lambda>(k, d). take 8 d = DiscObligation \<and> take (length market) (drop 32 d) = market) accs)) =
    map (\<lambda>(k, d). (k, Some (take 2208 d))) (filter (\<lambda>(k, d). open_position market d) accs)"
    by (induction accs) (auto simp: hasRealPosition_iff open_position_def)
  moreover have "length DiscObligation = 8" by (simp add: DiscObligation_def)
  ultimately show ?thesis
    by (simp add: FetchXstocksObligations_def node_def obligation_layout comp_def split_beta)
qed

text \<open>(C21) A first scan: of all accounts of the program it returns exactly the obligations of the market that have a deposit or a borrow, in the node's order;
  what the node cuts off decides nothing. The table holds the same obligations: that is what a later start loads and what is exported.\<close>

theorem xstocks_scan_exact:
  assumes "key_codec pkfb" and "\<forall>(k, d) \<in> set accs. length k = 32"
  shows "\<exists>t' obs'. CreateXstocksObligations pkfb (\<lambda>_. False) market (node accs) force [] = (Inr (map fst (filter (\<lambda>(k, d). open_position market d) accs)), t') \<and>
    ExportXstocksObligationsJSON pkfb (\<lambda>_. False) False t' = Inr obs' \<and> set obs' = fst ` {(k, d) \<in> set accs. open_position market d}"
proof -
  let ?obs = "map fst (filter (\<lambda>(k, d). open_position market d) accs)"
  obtain t' where t': "insert_rows (\<lambda>_. False) (\<lambda>k. k) (\<lambda>_. ()) ?obs [] = Inr t'" "map_of t' = map_of (rev (map (\<lambda>p. (p, ())) ?obs))"
    using insert_rows_ok [of "\<lambda>k. k" "\<lambda>_. ()" ?obs "[]"] by auto
  have "fst ` set t' = dom (map_of (rev (map (\<lambda>p. (p, ())) ?obs)))" by (metis dom_map_of_conv_image_fst t'(2))
  then have keys: "fst ` set t' = set ?obs" by (simp add: dom_map_of_conv_image_fst image_image)
  have "set (map (\<lambda>(k, u). pkfb k) t') = pkfb ` (fst ` set t')" by (force simp: image_image)
  also have "\<dots> = set ?obs" unfolding keys using assms by (force simp: key_codec_id image_image)
  finally show ?thesis using t'(1)
    by (auto simp: CreateXstocksObligations_def xstocksObligationCount_def FetchXstocks_exact insertXstocksObligations_def
        loadXstocksObligations_def ExportXstocksObligationsJSON_def)
qed

text \<open>A forced scan returns what is open now, but the table keeps what was open before: the next start, and the export, still list an obligation that has been closed.\<close>

lemma xstocks_closed_stays:
  assumes "k0 \<in> fst ` set t" and "key_codec pkfb" and "\<forall>k \<in> fst ` set t. length k = 32"
    and "\<not> (\<exists>d. (k0, d) \<in> set accs \<and> open_position market d)"
  shows "\<exists>obs t' obs'. CreateXstocksObligations pkfb (\<lambda>_. False) market (node accs) True t = (Inr obs, t') \<and> k0 \<notin> set obs \<and>
    CreateXstocksObligations pkfb (\<lambda>_. False) market (node accs) False t' = (Inr obs', t') \<and> k0 \<in> set obs' \<and>
    ExportXstocksObligationsJSON pkfb (\<lambda>_. False) False t' = Inr obs'"
proof -
  let ?obs = "map fst (filter (\<lambda>(k, d). open_position market d) accs)"
  obtain t' where t': "insert_rows (\<lambda>_. False) (\<lambda>k. k) (\<lambda>_. ()) ?obs t = Inr t'" "map_of t' = map_of t ++ map_of (rev (map (\<lambda>p. (p, ())) ?obs))"
    using insert_rows_ok [of "\<lambda>k. k" "\<lambda>_. ()" ?obs t] by auto
  have "map_of t k0 \<noteq> None" using assms(1) by (simp add: map_of_eq_None_iff)
  then have "map_of t' k0 \<noteq> None" unfolding t'(2) map_add_def by (auto split: option.splits)
  then have k0: "k0 \<in> fst ` set t'" by (metis map_of_eq_None_iff)
  have "pkfb k0 = k0" by (rule key_codec_id [OF assms(2) bspec [OF assms(3,1)]])
  then have in_load: "k0 \<in> set (map (\<lambda>(k, u). pkfb k) t')" using k0 by force
  have "t' \<noteq> []" using k0 by auto
  moreover have "k0 \<notin> set ?obs" using assms(4) by auto
  ultimately show ?thesis
    using t'(1) in_load by (auto simp: CreateXstocksObligations_def xstocksObligationCount_def FetchXstocks_exact insertXstocksObligations_def
        loadXstocksObligations_def ExportXstocksObligationsJSON_def)
qed

abbreviation sample_obligation :: "byte list" where
  "sample_obligation \<equiv> DiscObligation @ replicate 24 0 @ replicate 32 9 @ replicate 32 0 @ replicate 32 5 @ replicate 2080 0"

lemma sample_open: "open_position (replicate 32 9) sample_obligation"
proof -
  have "has_key_at sample_obligation (96 + 136 * 0)"
    unfolding has_key_at_def by (rule exI [of _ 0]) (simp add: DiscObligation_def nth_append)
  then have "\<exists>i < 8. has_key_at sample_obligation (96 + 136 * i)" by (intro exI [of _ 0]) simp
  moreover have "take 8 sample_obligation = DiscObligation" "drop 32 sample_obligation = replicate 32 9 @ replicate 32 0 @ replicate 32 5 @ replicate 2080 0"
    by (simp_all add: DiscObligation_def)
  moreover have "2208 \<le> length sample_obligation" by (simp add: DiscObligation_def)
  ultimately show ?thesis unfolding open_position_def by (simp del: append_assoc)
qed

theorem xstocks_scan_exact_witness:
  "\<exists>t' obs'. CreateXstocksObligations copy_key (\<lambda>_. False) (replicate 32 9) (node [(replicate 32 3, sample_obligation), (replicate 32 4, [])]) False [] = (Inr [replicate 32 3], t') \<and>
     ExportXstocksObligationsJSON copy_key (\<lambda>_. False) False t' = Inr obs' \<and> set obs' = {replicate 32 3}"
proof -
  let ?accs = "[(replicate 32 3, sample_obligation), (replicate 32 4, [])] :: (pubkey \<times> byte list) list"
  have "\<not> open_position (replicate 32 9) []" by (simp add: open_position_def)
  then have f: "filter (\<lambda>(k, d). open_position (replicate 32 9) d) ?accs = [(replicate 32 3, sample_obligation)]"
      "{(k, d) \<in> set ?accs. open_position (replicate 32 9) d} = {(replicate 32 3, sample_obligation)}"
    using sample_open by auto
  have "\<forall>(k, d) \<in> set ?accs. length k = 32" by simp
  from xstocks_scan_exact [OF copy_key_codec this, of "replicate 32 9" False] show ?thesis unfolding f by simp
qed

end
