(* ===== verification/Jet.thy ===== *)
theory Jet
  imports Markets
begin

text \<open>
  The Jet prefetcher (\<open>src/prefetch/jet\<close>): reserves walked from the program over its markets and kept in memory (\<open>reserve.go\<close>, \<open>event.go\<close>), and their
  table (\<open>store.go\<close>, \<open>jet.go\<close>, \<open>export.go\<close>). Jet has no discriminators: an account is told by its length.

  Conventions as for Kamino.
\<close>

section \<open>Reserves\<close>

definition offMarket :: nat where "offMarket = 16"
definition offMint :: nat where "offMint = 144"
definition offVault :: nat where "offVault = 240"
definition minReserveLen :: nat where "minReserveLen = offVault + 32"
definition marketLen :: nat where "marketLen = 12808"
definition reserveLen :: nat where "reserveLen = 2056"

lemmas jet_layout = offMarket_def offMint_def offVault_def minReserveLen_def marketLen_def reserveLen_def

record reserve =
  RPubkey :: pubkey
  Market :: pubkey
  RMint :: pubkey
  Vault :: pubkey

text \<open>\<open>parseReserve\<close>; a short body gives \<open>nil\<close>.\<close>

definition parseReserve :: "(byte list \<Rightarrow> pubkey) \<Rightarrow> pubkey \<Rightarrow> byte list \<Rightarrow> reserve option option" where
  "parseReserve pkfb pk body =
     (if length body < minReserveLen then Some None
      else do {
        ma \<leftarrow> read_pubkey pkfb body offMarket;
        mi \<leftarrow> read_pubkey pkfb body offMint;
        va \<leftarrow> read_pubkey pkfb body offVault;
        Some (Some \<lparr>RPubkey = pk, Market = ma, RMint = mi, Vault = va\<rparr>) })"

section \<open>The handler\<close>

record 't handler =
  slot :: u64
  pss :: "'t option"
  sendSubCount :: u32
  mReserve :: "pubkey \<rightharpoonup> reserve"
  mMarket :: "pubkey set"

record env =
  programID :: pubkey
  weightAll :: u32
  fromBytes :: "byte list \<Rightarrow> pubkey"

definition createHandler :: "'t handler" where
  "createHandler = \<lparr>slot = 0, pss = None, sendSubCount = 0, mReserve = Map.empty, mMarket = {}\<rparr>"

definition CommitStart :: "u64 \<Rightarrow> 't handler \<Rightarrow> 't handler" where
  "CommitStart s h = h\<lparr>slot := s\<rparr>"

definition CommitFinish :: "(u64 \<Rightarrow> 't \<Rightarrow> bool \<times> 't) \<Rightarrow> 't handler \<Rightarrow> bool \<times> 't handler" where
  "CommitFinish check h =
     (if sendSubCount h = 0 then (False, h)
      else case pss h of
        None \<Rightarrow> (False, h)
      | Some g \<Rightarrow> (case check (slot h) g of (isDone, g') \<Rightarrow> (isDone, h\<lparr>pss := Some g'\<rparr>)))"

definition Init :: "env \<Rightarrow> 't \<Rightarrow> (pending_subscription \<Rightarrow> 't \<Rightarrow> 't) \<Rightarrow> 't handler \<Rightarrow> 't handler" where
  "Init e newTracker subscribe h =
     h\<lparr>sendSubCount := sendSubCount h + 1, pss := Some (subscribe \<lparr>root = programID e, weight = weightAll e, depth = 2\<rparr> newTracker)\<rparr>"

definition OnAccount :: "env \<Rightarrow> (pending_subscription \<Rightarrow> 't \<Rightarrow> 't) \<Rightarrow> account \<Rightarrow> 't handler \<Rightarrow> 't handler option" where
  "OnAccount e subscribe a h =
     (if Owner a \<noteq> programID e then Some h
      else if length (Data a) = marketLen then
        (if Pubkey a \<in> mMarket h then Some h
         else case pss h of
           None \<Rightarrow> None
         | Some g \<Rightarrow> Some (h\<lparr>mMarket := insert (Pubkey a) (mMarket h), sendSubCount := sendSubCount h + 1,
                             pss := Some (subscribe \<lparr>root = Pubkey a, weight = weightAll e, depth = 2\<rparr> g)\<rparr>))
      else if length (Data a) = reserveLen then do {
        reserve \<leftarrow> parseReserve (fromBytes e) (Pubkey a) (Data a);
        Some (case reserve of None \<Rightarrow> h | Some r \<Rightarrow> h\<lparr>mReserve := (mReserve h)(Pubkey a \<mapsto> r)\<rparr>) }
      else Some h)"

section \<open>The table\<close>

record reserve_row =
  market :: "byte list"
  mint :: "byte list"
  vault :: "byte list"

type_synonym reserve_table = "(pubkey \<times> reserve_row) list"

definition reserveCount :: "(stmt \<Rightarrow> bool) \<Rightarrow> reserve_table \<Rightarrow> store_error + nat" where
  "reserveCount fails t = (if fails SCount then Inl CountFailed else Inr (length t))"

definition reserve_row_of :: "reserve \<Rightarrow> reserve_row" where
  "reserve_row_of r = \<lparr>market = Market r, mint = RMint r, vault = Vault r\<rparr>"

definition insertReserves :: "(stmt \<Rightarrow> bool) \<Rightarrow> reserve list \<Rightarrow> reserve_table \<Rightarrow> store_error + reserve_table" where
  "insertReserves fails rs t = insert_rows fails RPubkey reserve_row_of rs t"

definition scan_reserve :: "(byte list \<Rightarrow> pubkey) \<Rightarrow> pubkey \<times> reserve_row \<Rightarrow> reserve" where
  "scan_reserve pkfb = (\<lambda>(k, r). \<lparr>RPubkey = pkfb k, Market = pkfb (market r), RMint = pkfb (mint r),
     Vault = pkfb (vault r)\<rparr>)"

definition loadReserves :: "(byte list \<Rightarrow> pubkey) \<Rightarrow> (stmt \<Rightarrow> bool) \<Rightarrow> reserve_table \<Rightarrow> store_error + reserve list \<times> (pubkey \<rightharpoonup> nat)" where
  "loadReserves pkfb fails t = (if fails SSelect then Inl QueryFailed else Inr (index_rows RPubkey (map (scan_reserve pkfb) t)))"

text \<open>\<open>fetch\<close>: the stream gives back the handler or an error; then the map is copied out in the order of the keys that \<open>order\<close> gives.\<close>

definition fetch :: "((pubkey \<rightharpoonup> reserve) \<Rightarrow> pubkey list) \<Rightarrow> ('t handler \<Rightarrow> unit + 't handler) \<Rightarrow> store_error + reserve list \<times> (pubkey \<rightharpoonup> nat)" where
  "fetch order hook =
     (case hook createHandler of
        Inl err \<Rightarrow> Inl HookFailed
      | Inr h \<Rightarrow> Inr (copy_out order (mReserve h)))"

definition Create ::
  "(byte list \<Rightarrow> pubkey) \<Rightarrow> ((pubkey \<rightharpoonup> reserve) \<Rightarrow> pubkey list) \<Rightarrow> (stmt \<Rightarrow> bool) \<Rightarrow> ('t handler \<Rightarrow> unit + 't handler) \<Rightarrow> bool \<Rightarrow> reserve_table \<Rightarrow>
     (store_error + reserve list \<times> (pubkey \<rightharpoonup> nat)) \<times> reserve_table" where
  "Create pkfb order fails hook force t =
     (case reserveCount fails t of
        Inl err \<Rightarrow> (Inl err, t)
      | Inr n \<Rightarrow>
          if n = 0 \<or> force then
            (case fetch order hook of
               Inl err \<Rightarrow> (Inl err, t)
             | Inr k \<Rightarrow> (case insertReserves fails (fst k) t of Inl err \<Rightarrow> (Inl err, t) | Inr t' \<Rightarrow> (Inr k, t')))
          else (loadReserves pkfb fails t, t))"

definition Find :: "reserve list \<times> (pubkey \<rightharpoonup> nat) \<Rightarrow> pubkey \<Rightarrow> reserve option option" where
  "Find k reserveID = index_find k reserveID"

definition ExportJSON :: "(byte list \<Rightarrow> pubkey) \<Rightarrow> (stmt \<Rightarrow> bool) \<Rightarrow> bool \<Rightarrow> reserve_table \<Rightarrow> store_error + reserve list" where
  "ExportJSON pkfb fails createFails t =
     (case loadReserves pkfb fails t of
        Inl err \<Rightarrow> Inl err
      | Inr (rs, m) \<Rightarrow> if createFails then Inl CreateFileFailed else Inr rs)"

section \<open>What a walk finds\<close>

definition as_reserve :: "env \<Rightarrow> account \<Rightarrow> (pubkey \<times> reserve) option" where
  "as_reserve e a =
     (if Owner a = programID e \<and> length (Data a) = reserveLen
      then map_option (Pair (Pubkey a)) (the (parseReserve (fromBytes e) (Pubkey a) (Data a))) else None)"

definition as_market :: "env \<Rightarrow> account \<Rightarrow> pubkey option" where
  "as_market e a = (if Owner a = programID e \<and> length (Data a) = marketLen then Some (Pubkey a) else None)"

definition reserves_in :: "env \<Rightarrow> account list \<Rightarrow> (pubkey \<times> reserve) list" where
  "reserves_in e as = List.map_filter (as_reserve e) as"

definition markets_in :: "env \<Rightarrow> account list \<Rightarrow> pubkey list" where
  "markets_in e as = List.map_filter (as_market e) as"

definition next_commit :: "(u64 \<Rightarrow> 't \<Rightarrow> bool \<times> 't) \<Rightarrow> u64 \<Rightarrow> 't handler \<Rightarrow> 't handler" where
  "next_commit check s h = CommitStart s (snd (CommitFinish check h))"

lemma jet_parseReserve_reads:
  "minReserveLen \<le> length body \<Longrightarrow> parseReserve pkfb pk body =
     Some (Some \<lparr>RPubkey = pk, Market = key_at pkfb body 16, RMint = key_at pkfb body 144, Vault = key_at pkfb body 240\<rparr>)"
  by (simp add: parseReserve_def jet_layout go_reads)

lemma jet_as_marketD:
  assumes "as_market e a = Some k"
  shows "k = Pubkey a" "as_reserve e a = None" "Owner a = programID e" "length (Data a) = marketLen"
  using assms by (auto simp: as_market_def as_reserve_def jet_layout split: if_splits)

lemma jet_as_reserveD:
  assumes "as_reserve e a = Some (k, r)"
  shows "k = Pubkey a" "as_market e a = None" "Owner a = programID e" "length (Data a) = reserveLen"
    "parseReserve (fromBytes e) (Pubkey a) (Data a) = Some (Some r)"
  using assms jet_parseReserve_reads [of "Data a" "fromBytes e" "Pubkey a"]
  by (auto simp: as_market_def as_reserve_def jet_layout split: if_splits)

lemma jet_on_other: "as_reserve e a = None \<Longrightarrow> as_market e a = None \<Longrightarrow> OnAccount e subscribe a h = Some h"
  using jet_parseReserve_reads [of "Data a" "fromBytes e" "Pubkey a"] by (auto simp: OnAccount_def as_reserve_def as_market_def jet_layout split: if_splits)

definition jet_ok :: "(pending_subscription list, ack_receive list) pss handler \<Rightarrow> bool" where
  "jet_ok h \<longleftrightarrow> (\<exists>g. pss h = Some g \<and> tracker_inv id id g \<and> mMarket h \<subseteq> mDedup g)"

abbreviation asked_roots :: "(pending_subscription list, ack_receive list) pss handler \<Rightarrow> pubkey set" where
  "asked_roots h \<equiv> mDedup (the (pss h))"

interpretation jet: market_walk "OnAccount e track" "next_commit (poll ready)" "\<lambda>_. True" put_last mReserve asked_roots jet_ok "as_reserve e" "as_market e"
  for e ready
proof
  fix h a k r
  assume h: "jet_ok h" and a: "as_reserve e a = Some (k, r)"
  show "\<exists>h'. OnAccount e track a h = Some h' \<and> jet_ok h' \<and> mReserve h' = put_last (k, r) (mReserve h) \<and> asked_roots h' = asked_roots h"
    using h jet_as_reserveD [OF a] by (auto simp: put_last_def OnAccount_def jet_ok_def jet_layout)
next
  fix h a k
  assume h: "jet_ok h" and a: "as_market e a = Some k"
  then show "\<exists>h'. OnAccount e track a h = Some h' \<and> jet_ok h' \<and> mReserve h' = mReserve h \<and> asked_roots h' = insert k (asked_roots h)"
    using jet_as_marketD [OF a] by (cases "Pubkey a \<in> mMarket h") (auto simp: OnAccount_def jet_ok_def pssl.subscribe_inv pssl.known_subscribe)
next
  fix h s
  assume "jet_ok h"
  then obtain g where g: "pss h = Some g" "tracker_inv id id g" "mMarket h \<subseteq> mDedup g" by (auto simp: jet_ok_def)
  obtain d g' where c: "poll ready (slot h) g = (d, g')" by (cases "poll ready (slot h) g")
  then have "tracker_inv id id g'" "mDedup g' = mDedup g" using poll_frame [OF g(2), of ready "slot h"] by simp_all
  then show "jet_ok (next_commit (poll ready) s h) \<and> mReserve (next_commit (poll ready) s h) = mReserve h \<and> asked_roots (next_commit (poll ready) s h) = asked_roots h"
    using g c by (simp add: jet_ok_def next_commit_def CommitStart_def CommitFinish_def)
qed (simp_all add: jet_on_other jet_as_reserveD)

abbreviation first_commit :: "env \<Rightarrow> u64 \<Rightarrow> (pending_subscription list, ack_receive list) pss handler" where
  "first_commit e s \<equiv> CommitStart s (Init e (new_tracker 60) track createHandler)"

lemma jet_run:
  "\<exists>h. run_calls (OnAccount e track) (next_commit (poll ready)) cs (first_commit e s) = Some h \<and> mReserve h = map_of (rev (reserves_in e (accounts_of cs))) \<and>
     (\<exists>g. pss h = Some g \<and> mDedup g = insert (programID e) (set (markets_in e (accounts_of cs))))"
proof -
  have i: "jet_ok (first_commit e s)" "mReserve (first_commit e s) = Map.empty" "asked_roots (first_commit e s) = {programID e}"
    using new_tracker_ok [of 60] by (simp_all add: jet_ok_def CommitStart_def Init_def createHandler_def pssl.subscribe_inv pssl.known_subscribe)
  show ?thesis using jet.run_walk [OF i(1), of cs e ready] i(2,3) by (fastforce simp: fold_put_last reserves_in_def markets_in_def jet_ok_def)
qed

text \<open>A stream of these calls, as \<open>Hook\<close> runs it on the new handler.\<close>

definition stream :: "env \<Rightarrow> (u64 \<Rightarrow> nat \<Rightarrow> bool) \<Rightarrow> u64 \<Rightarrow> call list \<Rightarrow> (pending_subscription list, ack_receive list) pss handler \<Rightarrow>
    unit + (pending_subscription list, ack_receive list) pss handler" where
  "stream e ready s cs h =
     (case run_calls (OnAccount e track) (next_commit (poll ready)) cs (CommitStart s (Init e (new_tracker 60) track h)) of None \<Rightarrow> Inl () | Some h' \<Rightarrow> Inr h')"

lemma jet_reserves_in_keys: "map_of (rev (reserves_in e as)) k = Some r \<Longrightarrow> \<exists>a \<in> set as. Pubkey a = k \<and> as_reserve e a = Some (k, r)"
  using jet_as_reserveD(1) by (fastforce simp: reserves_in_def List.map_filter_def dest!: map_of_SomeD)

lemma jet_as_reserve_fields: "as_reserve e a = Some (k, r) \<Longrightarrow> RPubkey r = k \<and> Market r = key_at (fromBytes e) (Data a) 16 \<and> RMint r = key_at (fromBytes e) (Data a) 144 \<and>
    Vault r = key_at (fromBytes e) (Data a) 240"
  using jet_parseReserve_reads [of "Data a" "fromBytes e" "Pubkey a"] by (auto simp: as_reserve_def jet_layout split: if_splits)

definition reserve_keys :: "(byte list \<Rightarrow> pubkey) \<Rightarrow> reserve \<Rightarrow> bool" where
  "reserve_keys pkfb r \<longleftrightarrow> pkfb (RPubkey r) = RPubkey r \<and> pkfb (Market r) = Market r \<and> pkfb (RMint r) = RMint r \<and> pkfb (Vault r) = Vault r"

interpretation jet_store: market_store RPubkey reserve_row_of scan_reserve reserve_keys
  by unfold_locales (simp_all add: scan_reserve_def reserve_row_of_def reserve_keys_def)

lemma jet_good:
  assumes "key_codec (fromBytes e)" and "\<forall>a \<in> set as. length (Pubkey a) = 32" and "map_of (rev (reserves_in e as)) k = Some r"
  shows "RPubkey r = k \<and> reserve_keys (fromBytes e) r"
proof -
  obtain a where a: "a \<in> set as" "Pubkey a = k" "as_reserve e a = Some (k, r)" using jet_reserves_in_keys [OF assms(3)] by blast
  have "length k = 32" using a assms(2) by auto
  then show ?thesis using jet_as_reserve_fields [OF a(3)] assms(1) by (simp add: reserve_keys_def key_codec_id)
qed

text \<open>A fetch of Jet: whatever accounts arrive and in whatever order, it asks for exactly the program and the markets seen, and gives back and
  stores each reserve as its last account had it. A later start that loads the table finds every reserve that the fetch gave back.\<close>

theorem jet_fetched_and_saved:
  assumes "map_order order" and "key_codec (fromBytes e)" and "\<forall>a \<in> set (accounts_of cs). length (Pubkey a) = 32"
    and "t = [] \<or> force" and "wf_table t" and "\<forall>(k, r) \<in> set t. length k = 32"
  shows "\<exists>h g k t' k'. stream e ready s cs createHandler = Inr h \<and> pss h = Some g \<and> mDedup g = insert (programID e) (set (markets_in e (accounts_of cs))) \<and>
    Create (fromBytes e) order (\<lambda>_. False) (stream e ready s cs) force t = (Inr k, t') \<and>
    (\<forall>pk. Find k pk = Some (map_of (rev (reserves_in e (accounts_of cs))) pk)) \<and>
    loadReserves (fromBytes e) (\<lambda>_. False) t' = Inr k' \<and> (\<forall>pk r. map_of (rev (reserves_in e (accounts_of cs))) pk = Some r \<longrightarrow> Find k' pk = Some (Some r))"
proof -
  let ?m = "map_of (rev (reserves_in e (accounts_of cs)))"
  obtain h where h: "run_calls (OnAccount e track) (next_commit (poll ready)) cs (first_commit e s) = Some h" "mReserve h = ?m"
      "\<exists>g. pss h = Some g \<and> mDedup g = insert (programID e) (set (markets_in e (accounts_of cs)))"
    using jet_run [of e ready cs s] by blast
  have st: "stream e ready s cs createHandler = Inr h" using h(1) by (simp add: stream_def)
  obtain t' where t': "insert_rows (\<lambda>_. False) RPubkey reserve_row_of (fst (copy_out order ?m)) t = Inr t'" "\<And>k. index_find (copy_out order ?m) k = Some (?m k)"
      "\<And>k r. ?m k = Some r \<Longrightarrow> index_find (index_rows RPubkey (map (scan_reserve (fromBytes e)) t')) k = Some (Some r)"
    using jet_store.save_load [OF assms(1,2) finite_dom_map_of assms(5,6), of "rev (reserves_in e (accounts_of cs))"] jet_good [OF assms(2,3)] by blast
  have "Create (fromBytes e) order (\<lambda>_. False) (stream e ready s cs) force t = (Inr (copy_out order ?m), t')"
    using assms(4) t'(1) st h(2) by (auto simp: Create_def reserveCount_def fetch_def insertReserves_def)
  then show ?thesis using st h(3) t'(2,3) by (fastforce simp: loadReserves_def Find_def)
qed

abbreviation jet_env :: env where
  "jet_env \<equiv> \<lparr>programID = replicate 32 1, weightAll = 7, fromBytes = copy_key\<rparr>"

abbreviation sample_account :: "byte \<Rightarrow> nat \<Rightarrow> account" where
  "sample_account b n \<equiv> \<lparr>Pubkey = replicate 32 b, Owner = replicate 32 1, HSlot = 0, DataSize = n, Deleted = False, Data = replicate n 5\<rparr>"

abbreviation sample_calls :: "call list" where
  "sample_calls \<equiv> [CAccount (sample_account 2 12808), CCommit 8, CAccount (sample_account 3 2056)]"

lemma jet_sample_walk:
  "reserves_in jet_env (accounts_of sample_calls) = [(replicate 32 3, \<lparr>RPubkey = replicate 32 3, Market = replicate 32 5, RMint = replicate 32 5, Vault = replicate 32 5\<rparr>)]"
  by (simp add: reserves_in_def List.map_filter_def as_reserve_def jet_layout parseReserve_def read_pubkey_def go_slice_def copy_key_def)

theorem jet_fetched_and_saved_witness:
  "\<exists>k t' k'. Create copy_key (\<lambda>m. sorted_list_of_set (dom m)) (\<lambda>_. False) (stream jet_env (\<lambda>_ _. True) 7 sample_calls) False [] = (Inr k, t') \<and>
     (\<exists>r. Find k (replicate 32 3) = Some (Some r) \<and> RMint r = replicate 32 5 \<and>
        loadReserves copy_key (\<lambda>_. False) t' = Inr k' \<and> Find k' (replicate 32 3) = Some (Some r))"
proof -
  have l: "\<forall>a \<in> set (accounts_of sample_calls). length (Pubkey a) = 32" "key_codec (fromBytes jet_env)" by (simp_all add: copy_key_codec)
  obtain k t' k' where k: "Create copy_key (\<lambda>m. sorted_list_of_set (dom m)) (\<lambda>_. False) (stream jet_env (\<lambda>_ _. True) 7 sample_calls) False [] = (Inr k, t')"
      "\<And>pk. Find k pk = Some (map_of (rev (reserves_in jet_env (accounts_of sample_calls))) pk)"
      "loadReserves copy_key (\<lambda>_. False) t' = Inr k'"
      "\<And>pk r. map_of (rev (reserves_in jet_env (accounts_of sample_calls))) pk = Some r \<Longrightarrow> Find k' pk = Some (Some r)"
    using jet_fetched_and_saved [OF sorted_order l(2,1), of "[]" False "\<lambda>_ _. True" 7] by auto
  have m: "map_of (rev (reserves_in jet_env (accounts_of sample_calls))) (replicate 32 3) =
      Some \<lparr>RPubkey = replicate 32 3, Market = replicate 32 5, RMint = replicate 32 5, Vault = replicate 32 5\<rparr>"
    unfolding jet_sample_walk by simp
  show ?thesis using k(1,3) k(2) [of "replicate 32 3"] k(4) [OF m] m by (intro exI [of _ k] exI [of _ t'] exI [of _ k']) simp
qed

end
