(* ===== verification/Drift.thy ===== *)
theory Drift
  imports Markets
begin

text \<open>
  The Drift prefetcher (\<open>src/prefetch/drift\<close>): spot markets, direct children of the program, kept in memory (\<open>spot_market.go\<close>, \<open>event.go\<close>), and their
  table (\<open>store.go\<close>, \<open>drift.go\<close>, \<open>export.go\<close>).

  Conventions as for Kamino.
\<close>

section \<open>Spot markets\<close>

definition offMint :: nat where "offMint = 72"
definition offVault :: nat where "offVault = 104"
definition minMarketLen :: nat where "minMarketLen = offVault + 32"

lemmas drift_layout = offMint_def offVault_def minMarketLen_def

record spot_market =
  SPubkey :: pubkey
  SMint :: pubkey
  SVault :: pubkey

text \<open>\<open>parseSpotMarket\<close>; a short body gives \<open>nil\<close>.\<close>

definition parseSpotMarket :: "(byte list \<Rightarrow> pubkey) \<Rightarrow> pubkey \<Rightarrow> byte list \<Rightarrow> spot_market option option" where
  "parseSpotMarket pkfb pk body =
     (if length body < minMarketLen then Some None
      else do {
        mi \<leftarrow> read_pubkey pkfb body offMint;
        va \<leftarrow> read_pubkey pkfb body offVault;
        Some (Some \<lparr>SPubkey = pk, SMint = mi, SVault = va\<rparr>) })"

definition DiscSpotMarket :: "byte list" where "DiscSpotMarket = [100, 177, 8, 107, 168, 65, 65, 39]"

section \<open>The handler\<close>

record 't handler =
  slot :: u64
  pss :: "'t option"
  sendSubCount :: u32
  mMarket :: "pubkey \<rightharpoonup> spot_market"

record env =
  programID :: pubkey
  weightAll :: u32
  fromBytes :: "byte list \<Rightarrow> pubkey"

definition createHandler :: "'t handler" where
  "createHandler = \<lparr>slot = 0, pss = None, sendSubCount = 0, mMarket = Map.empty\<rparr>"

definition CommitStart :: "u64 \<Rightarrow> 't handler \<Rightarrow> 't handler" where
  "CommitStart s h = h\<lparr>slot := s\<rparr>"

definition CommitFinish :: "(u64 \<Rightarrow> 't \<Rightarrow> bool \<times> 't) \<Rightarrow> 't handler \<Rightarrow> bool \<times> 't handler" where
  "CommitFinish check h =
     (if sendSubCount h = 0 then (False, h)
      else case pss h of
        None \<Rightarrow> (False, h)
      | Some g \<Rightarrow> (case check (slot h) g of (isDone, g') \<Rightarrow> (isDone, h\<lparr>pss := Some g'\<rparr>)))"

definition Init :: "env \<Rightarrow> 't \<Rightarrow> (pending_subscription \<Rightarrow> 't \<Rightarrow> 't) \<Rightarrow> 't handler \<Rightarrow> 't handler" where
  "Init e newTracker subscribe h =
     h\<lparr>sendSubCount := sendSubCount h + 1, pss := Some (subscribe \<lparr>root = programID e, weight = weightAll e, depth = 1\<rparr> newTracker)\<rparr>"

definition OnAccount :: "env \<Rightarrow> account \<Rightarrow> 't handler \<Rightarrow> 't handler option" where
  "OnAccount e a h =
     (if Owner a \<noteq> programID e \<or> length (Data a) < 8 then Some h
      else do {
        discriminator \<leftarrow> go_slice 0 8 (Data a);
        if discriminator \<noteq> DiscSpotMarket then Some h
        else do {
          market \<leftarrow> parseSpotMarket (fromBytes e) (Pubkey a) (Data a);
          Some (case market of None \<Rightarrow> h | Some m \<Rightarrow> h\<lparr>mMarket := (mMarket h)(Pubkey a \<mapsto> m)\<rparr>) } })"

section \<open>The table\<close>

record market_row =
  mint :: "byte list"
  vault :: "byte list"

type_synonym market_table = "(pubkey \<times> market_row) list"

definition spotMarketCount :: "(stmt \<Rightarrow> bool) \<Rightarrow> market_table \<Rightarrow> store_error + nat" where
  "spotMarketCount fails t = (if fails SCount then Inl CountFailed else Inr (length t))"

definition market_row_of :: "spot_market \<Rightarrow> market_row" where
  "market_row_of r = \<lparr>mint = SMint r, vault = SVault r\<rparr>"

definition insertSpotMarkets :: "(stmt \<Rightarrow> bool) \<Rightarrow> spot_market list \<Rightarrow> market_table \<Rightarrow> store_error + market_table" where
  "insertSpotMarkets fails rs t = insert_rows fails SPubkey market_row_of rs t"

definition scan_market :: "(byte list \<Rightarrow> pubkey) \<Rightarrow> pubkey \<times> market_row \<Rightarrow> spot_market" where
  "scan_market pkfb = (\<lambda>(k, r). \<lparr>SPubkey = pkfb k, SMint = pkfb (mint r), SVault = pkfb (vault r)\<rparr>)"

definition loadSpotMarkets :: "(byte list \<Rightarrow> pubkey) \<Rightarrow> (stmt \<Rightarrow> bool) \<Rightarrow> market_table \<Rightarrow> store_error + spot_market list \<times> (pubkey \<rightharpoonup> nat)" where
  "loadSpotMarkets pkfb fails t = (if fails SSelect then Inl QueryFailed else Inr (index_rows SPubkey (map (scan_market pkfb) t)))"

text \<open>\<open>fetch\<close>: the stream gives back the handler or an error; then the map is copied out in the order of the keys that \<open>order\<close> gives.\<close>

definition fetch :: "((pubkey \<rightharpoonup> spot_market) \<Rightarrow> pubkey list) \<Rightarrow> ('t handler \<Rightarrow> unit + 't handler) \<Rightarrow> store_error + spot_market list \<times> (pubkey \<rightharpoonup> nat)" where
  "fetch order hook =
     (case hook createHandler of
        Inl err \<Rightarrow> Inl HookFailed
      | Inr h \<Rightarrow> Inr (copy_out order (mMarket h)))"

definition Create ::
  "(byte list \<Rightarrow> pubkey) \<Rightarrow> ((pubkey \<rightharpoonup> spot_market) \<Rightarrow> pubkey list) \<Rightarrow> (stmt \<Rightarrow> bool) \<Rightarrow> ('t handler \<Rightarrow> unit + 't handler) \<Rightarrow> bool \<Rightarrow> market_table \<Rightarrow>
     (store_error + spot_market list \<times> (pubkey \<rightharpoonup> nat)) \<times> market_table" where
  "Create pkfb order fails hook force t =
     (case spotMarketCount fails t of
        Inl err \<Rightarrow> (Inl err, t)
      | Inr n \<Rightarrow>
          if n = 0 \<or> force then
            (case fetch order hook of
               Inl err \<Rightarrow> (Inl err, t)
             | Inr k \<Rightarrow> (case insertSpotMarkets fails (fst k) t of Inl err \<Rightarrow> (Inl err, t) | Inr t' \<Rightarrow> (Inr k, t')))
          else (loadSpotMarkets pkfb fails t, t))"

definition Find :: "spot_market list \<times> (pubkey \<rightharpoonup> nat) \<Rightarrow> pubkey \<Rightarrow> spot_market option option" where
  "Find k marketID = index_find k marketID"

definition ExportJSON :: "(byte list \<Rightarrow> pubkey) \<Rightarrow> (stmt \<Rightarrow> bool) \<Rightarrow> bool \<Rightarrow> market_table \<Rightarrow> store_error + spot_market list" where
  "ExportJSON pkfb fails createFails t =
     (case loadSpotMarkets pkfb fails t of
        Inl err \<Rightarrow> Inl err
      | Inr (rs, m) \<Rightarrow> if createFails then Inl CreateFileFailed else Inr rs)"

section \<open>What a walk finds\<close>

definition as_spot_market :: "env \<Rightarrow> account \<Rightarrow> (pubkey \<times> spot_market) option" where
  "as_spot_market e a =
     (if Owner a = programID e \<and> minMarketLen \<le> length (Data a) \<and> take 8 (Data a) = DiscSpotMarket
      then map_option (Pair (Pubkey a)) (the (parseSpotMarket (fromBytes e) (Pubkey a) (Data a))) else None)"

definition spot_markets_in :: "env \<Rightarrow> account list \<Rightarrow> (pubkey \<times> spot_market) list" where
  "spot_markets_in e as = List.map_filter (as_spot_market e) as"

definition next_commit :: "(u64 \<Rightarrow> 't \<Rightarrow> bool \<times> 't) \<Rightarrow> u64 \<Rightarrow> 't handler \<Rightarrow> 't handler" where
  "next_commit check s h = CommitStart s (snd (CommitFinish check h))"

lemma drift_reads:
  "minMarketLen \<le> length body \<Longrightarrow> parseSpotMarket pkfb pk body = Some (Some \<lparr>SPubkey = pk, SMint = key_at pkfb body 72, SVault = key_at pkfb body 104\<rparr>)"
  by (simp add: parseSpotMarket_def drift_layout go_reads)

lemma as_spot_marketD:
  assumes "as_spot_market e a = Some (k, m)"
  shows "k = Pubkey a" "Owner a = programID e" "8 \<le> length (Data a)" "take 8 (Data a) = DiscSpotMarket"
    "parseSpotMarket (fromBytes e) (Pubkey a) (Data a) = Some (Some m)"
  using assms drift_reads [of "Data a" "fromBytes e" "Pubkey a"] by (auto simp: as_spot_market_def drift_layout split: if_splits)

lemma drift_on_other:
  assumes "as_spot_market e a = None"
  shows "OnAccount e a h = Some h"
proof (cases "Owner a = programID e \<and> 8 \<le> length (Data a)")
  case True
  then have "length (Data a) < minMarketLen" if "take 8 (Data a) = DiscSpotMarket"
    using that assms drift_reads [of "Data a" "fromBytes e" "Pubkey a"] by (auto simp: as_spot_market_def not_less split: if_splits)
  then show ?thesis using True by (auto simp: OnAccount_def parseSpotMarket_def go_slice_def)
qed (auto simp: OnAccount_def)

definition drift_ok :: "(pending_subscription list, ack_receive list) pss handler \<Rightarrow> bool" where
  "drift_ok h \<longleftrightarrow> (\<exists>g. pss h = Some g \<and> tracker_inv id id g)"

abbreviation asked_roots :: "(pending_subscription list, ack_receive list) pss handler \<Rightarrow> pubkey set" where
  "asked_roots h \<equiv> mDedup (the (pss h))"

interpretation drift: market_walk "OnAccount e" "next_commit (poll ready)" "\<lambda>_. True" put_last mMarket asked_roots drift_ok "as_spot_market e" "\<lambda>_. None"
  for e ready
proof
  fix h a k m
  assume h: "drift_ok h" and a: "as_spot_market e a = Some (k, m)"
  show "\<exists>h'. OnAccount e a h = Some h' \<and> drift_ok h' \<and> mMarket h' = put_last (k, m) (mMarket h) \<and> asked_roots h' = asked_roots h"
    using h as_spot_marketD [OF a] by (auto simp: put_last_def OnAccount_def drift_ok_def go_slice_def)
next
  fix h s
  assume "drift_ok h"
  then obtain g where g: "pss h = Some g" "tracker_inv id id g" by (auto simp: drift_ok_def)
  obtain d g' where c: "poll ready (slot h) g = (d, g')" by (cases "poll ready (slot h) g")
  then have "tracker_inv id id g'" "mDedup g' = mDedup g" using poll_frame [OF g(2), of ready "slot h"] by simp_all
  then show "drift_ok (next_commit (poll ready) s h) \<and> mMarket (next_commit (poll ready) s h) = mMarket h \<and> asked_roots (next_commit (poll ready) s h) = asked_roots h"
    using g c by (simp add: drift_ok_def next_commit_def CommitStart_def CommitFinish_def)
qed (simp_all add: drift_on_other)

abbreviation first_commit :: "env \<Rightarrow> u64 \<Rightarrow> (pending_subscription list, ack_receive list) pss handler" where
  "first_commit e s \<equiv> CommitStart s (Init e (new_tracker 60) track createHandler)"

lemma drift_run:
  "\<exists>h. run_calls (OnAccount e) (next_commit (poll ready)) cs (first_commit e s) = Some h \<and> mMarket h = map_of (rev (spot_markets_in e (accounts_of cs))) \<and>
     (\<exists>g. pss h = Some g \<and> mDedup g = {programID e})"
proof -
  have i: "drift_ok (first_commit e s)" "mMarket (first_commit e s) = Map.empty" "asked_roots (first_commit e s) = {programID e}"
    using new_tracker_ok [of 60] by (simp_all add: drift_ok_def CommitStart_def Init_def createHandler_def pssl.subscribe_inv pssl.known_subscribe)
  obtain h where h: "run_calls (OnAccount e) (next_commit (poll ready)) cs (first_commit e s) = Some h" "drift_ok h"
      "mMarket h = mMarket (first_commit e s) ++ map_of (rev (spot_markets_in e (accounts_of cs)))"
      "asked_roots h = asked_roots (first_commit e s)"
    using drift.run_walk [OF i(1), of cs e ready] unfolding spot_markets_in_def fold_put_last no_markets by auto
  then show ?thesis using i(2,3) by (auto simp: drift_ok_def)
qed

text \<open>A stream of these calls, as \<open>Hook\<close> runs it on the new handler.\<close>

definition stream :: "env \<Rightarrow> (u64 \<Rightarrow> nat \<Rightarrow> bool) \<Rightarrow> u64 \<Rightarrow> call list \<Rightarrow> (pending_subscription list, ack_receive list) pss handler \<Rightarrow>
    unit + (pending_subscription list, ack_receive list) pss handler" where
  "stream e ready s cs h =
     (case run_calls (OnAccount e) (next_commit (poll ready)) cs (CommitStart s (Init e (new_tracker 60) track h)) of None \<Rightarrow> Inl () | Some h' \<Rightarrow> Inr h')"

lemma drift_spot_markets_in_keys: "map_of (rev (spot_markets_in e as)) k = Some r \<Longrightarrow> \<exists>a \<in> set as. Pubkey a = k \<and> as_spot_market e a = Some (k, r)"
  using as_spot_marketD(1) by (fastforce simp: spot_markets_in_def List.map_filter_def dest!: map_of_SomeD)

lemma drift_as_spot_market_fields: "as_spot_market e a = Some (k, r) \<Longrightarrow> SPubkey r = k \<and> SMint r = key_at (fromBytes e) (Data a) 72 \<and> SVault r = key_at (fromBytes e) (Data a) 104"
  using drift_reads [of "Data a" "fromBytes e" "Pubkey a"] by (auto simp: as_spot_market_def split: if_splits)

definition spot_market_keys :: "(byte list \<Rightarrow> pubkey) \<Rightarrow> spot_market \<Rightarrow> bool" where
  "spot_market_keys pkfb r \<longleftrightarrow> pkfb (SPubkey r) = SPubkey r \<and> pkfb (SMint r) = SMint r \<and> pkfb (SVault r) = SVault r"

interpretation drift_store: market_store SPubkey market_row_of scan_market spot_market_keys
  by unfold_locales (simp_all add: scan_market_def market_row_of_def spot_market_keys_def)

lemma drift_good:
  assumes "key_codec (fromBytes e)" and "\<forall>a \<in> set as. length (Pubkey a) = 32" and "map_of (rev (spot_markets_in e as)) k = Some r"
  shows "SPubkey r = k \<and> spot_market_keys (fromBytes e) r"
proof -
  obtain a where a: "a \<in> set as" "Pubkey a = k" "as_spot_market e a = Some (k, r)" using drift_spot_markets_in_keys [OF assms(3)] by blast
  have "length k = 32" using a assms(2) by auto
  then show ?thesis using drift_as_spot_market_fields [OF a(3)] assms(1) by (simp add: spot_market_keys_def key_codec_id)
qed

text \<open>A fetch of Drift: whatever accounts arrive and in whatever order, it asks for the program only, and gives back and
  stores each spot market as its last account had it. A later start that loads the table finds every market that the fetch gave back.\<close>

theorem drift_fetched_and_saved:
  assumes "map_order order" and "key_codec (fromBytes e)" and "\<forall>a \<in> set (accounts_of cs). length (Pubkey a) = 32"
    and "t = [] \<or> force" and "wf_table t" and "\<forall>(k, r) \<in> set t. length k = 32"
  shows "\<exists>h g k t' k'. stream e ready s cs createHandler = Inr h \<and> pss h = Some g \<and> mDedup g = {programID e} \<and>
    Create (fromBytes e) order (\<lambda>_. False) (stream e ready s cs) force t = (Inr k, t') \<and>
    (\<forall>pk. Find k pk = Some (map_of (rev (spot_markets_in e (accounts_of cs))) pk)) \<and>
    loadSpotMarkets (fromBytes e) (\<lambda>_. False) t' = Inr k' \<and> (\<forall>pk r. map_of (rev (spot_markets_in e (accounts_of cs))) pk = Some r \<longrightarrow> Find k' pk = Some (Some r))"
proof -
  let ?m = "map_of (rev (spot_markets_in e (accounts_of cs)))"
  obtain h where h: "run_calls (OnAccount e) (next_commit (poll ready)) cs (first_commit e s) = Some h" "mMarket h = ?m"
      "\<exists>g. pss h = Some g \<and> mDedup g = {programID e}"
    using drift_run [of e ready cs s] by blast
  have st: "stream e ready s cs createHandler = Inr h" using h(1) by (simp add: stream_def)
  obtain t' where t': "insert_rows (\<lambda>_. False) SPubkey market_row_of (fst (copy_out order ?m)) t = Inr t'" "\<And>k. index_find (copy_out order ?m) k = Some (?m k)"
      "\<And>k r. ?m k = Some r \<Longrightarrow> index_find (index_rows SPubkey (map (scan_market (fromBytes e)) t')) k = Some (Some r)"
    using drift_store.save_load [OF assms(1,2) finite_dom_map_of assms(5,6), of "rev (spot_markets_in e (accounts_of cs))"] drift_good [OF assms(2,3)] by blast
  have "Create (fromBytes e) order (\<lambda>_. False) (stream e ready s cs) force t = (Inr (copy_out order ?m), t')"
    using assms(4) t'(1) st h(2) by (auto simp: Create_def spotMarketCount_def fetch_def insertSpotMarkets_def)
  then show ?thesis using st h(3) t'(2,3) by (fastforce simp: loadSpotMarkets_def Find_def)
qed

abbreviation drift_env :: env where
  "drift_env \<equiv> \<lparr>programID = replicate 32 1, weightAll = 7, fromBytes = copy_key\<rparr>"

abbreviation sample_calls :: "call list" where
  "sample_calls \<equiv> [CAccount \<lparr>Pubkey = replicate 32 3, Owner = replicate 32 1, HSlot = 0, DataSize = 136, Deleted = False, Data = DiscSpotMarket @ replicate 128 5\<rparr>]"

lemma drift_sample_walk:
  "spot_markets_in drift_env (accounts_of sample_calls) = [(replicate 32 3, \<lparr>SPubkey = replicate 32 3, SMint = replicate 32 5, SVault = replicate 32 5\<rparr>)]"
  by (simp add: spot_markets_in_def List.map_filter_def as_spot_market_def drift_layout parseSpotMarket_def DiscSpotMarket_def read_pubkey_def go_slice_def copy_key_def)

theorem drift_fetched_and_saved_witness:
  "\<exists>k t' k'. Create copy_key (\<lambda>m. sorted_list_of_set (dom m)) (\<lambda>_. False) (stream drift_env (\<lambda>_ _. True) 7 sample_calls) False [] = (Inr k, t') \<and>
     (\<exists>r. Find k (replicate 32 3) = Some (Some r) \<and> SMint r = replicate 32 5 \<and>
        loadSpotMarkets copy_key (\<lambda>_. False) t' = Inr k' \<and> Find k' (replicate 32 3) = Some (Some r))"
proof -
  have l: "\<forall>a \<in> set (accounts_of sample_calls). length (Pubkey a) = 32" "key_codec (fromBytes drift_env)" by (simp_all add: copy_key_codec)
  obtain k t' k' where k: "Create copy_key (\<lambda>m. sorted_list_of_set (dom m)) (\<lambda>_. False) (stream drift_env (\<lambda>_ _. True) 7 sample_calls) False [] = (Inr k, t')"
      "\<And>pk. Find k pk = Some (map_of (rev (spot_markets_in drift_env (accounts_of sample_calls))) pk)"
      "loadSpotMarkets copy_key (\<lambda>_. False) t' = Inr k'"
      "\<And>pk r. map_of (rev (spot_markets_in drift_env (accounts_of sample_calls))) pk = Some r \<Longrightarrow> Find k' pk = Some (Some r)"
    using drift_fetched_and_saved [OF sorted_order l(2,1), of "[]" False "\<lambda>_ _. True" 7] by auto
  have m: "map_of (rev (spot_markets_in drift_env (accounts_of sample_calls))) (replicate 32 3) =
      Some \<lparr>SPubkey = replicate 32 3, SMint = replicate 32 5, SVault = replicate 32 5\<rparr>"
    unfolding drift_sample_walk by simp
  show ?thesis using k(1,3) k(2) [of "replicate 32 3"] k(4) [OF m] m by (intro exI [of _ k] exI [of _ t'] exI [of _ k']) simp
qed

end
