(* ===== verification/Marginfi.thy ===== *)
theory Marginfi
  imports Markets
begin

text \<open>
  The marginfi prefetcher (\<open>src/prefetch/marginfi\<close>): banks walked from the program over its groups, with a table of the groups already walked and
  freshness of rows (\<open>bank.go\<close>, \<open>event.go\<close>, \<open>store.go\<close>, \<open>marginfi.go\<close>, \<open>export.go\<close>).

  Conventions as in the other prefetchers: \<open>None\<close> is a panic, statements that fail are arguments, the key conversion of the library is a
  parameter. \<open>MissingTx\<close> and the other causes are what the handler cancels its context with; the first one stays.
\<close>

section \<open>Banks\<close>

definition offMint :: nat where "offMint = 8"
definition offGroup :: nat where "offGroup = 41"
definition offOracleSetup :: nat where "offOracleSetup = 609"
definition offOracleKey :: nat where "offOracleKey = 610"
definition minBankLen :: nat where "minBankLen = offOracleKey + 32"

lemmas bank_layout = offMint_def offGroup_def offOracleSetup_def offOracleKey_def minBankLen_def

record bank =
  BPubkey :: pubkey
  Group :: pubkey
  BMint :: pubkey
  OracleSetup :: byte
  OracleKey :: pubkey

text \<open>\<open>parseBank\<close>; a short body gives \<open>nil\<close>.\<close>

definition parseBank :: "(byte list \<Rightarrow> pubkey) \<Rightarrow> pubkey \<Rightarrow> byte list \<Rightarrow> bank option option" where
  "parseBank pkfb pk body =
     (if length body < minBankLen then Some None
      else do {
        gr \<leftarrow> read_pubkey pkfb body offGroup;
        mi \<leftarrow> read_pubkey pkfb body offMint;
        os \<leftarrow> go_index body offOracleSetup;
        ok \<leftarrow> read_pubkey pkfb body offOracleKey;
        Some (Some \<lparr>BPubkey = pk, Group = gr, BMint = mi, OracleSetup = os, OracleKey = ok\<rparr>) })"

definition DiscMarginfiGroup :: "byte list" where "DiscMarginfiGroup = [182, 23, 173, 240, 151, 206, 182, 67]"
definition DiscBank :: "byte list" where "DiscBank = [142, 49, 166, 242, 50, 66, 97, 188]"

section \<open>The handler\<close>

record bank_row =
  group_pubkey :: "byte list"
  mint :: "byte list"
  oracle_setup :: int
  oracle_key :: "byte list"
  last_slot :: u64

record tables =
  banks :: "(pubkey \<times> bank_row) list"
  group_seen :: "(pubkey \<times> u64) list"

datatype statement = TBegin | TCommit | TGroupFresh | TBankFresh | TInsertGroup | TInsertBank

datatype cause = NoTx | BeginTx | CommitTx | InsertGroup | InsertBank

record 't handler =
  slot :: u64
  pss :: "'t option"
  db :: "tables option"
  tx :: "tables option"
  sendSubCount :: u32
  cause :: "cause option"

record env =
  programID :: pubkey
  weightAll :: u32
  fromBytes :: "byte list \<Rightarrow> pubkey"

definition cancel :: "cause \<Rightarrow> 't handler \<Rightarrow> 't handler" where
  "cancel c h = (if cause h = None then h\<lparr>cause := Some c\<rparr> else h)"

definition createHandler :: "tables option \<Rightarrow> 't handler" where
  "createHandler d = \<lparr>slot = 0, pss = None, db = d, tx = None, sendSubCount = 0, cause = None\<rparr>"

definition CommitStart :: "(statement \<Rightarrow> bool) \<Rightarrow> u64 \<Rightarrow> 't handler \<Rightarrow> 't handler" where
  "CommitStart fails s h =
     (let h = h\<lparr>slot := s\<rparr>
      in case db h of
           None \<Rightarrow> h
         | Some d \<Rightarrow> if fails TBegin then cancel BeginTx h else h\<lparr>tx := Some d\<rparr>)"

definition CommitFinish :: "(statement \<Rightarrow> bool) \<Rightarrow> (u64 \<Rightarrow> 't \<Rightarrow> bool \<times> 't) \<Rightarrow> 't handler \<Rightarrow> bool \<times> 't handler" where
  "CommitFinish fails check h =
     (case tx h of
        None \<Rightarrow> (False, cancel NoTx h)
      | Some t \<Rightarrow>
          if fails TCommit then (False, cancel CommitTx h)
          else
            let h = h\<lparr>db := Some t, tx := None\<rparr>
            in if sendSubCount h = 0 then (False, h)
               else case pss h of
                 None \<Rightarrow> (False, h)
               | Some g \<Rightarrow> (case check (slot h) g of (isDone, g') \<Rightarrow> (isDone, h\<lparr>pss := Some g'\<rparr>)))"

definition Init :: "env \<Rightarrow> 't \<Rightarrow> (pending_subscription \<Rightarrow> 't \<Rightarrow> 't) \<Rightarrow> 't handler \<Rightarrow> 't handler" where
  "Init e newTracker subscribe h =
     h\<lparr>sendSubCount := sendSubCount h + 1, pss := Some (subscribe \<lparr>root = programID e, weight = weightAll e, depth = 2\<rparr> newTracker)\<rparr>"

definition dbQuery :: "'t handler \<Rightarrow> tables option" where
  "dbQuery h = (case tx h of Some t \<Rightarrow> Some t | None \<Rightarrow> db h)"

definition isGroupFresh :: "(statement \<Rightarrow> bool) \<Rightarrow> pubkey \<Rightarrow> 't handler \<Rightarrow> bool" where
  "isGroupFresh fails pk h =
     (if db h = None \<or> fails TGroupFresh then False
      else case map_of (group_seen (the (dbQuery h))) pk of None \<Rightarrow> False | Some ls \<Rightarrow> is_fresh ls (slot h))"

definition isBankFresh :: "(statement \<Rightarrow> bool) \<Rightarrow> pubkey \<Rightarrow> 't handler \<Rightarrow> bool" where
  "isBankFresh fails pk h =
     (if db h = None \<or> fails TBankFresh then False
      else case map_of (banks (the (dbQuery h))) pk of None \<Rightarrow> False | Some r \<Rightarrow> is_fresh (last_slot r) (slot h))"

definition bank_row_of :: "bank \<Rightarrow> u64 \<Rightarrow> bank_row" where
  "bank_row_of b s = \<lparr>group_pubkey = Group b, mint = BMint b, oracle_setup = uint (OracleSetup b), oracle_key = OracleKey b, last_slot = s\<rparr>"

definition OnAccount :: "env \<Rightarrow> (statement \<Rightarrow> bool) \<Rightarrow> (pending_subscription \<Rightarrow> 't \<Rightarrow> 't) \<Rightarrow> account \<Rightarrow> 't handler \<Rightarrow> 't handler option" where
  "OnAccount e fails subscribe a h =
     (if Owner a \<noteq> programID e \<or> length (Data a) < 8 then Some h
      else do {
        discriminator \<leftarrow> go_slice 0 8 (Data a);
        if discriminator = DiscMarginfiGroup then
          (if isGroupFresh fails (Pubkey a) h then Some h
           else case tx h of
             None \<Rightarrow> Some (cancel NoTx h)
           | Some t \<Rightarrow>
               if fails TInsertGroup then Some (cancel InsertGroup h)
               else (case pss h of
                 None \<Rightarrow> None
               | Some g \<Rightarrow> Some (h\<lparr>tx := Some (t\<lparr>group_seen := replace_row (Pubkey a) (slot h) (group_seen t)\<rparr>), sendSubCount := sendSubCount h + 1,
                                   pss := Some (subscribe \<lparr>root = Pubkey a, weight = weightAll e, depth = 2\<rparr> g)\<rparr>)))
        else if discriminator = DiscBank then
          (if isBankFresh fails (Pubkey a) h then Some h
           else do {
             bank \<leftarrow> parseBank (fromBytes e) (Pubkey a) (Data a);
             Some (case bank of
               None \<Rightarrow> h
             | Some b \<Rightarrow>
                 (case tx h of
                    None \<Rightarrow> cancel NoTx h
                  | Some t \<Rightarrow>
                      if fails TInsertBank then cancel InsertBank h
                      else h\<lparr>tx := Some (t\<lparr>banks := replace_row (BPubkey b) (bank_row_of b (slot h)) (banks t)\<rparr>)\<rparr>)) })
        else Some h })"

section \<open>Loading\<close>


definition scan_bank :: "(byte list \<Rightarrow> pubkey) \<Rightarrow> pubkey \<times> bank_row \<Rightarrow> bank" where
  "scan_bank pkfb = (\<lambda>(k, r). \<lparr>BPubkey = pkfb k, Group = pkfb (group_pubkey r), BMint = pkfb (mint r), OracleSetup = of_int (oracle_setup r),
     OracleKey = pkfb (oracle_key r)\<rparr>)"

definition loadBanks :: "(byte list \<Rightarrow> pubkey) \<Rightarrow> (stmt \<Rightarrow> bool) \<Rightarrow> tables \<Rightarrow> store_error + bank list \<times> (pubkey \<rightharpoonup> nat)" where
  "loadBanks pkfb fails t = (if fails SSelect then Inl QueryFailed else Inr (index_rows BPubkey (map (scan_bank pkfb) (banks t))))"



definition Find :: "bank list \<times> (pubkey \<rightharpoonup> nat) \<Rightarrow> pubkey \<Rightarrow> bank option option" where
  "Find m bankID = index_find m bankID"

definition ExportJSON :: "(byte list \<Rightarrow> pubkey) \<Rightarrow> (stmt \<Rightarrow> bool) \<Rightarrow> bool \<Rightarrow> tables \<Rightarrow> store_error + bank list" where
  "ExportJSON pkfb fails createFails t =
     (case loadBanks pkfb fails t of
        Inl err \<Rightarrow> Inl err
      | Inr (bs, m) \<Rightarrow> if createFails then Inl CreateFileFailed else Inr bs)"

section \<open>What a walk finds\<close>

definition as_bank :: "env \<Rightarrow> account \<Rightarrow> (pubkey \<times> bank_row) option" where
  "as_bank e a =
     (if Owner a = programID e \<and> minBankLen \<le> length (Data a) \<and> take 8 (Data a) = DiscBank
      then Some (Pubkey a, bank_row_of (the (the (parseBank (fromBytes e) (Pubkey a) (Data a)))) 0) else None)"

definition as_group :: "env \<Rightarrow> account \<Rightarrow> pubkey option" where
  "as_group e a = (if Owner a = programID e \<and> 8 \<le> length (Data a) \<and> take 8 (Data a) = DiscMarginfiGroup then Some (Pubkey a) else None)"

definition banks_in :: "env \<Rightarrow> account list \<Rightarrow> (pubkey \<times> bank_row) list" where
  "banks_in e as = List.map_filter (as_bank e) as"

definition groups_in :: "env \<Rightarrow> account list \<Rightarrow> pubkey list" where
  "groups_in e as = List.map_filter (as_group e) as"

definition next_commit :: "(u64 \<Rightarrow> 't \<Rightarrow> bool \<times> 't) \<Rightarrow> u64 \<Rightarrow> 't handler \<Rightarrow> 't handler" where
  "next_commit check s h = CommitStart (\<lambda>_. False) s (snd (CommitFinish (\<lambda>_. False) check h))"

lemma marginfi_discs: "DiscMarginfiGroup \<noteq> DiscBank"
  by (simp add: DiscMarginfiGroup_def DiscBank_def)

lemma parseBank_reads:
  "minBankLen \<le> length body \<Longrightarrow> parseBank pkfb pk body =
     Some (Some \<lparr>BPubkey = pk, Group = key_at pkfb body 41, BMint = key_at pkfb body 8, OracleSetup = body ! 609, OracleKey = key_at pkfb body 610\<rparr>)"
  by (simp add: parseBank_def bank_layout go_reads go_index_def)

lemma as_bankD:
  assumes "as_bank e a = Some (k, r)"
  shows "k = Pubkey a" "as_group e a = None" "Owner a = programID e" "8 \<le> length (Data a)" "take 8 (Data a) = DiscBank"
    "\<exists>b. parseBank (fromBytes e) (Pubkey a) (Data a) = Some (Some b) \<and> BPubkey b = k \<and> bank_row_of b 0 = r"
  using assms marginfi_discs parseBank_reads [of "Data a" "fromBytes e" "Pubkey a"]
  by (auto simp: as_bank_def as_group_def bank_layout split: if_splits)

lemma as_groupD:
  assumes "as_group e a = Some k"
  shows "k = Pubkey a" "as_bank e a = None" "Owner a = programID e" "8 \<le> length (Data a)" "take 8 (Data a) = DiscMarginfiGroup"
  using assms marginfi_discs by (auto simp: as_group_def as_bank_def split: if_splits)

lemma marginfi_on_other:
  assumes "as_bank e a = None" and "as_group e a = None"
  shows "OnAccount e fails subscribe a h = Some h"
proof (cases "Owner a = programID e \<and> 8 \<le> length (Data a)")
  case True
  then have d: "go_slice 0 8 (Data a) = Some (take 8 (Data a))" "take 8 (Data a) \<noteq> DiscMarginfiGroup" using assms(2) by (auto simp: go_slice_def as_group_def)
  have "length (Data a) < minBankLen" if "take 8 (Data a) = DiscBank" using that True assms(1) by (auto simp: as_bank_def not_less split: if_splits)
  then show ?thesis using True d by (auto simp: OnAccount_def parseBank_def)
qed (auto simp: OnAccount_def)

type_synonym tracked = "(pending_subscription list, ack_receive list) pss handler"

definition marginfi_ok :: "u64 \<Rightarrow> tracked \<Rightarrow> bool" where
  "marginfi_ok s0 h \<longleftrightarrow> unat s0 < 2 ^ 62 \<and> in_window s0 (slot h) \<and> db h \<noteq> None \<and>
     (\<exists>t g. tx h = Some t \<and> pss h = Some g \<and> tracker_inv id id g \<and>
        (\<forall>k r. map_of (banks t) k = Some r \<longrightarrow> in_window s0 (last_slot r)) \<and>
        (\<forall>k ls. map_of (group_seen t) k = Some ls \<longrightarrow> in_window s0 ls \<and> k \<in> mDedup g))"

definition stored_banks :: "tracked \<Rightarrow> pubkey \<rightharpoonup> bank_row" where
  "stored_banks h k = map_option (last_slot_update (\<lambda>_. 0)) (map_of (banks (the (tx h))) k)"

abbreviation asked_roots :: "tracked \<Rightarrow> pubkey set" where
  "asked_roots h \<equiv> mDedup (the (pss h))"

lemma marginfi_commit:
  assumes "in_window s0 s" and "marginfi_ok s0 h"
  shows "marginfi_ok s0 (next_commit (poll ready) s h) \<and> tx (next_commit (poll ready) s h) = tx h \<and> asked_roots (next_commit (poll ready) s h) = asked_roots h"
proof -
  obtain t g where g: "tx h = Some t" "pss h = Some g" "tracker_inv id id g" using assms(2) by (auto simp: marginfi_ok_def)
  obtain d g' where c: "poll ready (slot h) g = (d, g')" by (cases "poll ready (slot h) g")
  then have "tracker_inv id id g'" "mDedup g' = mDedup g" using poll_frame [OF g(3), of ready "slot h"] by simp_all
  then show ?thesis using assms g c by (simp add: marginfi_ok_def next_commit_def CommitStart_def CommitFinish_def Let_def)
qed

interpretation marginfi: market_walk "OnAccount e (\<lambda>_. False) track" "next_commit (poll ready)" "in_window s0" put_first stored_banks asked_roots "marginfi_ok s0" "as_bank e" "as_group e"
  for e ready s0
proof
  fix h a k r
  assume h: "marginfi_ok s0 h" and a: "as_bank e a = Some (k, r)"
  obtain t where t: "tx h = Some t" "db h \<noteq> None" "\<And>k r. map_of (banks t) k = Some r \<Longrightarrow> is_fresh (last_slot r) (slot h)"
    using h in_window_fresh by (auto simp: marginfi_ok_def)
  obtain b where b: "parseBank (fromBytes e) (Pubkey a) (Data a) = Some (Some b)" "BPubkey b = k" "bank_row_of b 0 = r" using as_bankD(6) [OF a] by blast
  show "\<exists>h'. OnAccount e (\<lambda>_. False) track a h = Some h' \<and> marginfi_ok s0 h' \<and> stored_banks h' = put_first (k, r) (stored_banks h) \<and> asked_roots h' = asked_roots h"
  proof (cases "map_of (banks t) k")
    case None
    let ?h = "h\<lparr>tx := Some (t\<lparr>banks := replace_row k (bank_row_of b (slot h)) (banks t)\<rparr>)\<rparr>"
    have "OnAccount e (\<lambda>_. False) track a h = Some ?h"
      using None as_bankD [OF a] b t marginfi_discs by (simp add: OnAccount_def isBankFresh_def dbQuery_def go_slice_def)
    moreover have "stored_banks ?h = put_first (k, r) (stored_banks h)"
      using None t(1) b(3) by (auto simp: stored_banks_def put_first_def fun_eq_iff bank_row_of_def)
    moreover have "marginfi_ok s0 ?h" using h t(1) by (auto simp: marginfi_ok_def bank_row_of_def)
    ultimately show ?thesis by simp
  next
    case (Some r')
    then have "OnAccount e (\<lambda>_. False) track a h = Some h"
      using as_bankD [OF a] t marginfi_discs by (auto simp: OnAccount_def isBankFresh_def dbQuery_def go_slice_def)
    then show ?thesis using h Some t(1) by (simp add: stored_banks_def put_first_def)
  qed
next
  fix h a k
  assume h: "marginfi_ok s0 h" and a: "as_group e a = Some k"
  obtain t g where t: "tx h = Some t" "pss h = Some g" "db h \<noteq> None" "tracker_inv id id g"
      "\<And>k ls. map_of (group_seen t) k = Some ls \<Longrightarrow> is_fresh ls (slot h) \<and> k \<in> mDedup g"
    using h in_window_fresh by (fastforce simp: marginfi_ok_def)
  show "\<exists>h'. OnAccount e (\<lambda>_. False) track a h = Some h' \<and> marginfi_ok s0 h' \<and> stored_banks h' = stored_banks h \<and> asked_roots h' = insert k (asked_roots h)"
  proof (cases "map_of (group_seen t) k")
    case None
    let ?h = "h\<lparr>tx := Some (t\<lparr>group_seen := replace_row k (slot h) (group_seen t)\<rparr>), sendSubCount := sendSubCount h + 1,
        pss := Some (track \<lparr>root = k, weight = weightAll e, depth = 2\<rparr> g)\<rparr>"
    have "OnAccount e (\<lambda>_. False) track a h = Some ?h"
      using None as_groupD [OF a] t by (simp add: OnAccount_def isGroupFresh_def dbQuery_def go_slice_def)
    moreover have "marginfi_ok s0 ?h" using h t(1,2) by (auto simp: marginfi_ok_def pssl.subscribe_inv pssl.known_subscribe)
    ultimately show ?thesis using t(1,2) by (simp add: stored_banks_def fun_eq_iff pssl.known_subscribe)
  next
    case (Some ls)
    then have "OnAccount e (\<lambda>_. False) track a h = Some h"
      using as_groupD [OF a] t by (auto simp: OnAccount_def isGroupFresh_def dbQuery_def go_slice_def)
    then show ?thesis using h Some t(2,5) by (auto simp: insert_absorb)
  qed
next
  fix s h
  assume "in_window s0 s" and "marginfi_ok s0 h"
  then show "marginfi_ok s0 (next_commit (poll ready) s h) \<and> stored_banks (next_commit (poll ready) s h) = stored_banks h \<and>
      asked_roots (next_commit (poll ready) s h) = asked_roots h"
    using marginfi_commit by (simp add: stored_banks_def fun_eq_iff)
qed (simp_all add: marginfi_on_other as_bankD)

abbreviation first_commit :: "env \<Rightarrow> tables \<Rightarrow> u64 \<Rightarrow> tracked" where
  "first_commit e d s \<equiv> CommitStart (\<lambda>_. False) s (Init e (new_tracker 60) track (createHandler (Some d)))"

lemma marginfi_first_commit:
  "tx (first_commit e d s) = Some d" "db (first_commit e d s) = Some d" "slot (first_commit e d s) = s"
  "\<exists>g. pss (first_commit e d s) = Some g \<and> tracker_inv id id g \<and> mDedup g = {programID e}"
  using new_tracker_ok [of 60] by (simp_all add: CommitStart_def Init_def createHandler_def pssl.subscribe_inv pssl.known_subscribe)

text \<open>A first fetch of marginfi that takes less than seven days of slots and meets no failing statement: whatever accounts arrive and in whatever order, it asks for exactly
  the program and the groups seen, and the table has exactly the banks seen, each as its first account had it.\<close>

theorem marginfi_first_fetch:
  assumes "banks d = []" and "group_seen d = []" and "unat s < 2 ^ 62" and "\<forall>s' \<in> set (slots_of cs). in_window s s'"
  shows "\<exists>h. run_calls (OnAccount e (\<lambda>_. False) track) (next_commit (poll ready)) cs (first_commit e d s) = Some h \<and>
    asked_roots h = insert (programID e) (set (groups_in e (accounts_of cs))) \<and> stored_banks h = map_of (banks_in e (accounts_of cs))"
proof -
  have i: "marginfi_ok s (first_commit e d s)" "stored_banks (first_commit e d s) = Map.empty" "asked_roots (first_commit e d s) = {programID e}"
  proof -
    note f = marginfi_first_commit [where e = e and d = d and s = s]
    obtain g where g: "pss (first_commit e d s) = Some g" "tracker_inv id id g" "mDedup g = {programID e}" using f(4) by blast
    show "marginfi_ok s (first_commit e d s)" unfolding marginfi_ok_def f(1-3) g(1) using assms(1-3) g(2) by (simp add: in_window_def)
    show "stored_banks (first_commit e d s) = Map.empty" unfolding stored_banks_def f(1) using assms(1) by (simp add: fun_eq_iff)
    show "asked_roots (first_commit e d s) = {programID e}" unfolding g(1) by (simp add: g(3))
  qed
  show ?thesis using marginfi.run_walk [OF i(1) assms(4), where e = e and ready = ready] i(2,3) by (auto simp: fold_put_first banks_in_def groups_in_def)
qed

abbreviation marginfi_env :: env where
  "marginfi_env \<equiv> \<lparr>programID = [1], weightAll = 7, fromBytes = take 1\<rparr>"

abbreviation group_account :: account where
  "group_account \<equiv> \<lparr>Pubkey = [2], Owner = [1], HSlot = 0, DataSize = 8, Deleted = False, Data = DiscMarginfiGroup\<rparr>"

abbreviation bank_account :: account where
  "bank_account \<equiv> \<lparr>Pubkey = [3], Owner = [1], HSlot = 0, DataSize = 642, Deleted = False, Data = DiscBank @ replicate 634 5\<rparr>"

theorem marginfi_first_fetch_witness:
  "\<exists>h. run_calls (OnAccount marginfi_env (\<lambda>_. False) track) (next_commit (poll (\<lambda>_ _. True))) [CAccount group_account, CCommit 8, CAccount bank_account]
      (first_commit marginfi_env \<lparr>banks = [], group_seen = []\<rparr> 7) = Some h \<and> asked_roots h = {[1], [2]} \<and> map_option oracle_setup (stored_banks h [3]) = Some 5"
proof -
  have "groups_in marginfi_env [group_account, bank_account] = [[2]]"
    using marginfi_discs by (simp add: groups_in_def List.map_filter_def as_group_def DiscMarginfiGroup_def DiscBank_def)
  moreover have "as_bank marginfi_env bank_account = Some ([3], \<lparr>group_pubkey = [5], mint = [5], oracle_setup = 5, oracle_key = [5], last_slot = 0\<rparr>)"
      "as_bank marginfi_env group_account = None"
    by (simp_all add: as_bank_def bank_layout parseBank_def read_pubkey_def go_slice_def go_index_def bank_row_of_def nth_append DiscBank_def DiscMarginfiGroup_def)
  then have "banks_in marginfi_env [group_account, bank_account] = [([3], \<lparr>group_pubkey = [5], mint = [5], oracle_setup = 5, oracle_key = [5], last_slot = 0\<rparr>)]"
    unfolding banks_in_def by simp
  moreover have "\<forall>s \<in> set (slots_of [CAccount group_account, CCommit 8, CAccount bank_account]). in_window 7 s" by (simp add: in_window_def)
  ultimately show ?thesis
    using marginfi_first_fetch [of "\<lparr>banks = [], group_seen = []\<rparr>" 7 "[CAccount group_account, CCommit 8, CAccount bank_account]" marginfi_env "\<lambda>_ _. True"] by fastforce
qed

section \<open>Fresh rows are skipped, forced or not\<close>









end
