(* ===== verification/Solend.thy ===== *)
theory Solend
  imports Markets
begin

text \<open>
  The Solend prefetcher (\<open>src/prefetch/solend\<close>): reserves walked from the program over its lending markets, with a table of the markets already walked and
  freshness of rows, which \<open>force\<close> overrides (\<open>reserve.go\<close>, \<open>event.go\<close>, \<open>store.go\<close>, \<open>solend.go\<close>, \<open>export.go\<close>). Solend has no discriminators: an
  account is told by its length.

  Conventions as for marginfi.
\<close>

section \<open>Reserves\<close>

definition offLendingMarket :: nat where "offLendingMarket = 10"
definition offMint :: nat where "offMint = 42"
definition offSupplyVault :: nat where "offSupplyVault = 75"
definition minReserveLen :: nat where "minReserveLen = offSupplyVault + 32"
definition lendingMarketLen :: nat where "lendingMarketLen = 290"
definition reserveLen :: nat where "reserveLen = 619"

lemmas solend_reserve_layout = offLendingMarket_def offMint_def offSupplyVault_def minReserveLen_def lendingMarketLen_def reserveLen_def

record reserve =
  RPubkey :: pubkey
  LendingMarket :: pubkey
  RMint :: pubkey
  SupplyVault :: pubkey

text \<open>\<open>parseReserve\<close>; a short body gives \<open>nil\<close>.\<close>

definition parseReserve :: "(byte list \<Rightarrow> pubkey) \<Rightarrow> pubkey \<Rightarrow> byte list \<Rightarrow> reserve option option" where
  "parseReserve pkfb pk body =
     (if length body < minReserveLen then Some None
      else do {
        lm \<leftarrow> read_pubkey pkfb body offLendingMarket;
        mi \<leftarrow> read_pubkey pkfb body offMint;
        sv \<leftarrow> read_pubkey pkfb body offSupplyVault;
        Some (Some \<lparr>RPubkey = pk, LendingMarket = lm, RMint = mi, SupplyVault = sv\<rparr>) })"

section \<open>The handler\<close>

record reserve_row =
  lending_market :: "byte list"
  mint :: "byte list"
  supply_vault :: "byte list"
  last_slot :: u64

record tables =
  reserves :: "(pubkey \<times> reserve_row) list"
  lending_market_seen :: "(pubkey \<times> u64) list"

datatype statement = TBegin | TCommit | TMarketFresh | TReserveFresh | TInsertMarket | TInsertReserve

datatype cause = NoTx | BeginTx | CommitTx | InsertMarket | InsertReserve

record 't handler =
  slot :: u64
  pss :: "'t option"
  db :: "tables option"
  tx :: "tables option"
  sendSubCount :: u32
  cause :: "cause option"
  force :: bool

record env =
  programID :: pubkey
  weightAll :: u32
  weightDirect :: u32
  fromBytes :: "byte list \<Rightarrow> pubkey"

definition cancel :: "cause \<Rightarrow> 't handler \<Rightarrow> 't handler" where
  "cancel c h = (if cause h = None then h\<lparr>cause := Some c\<rparr> else h)"

definition createHandler :: "tables option \<Rightarrow> bool \<Rightarrow> 't handler" where
  "createHandler d f = \<lparr>slot = 0, pss = None, db = d, tx = None, sendSubCount = 0, cause = None, force = f\<rparr>"

definition CommitStart :: "(statement \<Rightarrow> bool) \<Rightarrow> u64 \<Rightarrow> 't handler \<Rightarrow> 't handler" where
  "CommitStart fails s h =
     (let h = h\<lparr>slot := s\<rparr>
      in case db h of
           None \<Rightarrow> h
         | Some d \<Rightarrow> if fails TBegin then cancel BeginTx h else h\<lparr>tx := Some d\<rparr>)"

definition CommitFinish :: "(statement \<Rightarrow> bool) \<Rightarrow> (u64 \<Rightarrow> 't \<Rightarrow> bool \<times> 't) \<Rightarrow> 't handler \<Rightarrow> bool \<times> 't handler" where
  "CommitFinish fails check h =
     (case tx h of
        None \<Rightarrow> (False, cancel NoTx h)
      | Some t \<Rightarrow>
          if fails TCommit then (False, cancel CommitTx h)
          else
            let h = h\<lparr>db := Some t, tx := None\<rparr>
            in if sendSubCount h = 0 then (False, h)
               else case pss h of
                 None \<Rightarrow> (False, h)
               | Some g \<Rightarrow> (case check (slot h) g of (isDone, g') \<Rightarrow> (isDone, h\<lparr>pss := Some g'\<rparr>)))"

definition Init :: "env \<Rightarrow> 't \<Rightarrow> (pending_subscription \<Rightarrow> 't \<Rightarrow> 't) \<Rightarrow> 't handler \<Rightarrow> 't handler" where
  "Init e newTracker subscribe h =
     h\<lparr>sendSubCount := sendSubCount h + 1, pss := Some (subscribe \<lparr>root = programID e, weight = weightDirect e, depth = 2\<rparr> newTracker)\<rparr>"

definition dbQuery :: "'t handler \<Rightarrow> tables option" where
  "dbQuery h = (case tx h of Some t \<Rightarrow> Some t | None \<Rightarrow> db h)"

definition isMarketFresh :: "(statement \<Rightarrow> bool) \<Rightarrow> pubkey \<Rightarrow> 't handler \<Rightarrow> bool" where
  "isMarketFresh fails pk h =
     (if force h \<or> db h = None \<or> fails TMarketFresh then False
      else case map_of (lending_market_seen (the (dbQuery h))) pk of None \<Rightarrow> False | Some ls \<Rightarrow> is_fresh ls (slot h))"

definition isReserveFresh :: "(statement \<Rightarrow> bool) \<Rightarrow> pubkey \<Rightarrow> 't handler \<Rightarrow> bool" where
  "isReserveFresh fails pk h =
     (if force h \<or> db h = None \<or> fails TReserveFresh then False
      else case map_of (reserves (the (dbQuery h))) pk of None \<Rightarrow> False | Some r \<Rightarrow> is_fresh (last_slot r) (slot h))"

definition reserve_row_of :: "reserve \<Rightarrow> u64 \<Rightarrow> reserve_row" where
  "reserve_row_of b s = \<lparr>lending_market = LendingMarket b, mint = RMint b, supply_vault = SupplyVault b, last_slot = s\<rparr>"

definition OnAccount :: "env \<Rightarrow> (statement \<Rightarrow> bool) \<Rightarrow> (pending_subscription \<Rightarrow> 't \<Rightarrow> 't) \<Rightarrow> account \<Rightarrow> 't handler \<Rightarrow> 't handler option" where
  "OnAccount e fails subscribe a h =
     (if Owner a \<noteq> programID e then Some h
      else if length (Data a) = lendingMarketLen then
          (if isMarketFresh fails (Pubkey a) h then Some h
           else case tx h of
             None \<Rightarrow> Some (cancel NoTx h)
           | Some t \<Rightarrow>
               if fails TInsertMarket then Some (cancel InsertMarket h)
               else (case pss h of
                 None \<Rightarrow> None
               | Some g \<Rightarrow> Some (h\<lparr>tx := Some (t\<lparr>lending_market_seen := replace_row (Pubkey a) (slot h) (lending_market_seen t)\<rparr>), sendSubCount := sendSubCount h + 1,
                                   pss := Some (subscribe \<lparr>root = Pubkey a, weight = weightAll e, depth = 2\<rparr> g)\<rparr>)))
      else if length (Data a) = reserveLen then
          (if isReserveFresh fails (Pubkey a) h then Some h
           else do {
             reserve \<leftarrow> parseReserve (fromBytes e) (Pubkey a) (Data a);
             Some (case reserve of
               None \<Rightarrow> h
             | Some b \<Rightarrow>
                 (case tx h of
                    None \<Rightarrow> cancel NoTx h
                  | Some t \<Rightarrow>
                      if fails TInsertReserve then cancel InsertReserve h
                      else h\<lparr>tx := Some (t\<lparr>reserves := replace_row (RPubkey b) (reserve_row_of b (slot h)) (reserves t)\<rparr>)\<rparr>)) })
      else Some h)"

section \<open>Loading\<close>

definition reserveCount :: "(stmt \<Rightarrow> bool) \<Rightarrow> tables \<Rightarrow> store_error + nat" where
  "reserveCount fails t = (if fails SCount then Inl CountFailed else Inr (length (reserves t)))"

definition scan_reserve :: "(byte list \<Rightarrow> pubkey) \<Rightarrow> pubkey \<times> reserve_row \<Rightarrow> reserve" where
  "scan_reserve pkfb = (\<lambda>(k, r). \<lparr>RPubkey = pkfb k, LendingMarket = pkfb (lending_market r), RMint = pkfb (mint r), SupplyVault = pkfb (supply_vault r)\<rparr>)"

definition loadReserves :: "(byte list \<Rightarrow> pubkey) \<Rightarrow> (stmt \<Rightarrow> bool) \<Rightarrow> tables \<Rightarrow> store_error + reserve list \<times> (pubkey \<rightharpoonup> nat)" where
  "loadReserves pkfb fails t = (if fails SSelect then Inl QueryFailed else Inr (index_rows RPubkey (map (scan_reserve pkfb) (reserves t))))"

text \<open>The stream says whether it failed, and leaves the tables it has committed.\<close>

definition fetch :: "(byte list \<Rightarrow> pubkey) \<Rightarrow> (stmt \<Rightarrow> bool) \<Rightarrow> ('t handler \<Rightarrow> bool \<times> tables) \<Rightarrow> bool \<Rightarrow> tables \<Rightarrow> (store_error + reserve list \<times> (pubkey \<rightharpoonup> nat)) \<times> tables" where
  "fetch pkfb fails hook f t =
     (case hook (createHandler (Some t) f) of (failed, t') \<Rightarrow> (if failed then Inl HookFailed else loadReserves pkfb fails t', t'))"

definition Create :: "(byte list \<Rightarrow> pubkey) \<Rightarrow> (stmt \<Rightarrow> bool) \<Rightarrow> ('t handler \<Rightarrow> bool \<times> tables) \<Rightarrow> bool \<Rightarrow> tables \<Rightarrow> (store_error + reserve list \<times> (pubkey \<rightharpoonup> nat)) \<times> tables" where
  "Create pkfb fails hook f t =
     (case reserveCount fails t of
        Inl err \<Rightarrow> (Inl err, t)
      | Inr n \<Rightarrow> if n = 0 \<or> f then fetch pkfb fails hook f t else (loadReserves pkfb fails t, t))"

definition Find :: "reserve list \<times> (pubkey \<rightharpoonup> nat) \<Rightarrow> pubkey \<Rightarrow> reserve option option" where
  "Find m reserveID = index_find m reserveID"

definition ExportJSON :: "(byte list \<Rightarrow> pubkey) \<Rightarrow> (stmt \<Rightarrow> bool) \<Rightarrow> bool \<Rightarrow> tables \<Rightarrow> store_error + reserve list" where
  "ExportJSON pkfb fails createFails t =
     (case loadReserves pkfb fails t of
        Inl err \<Rightarrow> Inl err
      | Inr (bs, m) \<Rightarrow> if createFails then Inl CreateFileFailed else Inr bs)"

section \<open>What a walk finds\<close>

definition as_reserve :: "env \<Rightarrow> account \<Rightarrow> (pubkey \<times> reserve_row) option" where
  "as_reserve e a =
     (if Owner a = programID e \<and> length (Data a) = reserveLen
      then Some (Pubkey a, reserve_row_of (the (the (parseReserve (fromBytes e) (Pubkey a) (Data a)))) 0) else None)"

definition as_market :: "env \<Rightarrow> account \<Rightarrow> pubkey option" where
  "as_market e a = (if Owner a = programID e \<and> length (Data a) = lendingMarketLen then Some (Pubkey a) else None)"

definition reserves_in :: "env \<Rightarrow> account list \<Rightarrow> (pubkey \<times> reserve_row) list" where
  "reserves_in e as = List.map_filter (as_reserve e) as"

definition markets_in :: "env \<Rightarrow> account list \<Rightarrow> pubkey list" where
  "markets_in e as = List.map_filter (as_market e) as"

definition next_commit :: "(u64 \<Rightarrow> 't \<Rightarrow> bool \<times> 't) \<Rightarrow> u64 \<Rightarrow> 't handler \<Rightarrow> 't handler" where
  "next_commit check s h = CommitStart (\<lambda>_. False) s (snd (CommitFinish (\<lambda>_. False) check h))"

lemma solend_reads:
  "minReserveLen \<le> length body \<Longrightarrow> parseReserve pkfb pk body =
     Some (Some \<lparr>RPubkey = pk, LendingMarket = key_at pkfb body 10, RMint = key_at pkfb body 42, SupplyVault = key_at pkfb body 75\<rparr>)"
  by (simp add: parseReserve_def solend_reserve_layout go_reads)

lemma solend_as_reserveD:
  assumes "as_reserve e a = Some (k, r)"
  shows "k = Pubkey a" "as_market e a = None" "Owner a = programID e" "length (Data a) = reserveLen" "length (Data a) \<noteq> lendingMarketLen"
    "\<exists>b. parseReserve (fromBytes e) (Pubkey a) (Data a) = Some (Some b) \<and> RPubkey b = k \<and> reserve_row_of b 0 = r"
  using assms solend_reads [of "Data a" "fromBytes e" "Pubkey a"]
  by (auto simp: as_reserve_def as_market_def solend_reserve_layout split: if_splits)

lemma solend_as_marketD:
  assumes "as_market e a = Some k"
  shows "k = Pubkey a" "as_reserve e a = None" "Owner a = programID e" "length (Data a) = lendingMarketLen"
  using assms by (auto simp: as_market_def as_reserve_def solend_reserve_layout split: if_splits)

lemma solend_on_other: "as_reserve e a = None \<Longrightarrow> as_market e a = None \<Longrightarrow> OnAccount e fails subscribe a h = Some h"
  by (auto simp: OnAccount_def as_reserve_def as_market_def split: if_splits)

type_synonym tracked = "(pending_subscription list, ack_receive list) pss handler"

definition solend_ok :: "bool \<Rightarrow> u64 \<Rightarrow> tracked \<Rightarrow> bool" where
  "solend_ok f s0 h \<longleftrightarrow> force h = f \<and> db h \<noteq> None \<and>
     (\<exists>t g. tx h = Some t \<and> pss h = Some g \<and> tracker_inv id id g \<and>
        (f \<or> unat s0 < 2 ^ 62 \<and> in_window s0 (slot h) \<and> (\<forall>k r. map_of (reserves t) k = Some r \<longrightarrow> in_window s0 (last_slot r)) \<and>
           (\<forall>k ls. map_of (lending_market_seen t) k = Some ls \<longrightarrow> in_window s0 ls \<and> k \<in> mDedup g)))"

definition rows_kept :: "tables \<Rightarrow> pubkey \<rightharpoonup> reserve_row" where
  "rows_kept t k = map_option (last_slot_update (\<lambda>_. 0)) (map_of (reserves t) k)"

abbreviation stored_reserves :: "tracked \<Rightarrow> pubkey \<rightharpoonup> reserve_row" where
  "stored_reserves h \<equiv> rows_kept (the (tx h))"

abbreviation asked_roots :: "tracked \<Rightarrow> pubkey set" where
  "asked_roots h \<equiv> mDedup (the (pss h))"

lemma solend_commit:
  assumes "f \<or> in_window s0 s" and "solend_ok f s0 h"
  shows "solend_ok f s0 (next_commit (poll ready) s h) \<and> tx (next_commit (poll ready) s h) = tx h \<and> asked_roots (next_commit (poll ready) s h) = asked_roots h"
proof -
  obtain t g where g: "tx h = Some t" "pss h = Some g" "tracker_inv id id g" using assms(2) by (auto simp: solend_ok_def)
  obtain d g' where c: "poll ready (slot h) g = (d, g')" by (cases "poll ready (slot h) g")
  then have "tracker_inv id id g'" "mDedup g' = mDedup g" using poll_frame [OF g(3), of ready "slot h"] by simp_all
  then show ?thesis using assms g c by (auto simp: solend_ok_def next_commit_def CommitStart_def CommitFinish_def Let_def)
qed

lemma solend_fresh:
  assumes "solend_ok f s0 h" and "tx h = Some t"
  shows "isReserveFresh (\<lambda>_. False) k h \<longleftrightarrow> \<not> f \<and> map_of (reserves t) k \<noteq> None" "isMarketFresh (\<lambda>_. False) k h \<longleftrightarrow> \<not> f \<and> map_of (lending_market_seen t) k \<noteq> None"
  using assms in_window_fresh [of s0 _ "slot h"] by (fastforce simp: solend_ok_def isReserveFresh_def isMarketFresh_def dbQuery_def split: option.splits)+

interpretation solend: market_walk "OnAccount e (\<lambda>_. False) track" "next_commit (poll ready)" "\<lambda>s. f \<or> in_window s0 s" "if f then put_last else put_first" stored_reserves asked_roots
  "solend_ok f s0" "as_reserve e" "as_market e"
  for e ready f s0
proof
  fix h a k r
  assume h: "solend_ok f s0 h" and a: "as_reserve e a = Some (k, r)"
  obtain t where t: "tx h = Some t" using h by (auto simp: solend_ok_def)
  obtain b where b: "parseReserve (fromBytes e) (Pubkey a) (Data a) = Some (Some b)" "RPubkey b = k" "reserve_row_of b 0 = r" using solend_as_reserveD(6) [OF a] by blast
  show "\<exists>h'. OnAccount e (\<lambda>_. False) track a h = Some h' \<and> solend_ok f s0 h' \<and> stored_reserves h' = (if f then put_last else put_first) (k, r) (stored_reserves h) \<and> asked_roots h' = asked_roots h"
  proof (cases "isReserveFresh (\<lambda>_. False) k h")
    case False
    let ?h = "h\<lparr>tx := Some (t\<lparr>reserves := replace_row k (reserve_row_of b (slot h)) (reserves t)\<rparr>)\<rparr>"
    have "OnAccount e (\<lambda>_. False) track a h = Some ?h"
      using False solend_as_reserveD(1-5) [OF a] b t by (simp add: OnAccount_def)
    moreover have "stored_reserves ?h = (if f then put_last else put_first) (k, r) (stored_reserves h)"
      using False solend_fresh(1) [OF h t, of k] t b(3) by (auto simp: rows_kept_def put_first_def put_last_def fun_eq_iff reserve_row_of_def)
    moreover have "solend_ok f s0 ?h" using h t by (auto simp: solend_ok_def reserve_row_of_def)
    ultimately show ?thesis by simp
  next
    case True
    then have "OnAccount e (\<lambda>_. False) track a h = Some h" using solend_as_reserveD(1-5) [OF a] by (simp add: OnAccount_def)
    then show ?thesis using h True solend_fresh(1) [OF h t, of k] t by (auto simp: rows_kept_def put_first_def)
  qed
next
  fix h a k
  assume h: "solend_ok f s0 h" and a: "as_market e a = Some k"
  obtain t g where t: "tx h = Some t" "pss h = Some g" "tracker_inv id id g" using h by (auto simp: solend_ok_def)
  show "\<exists>h'. OnAccount e (\<lambda>_. False) track a h = Some h' \<and> solend_ok f s0 h' \<and> stored_reserves h' = stored_reserves h \<and> asked_roots h' = insert k (asked_roots h)"
  proof (cases "isMarketFresh (\<lambda>_. False) k h")
    case False
    let ?h = "h\<lparr>tx := Some (t\<lparr>lending_market_seen := replace_row k (slot h) (lending_market_seen t)\<rparr>), sendSubCount := sendSubCount h + 1,
        pss := Some (track \<lparr>root = k, weight = weightAll e, depth = 2\<rparr> g)\<rparr>"
    have "OnAccount e (\<lambda>_. False) track a h = Some ?h" using False solend_as_marketD [OF a] t by (simp add: OnAccount_def)
    moreover have "solend_ok f s0 ?h" using h t by (auto simp: solend_ok_def pssl.subscribe_inv pssl.known_subscribe)
    ultimately show ?thesis using t by (simp add: rows_kept_def fun_eq_iff pssl.known_subscribe)
  next
    case True
    then have "OnAccount e (\<lambda>_. False) track a h = Some h" using solend_as_marketD [OF a] by (simp add: OnAccount_def)
    moreover have "k \<in> mDedup g" using True solend_fresh(2) [OF h t(1), of k] h t by (auto simp: solend_ok_def)
    ultimately show ?thesis using h t(2) by (auto simp: insert_absorb)
  qed
next
  fix s h
  assume "f \<or> in_window s0 s" and "solend_ok f s0 h"
  then show "solend_ok f s0 (next_commit (poll ready) s h) \<and> stored_reserves (next_commit (poll ready) s h) = stored_reserves h \<and>
      asked_roots (next_commit (poll ready) s h) = asked_roots h"
    using solend_commit by simp
qed (simp_all add: solend_on_other solend_as_reserveD)

abbreviation first_commit :: "env \<Rightarrow> tables \<Rightarrow> bool \<Rightarrow> u64 \<Rightarrow> tracked" where
  "first_commit e d f s \<equiv> CommitStart (\<lambda>_. False) s (Init e (new_tracker 120) track (createHandler (Some d) f))"

lemma solend_first_commit_fields:
  "tx (first_commit e d f s) = Some d" "db (first_commit e d f s) = Some d" "slot (first_commit e d f s) = s" "force (first_commit e d f s) = f"
  "\<exists>g. pss (first_commit e d f s) = Some g \<and> tracker_inv id id g \<and> mDedup g = {programID e}"
  using new_tracker_ok [of 120] by (simp_all add: CommitStart_def Init_def createHandler_def pssl.subscribe_inv pssl.known_subscribe)

text \<open>(C22) A fetch of Solend asks for exactly the program and the markets seen. Forced, it stores every reserve seen as its last account had it and keeps the other rows. Into empty
  tables and not forced, over less than seven days of slots, it stores every reserve seen as its first account had it.\<close>

theorem solend_fetch:
  assumes "f \<or> reserves d = [] \<and> lending_market_seen d = [] \<and> unat s < 2 ^ 62 \<and> (\<forall>s' \<in> set (slots_of cs). in_window s s')"
  shows "\<exists>h. run_calls (OnAccount e (\<lambda>_. False) track) (next_commit (poll ready)) cs (first_commit e d f s) = Some h \<and>
    asked_roots h = insert (programID e) (set (markets_in e (accounts_of cs))) \<and>
    stored_reserves h = (if f then rows_kept d ++ map_of (rev (reserves_in e (accounts_of cs))) else map_of (reserves_in e (accounts_of cs)))"
proof -
  note ff = solend_first_commit_fields [where e = e and d = d and s = s and f = f]
  obtain g where g: "pss (first_commit e d f s) = Some g" "tracker_inv id id g" "mDedup g = {programID e}" using ff(5) by blast
  have ok: "solend_ok f s (first_commit e d f s)" unfolding solend_ok_def ff(1-4) g(1) using assms g(2) by (auto simp: in_window_def)
  have fits: "\<forall>s' \<in> set (slots_of cs). f \<or> in_window s s'" using assms by blast
  obtain h where h: "run_calls (OnAccount e (\<lambda>_. False) track) (next_commit (poll ready)) cs (first_commit e d f s) = Some h"
      "stored_reserves h = fold (if f then put_last else put_first) (reserves_in e (accounts_of cs)) (rows_kept d)"
      "asked_roots h = {programID e} \<union> set (markets_in e (accounts_of cs))"
    using solend.run_walk [OF ok fits, where e = e and ready = ready] unfolding reserves_in_def markets_in_def ff(1) g(1) option.sel g(3) by blast
  have "rows_kept d = Map.empty" if "\<not> f" using that assms by (simp add: rows_kept_def fun_eq_iff)
  then show ?thesis using h by (auto simp: fold_put_first fold_put_last)
qed

abbreviation solend_env :: env where
  "solend_env \<equiv> \<lparr>programID = [1], weightAll = 7, weightDirect = 8, fromBytes = take 1\<rparr>"

abbreviation sized_account :: "pubkey \<Rightarrow> nat \<Rightarrow> byte \<Rightarrow> account" where
  "sized_account k n b \<equiv> \<lparr>Pubkey = k, Owner = [1], HSlot = 0, DataSize = n, Deleted = False, Data = replicate n b\<rparr>"

theorem solend_fetch_witness:
  "\<exists>h. run_calls (OnAccount solend_env (\<lambda>_. False) track) (next_commit (poll (\<lambda>_ _. True))) [CAccount (sized_account [2] 290 4), CAccount (sized_account [3] 619 5), CAccount (sized_account [3] 619 6)]
      (first_commit solend_env \<lparr>reserves = [], lending_market_seen = [([2], 7)]\<rparr> True 7) = Some h \<and> asked_roots h = {[1], [2]} \<and> map_option supply_vault (stored_reserves h [3]) = Some [6]"
proof -
  let ?as = "[sized_account [2] 290 4, sized_account [3] 619 5, sized_account [3] 619 6]"
  have "markets_in solend_env ?as = [[2]]" "reserves_in solend_env ?as =
      [([3], \<lparr>lending_market = [5], mint = [5], supply_vault = [5], last_slot = 0\<rparr>), ([3], \<lparr>lending_market = [6], mint = [6], supply_vault = [6], last_slot = 0\<rparr>)]"
    by (simp_all add: markets_in_def reserves_in_def List.map_filter_def as_market_def as_reserve_def solend_reserve_layout parseReserve_def read_pubkey_def go_slice_def reserve_row_of_def)
  then show ?thesis
    using solend_fetch [of True "\<lparr>reserves = [], lending_market_seen = [([2], 7)]\<rparr>" 7 "[CAccount (sized_account [2] 290 4), CAccount (sized_account [3] 619 5), CAccount (sized_account [3] 619 6)]" solend_env "\<lambda>_ _. True"] by fastforce
qed

end
