(* ===== verification/Sanctum.thy ===== *)
theory Sanctum
  imports Markets
begin

text \<open>
  The prefetcher of Sanctum's staking tokens (\<open>src/prefetch/sanctum\<close>): the layout of the shared list account, the handler that asks for the reserve account of
  each token once the list has arrived, the registry of stake pools, the table, and the ranking.

  The handler and the result share the entries of the list by pointer, so the map from reserve accounts goes to positions in the list. The derivation of
  program addresses, the decoders of token accounts, of TOML and of base58 are parameters; the data of an account is never nil. \<open>None\<close> is a panic.
\<close>

section \<open>The list account\<close>

definition lstStateSize :: nat where "lstStateSize = 80"
definition offLsSolValue :: nat where "offLsSolValue = 8"
definition offLsMint :: nat where "offLsMint = 16"
definition offLsSolValueCalculator :: nat where "offLsSolValueCalculator = 48"

lemmas lst_layout = lstStateSize_def offLsSolValue_def offLsMint_def offLsSolValueCalculator_def

record lst_entry =
  EMint :: pubkey
  SolValueCalculator :: pubkey
  SolValue :: u64
  PoolState :: pubkey
  Reserve :: u64

definition zero_key :: pubkey where
  "zero_key = replicate 32 0"

definition parse_entry :: "(byte list \<Rightarrow> pubkey) \<Rightarrow> byte list \<Rightarrow> nat \<Rightarrow> lst_entry option" where
  "parse_entry pkfb data off = do {
     v \<leftarrow> read_u64 data (off + offLsSolValue);
     m \<leftarrow> read_pubkey pkfb data (off + offLsMint);
     c \<leftarrow> read_pubkey pkfb data (off + offLsSolValueCalculator);
     Some \<lparr>EMint = m, SolValueCalculator = c, SolValue = v, PoolState = zero_key, Reserve = 0\<rparr> }"

definition ParseLstStateList :: "(byte list \<Rightarrow> pubkey) \<Rightarrow> byte list \<Rightarrow> lst_entry list option" where
  "ParseLstStateList pkfb data =
     fold (\<lambda>i acc. do {
       entries \<leftarrow> acc;
       entry \<leftarrow> parse_entry pkfb data (i * lstStateSize);
       Some (if EMint entry = zero_key then entries else entries @ [entry]) }) [0..<length data div lstStateSize] (Some [])"

section \<open>The handler\<close>

record env =
  poolStatePDA :: pubkey
  LstStateListPDA :: pubkey
  tokenProgramID :: pubkey
  AssociatedTokenProgramID :: pubkey
  weightAll :: u32
  findProgramAddress :: "byte list list \<Rightarrow> pubkey \<Rightarrow> pubkey option"
  decodeToken :: "byte list \<Rightarrow> token_account option"
  fromBytes :: "byte list \<Rightarrow> pubkey"

text \<open>The two addresses that are derived when the program starts; it panics when one cannot be.\<close>

definition init_pdas :: "(byte list list \<Rightarrow> pubkey \<Rightarrow> pubkey option) \<Rightarrow> pubkey \<Rightarrow> (pubkey \<times> pubkey) option" where
  "init_pdas derive programID = do {
     pool \<leftarrow> derive [map of_char ''state''] programID;
     list \<leftarrow> derive [map of_char ''lst-state-list''] programID;
     Some (pool, list) }"

definition FindPoolReservesAddress :: "env \<Rightarrow> pubkey \<Rightarrow> pubkey option" where
  "FindPoolReservesAddress e mint = findProgramAddress e [poolStatePDA e, tokenProgramID e, mint] (AssociatedTokenProgramID e)"

record 't handler =
  slot :: u64
  pss :: "'t option"
  sendSubCount :: u32
  lstData :: "byte list option"
  lsts :: "lst_entry list option"
  mReserve :: "pubkey \<rightharpoonup> nat"
  cause :: "pubkey option"

definition createHandler :: "'t handler" where
  "createHandler = \<lparr>slot = 0, pss = None, sendSubCount = 0, lstData = None, lsts = None, mReserve = Map.empty, cause = None\<rparr>"

definition cancel :: "pubkey \<Rightarrow> 't handler \<Rightarrow> 't handler" where
  "cancel k h = (if cause h = None then h\<lparr>cause := Some k\<rparr> else h)"

definition CommitStart :: "u64 \<Rightarrow> 't handler \<Rightarrow> 't handler" where
  "CommitStart s h = h\<lparr>slot := s\<rparr>"

definition CommitFinish :: "(u64 \<Rightarrow> 't \<Rightarrow> bool \<times> 't) \<Rightarrow> 't handler \<Rightarrow> bool \<times> 't handler" where
  "CommitFinish check h =
     (if sendSubCount h = 0 then (False, h)
      else case pss h of
        None \<Rightarrow> (False, h)
      | Some g \<Rightarrow> (case check (slot h) g of (isDone, g') \<Rightarrow> (isDone, h\<lparr>pss := Some g'\<rparr>)))"

definition Init :: "env \<Rightarrow> 't \<Rightarrow> (pending_subscription \<Rightarrow> 't \<Rightarrow> 't) \<Rightarrow> 't handler \<Rightarrow> 't handler" where
  "Init e newTracker subscribe h =
     h\<lparr>sendSubCount := sendSubCount h + 2,
       pss := Some (subscribe \<lparr>root = LstStateListPDA e, weight = weightAll e, depth = 1\<rparr>
                     (subscribe \<lparr>root = poolStatePDA e, weight = weightAll e, depth = 1\<rparr> newTracker))\<rparr>"

text \<open>The loop over the entries; the entry at position \<open>i\<close> of the list is the one a reserve account refers to.\<close>

fun subscribe_each :: "env \<Rightarrow> (pending_subscription \<Rightarrow> 't \<Rightarrow> 't) \<Rightarrow> nat \<Rightarrow> lst_entry list \<Rightarrow> 't handler \<Rightarrow> 't handler option" where
  "subscribe_each e subscribe i [] h = Some h"
| "subscribe_each e subscribe i (x # xs) h =
     (case FindPoolReservesAddress e (EMint x) of
        None \<Rightarrow> subscribe_each e subscribe (Suc i) xs h
      | Some k \<Rightarrow>
          (case pss h of
             None \<Rightarrow> None
           | Some g \<Rightarrow> subscribe_each e subscribe (Suc i) xs
               (h\<lparr>mReserve := (mReserve h)(k \<mapsto> i), sendSubCount := sendSubCount h + 1, pss := Some (subscribe \<lparr>root = k, weight = 0, depth = 1\<rparr> g)\<rparr>)))"

definition subscribeReserves :: "env \<Rightarrow> (pending_subscription \<Rightarrow> 't \<Rightarrow> 't) \<Rightarrow> 't handler \<Rightarrow> 't handler option" where
  "subscribeReserves e subscribe h =
     (if lsts h \<noteq> None then Some h
      else do {
        entries \<leftarrow> ParseLstStateList (fromBytes e) (case lstData h of None \<Rightarrow> [] | Some d \<Rightarrow> d);
        subscribe_each e subscribe 0 entries (h\<lparr>lsts := Some entries, mReserve := Map.empty\<rparr>) })"

definition OnAccount :: "env \<Rightarrow> (pending_subscription \<Rightarrow> 't \<Rightarrow> 't) \<Rightarrow> account \<Rightarrow> 't handler \<Rightarrow> 't handler option" where
  "OnAccount e subscribe a h =
     (if Pubkey a = LstStateListPDA e then subscribeReserves e subscribe (h\<lparr>lstData := Some (Data a)\<rparr>)
      else case mReserve h (Pubkey a) of
        None \<Rightarrow> Some h
      | Some i \<Rightarrow>
          if Owner a \<noteq> tokenProgramID e then Some h
          else if length (Data a) < 165 then Some h
          else (case decodeToken e (Data a) of
            None \<Rightarrow> Some (cancel (Pubkey a) h)
          | Some b \<Rightarrow> Some (h\<lparr>lsts := map_option (\<lambda>es. es[i := (es ! i)\<lparr>Reserve := TAmount b\<rparr>]) (lsts h)\<rparr>)))"

section \<open>The registry of stake pools\<close>

record list_entry =
  LMint :: string
  Program :: string
  Pool :: string

text \<open>\<open>decoded\<close> is the vendored list, or the failure to decode it.\<close>

definition poolStateRegistry :: "(string \<Rightarrow> pubkey option) \<Rightarrow> unit + list_entry list \<Rightarrow> unit + (pubkey \<rightharpoonup> pubkey)" where
  "poolStateRegistry fromBase58 decoded =
     (case decoded of
        Inl err \<Rightarrow> Inl err
      | Inr entries \<Rightarrow> Inr (fold (\<lambda>x reg.
          if Program x \<notin> {''SanctumSpl'', ''SanctumSplMulti'', ''Spl''} then reg
          else case (fromBase58 (LMint x), fromBase58 (Pool x)) of
                 (Some m, Some p) \<Rightarrow> reg(m \<mapsto> p)
               | _ \<Rightarrow> reg) entries Map.empty))"

section \<open>The table\<close>

record lst_row =
  sol_value_calculator :: "byte list"
  sol_value :: int
  pool_state :: "byte list option"
  reserve :: int

type_synonym lst_table = "(pubkey \<times> lst_row) list"

definition lstCount :: "(stmt \<Rightarrow> bool) \<Rightarrow> lst_table \<Rightarrow> store_error + nat" where
  "lstCount fails t = (if fails SCount then Inl CountFailed else Inr (length t))"

definition lst_row_of :: "lst_entry \<Rightarrow> lst_row" where
  "lst_row_of x = \<lparr>sol_value_calculator = SolValueCalculator x, sol_value = to_int64 (SolValue x),
     pool_state = (if PoolState x \<noteq> zero_key then Some (PoolState x) else None), reserve = to_int64 (Reserve x)\<rparr>"

definition insertLsts :: "(stmt \<Rightarrow> bool) \<Rightarrow> lst_entry list \<Rightarrow> lst_table \<Rightarrow> store_error + lst_table" where
  "insertLsts fails xs t = insert_rows fails EMint lst_row_of xs t"

definition scan_lst :: "(byte list \<Rightarrow> pubkey) \<Rightarrow> pubkey \<times> lst_row \<Rightarrow> lst_entry" where
  "scan_lst pkfb = (\<lambda>(k, r). \<lparr>EMint = pkfb k, SolValueCalculator = pkfb (sol_value_calculator r), SolValue = to_uint64 (sol_value r),
     PoolState = (case pool_state r of None \<Rightarrow> zero_key | Some p \<Rightarrow> pkfb p), Reserve = to_uint64 (reserve r)\<rparr>)"

definition loadLsts :: "(byte list \<Rightarrow> pubkey) \<Rightarrow> (stmt \<Rightarrow> bool) \<Rightarrow> lst_table \<Rightarrow> store_error + lst_entry list" where
  "loadLsts pkfb fails t = (if fails SSelect then Inl QueryFailed else Inr (map (scan_lst pkfb) t))"

section \<open>Start, ranking and export\<close>

datatype sanctum_error = ListNotFound | StoreFailed store_error

text \<open>\<open>fetch\<close>: the stream gives back the handler or an error. The pools of the registry are written into the entries; without a registry they stay empty.\<close>

definition fetch :: "unit + (pubkey \<rightharpoonup> pubkey) \<Rightarrow> ('t handler \<Rightarrow> unit + 't handler) \<Rightarrow> sanctum_error + lst_entry list" where
  "fetch registry hook =
     (case hook createHandler of
        Inl err \<Rightarrow> Inl (StoreFailed HookFailed)
      | Inr h \<Rightarrow>
          if lstData h = None then Inl ListNotFound
          else let xs = (case lsts h of None \<Rightarrow> [] | Some xs \<Rightarrow> xs)
               in Inr (case registry of
                    Inl err \<Rightarrow> xs
                  | Inr reg \<Rightarrow> map (\<lambda>x. case reg (EMint x) of None \<Rightarrow> x | Some p \<Rightarrow> x\<lparr>PoolState := p\<rparr>) xs))"

definition Create ::
  "(byte list \<Rightarrow> pubkey) \<Rightarrow> (stmt \<Rightarrow> bool) \<Rightarrow> unit + (pubkey \<rightharpoonup> pubkey) \<Rightarrow> ('t handler \<Rightarrow> unit + 't handler) \<Rightarrow> bool \<Rightarrow> lst_table \<Rightarrow>
     (sanctum_error + lst_entry list) \<times> lst_table" where
  "Create pkfb fails registry hook force t =
     (case lstCount fails t of
        Inl err \<Rightarrow> (Inl (StoreFailed err), t)
      | Inr n \<Rightarrow>
          if n = 0 \<or> force then
            (case fetch registry hook of
               Inl err \<Rightarrow> (Inl err, t)
             | Inr xs \<Rightarrow> (case insertLsts fails xs t of Inl err \<Rightarrow> (Inl (StoreFailed err), t) | Inr t' \<Rightarrow> (Inr xs, t')))
          else (case loadLsts pkfb fails t of Inl err \<Rightarrow> (Inl (StoreFailed err), t) | Inr xs \<Rightarrow> (Inr xs, t)))"

text \<open>\<open>TopPools\<close>: the signed column decides; \<open>hex\<close> is SQLite's.\<close>

definition TopPools :: "(byte list \<Rightarrow> string) \<Rightarrow> bool \<Rightarrow> nat \<Rightarrow> lst_table \<Rightarrow> store_error + string" where
  "TopPools hex fails n t =
     (if fails then Inl QueryFailed
      else let rows = map (\<lambda>(k, r). ''mint='' @ hex k) (top_rows (\<lambda>(k, r). sol_value r) n t);
               header = ''Sanctum liquid-staking tokens, ranked by redeemable SOL value highest first:'' @ [CHR 0x0A]
           in Inr (if rows = [] then header @ ''(no LSTs found)'' else header @ join '';'' rows))"

text \<open>\<open>ExportJSON\<close> up to the list that is encoded.\<close>

definition ExportJSON :: "(byte list \<Rightarrow> pubkey) \<Rightarrow> (stmt \<Rightarrow> bool) \<Rightarrow> bool \<Rightarrow> lst_table \<Rightarrow> store_error + lst_entry list" where
  "ExportJSON pkfb fails createFails t =
     (case loadLsts pkfb fails t of
        Inl err \<Rightarrow> Inl err
      | Inr xs \<Rightarrow> if createFails then Inl CreateFileFailed else Inr xs)"

section \<open>What the list holds\<close>

definition entry_at :: "(byte list \<Rightarrow> pubkey) \<Rightarrow> byte list \<Rightarrow> nat \<Rightarrow> lst_entry" where
  "entry_at pkfb data i = \<lparr>EMint = key_at pkfb data (i * 80 + 16), SolValueCalculator = key_at pkfb data (i * 80 + 48), SolValue = u64_at data (i * 80 + 8),
     PoolState = zero_key, Reserve = 0\<rparr>"

definition entries_of :: "(byte list \<Rightarrow> pubkey) \<Rightarrow> byte list \<Rightarrow> lst_entry list" where
  "entries_of pkfb data = filter (\<lambda>x. EMint x \<noteq> zero_key) (map (entry_at pkfb data) [0..<length data div 80])"

text \<open>The parser does not panic and gives the entries of all whole slots with a mint.\<close>

lemma ParseLstStateList_reads: "ParseLstStateList pkfb data = Some (entries_of pkfb data)"
proof -
  have one: "parse_entry pkfb data (i * 80) = Some (entry_at pkfb data i)" if "i < length data div 80" for i
  proof -
    have "i * 80 + 80 \<le> length data" using that by (metis Suc_leI div_times_less_eq_dividend le_trans mult_Suc mult_le_mono1 add.commute)
    then show ?thesis by (simp add: parse_entry_def entry_at_def lst_layout go_reads)
  qed
  have "fold (\<lambda>i acc. do { entries \<leftarrow> acc; entry \<leftarrow> parse_entry pkfb data (i * 80); Some (if EMint entry = zero_key then entries else entries @ [entry]) }) is (Some acc) =
      Some (acc @ filter (\<lambda>x. EMint x \<noteq> zero_key) (map (entry_at pkfb data) is))" if "\<forall>i \<in> set is. i < length data div 80" for "is" acc
    using that by (induction "is" arbitrary: acc) (simp_all add: one)
  then show ?thesis by (simp add: ParseLstStateList_def entries_of_def lst_layout)
qed

section \<open>What a run holds\<close>

text \<open>The first arrival of the list account, with what came after it.\<close>

definition after_list :: "env \<Rightarrow> account list \<Rightarrow> (account \<times> account list) option" where
  "after_list e as = (case dropWhile (\<lambda>a. Pubkey a \<noteq> LstStateListPDA e) as of [] \<Rightarrow> None | l # post \<Rightarrow> Some (l, post))"

lemma after_list_snoc:
  "after_list e (as @ [a]) = (case after_list e as of
     None \<Rightarrow> if Pubkey a = LstStateListPDA e then Some (a, []) else None
   | Some (l, post) \<Rightarrow> Some (l, post @ [a]))"
  by (induction as) (auto simp: after_list_def split: list.split)

lemma after_list_append: "after_list e as = Some (l, post) \<Longrightarrow> after_list e (as @ bs) = Some (l, post @ bs)"
  by (induction bs rule: rev_induct) (simp_all add: after_list_snoc flip: append_assoc)

text \<open>The amount on a token account, when the handler reads it; the last one seen on a key.\<close>

definition amount_of :: "env \<Rightarrow> account \<Rightarrow> u64 option" where
  "amount_of e a = (if Owner a = tokenProgramID e \<and> 165 \<le> length (Data a) then map_option TAmount (decodeToken e (Data a)) else None)"

definition last_amount :: "env \<Rightarrow> pubkey \<Rightarrow> account list \<Rightarrow> u64" where
  "last_amount e k as = fold (\<lambda>a v. if Pubkey a = k then (case amount_of e a of None \<Rightarrow> v | Some x \<Rightarrow> x) else v) as 0"

definition with_reserve :: "env \<Rightarrow> account list \<Rightarrow> lst_entry \<Rightarrow> lst_entry" where
  "with_reserve e post x = x\<lparr>Reserve := (case FindPoolReservesAddress e (EMint x) of None \<Rightarrow> 0 | Some k \<Rightarrow> last_amount e k post)\<rparr>"

definition reserves_of :: "env \<Rightarrow> lst_entry list \<Rightarrow> pubkey set" where
  "reserves_of e xs = {k. \<exists>x \<in> set xs. FindPoolReservesAddress e (EMint x) = Some k}"

text \<open>Program addresses do not collide: two mints have two reserve accounts, and none is the list account.\<close>

definition derives_apart :: "env \<Rightarrow> bool" where
  "derives_apart e \<longleftrightarrow> (\<forall>m m' k. FindPoolReservesAddress e m = Some k \<longrightarrow> k \<noteq> LstStateListPDA e \<and> (FindPoolReservesAddress e m' = Some k \<longrightarrow> m = m'))"

type_synonym tracked = "(pending_subscription list, ack_receive list) pss handler"

lemma subscribe_each_ok:
  assumes "derives_apart e" and "distinct (map EMint xs)" and "pss h = Some g" and "tracker_inv id id g"
  shows "\<exists>h' g'. subscribe_each e track i xs h = Some h' \<and> pss h' = Some g' \<and> tracker_inv id id g' \<and> mDedup g' = mDedup g \<union> reserves_of e xs \<and>
    lsts h' = lsts h \<and> lstData h' = lstData h \<and> cause h' = cause h \<and>
    (\<forall>k v. mReserve h' k = Some v \<longleftrightarrow> (\<exists>j < length xs. v = i + j \<and> FindPoolReservesAddress e (EMint (xs ! j)) = Some k) \<or> mReserve h k = Some v \<and> k \<notin> reserves_of e xs)"
  using assms(2-)
proof (induction xs arbitrary: i h g)
  case Nil
  then show ?case by (simp add: reserves_of_def)
next
  case (Cons x xs)
  have r: "reserves_of e (x # xs) = set_option (FindPoolReservesAddress e (EMint x)) \<union> reserves_of e xs" by (auto simp: reserves_of_def)
  have ex: "(\<exists>j < length (x # xs). v = i + j \<and> FindPoolReservesAddress e (EMint ((x # xs) ! j)) = Some k) \<longleftrightarrow>
      v = i \<and> FindPoolReservesAddress e (EMint x) = Some k \<or> (\<exists>j < length xs. v = Suc i + j \<and> FindPoolReservesAddress e (EMint (xs ! j)) = Some k)" for k v
    by (auto simp: less_Suc_eq_0_disj)
  show ?case
  proof (cases "FindPoolReservesAddress e (EMint x)")
    case None
    then show ?thesis using Cons.IH [of h g "Suc i"] Cons.prems unfolding r ex by auto
  next
    case (Some k0)
    let ?g = "track \<lparr>root = k0, weight = 0, depth = 1\<rparr> g"
    let ?h = "h\<lparr>mReserve := (mReserve h)(k0 \<mapsto> i), sendSubCount := sendSubCount h + 1, pss := Some ?g\<rparr>"
    have new: "k0 \<notin> reserves_of e xs"
      using assms(1) Some Cons.prems(1) by (auto simp: reserves_of_def derives_apart_def image_iff)
    have p: "pss ?h = Some ?g" "distinct (map EMint xs)" using Cons.prems(1) by simp_all
    obtain h' g' where h': "subscribe_each e track (Suc i) xs ?h = Some h'" "pss h' = Some g'" "tracker_inv id id g'" "mDedup g' = mDedup ?g \<union> reserves_of e xs"
        "lsts h' = lsts ?h" "lstData h' = lstData ?h" "cause h' = cause ?h"
        "\<And>k v. mReserve h' k = Some v \<longleftrightarrow> (\<exists>j < length xs. v = Suc i + j \<and> FindPoolReservesAddress e (EMint (xs ! j)) = Some k) \<or> mReserve ?h k = Some v \<and> k \<notin> reserves_of e xs"
      using Cons.IH [OF p(2,1) pssl.subscribe_inv [OF Cons.prems(3)], of "Suc i"] by blast
    have "mReserve h' k = Some v \<longleftrightarrow> (\<exists>j < length (x # xs). v = i + j \<and> FindPoolReservesAddress e (EMint ((x # xs) ! j)) = Some k) \<or> mReserve h k = Some v \<and> k \<notin> reserves_of e (x # xs)" for k v
      unfolding h'(8) ex r using Some new by auto
    then show ?thesis using h'(1-7) Some Cons.prems(2) by (intro exI [of _ h'] exI [of _ g'] conjI h'(2,3)) (simp_all add: r pssl.known_subscribe)
  qed
qed

definition next_commit :: "(u64 \<Rightarrow> 't \<Rightarrow> bool \<times> 't) \<Rightarrow> u64 \<Rightarrow> 't handler \<Rightarrow> 't handler" where
  "next_commit check s h = CommitStart s (snd (CommitFinish check h))"

text \<open>Streams in which token accounts decode, and a list without a mint twice.\<close>

definition list_fits :: "env \<Rightarrow> account \<Rightarrow> bool" where
  "list_fits e l \<longleftrightarrow> distinct (map EMint (entries_of (fromBytes e) (Data l)))"

definition decodes :: "env \<Rightarrow> account \<Rightarrow> bool" where
  "decodes e a \<longleftrightarrow> Owner a = tokenProgramID e \<longrightarrow> 165 \<le> length (Data a) \<longrightarrow> decodeToken e (Data a) \<noteq> None"

definition sanctum_fits :: "env \<Rightarrow> account list \<Rightarrow> bool" where
  "sanctum_fits e as \<longleftrightarrow> list_all (decodes e) as \<and> (\<forall>l post. after_list e as = Some (l, post) \<longrightarrow> list_fits e l)"

definition asked_for :: "env \<Rightarrow> account list \<Rightarrow> pubkey set" where
  "asked_for e as = {poolStatePDA e, LstStateListPDA e} \<union> (case after_list e as of None \<Rightarrow> {} | Some (l, post) \<Rightarrow> reserves_of e (entries_of (fromBytes e) (Data l)))"

text \<open>The invariant: nothing is known until the list arrives; from then on its entries, with the last amounts seen on their reserve accounts.\<close>

definition holds :: "env \<Rightarrow> account list \<Rightarrow> tracked \<Rightarrow> bool" where
  "holds e as h \<longleftrightarrow> (\<exists>g. pss h = Some g \<and> tracker_inv id id g \<and> mDedup g = asked_for e as) \<and> cause h = None \<and>
     (case after_list e as of
        None \<Rightarrow> lstData h = None \<and> lsts h = None \<and> mReserve h = Map.empty
      | Some (l, post) \<Rightarrow>
          lstData h \<noteq> None \<and> lsts h = Some (map (with_reserve e post) (entries_of (fromBytes e) (Data l))) \<and>
          (\<forall>k i. mReserve h k = Some i \<longleftrightarrow> i < length (entries_of (fromBytes e) (Data l)) \<and> FindPoolReservesAddress e (EMint (entries_of (fromBytes e) (Data l) ! i)) = Some k))"

lemma reserve_amount_snoc: "last_amount e k (post @ [a]) = (if Pubkey a = k then (case amount_of e a of None \<Rightarrow> last_amount e k post | Some x \<Rightarrow> x) else last_amount e k post)"
  by (simp add: last_amount_def split: option.split)

lemma with_reserve_same:
  "FindPoolReservesAddress e (EMint x) \<noteq> Some (Pubkey a) \<or> amount_of e a = None \<Longrightarrow> with_reserve e (post @ [a]) x = with_reserve e post x"
  by (auto simp: with_reserve_def reserve_amount_snoc split: option.split)

lemma with_reserve_new:
  "FindPoolReservesAddress e (EMint x) = Some (Pubkey a) \<Longrightarrow> amount_of e a = Some v \<Longrightarrow> with_reserve e (post @ [a]) x = (with_reserve e post x)\<lparr>Reserve := v\<rparr>"
  by (simp add: with_reserve_def reserve_amount_snoc)

lemma EMint_with_reserve [simp]: "EMint (with_reserve e post x) = EMint x"
  by (simp add: with_reserve_def)

text \<open>A further account, after the list, changes the entries as the specification does.\<close>

lemma reserve_step:
  assumes "derives_apart e" and "distinct (map EMint xs)" and "i < length xs" and "FindPoolReservesAddress e (EMint (xs ! i)) = Some (Pubkey a)" and "amount_of e a = Some v"
  shows "map (with_reserve e (post @ [a])) xs = (map (with_reserve e post) xs)[i := (map (with_reserve e post) xs ! i)\<lparr>Reserve := v\<rparr>]"
proof (rule nth_equalityI)
  fix j
  assume j: "j < length (map (with_reserve e (post @ [a])) xs)"
  show "map (with_reserve e (post @ [a])) xs ! j = (map (with_reserve e post) xs)[i := (map (with_reserve e post) xs ! i)\<lparr>Reserve := v\<rparr>] ! j"
  proof (cases "j = i")
    case True
    then show ?thesis using assms(3) with_reserve_new [OF assms(4,5)] by simp
  next
    case False
    then have "EMint (xs ! j) \<noteq> EMint (xs ! i)" using assms(2,3) j nth_eq_iff_index_eq [of "map EMint xs" j i] by simp
    then have "FindPoolReservesAddress e (EMint (xs ! j)) \<noteq> Some (Pubkey a)" using assms(1,4) unfolding derives_apart_def by blast
    then show ?thesis using False j with_reserve_same [of e "xs ! j" a post] by simp
  qed
qed simp

lemma sanctum_first_list:
  assumes "derives_apart e" and "after_list e as = None" and "Pubkey a = LstStateListPDA e" and "list_fits e a" and "holds e as h"
  shows "\<exists>h'. OnAccount e track a h = Some h' \<and> holds e (as @ [a]) h'"
proof -
  let ?xs = "entries_of (fromBytes e) (Data a)"
  let ?h = "h\<lparr>lstData := Some (Data a), lsts := Some ?xs, mReserve := Map.empty\<rparr>"
  obtain g where g: "pss h = Some g" "tracker_inv id id g" "mDedup g = asked_for e as" using assms(5) by (auto simp: holds_def)
  have h: "lsts h = None" "cause h = None" using assms(2,5) by (simp_all add: holds_def)
  obtain h' g' where h': "subscribe_each e track 0 ?xs ?h = Some h'" "pss h' = Some g'" "tracker_inv id id g'" "mDedup g' = mDedup g \<union> reserves_of e ?xs"
      "lsts h' = Some ?xs" "lstData h' = Some (Data a)" "cause h' = None"
      "\<And>k v. mReserve h' k = Some v \<longleftrightarrow> v < length ?xs \<and> FindPoolReservesAddress e (EMint (?xs ! v)) = Some k"
    using subscribe_each_ok [OF assms(1), of ?xs ?h g 0] assms(4) g h(2) by (auto simp: list_fits_def)
  have "map (with_reserve e []) ?xs = ?xs"
    by (rule map_idI) (auto simp: with_reserve_def last_amount_def entries_of_def entry_at_def split: option.split)
  moreover have "OnAccount e track a h = Some h'" using assms(3) h(1) h'(1) by (simp add: OnAccount_def subscribeReserves_def ParseLstStateList_reads)
  ultimately show ?thesis using h'(2-8) assms(2,3) g(3) by (auto simp: holds_def after_list_snoc asked_for_def)
qed

lemma sanctum_later:
  assumes "derives_apart e" and "after_list e as = Some (l, post)" and "decodes e a" and "list_fits e l" and "holds e as h"
  shows "\<exists>h'. OnAccount e track a h = Some h' \<and> holds e (as @ [a]) h'"
proof -
  let ?xs = "entries_of (fromBytes e) (Data l)"
  have n: "after_list e (as @ [a]) = Some (l, post @ [a])" "asked_for e (as @ [a]) = asked_for e as" using assms(2) by (simp_all add: after_list_snoc asked_for_def)
  have h: "lsts h = Some (map (with_reserve e post) ?xs)" "lstData h \<noteq> None"
      "\<And>k i. mReserve h k = Some i \<longleftrightarrow> i < length ?xs \<and> FindPoolReservesAddress e (EMint (?xs ! i)) = Some k"
    using assms(2,5) by (simp_all add: holds_def)
  have same: ?thesis if "OnAccount e track a h = Some (h\<lparr>lstData := d\<rparr>)" "d \<noteq> None" "map (with_reserve e (post @ [a])) ?xs = map (with_reserve e post) ?xs" for d
    using that assms(2,5) by (intro exI [of _ "h\<lparr>lstData := d\<rparr>"]) (simp add: holds_def n)
  show ?thesis
  proof (cases "Pubkey a = LstStateListPDA e")
    case True
    then have "FindPoolReservesAddress e m \<noteq> Some (Pubkey a)" for m using assms(1) by (auto simp: derives_apart_def)
    then show ?thesis using True h(1) by (intro same [of "Some (Data a)"]) (simp_all add: OnAccount_def subscribeReserves_def with_reserve_same)
  next
    case other: False
    have keep: "h\<lparr>lstData := lstData h\<rparr> = h" by simp
    show ?thesis
    proof (cases "mReserve h (Pubkey a)")
      case None
      then have "FindPoolReservesAddress e (EMint x) \<noteq> Some (Pubkey a)" if "x \<in> set ?xs" for x
        using h(3) [of "Pubkey a"] that by (auto simp: in_set_conv_nth)
      then show ?thesis using None other h(2) by (intro same [of "lstData h"]) (simp_all add: OnAccount_def with_reserve_same)
    next
      case (Some i)
      then have i: "i < length ?xs" "FindPoolReservesAddress e (EMint (?xs ! i)) = Some (Pubkey a)" using h(3) by simp_all
      show ?thesis
      proof (cases "amount_of e a")
        case None
        then show ?thesis using Some other h(2) assms(3)
          by (intro same [of "lstData h"]) (auto simp: OnAccount_def with_reserve_same decodes_def amount_of_def split: if_splits)
      next
        case (Some v)
        have "OnAccount e track a h = Some (h\<lparr>lsts := Some (map (with_reserve e (post @ [a])) ?xs)\<rparr>)"
          using other h(1) Some \<open>mReserve h (Pubkey a) = Some i\<close> reserve_step [OF assms(1) _ i Some, of post] assms(4)
          by (auto simp: OnAccount_def amount_of_def list_fits_def split: if_splits)
        then show ?thesis using assms(2,5) n by (auto simp: holds_def)
      qed
    qed
  qed
qed

lemma sanctum_before:
  "after_list e as = None \<Longrightarrow> Pubkey a \<noteq> LstStateListPDA e \<Longrightarrow> holds e as h \<Longrightarrow> OnAccount e track a h = Some h \<and> holds e (as @ [a]) h"
  by (simp add: holds_def OnAccount_def after_list_snoc asked_for_def)

lemma sanctum_commit: "holds e as h \<Longrightarrow> holds e as (next_commit (poll ready) s h)"
proof -
  assume h: "holds e as h"
  then obtain g where g: "pss h = Some g" "tracker_inv id id g" "mDedup g = asked_for e as" by (auto simp: holds_def)
  have "\<exists>g'. next_commit (poll ready) s h = h\<lparr>slot := s, pss := Some g'\<rparr> \<and> tracker_inv id id g' \<and> mDedup g' = asked_for e as"
    using g poll_frame [OF g(2), of ready "slot h"]
    by (intro exI [of _ "if sendSubCount h = 0 then g else snd (poll ready (slot h) g)"]) (simp add: next_commit_def CommitStart_def CommitFinish_def split: prod.split)
  then obtain g' where n: "next_commit (poll ready) s h = h\<lparr>slot := s, pss := Some g'\<rparr>" "tracker_inv id id g'" "mDedup g' = asked_for e as" by blast
  show ?thesis unfolding n(1) using h n(2,3) by (cases "after_list e as") (auto simp: holds_def)
qed

interpretation sanctum: handler_history "OnAccount e track" "next_commit (poll ready)" "\<lambda>_. True" "\<lambda>as. derives_apart e \<and> sanctum_fits e as" "holds e"
  for e ready
proof
  fix as bs
  assume "derives_apart e \<and> sanctum_fits e (as @ bs)"
  then show "derives_apart e \<and> sanctum_fits e as" using after_list_append [of e as _ _ bs] by (auto simp: sanctum_fits_def)
next
  fix as a h
  assume f: "derives_apart e \<and> sanctum_fits e (as @ [a])" and h: "holds e as h"
  show "\<exists>h'. OnAccount e track a h = Some h' \<and> holds e (as @ [a]) h'"
  proof (cases "after_list e as")
    case None
    then show ?thesis using f h sanctum_first_list [of e as a h] sanctum_before [of e as a h]
      by (cases "Pubkey a = LstStateListPDA e") (auto simp: sanctum_fits_def after_list_snoc)
  next
    case (Some lp)
    then obtain l post where "after_list e as = Some (l, post)" by (cases lp) simp
    then show ?thesis using f h sanctum_later [of e as l post a h] by (simp add: sanctum_fits_def after_list_snoc)
  qed
qed (rule sanctum_commit)

text \<open>A stream of these calls, as \<open>Hook\<close> runs it on the new handler.\<close>

abbreviation first_commit :: "env \<Rightarrow> u64 \<Rightarrow> tracked \<Rightarrow> tracked" where
  "first_commit e s h \<equiv> CommitStart s (Init e (new_tracker 60) track h)"

definition stream :: "env \<Rightarrow> (u64 \<Rightarrow> nat \<Rightarrow> bool) \<Rightarrow> u64 \<Rightarrow> call list \<Rightarrow> tracked \<Rightarrow> unit + tracked" where
  "stream e ready s cs h = (case run_calls (OnAccount e track) (next_commit (poll ready)) cs (first_commit e s h) of None \<Rightarrow> Inl () | Some h' \<Rightarrow> Inr h')"

lemma sanctum_stream:
  assumes "derives_apart e" and "sanctum_fits e (accounts_of cs)"
  shows "\<exists>h. stream e ready s cs createHandler = Inr h \<and> holds e (accounts_of cs) h"
proof -
  have "holds e [] (first_commit e s createHandler)"
    using new_tracker_ok [of 60] by (simp add: holds_def after_list_def asked_for_def CommitStart_def Init_def createHandler_def pssl.subscribe_inv pssl.known_subscribe insert_commute)
  then show ?thesis using sanctum.run_inv [of e "[]" cs _ ready] assms by (fastforce simp: stream_def)
qed

section \<open>Saving and loading\<close>

definition lst_keys :: "(byte list \<Rightarrow> pubkey) \<Rightarrow> lst_entry \<Rightarrow> bool" where
  "lst_keys pkfb x \<longleftrightarrow> pkfb (EMint x) = EMint x \<and> pkfb (SolValueCalculator x) = SolValueCalculator x \<and> pkfb (PoolState x) = PoolState x"

interpretation sanctum_store: market_store EMint lst_row_of scan_lst lst_keys
  by unfold_locales (auto simp: scan_lst_def lst_row_of_def lst_keys_def)

text \<open>Entries with different mints load back from an empty table as they were, in their order, with 64-bit values beyond the signed columns.\<close>

lemma fresh_rows:
  "distinct (map EMint xs) \<Longrightarrow> \<forall>x \<in> set xs. EMint x \<notin> fst ` set t \<Longrightarrow>
     fold_err (\<lambda>p t. Inr (replace_row (EMint p) (lst_row_of p) t)) xs t = (Inr (t @ map (\<lambda>x. (EMint x, lst_row_of x)) xs) :: 'e + lst_table)"
proof (induction xs arbitrary: t)
  case (Cons x xs)
  have "replace_row (EMint x) (lst_row_of x) t = t @ [(EMint x, lst_row_of x)]"
    using Cons.prems(2) by (force simp: replace_row_def filter_id_conv)
  moreover have "EMint y \<notin> fst ` set (t @ [(EMint x, lst_row_of x)])" if "y \<in> set xs" for y using Cons.prems that by (force simp: image_iff)
  ultimately show ?case using Cons.IH [of "t @ [(EMint x, lst_row_of x)]"] Cons.prems(1) by simp
qed simp

lemma lsts_saved:
  assumes "distinct (map EMint xs)" and "\<forall>x \<in> set xs. lst_keys pkfb x"
  shows "\<exists>t'. insertLsts (\<lambda>_. False) xs [] = Inr t' \<and> loadLsts pkfb (\<lambda>_. False) t' = Inr xs"
proof -
  have "map (scan_lst pkfb) (map (\<lambda>x. (EMint x, lst_row_of x)) xs) = xs"
    using assms(2) sanctum_store.scan_row by (auto intro: map_idI)
  moreover have "insertLsts (\<lambda>_. False) xs [] = Inr (map (\<lambda>x. (EMint x, lst_row_of x)) xs)"
    using fresh_rows [OF assms(1), of "[]", where 'e = store_error] by (simp add: insertLsts_def insert_rows_def)
  ultimately show ?thesis by (simp add: loadLsts_def)
qed

text \<open>What the registry adds to an entry.\<close>

definition with_pool :: "unit + (pubkey \<rightharpoonup> pubkey) \<Rightarrow> lst_entry \<Rightarrow> lst_entry" where
  "with_pool registry x = (case registry of Inl err \<Rightarrow> x | Inr reg \<Rightarrow> (case reg (EMint x) of None \<Rightarrow> x | Some p \<Rightarrow> x\<lparr>PoolState := p\<rparr>))"

lemma fetch_of_held:
  assumes "stream e ready s cs createHandler = Inr h" and "holds e (accounts_of cs) h"
  shows "fetch registry (stream e ready s cs) = (case after_list e (accounts_of cs) of
     None \<Rightarrow> Inl ListNotFound
   | Some (l, post) \<Rightarrow> Inr (map (with_pool registry \<circ> with_reserve e post) (entries_of (fromBytes e) (Data l))))"
  using assms by (auto simp: fetch_def holds_def with_pool_def comp_def split: option.splits sum.splits)

lemma entry_keys:
  assumes "key_codec pkfb" and "x \<in> set (entries_of pkfb d)" and "\<forall>reg m p. registry = Inr reg \<longrightarrow> reg m = Some p \<longrightarrow> length p = 32"
  shows "lst_keys pkfb (with_pool registry (with_reserve e post x)) \<and> EMint (with_pool registry (with_reserve e post x)) = EMint x"
proof -
  have z: "pkfb zero_key = zero_key" using assms(1) by (simp add: key_codec_id zero_key_def)
  obtain i where "x = entry_at pkfb d i" using assms(2) by (auto simp: entries_of_def)
  then show ?thesis using assms z by (auto simp: lst_keys_def with_pool_def with_reserve_def entry_at_def key_codec_id split: option.split sum.split)
qed


text \<open>(C18) A fetch of Sanctum: whatever accounts arrive and in whatever order, it asks for exactly the two program accounts and, once the list has arrived, the reserve accounts of its tokens. It
  gives back the entries of the first list in their order, each with the last amount seen on its reserve account after the list and the stake pool of the registry, and a later start loads the same
  entries from the table. Without a list it fails and stores nothing.\<close>

theorem sanctum_fetched_and_saved:
  assumes "derives_apart e" and "sanctum_fits e (accounts_of cs)" and "key_codec (fromBytes e)" and "\<forall>reg m p. registry = Inr reg \<longrightarrow> reg m = Some p \<longrightarrow> length p = 32"
  shows "\<exists>h g. stream e ready s cs createHandler = Inr h \<and> pss h = Some g \<and> mDedup g = asked_for e (accounts_of cs) \<and>
    (case after_list e (accounts_of cs) of
       None \<Rightarrow> Create (fromBytes e) (\<lambda>_. False) registry (stream e ready s cs) force [] = (Inl ListNotFound, [])
     | Some (l, post) \<Rightarrow> \<exists>xs t'. xs = map (with_pool registry \<circ> with_reserve e post) (entries_of (fromBytes e) (Data l)) \<and>
         Create (fromBytes e) (\<lambda>_. False) registry (stream e ready s cs) force [] = (Inr xs, t') \<and> loadLsts (fromBytes e) (\<lambda>_. False) t' = Inr xs)"
proof -
  obtain h where h: "stream e ready s cs createHandler = Inr h" "holds e (accounts_of cs) h" using sanctum_stream [OF assms(1,2)] by blast
  note f = fetch_of_held [OF h, of registry]
  show ?thesis
  proof (cases "after_list e (accounts_of cs)")
    case None
    then show ?thesis using h f by (auto simp: holds_def Create_def lstCount_def)
  next
    case (Some lp)
    then obtain l post where l: "after_list e (accounts_of cs) = Some (l, post)" by (cases lp) simp
    let ?xs = "map (with_pool registry \<circ> with_reserve e post) (entries_of (fromBytes e) (Data l))"
    have k: "lst_keys (fromBytes e) (with_pool registry (with_reserve e post x)) \<and> EMint (with_pool registry (with_reserve e post x)) = EMint x"
      if "x \<in> set (entries_of (fromBytes e) (Data l))" for x
      by (rule entry_keys [OF assms(3) that assms(4)])
    have "map EMint ?xs = map EMint (entries_of (fromBytes e) (Data l))" using k by simp
    then have "distinct (map EMint ?xs)" using assms(2) l by (simp only: sanctum_fits_def list_fits_def)
    then obtain t' where "insertLsts (\<lambda>_. False) ?xs [] = Inr t'" "loadLsts (fromBytes e) (\<lambda>_. False) t' = Inr ?xs"
      using lsts_saved [of ?xs "fromBytes e"] k by auto
    then show ?thesis using h f l by (auto simp: holds_def Create_def lstCount_def)
  qed
qed

abbreviation sanctum_env :: env where
  "sanctum_env \<equiv> \<lparr>poolStatePDA = replicate 32 3, LstStateListPDA = replicate 32 4, tokenProgramID = replicate 32 6, AssociatedTokenProgramID = replicate 32 7, weightAll = 7,
     findProgramAddress = (\<lambda>seeds p. Some (last seeds @ [1])), decodeToken = (\<lambda>b. Some \<lparr>TMint = replicate 32 5, TAmount = 500\<rparr>), fromBytes = copy_key\<rparr>"

abbreviation lst_account :: account where
  "lst_account \<equiv> \<lparr>Pubkey = replicate 32 4, Owner = replicate 32 9, HSlot = 0, DataSize = 80, Deleted = False, Data = replicate 80 5\<rparr>"

abbreviation lst_reserve_account :: account where
  "lst_reserve_account \<equiv> \<lparr>Pubkey = replicate 32 5 @ [1], Owner = replicate 32 6, HSlot = 0, DataSize = 165, Deleted = False, Data = replicate 165 5\<rparr>"

lemma lst_sample:
  "derives_apart sanctum_env"
  "after_list sanctum_env [lst_account, lst_reserve_account] = Some (lst_account, [lst_reserve_account])"
  "entries_of copy_key (replicate 80 5) = [\<lparr>EMint = replicate 32 5, SolValueCalculator = replicate 32 5, SolValue = u64_at (replicate 80 5) 8, PoolState = zero_key, Reserve = 0\<rparr>]"
proof -
  have "m @ [1] \<noteq> replicate 32 (4 :: byte)" for m
  proof
    assume "m @ [1] = replicate 32 (4 :: byte)"
    then have "1 \<in> set (replicate 32 (4 :: byte))" by (metis in_set_conv_decomp)
    then show False by simp
  qed
  then show "derives_apart sanctum_env" by (auto simp: derives_apart_def FindPoolReservesAddress_def)
  show "after_list sanctum_env [lst_account, lst_reserve_account] = Some (lst_account, [lst_reserve_account])" by (simp add: after_list_def)
  show "entries_of copy_key (replicate 80 5) = [\<lparr>EMint = replicate 32 5, SolValueCalculator = replicate 32 5, SolValue = u64_at (replicate 80 5) 8, PoolState = zero_key, Reserve = 0\<rparr>]"
    by (simp add: entries_of_def entry_at_def key_at_def copy_key_def zero_key_def)
qed

theorem sanctum_fetched_and_saved_witness:
  "\<exists>x t'. Create copy_key (\<lambda>_. False) (Inl ()) (stream sanctum_env (\<lambda>_ _. True) 7 [CAccount lst_account, CCommit 8, CAccount lst_reserve_account]) False [] = (Inr [x], t') \<and>
     EMint x = replicate 32 5 \<and> Reserve x = 500 \<and> loadLsts copy_key (\<lambda>_. False) t' = Inr [x]"
proof -
  let ?cs = "[CAccount lst_account, CCommit 8, CAccount lst_reserve_account]"
  have f: "sanctum_fits sanctum_env (accounts_of ?cs)"
    using lst_sample(2,3) by (simp add: sanctum_fits_def decodes_def list_fits_def)
  have "with_pool (Inl ()) (with_reserve sanctum_env [lst_reserve_account] x) = x\<lparr>Reserve := 500\<rparr>" if "EMint x = replicate 32 5" for x
    using that by (simp add: with_pool_def with_reserve_def FindPoolReservesAddress_def last_amount_def amount_of_def)
  then show ?thesis
    using sanctum_fetched_and_saved [OF lst_sample(1) f, of "Inl ()" "\<lambda>_ _. True" 7 False] lst_sample(2,3) by (auto simp: copy_key_codec)
qed

text \<open>The registry: the last entry of the three kinds with both keys readable decides.\<close>

definition pool_entry :: "(string \<Rightarrow> pubkey option) \<Rightarrow> list_entry \<Rightarrow> (pubkey \<times> pubkey) option" where
  "pool_entry fromBase58 x =
     (if Program x \<in> {''SanctumSpl'', ''SanctumSplMulti'', ''Spl''} then (case (fromBase58 (LMint x), fromBase58 (Pool x)) of (Some m, Some p) \<Rightarrow> Some (m, p) | _ \<Rightarrow> None) else None)"

lemma poolStateRegistry_last: "poolStateRegistry fromBase58 (Inr entries) = Inr (map_of (rev (List.map_filter (pool_entry fromBase58) entries)))"
proof -
  have "fold (\<lambda>x reg. if Program x \<notin> {''SanctumSpl'', ''SanctumSplMulti'', ''Spl''} then reg
          else case (fromBase58 (LMint x), fromBase58 (Pool x)) of (Some m, Some p) \<Rightarrow> reg(m \<mapsto> p) | _ \<Rightarrow> reg) entries r =
      r ++ map_of (rev (List.map_filter (pool_entry fromBase58) entries))" for r
    by (induction entries arbitrary: r) (auto simp: pool_entry_def map_add_upd_left split: option.split)
  then show ?thesis by (simp add: poolStateRegistry_def)
qed

lemma to_int64_small: "uint x < 2 ^ 63 \<Longrightarrow> to_int64 x = uint x"
proof -
  assume "uint x < 2 ^ 63"
  then have "signed_take_bit 63 (uint x) = uint x" by (intro signed_take_bit_int_eq_self order_trans [OF _ uint_ge_0]) simp_all
  then show ?thesis by (simp add: to_int64_def sint_uint)
qed

text \<open>\<open>TopPools\<close> lists the tokens with the largest values, when these fit the signed column.\<close>

lemma sanctum_TopPools_best:
  assumes "\<forall>(k, r) \<in> set t. sol_value r = to_int64 (val k) \<and> uint (val k) < 2 ^ 63" and "t \<noteq> []" and "0 < n"
  shows "\<exists>top rest. TopPools hex False n t =
      Inr (''Sanctum liquid-staking tokens, ranked by redeemable SOL value highest first:'' @ [CHR 0x0A] @ join '';'' (map (\<lambda>(k, r). ''mint='' @ hex k) top)) \<and>
    mset (top @ rest) = mset t \<and> length top = min n (length t) \<and> (\<forall>(k, r) \<in> set top. \<forall>(k', r') \<in> set rest. val k' \<le> val k)"
proof -
  let ?key = "\<lambda>(k, r). sol_value r"
  obtain rest where r: "mset (top_rows ?key n t @ rest) = mset t" "length (top_rows ?key n t) = min n (length t)"
      "\<forall>x \<in> set (top_rows ?key n t). \<forall>y \<in> set rest. ?key y \<le> ?key x"
    using top_rows_best [of ?key n t] by blast
  have "set (top_rows ?key n t @ rest) = set t" using r(1) by (rule mset_eq_setD)
  then have sub: "set (top_rows ?key n t) \<subseteq> set t" "set rest \<subseteq> set t" by auto
  have "val k' \<le> val k" if "(k, r) \<in> set (top_rows ?key n t)" "(k', r') \<in> set rest" for k r k' r'
  proof -
    have "sol_value r' \<le> sol_value r" using r(3) that by fastforce
    moreover have "sol_value r' = to_int64 (val k')" "uint (val k') < 2 ^ 63" "sol_value r = to_int64 (val k)" "uint (val k) < 2 ^ 63" using assms(1) sub that by auto
    ultimately show ?thesis by (simp only: to_int64_small word_le_def)
  qed
  moreover have "top_rows ?key n t \<noteq> []" using r(2) assms(2,3) by (auto simp: min_def split: if_splits)
  ultimately show ?thesis using r(1,2) by (intro exI [of _ "top_rows ?key n t"] exI [of _ rest]) (auto simp: TopPools_def Let_def)
qed

end
