(* ===== verification/LstYield.thy ===== *)
theory LstYield
  imports Sanctum Snapshots
begin

text \<open>
  The yield of staking tokens (\<open>src/prefetch/lst-yield\<close>, \<open>src/cmd/watchlstyield.go\<close>): the tokens that are followed, their rates from Sanctum's list and the reserve accounts,
  read in batches, the table of snapshots, and the yearly rate estimated from it.

  The answers of the node are arguments. Rates are real numbers; times are in nanoseconds, and the length of a period is the signed 64-bit value that Go computes.
  A key is written as its base58 text, which a parameter reads.
\<close>

section \<open>The tokens\<close>

definition KnownLSTs :: "(string \<times> string) list" where
  "KnownLSTs =
  [
   (''jitoSOL'', ''J1toso1uCk3RLmjorhTtrVwY9HJ7X8V9yYac6Y7kGCPn''),
   (''bSOL'', ''bSo13r4TkiE4KumL71LsHTPpL2euBYLFx6h9HP3piy1''),
   (''mSOL'', ''mSoLzYCxHdYgdzU16g5QSh3i5K3z3KZK7ytfqcJm7So'')
  ]"

definition TrackedLSTs :: "(string \<times> string) list" where
  "TrackedLSTs =
  [
   ([], ''BNso1VUJnh4zcfpZa6986Ea66P6TCp59hvtNJ8b1X85''),
   (''bonkSOL'', ''BonK1YhkXEGLZzwtcvRTip3gAL9nCeQD7ppZBLXhtTs''),
   ([], ''Dso1bDeDjCQxTrWHqUUi63oBvV7Mdm6WaobLbQ7gnPQ''),
   ([], ''LAinEtNLgpmCP9Rvsf5Hn8W6EhNiKLZQti1xfWMLy6X''),
   ([], ''LSTxxxnJzKDFSLr4dUkPcmCf5VyryEqzPLz5j4bpxFp''),
   ([], ''LnTRntk2kTfWEY6cVB8K9649pgJbt6dJLS1Ns1GZCWg''),
   (''wSOL'', ''So11111111111111111111111111111111111111112''),
   (''bSOL'', ''bSo13r4TkiE4KumL71LsHTPpL2euBYLFx6h9HP3piy1''),
   ([], ''cPQPBN7WubB3zyQDpzTK2ormx1BMdAym9xkrYUJsctm''),
   ([], ''haSo1Vz5aTsqEnz8nisfnEsipvbAAWpgzRDh2WhhMEh''),
   ([], ''he1iusmfkpAdwvxLNGV8Y1iSbj4rUy6yMhEA3fotn9A''),
   ([], ''hy1oXYgrBW6PVcJ4s6s2FKavRdwgWTXdfE69AxT7kPT''),
   ([], ''jucy5XJ76pHVvtPZb5TKRcGQExkwit2P5s4vY8UzmpC''),
   (''jupSOL'', ''jupSoLaHXQiZZTSfEWMTRRgpnyFm8f6sZdosWBjx93v''),
   (''mSOL'', ''mSoLzYCxHdYgdzU16g5QSh3i5K3z3KZK7ytfqcJm7So''),
   ([], ''pSo1f9nQXWgXibFtKf7NWYxb5enAM4qfP6UJSiXRQfL''),
   ([], ''phaseZSfPxTDBpiVb96H4XFSD8xHeHxZre5HerehBJG''),
   ([], ''picobAEvs6w7QEknPce34wAE4gknZA9v5tTonnmHYdX''),
   ([], ''rkubjTrZYioRSeXwDnhwGQzvW3qkcin72JSxUt3WMVp''),
   ([], ''sctmB7GPi5L2Q5G9tUSzXvhZ4YiDMEGcRov9KfArQpx''),
   ([], ''sctmTAsDn4tLUcemqoqYijfuRkiEfAMPi84PNq2EueR''),
   ([], ''sctmY8fJucsJatwHz6P48RuWBBkdBMNmSMuBYrWFdrw''),
   ([], ''stke7uu3fXHsGqKVVjKnkmj65LRPVrqr4bLG2SJg7rh''),
   ([], ''strng7mqqc1MBJJV6vMzYbEqnwVGvKKGKedeCvtktWA''),
   ([], ''vSoLxydx6akxyMD9XEcPvGYNGq6Nn66oqVb3UkGkei7''),
   ([], ''7Q2afV64in6N6SeZsAAB81TJzwDoD6zpqmHkzi9Dcavn''),
   ([], ''7dHbWXmci3dT8UFYWYZweBLXgycu7Y3iL6trKn1Y7ARj''),
   ([], ''BULKoNSGzxtCqzwTvg5hFJg8fx6dqZRScyXe5LYMfxrn''),
   ([], ''Bybit2vBJGhPF52GBdNaQfUJ6ZpThSgHBobjWZpLPb4B''),
   ([], ''CDCSoLckzozyktpAp9FWT3w92KFJVEUxAU7cNu2Jn3aX''),
   ([], ''CgnTSoL3DgY9SFHxcLj6CgCgKKoTBr6tp4CPAEWy25DE''),
   ([], ''Comp4ssDzXcLeu2MnLuGNNFC4cmLPMng8qWHPvzAMU1h''),
   ([], ''CorvuSSoLxPKLoXWXSfn8pFSMhCRHhe7Uwqe874cmwvg''),
   ([], ''EPCz5LK372vmvCkZH3HgSuGNKACJJwwxsofW6fypCPZL''),
   ([], ''Gekfj7SL2fVpTDxJZmeC46cTYxinjB6gkAnb6EGT6mnn''),
   ([], ''HUBsveNpjo5pWqNkH57QzxjQASdTVXcSK7bVKTSZtcSX''),
   (''jitoSOL'', ''J1toso1uCk3RLmjorhTtrVwY9HJ7X8V9yYac6Y7kGCPn'')
  ]"

text \<open>\<open>Label\<close>: the name, or the first eight characters of the key and an ellipsis (three bytes).\<close>

definition Label :: "(pubkey \<Rightarrow> string) \<Rightarrow> string \<times> pubkey \<Rightarrow> string" where
  "Label toBase58 t =
     (if fst t \<noteq> [] then fst t
      else let s = toBase58 (snd t); s = (if length s > 8 then take 8 s else s) in s @ [CHR 0xE2, CHR 0x80, CHR 0xA6])"

section \<open>Rates\<close>

definition tokenAccountAmountOffset :: nat where "tokenAccountAmountOffset = 64"
definition maxGetMultipleAccounts :: nat where "maxGetMultipleAccounts = 100"

text \<open>\<open>IndexPanic\<close> stands for the panic of an index out of range.\<close>

datatype rate_error = ListFailed | ListMissing | BatchFailed | IndexPanic

text \<open>The body of the loop over the accounts of a batch.\<close>

definition take_rate ::
  "(pubkey \<rightharpoonup> pubkey) \<Rightarrow> (pubkey \<rightharpoonup> u64) \<Rightarrow> pubkey list \<Rightarrow> nat \<times> byte list option \<Rightarrow> (pubkey \<rightharpoonup> real) \<Rightarrow> rate_error + (pubkey \<rightharpoonup> real)" where
  "take_rate mintByReserve solValueByMint chunk = (\<lambda>(i, acc) rates.
     case acc of
       None \<Rightarrow> Inr rates
     | Some data \<Rightarrow>
         (case go_index chunk i of
            None \<Rightarrow> Inl IndexPanic
          | Some k \<Rightarrow>
              (case mintByReserve k of
                 None \<Rightarrow> Inr rates
               | Some mint \<Rightarrow>
                   (case solValueByMint mint of
                      None \<Rightarrow> Inr rates
                    | Some solValue \<Rightarrow>
                        if length data < tokenAccountAmountOffset + 8 then Inr rates
                        else (case read_u64 data tokenAccountAmountOffset of
                                None \<Rightarrow> Inl IndexPanic
                              | Some r \<Rightarrow> if r = 0 then Inr rates else Inr (rates(mint \<mapsto> real (unat solValue) / real (unat r))))))))"

definition FetchRates ::
  "env \<Rightarrow> unit + byte list option \<Rightarrow> (pubkey list \<Rightarrow> unit + byte list option list) \<Rightarrow> pubkey list \<Rightarrow> rate_error + (pubkey \<rightharpoonup> real)" where
  "FetchRates e listResp getMultiple mints =
     (case listResp of
        Inl err \<Rightarrow> Inl ListFailed
      | Inr None \<Rightarrow> Inl ListMissing
      | Inr (Some data) \<Rightarrow>
          (case ParseLstStateList (fromBytes e) data of
             None \<Rightarrow> Inl IndexPanic
           | Some entries \<Rightarrow>
               let solValueByMint = fold (\<lambda>x m. m(EMint x \<mapsto> SolValue x)) entries Map.empty;
                   (mintByReserve, reserveAddrs) =
                     fold (\<lambda>mint (m, addrs). case FindPoolReservesAddress e mint of
                        None \<Rightarrow> (m, addrs)
                      | Some k \<Rightarrow> (m(k \<mapsto> mint), addrs @ [k])) mints (Map.empty, [])
               in fold_err (\<lambda>chunk rates.
                    case getMultiple chunk of
                      Inl err \<Rightarrow> Inl BatchFailed
                    | Inr out \<Rightarrow> fold_err (take_rate mintByReserve solValueByMint chunk) (enumerate 0 out) rates)
                    (chunks_from maxGetMultipleAccounts 0 reserveAddrs) Map.empty))"

section \<open>Snapshots\<close>

record yield_row =
  time :: int
  lst_mint :: "byte list"
  sol_per_lst :: real

datatype yield_error = InsertFailed | OldestFailed | LatestFailed

text \<open>\<open>t.Unix()\<close>\<close>

definition unix :: "int \<Rightarrow> int" where
  "unix ns = ns div 1000000000"

definition RecordSnapshot :: "bool \<Rightarrow> pubkey \<Rightarrow> int \<Rightarrow> real \<Rightarrow> yield_row list \<Rightarrow> yield_error + yield_row list" where
  "RecordSnapshot execFails mint now rate t =
     (if execFails then Inl InsertFailed else Inr (t @ [\<lparr>time = unix now, lst_mint = mint, sol_per_lst = rate\<rparr>]))"

definition minEstimateSpan :: int where "minEstimateSpan = 1 * 3600000000000"

definition EstimateAPY :: "bool \<Rightarrow> bool \<Rightarrow> int \<Rightarrow> pubkey \<Rightarrow> int \<Rightarrow> yield_row list \<Rightarrow> yield_error + real option" where
  "EstimateAPY oldestFails latestFails now mint window t =
     (let since = unix (now - window); rows = filter (\<lambda>r. lst_mint r = mint \<and> time r \<ge> since) t
      in if oldestFails then Inl OldestFailed
         else case limit1 time rows of
           None \<Rightarrow> Inr None
         | Some oldest \<Rightarrow>
             (case (if latestFails then None else limit1 (\<lambda>r. - time r) rows) of
                None \<Rightarrow> Inl LatestFailed
              | Some latest \<Rightarrow>
                  let elapsed = to_int64 (to_uint64 ((time latest - time oldest) * 1000000000))
                  in if elapsed < minEstimateSpan \<or> sol_per_lst oldest \<le> 0 then Inr None
                     else let growth = sol_per_lst latest / sol_per_lst oldest - 1
                          in Inr (Some (growth * (real_of_int (365 * 24 * 3600000000000) / real_of_int elapsed)))))"

section \<open>Polling\<close>

text \<open>\<open>pollLstYieldOnce\<close>: a rate that is missing is skipped, and so is one whose row cannot be written.\<close>

definition pollLstYieldOnce ::
  "env \<Rightarrow> (string \<Rightarrow> pubkey) \<Rightarrow> (pubkey \<Rightarrow> bool) \<Rightarrow> unit + byte list option \<Rightarrow> (pubkey list \<Rightarrow> unit + byte list option list) \<Rightarrow> int \<Rightarrow> yield_row list \<Rightarrow> yield_row list" where
  "pollLstYieldOnce e key execFails listResp getMultiple now t =
     (let tracked = map (\<lambda>(symbol, text). (symbol, key text)) TrackedLSTs
      in case FetchRates e listResp getMultiple (map snd tracked) of
           Inl err \<Rightarrow> t
         | Inr rates \<Rightarrow>
             fold (\<lambda>(symbol, mint) t.
               case rates mint of
                 None \<Rightarrow> t
               | Some rate \<Rightarrow> (case RecordSnapshot (execFails mint) mint now rate t of Inl err \<Rightarrow> t | Inr t' \<Rightarrow> t')) tracked t)"

section \<open>The lists\<close>

text \<open>The tracked tokens are different, and the three with a verified name are among them under the same name.\<close>

lemma tracked_distinct: "distinct (map snd TrackedLSTs)"
  by code_simp

lemma known_are_tracked: "set KnownLSTs \<subseteq> set TrackedLSTs"
  by code_simp

section \<open>Rates of a node\<close>

text \<open>The rate of a mint by the accounts of a node.\<close>

definition rate_at :: "env \<Rightarrow> byte list \<Rightarrow> (pubkey \<rightharpoonup> byte list) \<Rightarrow> pubkey \<Rightarrow> real option" where
  "rate_at e list accs mint = do {
     k \<leftarrow> FindPoolReservesAddress e mint;
     v \<leftarrow> map_of (rev (map (\<lambda>x. (EMint x, SolValue x)) (entries_of (fromBytes e) list))) mint;
     d \<leftarrow> accs k;
     if length d < 72 \<or> u64_at d 64 = 0 then None else Some (real (unat v) / real (unat (u64_at d 64))) }"

lemma sol_values: "fold (\<lambda>x m. m(EMint x \<mapsto> SolValue x)) xs m = m ++ map_of (rev (map (\<lambda>x. (EMint x, SolValue x)) xs))"
  by (induction xs arbitrary: m) (simp_all add: map_add_upd_left)

lemma reserve_addresses:
  "fold (\<lambda>mint (m, addrs). case FindPoolReservesAddress e mint of None \<Rightarrow> (m, addrs) | Some k \<Rightarrow> (m(k \<mapsto> mint), addrs @ [k])) mints (m, addrs) =
     (m ++ map_of (rev (List.map_filter (\<lambda>mint. map_option (\<lambda>k. (k, mint)) (FindPoolReservesAddress e mint)) mints)), addrs @ List.map_filter (FindPoolReservesAddress e) mints)"
  by (induction mints arbitrary: m addrs) (auto simp: map_add_upd_left split: option.split)

lemma set_map_filter: "set (List.map_filter f xs) = {y. \<exists>x \<in> set xs. f x = Some y}"
  by (force simp: List.map_filter_def)

text \<open>What the loops add for one reserve account.\<close>

definition add_rate :: "(pubkey \<rightharpoonup> pubkey) \<Rightarrow> (pubkey \<rightharpoonup> real) \<Rightarrow> pubkey \<Rightarrow> (pubkey \<rightharpoonup> real) \<Rightarrow> (pubkey \<rightharpoonup> real)" where
  "add_rate mb rate k rates = (case mb k of None \<Rightarrow> rates | Some m \<Rightarrow> (case rate m of None \<Rightarrow> rates | Some x \<Rightarrow> rates(m \<mapsto> x)))"

lemma fold_add_rate: "fold (add_rate mb rate) ks rates m = (if (\<exists>k \<in> set ks. mb k = Some m) \<and> rate m \<noteq> None then rate m else rates m)"
  by (induction ks arbitrary: rates) (auto simp: add_rate_def split: option.split)

lemma batch_rates:
  assumes "\<And>k m. k \<in> set ks \<Longrightarrow> mb k = Some m \<Longrightarrow> FindPoolReservesAddress e m = Some k"
    and "sv = map_of (rev (map (\<lambda>x. (EMint x, SolValue x)) (entries_of (fromBytes e) list)))"
  shows "fold_err (take_rate mb sv (pre @ ks)) (enumerate (length pre) (map accs ks)) rates = Inr (fold (add_rate mb (rate_at e list accs)) ks rates)"
  using assms(1)
proof (induction ks arbitrary: pre rates)
  case (Cons k ks)
  have "take_rate mb sv (pre @ k # ks) (length pre, accs k) rates = Inr (add_rate mb (rate_at e list accs) k rates)"
  proof (cases "mb k")
    case None
    then show ?thesis by (auto simp: take_rate_def add_rate_def go_index_def split: option.split)
  next
    case (Some m)
    then have "FindPoolReservesAddress e m = Some k" using Cons.prems by simp
    then show ?thesis using Some
      by (auto simp: take_rate_def add_rate_def go_index_def rate_at_def assms(2) tokenAccountAmountOffset_def read_u64_in split: option.split)
  qed
  then show ?case using Cons.IH [of "pre @ [k]" "add_rate mb (rate_at e list accs) k rates"] Cons.prems by simp
qed simp

lemma mint_of_reserve:
  assumes "derives_apart e"
  shows "map_of (rev (List.map_filter (\<lambda>mint. map_option (\<lambda>k. (k, mint)) (FindPoolReservesAddress e mint)) mints)) k = Some m \<longleftrightarrow> m \<in> set mints \<and> FindPoolReservesAddress e m = Some k"
proof -
  let ?ps = "rev (List.map_filter (\<lambda>mint. map_option (\<lambda>k. (k, mint)) (FindPoolReservesAddress e mint)) mints)"
  have mem: "(k, m) \<in> set ?ps \<longleftrightarrow> m \<in> set mints \<and> FindPoolReservesAddress e m = Some k" for k m
    by (auto simp: set_map_filter) 
  have "map_of ?ps k = Some m" if km: "(k, m) \<in> set ?ps"
  proof -
    obtain m' where m': "map_of ?ps k = Some m'" using weak_map_of_SomeI [OF km] by blast
    then have "(k, m') \<in> set ?ps" by (rule map_of_SomeD)
    then have "FindPoolReservesAddress e m' = Some k" "FindPoolReservesAddress e m = Some k" using km unfolding mem by simp_all
    then have "m' = m" using assms unfolding derives_apart_def by blast
    then show ?thesis using m' by simp
  qed
  then show ?thesis using mem map_of_SomeD [of ?ps k m] by blast
qed

text \<open>Whatever the number of mints, the rates are those that one reads mint by mint: the batches do not matter, and every request has at most 100 keys.\<close>

lemma FetchRates_exact:
  assumes "derives_apart e" and "\<And>ks. length ks \<le> 100 \<Longrightarrow> getMultiple ks = Inr (map accs ks)"
  shows "FetchRates e (Inr (Some list)) getMultiple mints = Inr (\<lambda>m. if m \<in> set mints then rate_at e list accs m else None)"
proof -
  define mb where "mb = map_of (rev (List.map_filter (\<lambda>mint. map_option (\<lambda>k. (k, mint)) (FindPoolReservesAddress e mint)) mints))"
  define sv where "sv = map_of (rev (map (\<lambda>x. (EMint x, SolValue x)) (entries_of (fromBytes e) list)))"
  let ?addrs = "List.map_filter (FindPoolReservesAddress e) mints"
  let ?body = "\<lambda>chunk rates. case getMultiple chunk of Inl err \<Rightarrow> Inl BatchFailed | Inr out \<Rightarrow> fold_err (take_rate mb sv chunk) (enumerate 0 out) rates"
  note mb = mint_of_reserve [OF assms(1), of mints, folded mb_def]
  have body: "?body c rates = Inr (fold (add_rate mb (rate_at e list accs)) c rates)" if "c \<in> set (chunks_from 100 0 ?addrs)" for c rates
    using chunks_from_bound [OF that] batch_rates [of c mb e sv list "[]" accs rates] mb by (simp add: assms(2) sv_def)
  have "fold_err ?body cs rates = Inr (fold (add_rate mb (rate_at e list accs)) (concat cs) rates)" if "set cs \<subseteq> set (chunks_from 100 0 ?addrs)" for cs rates
    using that by (induction cs arbitrary: rates) (simp_all add: body)
  then have all: "fold_err ?body (chunks_from 100 0 ?addrs) Map.empty = Inr (fold (add_rate mb (rate_at e list accs)) ?addrs Map.empty)"
    by (simp add: chunks_from_concat)
  have "fold (add_rate mb (rate_at e list accs)) ?addrs Map.empty m = (if m \<in> set mints then rate_at e list accs m else None)" for m
  proof (cases "FindPoolReservesAddress e m")
    case None
    then show ?thesis using mb by (simp add: fold_add_rate rate_at_def)
  next
    case (Some k)
    then have "m \<in> set mints \<longleftrightarrow> (\<exists>k \<in> set ?addrs. mb k = Some m)" by (auto simp: mb set_map_filter)
    then show ?thesis by (simp add: fold_add_rate)
  qed
  then have "fold (add_rate mb (rate_at e list accs)) ?addrs Map.empty = (\<lambda>m. if m \<in> set mints then rate_at e list accs m else None)" by (rule ext)
  then show ?thesis using all by (simp add: FetchRates_def ParseLstStateList_reads sol_values reserve_addresses mb_def [symmetric] sv_def [symmetric] maxGetMultipleAccounts_def)
qed

section \<open>The series of a token\<close>

text \<open>One poll: the time, the bytes of the list account and the other accounts of the node.\<close>

record poll =
  taken :: int
  listed :: "byte list"
  accounts :: "pubkey \<rightharpoonup> byte list"

definition polled :: "env \<Rightarrow> (string \<Rightarrow> pubkey) \<Rightarrow> poll list \<Rightarrow> yield_row list \<Rightarrow> yield_row list" where
  "polled e key ps t = fold (\<lambda>p. pollLstYieldOnce e key (\<lambda>_. False) (Inr (Some (listed p))) (\<lambda>ks. Inr (map (accounts p) ks)) (taken p)) ps t"

definition series :: "env \<Rightarrow> pubkey \<Rightarrow> poll list \<Rightarrow> (int \<times> real) list" where
  "series e mint ps = List.map_filter (\<lambda>p. map_option (Pair (unix (taken p))) (rate_at e (listed p) (accounts p) mint)) ps"

definition row_of :: "pubkey \<Rightarrow> int \<times> real \<Rightarrow> yield_row" where
  "row_of mint = (\<lambda>(s, r). \<lparr>time = s, lst_mint = mint, sol_per_lst = r\<rparr>)"

definition tracked_mints :: "(string \<Rightarrow> pubkey) \<Rightarrow> pubkey list" where
  "tracked_mints key = map (\<lambda>(symbol, text). key text) TrackedLSTs"

lemma recorded_rows:
  assumes "distinct (map snd xs)" and "mint \<in> snd ` set xs"
  shows "filter (\<lambda>r. lst_mint r = mint) (fold (\<lambda>(symbol, m) t. case rates m of None \<Rightarrow> t
       | Some rate \<Rightarrow> (case RecordSnapshot False m now rate t of Inl err \<Rightarrow> t | Inr t' \<Rightarrow> t')) xs t) =
     filter (\<lambda>r. lst_mint r = mint) t @ (case rates mint of None \<Rightarrow> [] | Some r \<Rightarrow> [row_of mint (unix now, r)])"
proof -
  let ?step = "\<lambda>(symbol :: 'a, m) t. case rates m of None \<Rightarrow> t | Some rate \<Rightarrow> (case RecordSnapshot False m now rate t of Inl err \<Rightarrow> t | Inr t' \<Rightarrow> t')"
  have other: "filter (\<lambda>r. lst_mint r = mint) (fold ?step ys t) = filter (\<lambda>r. lst_mint r = mint) t" if "mint \<notin> snd ` set ys" for ys t
    using that by (induction ys arbitrary: t) (auto simp: RecordSnapshot_def split: option.split)
  show ?thesis using assms
  proof (induction xs arbitrary: t)
    case (Cons x xs)
    show ?case
    proof (cases "snd x = mint")
      case True
      then have "mint \<notin> snd ` set xs" using Cons.prems(1) by auto
      then show ?thesis using True other [of xs] by (cases x) (auto simp: RecordSnapshot_def row_of_def split: option.split)
    next
      case False
      then have "filter (\<lambda>r. lst_mint r = mint) (?step x t) = filter (\<lambda>r. lst_mint r = mint) t" by (cases x) (auto simp: RecordSnapshot_def split: option.split)
      then show ?thesis using Cons False by auto
    qed
  qed simp
qed

text \<open>The rows of a tracked token are its series.\<close>

lemma polled_rows:
  assumes "derives_apart e" and "distinct (tracked_mints key)" and "mint \<in> set (tracked_mints key)"
  shows "filter (\<lambda>r. lst_mint r = mint) (polled e key ps t) = filter (\<lambda>r. lst_mint r = mint) t @ map (row_of mint) (series e mint ps)"
proof (induction ps arbitrary: t)
  case Nil
  then show ?case by (simp add: polled_def series_def)
next
  case (Cons p ps)
  let ?xs = "map (\<lambda>(symbol, text). (symbol, key text)) TrackedLSTs"
  have xs: "map snd ?xs = tracked_mints key" "snd ` set ?xs = set (tracked_mints key)" by (simp_all add: tracked_mints_def split_beta comp_def image_image)
  let ?t = "pollLstYieldOnce e key (\<lambda>_. False) (Inr (Some (listed p))) (\<lambda>ks. Inr (map (accounts p) ks)) (taken p) t"
  have "filter (\<lambda>r. lst_mint r = mint) ?t = filter (\<lambda>r. lst_mint r = mint) t @ (case rate_at e (listed p) (accounts p) mint of None \<Rightarrow> [] | Some r \<Rightarrow> [row_of mint (unix (taken p), r)])"
    using recorded_rows [of ?xs mint] assms(2,3) xs
    by (simp add: pollLstYieldOnce_def FetchRates_exact [OF assms(1), where accs = "accounts p"])
  then show ?case using Cons [of ?t] by (simp add: polled_def series_def split: option.split)
qed

section \<open>The estimate\<close>

text \<open>The yearly rate between the first and the last of a series: simple growth, and nothing from less than an hour.\<close>

definition apy_of :: "(int \<times> real) list \<Rightarrow> real option" where
  "apy_of xs = (if xs = [] then None else
     let (t0, r0) = hd xs; (t1, r1) = last xs
     in if t1 - t0 < 3600 \<or> r0 \<le> 0 then None else Some ((r1 / r0 - 1) * (31536000 / real_of_int (t1 - t0))))"

lemma row_of_fields [simp]: "time (row_of mint (s, r)) = s" "sol_per_lst (row_of mint (s, r)) = r"
  by (simp_all add: row_of_def)

lemma limit1_increasing:
  fixes f :: "'r \<Rightarrow> int"
  assumes "rows \<noteq> []" and "sorted_wrt (<) (map f rows)"
  shows "limit1 f rows = Some (hd rows)" "limit1 (\<lambda>r. - f r) rows = Some (last rows)"
proof -
  obtain r rs where r: "rows = r # rs" using assms(1) by (cases rows) simp
  show "limit1 f rows = Some (hd rows)" using assms(2) by (intro limit1_eqI) (auto simp: r)
  obtain ss s where s: "rows = ss @ [s]" using assms(1) by (cases rows rule: rev_cases) simp
  show "limit1 (\<lambda>r. - f r) rows = Some (last rows)" using assms(2) by (intro limit1_eqI) (auto simp: s sorted_wrt_append)
qed

lemma elapsed_fits: "0 \<le> x \<Longrightarrow> x < 2 ^ 63 \<Longrightarrow> to_int64 (to_uint64 x) = x"
proof -
  assume x: "0 \<le> x" "x < 2 ^ 63"
  have "uint (to_uint64 x) = x" using x by (simp add: to_uint64_def uint_word_of_int)
  then show ?thesis using to_int64_small [of "to_uint64 x"] x(2) by simp
qed

lemma EstimateAPY_series:
  assumes "filter (\<lambda>r. lst_mint r = mint) t = map (row_of mint) xs" and "sorted_wrt (<) (map fst xs)" and "\<forall>(s, r) \<in> set xs. \<forall>(s', r') \<in> set xs. s' - s < 9223372036"
  shows "EstimateAPY False False now mint window t = Inr (apy_of (filter (\<lambda>x. unix (now - window) \<le> fst x) xs))"
proof -
  let ?ys = "filter (\<lambda>x. unix (now - window) \<le> fst x) xs"
  have "filter (\<lambda>r. lst_mint r = mint \<and> time r \<ge> unix (now - window)) t = filter (\<lambda>r. time r \<ge> unix (now - window)) (map (row_of mint) xs)"
    unfolding assms(1) [symmetric] by (simp add: conj_commute)
  also have "\<dots> = map (row_of mint) ?ys" by (simp add: filter_map comp_def row_of_def split_beta)
  finally have rows: "filter (\<lambda>r. lst_mint r = mint \<and> time r \<ge> unix (now - window)) t = map (row_of mint) ?ys" .
  show ?thesis
  proof (cases "?ys = []")
    case True
    then show ?thesis by (simp add: EstimateAPY_def rows apy_of_def limit1_def)
  next
    case False
    have "sorted_wrt (<) (map fst ?ys)" using assms(2) by (simp add: sorted_wrt_map sorted_wrt_filter)
    moreover have tm: "map time (map (row_of mint) ?ys) = map fst ?ys" by (simp add: row_of_def split_beta)
    ultimately have inc: "sorted_wrt (<) (map time (map (row_of mint) ?ys))" by (simp only:)
    obtain t0 r0 t1 r1 where e: "hd ?ys = (t0, r0)" "last ?ys = (t1, r1)" by (metis surj_pair)
    have in0: "(t0, r0) \<in> set ?ys" and in1: "(t1, r1) \<in> set ?ys" using False e hd_in_set [OF False] last_in_set [OF False] by simp_all
    have l: "limit1 time (map (row_of mint) ?ys) = Some (row_of mint (t0, r0))" "limit1 (\<lambda>r. - time r) (map (row_of mint) ?ys) = Some (row_of mint (t1, r1))"
      using limit1_increasing [OF _ inc] False e by (simp_all add: hd_map last_map)
    have "(t1 - t0) < 9223372036" using assms(3) in0 in1 by fastforce
    moreover have "t0 \<le> t1"
    proof -
      have "row_of mint (t1, r1) \<in> set (map (row_of mint) ?ys)" unfolding set_map by (rule imageI [OF in1])
      from limit1_Some(2) [OF l(1) this] show ?thesis by (simp add: row_of_def)
    qed
    ultimately have el: "to_int64 (to_uint64 ((t1 - t0) * 1000000000)) = (t1 - t0) * 1000000000" by (intro elapsed_fits) simp_all
    define d where "d = t1 - t0"
    have q: "31536000000000000 / (real_of_int d * 1000000000) = 31536000 / real_of_int d" by simp
    show ?thesis using False e el by (simp add: EstimateAPY_def rows l apy_of_def minEstimateSpan_def Let_def q d_def [symmetric] del: of_int_diff)
  qed
qed

lemma series_times:
  assumes "sorted_wrt (<) (map (\<lambda>p. unix (taken p)) ps)"
  shows "sorted_wrt (<) (map fst (series e mint ps))" "\<And>s r. (s, r) \<in> set (series e mint ps) \<Longrightarrow> \<exists>p \<in> set ps. s = unix (taken p)"
proof -
  have times: "\<exists>p \<in> set ps. s = unix (taken p)" if "(s, r) \<in> set (series e mint ps)" for s r ps using that by (auto simp: series_def set_map_filter)
  then show "\<And>s r. (s, r) \<in> set (series e mint ps) \<Longrightarrow> \<exists>p \<in> set ps. s = unix (taken p)" by blast
  show "sorted_wrt (<) (map fst (series e mint ps))" using assms
  proof (induction ps)
    case (Cons p ps)
    have "unix (taken p) < s" if "(s, r) \<in> set (series e mint ps)" for s r using times [OF that] Cons.prems by auto
    moreover have "series e mint (p # ps) = (case rate_at e (listed p) (accounts p) mint of None \<Rightarrow> [] | Some r \<Rightarrow> [(unix (taken p), r)]) @ series e mint ps"
      by (simp add: series_def split: option.split)
    ultimately show ?case using Cons by (auto split: option.split)
  qed (simp add: series_def)
qed

text \<open>(C19) The watcher and the estimate together: after any polls at increasing seconds, the estimate for a tracked token is the yearly growth between the first and the last rate that its polls inside
  the window gave, each being the value of Sanctum's list divided by the reserve account; nothing, when there are less than two such rates, when they are less than an hour apart, or when the first is zero.
  The tokens are read in batches, and polls that give no rate leave no row.\<close>

theorem yield_of_polls:
  assumes "derives_apart e" and "distinct (tracked_mints key)" and "mint \<in> set (tracked_mints key)"
    and "sorted_wrt (<) (map (\<lambda>p. unix (taken p)) ps)" and "\<forall>p \<in> set ps. \<forall>q \<in> set ps. unix (taken q) - unix (taken p) < 9223372036"
  shows "EstimateAPY False False now mint window (polled e key ps []) = Inr (apy_of (filter (\<lambda>x. unix (now - window) \<le> fst x) (series e mint ps)))"
proof (rule EstimateAPY_series)
  note st = series_times [OF assms(4), where e = e and mint = mint]
  show "filter (\<lambda>r. lst_mint r = mint) (polled e key ps []) = map (row_of mint) (series e mint ps)" using polled_rows [OF assms(1-3), of ps "[]"] by simp
  show "sorted_wrt (<) (map fst (series e mint ps))" by (rule st(1))
  show "\<forall>(s, r) \<in> set (series e mint ps). \<forall>(s', r') \<in> set (series e mint ps). s' - s < 9223372036" using st(2) assms(5) by (simp add: split_beta) (metis prod.collapse)
qed

abbreviation sample_key :: "string \<Rightarrow> pubkey" where
  "sample_key \<equiv> map of_char"

abbreviation msol :: pubkey where
  "msol \<equiv> sample_key ''mSoLzYCxHdYgdzU16g5QSh3i5K3z3KZK7ytfqcJm7So''"

abbreviation yield_env :: env where
  "yield_env \<equiv> sanctum_env\<lparr>fromBytes := (\<lambda>_. msol)\<rparr>"

abbreviation sample_list :: "u64 \<Rightarrow> byte list" where
  "sample_list v \<equiv> replicate 8 0 @ put_u64 v @ replicate 64 1"

abbreviation sample_polls :: "poll list" where
  "sample_polls \<equiv> [\<lparr>taken = 0, listed = sample_list 5, accounts = (\<lambda>_. Some (replicate 64 0 @ put_u64 1))\<rparr>,
     \<lparr>taken = 86400000000000, listed = sample_list 6, accounts = (\<lambda>_. Some (replicate 64 0 @ put_u64 1))\<rparr>]"

lemma sample_tracked: "distinct (tracked_mints sample_key)" "msol \<in> set (tracked_mints sample_key)"
  by (code_simp, code_simp)

lemma msol_nonzero: "msol \<noteq> zero_key"
proof
  assume "msol = zero_key"
  then have "length msol = length zero_key" by (simp only:)
  then show False by (simp add: zero_key_def)
qed

lemma sample_series: "series yield_env msol sample_polls = [(0, 5), (86400, 6)]"
  using msol_nonzero by (simp add: series_def rate_at_def FindPoolReservesAddress_def entries_of_def entry_at_def key_at_def unix_def wire_fields go_sizes)

theorem yield_of_polls_witness:
  "EstimateAPY False False 86400000000001 msol 604800000000000 (polled yield_env sample_key sample_polls []) = Inr (Some 73)"
proof -
  have "derives_apart yield_env" using lst_sample(1) by (simp add: derives_apart_def FindPoolReservesAddress_def)
  moreover have "filter (\<lambda>x. unix (86400000000001 - 604800000000000) \<le> fst x) (series yield_env msol sample_polls) = [(0, 5), (86400, 6)]"
    unfolding sample_series by (simp add: unix_def)
  ultimately show ?thesis
    using yield_of_polls [of yield_env sample_key msol sample_polls 86400000000001 604800000000000] sample_tracked by (simp add: unix_def apy_of_def)
qed

end
