(* ===== verification/LookupTable.thy ===== *)
theory LookupTable
  imports Markets "HOL-Library.Product_Lexorder"
begin

text \<open>
  Address lookup tables (\<open>src/prefetch/alt\<close>, \<open>src/cmd/alt.go\<close>): the report of used accounts, its table and ranking, the table of lookup positions, and the command that
  creates a lookup table on the chain, extends it in batches with retries, and stores the positions.

  The chain is a parameter: what an instruction does to it is \<open>exec\<close>, what the network answers to each attempt is a record of inputs. That a transaction is executed
  (\<open>lands\<close>) and that the client learns of it are two things.
\<close>

section \<open>Used accounts\<close>

definition accountUsageEntrySize :: nat where "accountUsageEntrySize = 36"

record usage_entry =
  UPubkey :: pubkey
  Count :: u32

datatype alt_error = TooShort nat | SizeMismatch nat nat nat | BeginFailed | PrepareFailed | UpsertFailed pubkey | DeleteFailed | InsertFailed nat | CloseFailed | CommitFailed | QueryFailed
  | NotAKey nat | CreateFileFailed | KeyFileFailed | OpenFailed | NoAccounts | InvalidTable | BuildFailed | GetSlotFailed | BlockhashFailed | TransactionFailed | SendFailed | FailedOnChain | TimedOut
  | Cancelled | AllFailed alt_error | CreateFailed alt_error | ExtendFailed pubkey alt_error | PersistFailed alt_error

text \<open>One entry; \<open>None\<close> is a panic.\<close>

definition parse_usage :: "byte list \<Rightarrow> nat \<Rightarrow> usage_entry option" where
  "parse_usage v off = do {
     b \<leftarrow> go_slice off 32 v;
     b0 \<leftarrow> go_index v (off + 32);
     b1 \<leftarrow> go_index v (off + 33);
     b2 \<leftarrow> go_index v (off + 34);
     b3 \<leftarrow> go_index v (off + 35);
     Some \<lparr>UPubkey = copy_key b, Count = or (ucast b0) (or (push_bit 8 (ucast b1)) (or (push_bit 16 (ucast b2)) (push_bit 24 (ucast b3))))\<rparr> }"

definition ParseAccountUsage :: "byte list \<Rightarrow> (alt_error + usage_entry list) option" where
  "ParseAccountUsage v =
     (if length v < 2 then Some (Inl (TooShort (length v)))
      else
        let n = unat (v ! 0) + unat (v ! 1) * 256; want = 2 + n * accountUsageEntrySize
        in if length v \<noteq> want then Some (Inl (SizeMismatch (length v) want n))
           else map_option Inr (those (map (\<lambda>i. parse_usage v (2 + i * accountUsageEntrySize)) [0..<n])))"

text \<open>The statements, for the argument that says which of them fail.\<close>

datatype alt_stmt = ABegin | APrepare | AUpsert pubkey | ADelete | AInsert nat | AClose | ACommit | ATop | AExport

record usage_row =
  count :: int
  updated_at :: int

type_synonym usage_table = "(pubkey \<times> usage_row) list"

text \<open>\<open>INSERT ... ON CONFLICT DO UPDATE\<close>: the row keeps its place.\<close>

definition upsert_usage :: "int \<Rightarrow> usage_entry \<Rightarrow> usage_table \<Rightarrow> usage_table" where
  "upsert_usage now x t =
     (let r = \<lparr>count = uint (Count x), updated_at = now\<rparr>
      in if map_of t (UPubkey x) = None then t @ [(UPubkey x, r)] else update_row (UPubkey x) (\<lambda>_. r) t)"

definition RecordUsage :: "(alt_stmt \<Rightarrow> bool) \<Rightarrow> int \<Rightarrow> usage_entry list \<Rightarrow> usage_table \<Rightarrow> alt_error + usage_table" where
  "RecordUsage fails now entries t =
     (if entries = [] then Inr t
      else if fails ABegin then Inl BeginFailed
      else if fails APrepare then Inl PrepareFailed
      else case fold_err (\<lambda>x t. if fails (AUpsert (UPubkey x)) then Inl (UpsertFailed (UPubkey x)) else Inr (upsert_usage now x t)) entries t of
             Inl err \<Rightarrow> Inl err
           | Inr t' \<Rightarrow> if fails AClose then Inl CloseFailed else if fails ACommit then Inl CommitFailed else Inr t')"



section \<open>Positions\<close>






section \<open>Sending\<close>

datatype instruction = CreateTable pubkey | ExtendTable pubkey "pubkey list"

text \<open>What one round of the confirmation loop sees: no usable answer, an error of the transaction, or a status that is final enough or not.\<close>

datatype status = NoStatus | StatusErr | Seen bool

text \<open>The rounds before the deadline, each with whether the context ends in the wait after it.\<close>

fun confirmSignature :: "(status \<times> bool) list \<Rightarrow> alt_error + unit" where
  "confirmSignature [] = Inl TimedOut"
| "confirmSignature ((st, ctxDone) # rounds) =
     (if st = StatusErr then Inl FailedOnChain
      else if st = Seen True then Inr ()
      else if ctxDone then Inl Cancelled
      else confirmSignature rounds)"

text \<open>What the network does in one attempt: the slot, whether the library accepts the instruction, the blockhash, whether the transaction can be made and signed, the answer to the send,
  whether the chain executes it, what the confirmation sees, and whether the context ends in the wait before the next attempt.\<close>

record attempt =
  slotAnswer :: "u64 option"
  validates :: bool
  blockhashOk :: bool
  transactionOk :: bool
  sendOk :: bool
  lands :: bool
  rounds :: "(status \<times> bool) list"
  waitDone :: bool

definition signAndSendConfirmed :: "(instruction \<Rightarrow> 'c \<Rightarrow> 'c) \<Rightarrow> attempt \<Rightarrow> instruction \<Rightarrow> 'c \<Rightarrow> (alt_error + unit) \<times> 'c" where
  "signAndSendConfirmed exec a ix c =
     (if \<not> blockhashOk a then (Inl BlockhashFailed, c)
      else if \<not> transactionOk a then (Inl TransactionFailed, c)
      else
        let c = (if lands a then exec ix c else c)
        in if \<not> sendOk a then (Inl SendFailed, c) else (confirmSignature (rounds a), c))"

definition rpcRetryAttempts :: nat where "rpcRetryAttempts = 5"

text \<open>The loop over the attempts, with \<open>left\<close> of them to go; \<open>v\<close> is the variable that the build function may assign.\<close>

fun send_attempts ::
  "(instruction \<Rightarrow> 'c \<Rightarrow> 'c) \<Rightarrow> (attempt \<Rightarrow> 'v \<Rightarrow> (alt_error + instruction) \<times> 'v) \<Rightarrow> (nat \<Rightarrow> attempt) \<Rightarrow> nat \<Rightarrow> nat \<Rightarrow> 'v \<Rightarrow> 'c \<Rightarrow> (alt_error + unit) \<times> 'v \<times> 'c" where
  "send_attempts exec build att 0 i v c = (Inl (AllFailed Cancelled), v, c)"
| "send_attempts exec build att (Suc left) i v c =
     (case build (att i) v of
        (b, v) \<Rightarrow>
          (case (case b of Inl err \<Rightarrow> (Inl err, c) | Inr ix \<Rightarrow> signAndSendConfirmed exec (att i) ix c) of
             (Inr u, c) \<Rightarrow> (Inr (), v, c)
           | (Inl err, c) \<Rightarrow>
               if left = 0 then (Inl (AllFailed err), v, c)
               else if waitDone (att i) then (Inl Cancelled, v, c)
               else send_attempts exec build att left (Suc i) v c))"

definition sendWithRetries ::
  "(instruction \<Rightarrow> 'c \<Rightarrow> 'c) \<Rightarrow> (attempt \<Rightarrow> 'v \<Rightarrow> (alt_error + instruction) \<times> 'v) \<Rightarrow> (nat \<Rightarrow> attempt) \<Rightarrow> 'v \<Rightarrow> 'c \<Rightarrow> (alt_error + unit) \<times> 'v \<times> 'c" where
  "sendWithRetries exec build att v c = send_attempts exec build att rpcRetryAttempts 0 v c"



section \<open>The command\<close>


definition build_extend :: "pubkey \<Rightarrow> pubkey list \<Rightarrow> attempt \<Rightarrow> unit \<Rightarrow> (alt_error + instruction) \<times> unit" where
  "build_extend tableAddr batch a u = (if validates a then (Inr (ExtendTable tableAddr batch), u) else (Inl BuildFailed, u))"




section \<open>Transactions that get through\<close>


definition success :: "attempt \<Rightarrow> bool" where
  "success a \<longleftrightarrow> blockhashOk a \<and> transactionOk a \<and> sendOk a \<and> lands a \<and> \<not> isl (confirmSignature (rounds a))"







text \<open>What the lookup program promises: a new table is empty, and an extension appends.\<close>

definition lookup_program :: "(instruction \<Rightarrow> 'c \<Rightarrow> 'c) \<Rightarrow> ('c \<Rightarrow> pubkey \<rightharpoonup> pubkey list) \<Rightarrow> bool" where
  "lookup_program exec contents \<longleftrightarrow>
     (\<forall>c a. contents c a = None \<longrightarrow> contents (exec (CreateTable a) c) a = Some []) \<and>
     (\<forall>c a xs ks. contents c a = Some xs \<longrightarrow> contents (exec (ExtendTable a ks) c) a = Some (xs @ ks))"


section \<open>The stored positions\<close>
























text \<open>A retry does not ask what became of the transaction before: when one is executed but its confirmation runs out of time, its accounts are appended twice.\<close>

lemma retry_appends_twice:
  assumes "lookup_program exec contents" and "contents c a = Some xs" and "success (att 0\<lparr>rounds := [(Seen True, False)]\<rparr>)" and "rounds (att 0) = [(Seen False, False)]" and "validates (att 0)"
    and "\<not> waitDone (att 0)" and "success (att 1)" and "validates (att 1)"
  shows "\<exists>c'. sendWithRetries exec (build_extend a ks) att () c = (Inr (), (), c') \<and> contents c' a = Some (xs @ ks @ ks)"
proof -
  have "confirmSignature (rounds (att 1)) = Inr ()" using assms(7) by (cases "confirmSignature (rounds (att 1))") (simp_all add: success_def)
  then have "sendWithRetries exec (build_extend a ks) att () c = (Inr (), (), exec (ExtendTable a ks) (exec (ExtendTable a ks) c))"
    using assms(3-8) by (simp add: sendWithRetries_def rpcRetryAttempts_def numeral_eq_Suc build_extend_def signAndSendConfirmed_def success_def)
  then show ?thesis using assms(1,2) by (simp add: lookup_program_def)
qed

section \<open>Reports\<close>

definition put_usage :: "usage_entry \<Rightarrow> byte list" where
  "put_usage x = UPubkey x @ le_bytes 4 (unat (Count x))"

definition put_report :: "usage_entry list \<Rightarrow> byte list" where
  "put_report xs = le_bytes 2 (length xs) @ concat (map put_usage xs)"

lemma or_bytes:
  fixes b0 b1 b2 b3 :: byte
  shows "or (ucast b0) (or (push_bit 8 (ucast b1)) (or (push_bit 16 (ucast b2)) (push_bit 24 (ucast b3)))) = (of_nat (le_nat [b0, b1, b2, b3]) :: u32)"
proof -
  have "or (push_bit 16 (ucast b2)) (push_bit 24 (ucast b3)) = push_bit 16 (ucast b2) + (push_bit 24 (ucast b3) :: u32)"
    by (rule disjunctive_add [symmetric]) (auto simp: bit_simps dest!: bit_imp_le_length)
  moreover have "or (push_bit 8 (ucast b1)) (or (push_bit 16 (ucast b2)) (push_bit 24 (ucast b3))) = push_bit 8 (ucast b1) + (or (push_bit 16 (ucast b2)) (push_bit 24 (ucast b3)) :: u32)"
    by (rule disjunctive_add [symmetric]) (auto simp: bit_simps dest!: bit_imp_le_length)
  moreover have "or (ucast b0) (or (push_bit 8 (ucast b1)) (or (push_bit 16 (ucast b2)) (push_bit 24 (ucast b3)))) = ucast b0 + (or (push_bit 8 (ucast b1)) (or (push_bit 16 (ucast b2)) (push_bit 24 (ucast b3))) :: u32)"
    by (rule disjunctive_add [symmetric]) (auto simp: bit_simps dest!: bit_imp_le_length)
  ultimately show ?thesis by (simp add: push_bit_eq_mult algebra_simps)
qed


lemma parse_usage_reads:
  assumes "off + 36 \<le> length v"
  shows "parse_usage v off = Some \<lparr>UPubkey = take 32 (drop off v), Count = u32_at v (off + 32)\<rparr>"
proof -
  have four: "take 4 xs = [xs ! 0, xs ! 1, xs ! 2, xs ! 3]" if "4 \<le> length xs" for xs :: "byte list"
    using that by (intro nth_equalityI) (auto simp: less_Suc_eq numeral_eq_Suc)
  have "take 4 (drop (off + 32) v) = [v ! (off + 32), v ! (off + 33), v ! (off + 34), v ! (off + 35)]"
    using assms four [of "drop (off + 32) v"] by (simp add: add.commute [of off])
  then show ?thesis using assms by (simp add: parse_usage_def go_slice_in go_index_def copy_key_def u32_at_def or_bytes)
qed

text \<open>A report parses back, with every count.\<close>

lemma usage_report_roundtrip:
  assumes "length xs < 65536" and "\<forall>x \<in> set xs. length (UPubkey x) = 32"
  shows "ParseAccountUsage (put_report xs) = Some (Inr xs)"
proof -
  let ?v = "put_report xs"
  have put: "length (put_usage x) = 36" if "x \<in> set xs" for x using that assms(2) by (simp add: put_usage_def)
  have len: "length ?v = 2 + length xs * 36" using length_concat_const [of xs put_usage 36] put by (simp add: put_report_def)
  have two: "le_bytes 2 (length xs) = [of_nat (length xs), of_nat (length xs div 256)]" by (simp add: numeral_2_eq_2)
  have "le_nat (le_bytes 2 (length xs)) = length xs" using assms(1) by (simp add: le_nat_le_bytes)
  then have "unat (of_nat (length xs) :: byte) + unat (of_nat (length xs div 256) :: byte) * 256 = length xs" unfolding two by (simp only: le_nat.simps mult_0 mult_0_right add_0_right mult.commute [of 256])
  then have n: "unat (?v ! 0) + unat (?v ! 1) * 256 = length xs" by (simp only: put_report_def two append_Cons nth_Cons_0 One_nat_def nth_Cons_Suc)
  have one: "parse_usage ?v (2 + i * 36) = Some (xs ! i)" if il: "i < length xs" for i
  proof -
    obtain rest where r: "drop (36 * i) (concat (map put_usage xs)) = put_usage (xs ! i) @ rest" using drop_record [of xs put_usage 36 i, OF put il] by blast
    have d: "drop (2 + i * 36) ?v = put_usage (xs ! i) @ rest" using r by (simp add: put_report_def mult.commute)
    have k: "length (UPubkey (xs ! i)) = 32" using assms(2) il by simp
    have b: "2 + i * 36 + 36 \<le> length ?v" using il len by simp
    have "take 4 (drop 32 (drop (2 + i * 36) ?v)) = le_bytes 4 (unat (Count (xs ! i)))" unfolding d using k by (simp add: put_usage_def)
    then have "u32_at ?v (2 + i * 36 + 32) = of_nat (le_nat (le_bytes 4 (unat (Count (xs ! i)))))" by (simp add: u32_at_def add.commute)
    also have "\<dots> = Count (xs ! i)" using unsigned_less [of "Count (xs ! i)", where 'a = nat] by (simp add: le_nat_le_bytes)
    finally have "u32_at ?v (2 + i * 36 + 32) = Count (xs ! i)" .
    moreover have "take 32 (drop (2 + i * 36) ?v) = UPubkey (xs ! i)" unfolding d using k by (simp add: put_usage_def)
    ultimately have "parse_usage ?v (2 + i * 36) = Some \<lparr>UPubkey = UPubkey (xs ! i), Count = Count (xs ! i)\<rparr>" using parse_usage_reads [OF b] by (simp only:)
    then show ?thesis by simp
  qed
  have "those (map (\<lambda>i. parse_usage ?v (2 + i * 36)) [0..<length xs]) = Some xs"
  proof -
    have "map (\<lambda>i. parse_usage ?v (2 + i * 36)) [0..<length xs] = map Some (map ((!) xs) [0..<length xs])" using one by simp
    moreover have "those (map Some ys) = Some ys" for ys :: "usage_entry list" by (induction ys) simp_all
    ultimately show ?thesis by (simp add: map_nth)
  qed
  then show ?thesis using len n by (simp add: ParseAccountUsage_def accountUsageEntrySize_def Let_def)
qed

text \<open>A recorded report replaces the counts of its accounts and leaves the others.\<close>

lemma RecordUsage_latest:
  "\<exists>t'. RecordUsage (\<lambda>_. False) now xs t = Inr t' \<and> map_of t' = map_of t ++ map_of (rev (map (\<lambda>x. (UPubkey x, \<lparr>count = uint (Count x), updated_at = now\<rparr>)) xs)) \<and> (wf_table t \<longrightarrow> wf_table t')"
proof -
  have one: "map_of (upsert_usage now x t) = (map_of t)(UPubkey x \<mapsto> \<lparr>count = uint (Count x), updated_at = now\<rparr>) \<and> (wf_table t \<longrightarrow> wf_table (upsert_usage now x t))" for x t
  proof (cases "map_of t (UPubkey x)")
    case None
    then have "UPubkey x \<notin> fst ` set t" by (simp add: map_of_eq_None_iff)
    then show ?thesis using None by (auto simp: upsert_usage_def Let_def wf_table_def map_add_def fun_eq_iff split: option.split)
  qed (auto simp: upsert_usage_def Let_def wf_update_row)
  have "\<exists>t'. fold_err (\<lambda>x t. Inr (upsert_usage now x t)) xs t = (Inr t' :: alt_error + usage_table) \<and>
      map_of t' = map_of t ++ map_of (rev (map (\<lambda>x. (UPubkey x, \<lparr>count = uint (Count x), updated_at = now\<rparr>)) xs)) \<and> (wf_table t \<longrightarrow> wf_table t')"
  proof (induction xs arbitrary: t)
    case (Cons x xs)
    then show ?case using one [of x t] by (fastforce simp: map_add_upd_left)
  qed simp
  then obtain t' where "fold_err (\<lambda>x t. Inr (upsert_usage now x t)) xs t = (Inr t' :: alt_error + usage_table)"
      "map_of t' = map_of t ++ map_of (rev (map (\<lambda>x. (UPubkey x, \<lparr>count = uint (Count x), updated_at = now\<rparr>)) xs))" "wf_table t \<longrightarrow> wf_table t'" by blast
  then show ?thesis by (cases xs) (simp_all add: RecordUsage_def)
qed

end
