(* ===== verification/Portfolio.thy ===== *)
theory Portfolio
  imports Pnl Markets
begin

text \<open>
  The portfolio of the bots (\<open>src/portfolio/portfolio.go\<close>): a table of balance snapshots, one row per observation, each with the bot (a market and a pipeline), the account, the mint and the price,
  the lists of bots and accounts, and the positions that compare the two ends of a history. Unlike \<open>Pnl\<close> every observation is stored. Prices are real numbers; which queries fail is an argument. The order
  of the table is the order in which SQL scans it.
\<close>

section \<open>The table\<close>

record snapshot =
  Time :: int
  Market :: pubkey
  Pipeline :: pubkey
  Account :: pubkey
  Mint :: pubkey
  Balance :: u64
  Decimals :: "byte option"
  USDPrice :: "real option"

record balance_row =
  row_id :: nat
  time :: int
  market :: "byte list"
  pipeline :: "byte list"
  account :: "byte list"
  mint :: "byte list"
  balance :: int
  decimals :: "int option"
  usd_price :: "real option"

datatype portfolio_query = ListBots | ListAccountsForBot | ListAccounts | ListMints | SnapAt "byte list" string

datatype portfolio_error = QueryFailed portfolio_query | InsertFailed | InvalidOrder string

definition nullableUint8 :: "byte option \<Rightarrow> int option" where
  "nullableUint8 v = (case v of None \<Rightarrow> None | Some x \<Rightarrow> Some (uint x))"

definition nullableFloat64 :: "real option \<Rightarrow> real option" where
  "nullableFloat64 v = (case v of None \<Rightarrow> None | Some x \<Rightarrow> Some x)"

definition Insert :: "bool \<Rightarrow> snapshot \<Rightarrow> balance_row list \<Rightarrow> portfolio_error + balance_row list" where
  "Insert execFails s t =
     (if execFails then Inl InsertFailed
      else Inr (t @ [\<lparr>row_id = next_id t, time = Time s, market = Market s, pipeline = Pipeline s, account = Account s, mint = Mint s,
              balance = to_int64 (Balance s), decimals = nullableUint8 (Decimals s), usd_price = nullableFloat64 (USDPrice s)\<rparr>]))"

section \<open>Bots and accounts\<close>

text \<open>\<open>BotKey\<close> is a pair of market and pipeline.\<close>

definition Bots :: "(byte list \<Rightarrow> pubkey) \<Rightarrow> (portfolio_query \<Rightarrow> bool) \<Rightarrow> balance_row list \<Rightarrow> portfolio_error + (pubkey \<times> pubkey) list" where
  "Bots pkfb fails t =
     (if fails ListBots then Inl (QueryFailed ListBots)
      else Inr (map (\<lambda>(m, p). (pkfb m, pkfb p)) (sort (remdups (map (\<lambda>r. (market r, pipeline r)) t)))))"

definition AccountsForBot :: "(byte list \<Rightarrow> pubkey) \<Rightarrow> (portfolio_query \<Rightarrow> bool) \<Rightarrow> pubkey \<times> pubkey \<Rightarrow> balance_row list \<Rightarrow> portfolio_error + pubkey list" where
  "AccountsForBot pkfb fails b t =
     (if fails ListAccountsForBot then Inl (QueryFailed ListAccountsForBot)
      else Inr (map pkfb (sort (remdups (map account (filter (\<lambda>r. market r = fst b \<and> pipeline r = snd b) t))))))"

definition Accounts :: "(byte list \<Rightarrow> pubkey) \<Rightarrow> (portfolio_query \<Rightarrow> bool) \<Rightarrow> balance_row list \<Rightarrow> portfolio_error + pubkey list" where
  "Accounts pkfb fails t = (if fails ListAccounts then Inl (QueryFailed ListAccounts) else Inr (map pkfb (sort (remdups (map account t)))))"

section \<open>Positions\<close>








section \<open>What a position compares\<close>



definition inserted :: "snapshot list \<Rightarrow> balance_row list" where
  "inserted ss = fold (\<lambda>s t. case Insert False s t of Inl err \<Rightarrow> t | Inr t' \<Rightarrow> t') ss []"

definition row_for :: "nat \<times> snapshot \<Rightarrow> balance_row" where
  "row_for = (\<lambda>(i, s). \<lparr>row_id = Suc i, time = Time s, market = Market s, pipeline = Pipeline s, account = Account s, mint = Mint s,
     balance = to_int64 (Balance s), decimals = nullableUint8 (Decimals s), usd_price = nullableFloat64 (USDPrice s)\<rparr>)"

lemma inserted_rows: "inserted ss = map row_for (enumerate 0 ss)"
proof (induction ss rule: rev_induct)
  case (snoc s ss)
  have "inserted (ss @ [s]) = inserted ss @ [row_for (length ss, s)]" using snoc by (simp add: inserted_def Insert_def next_id_def row_for_def)
  then show ?case using snoc by (simp add: enumerate_append_eq)
qed (simp add: inserted_def)

definition keys_ok :: "(byte list \<Rightarrow> pubkey) \<Rightarrow> snapshot \<Rightarrow> bool" where
  "keys_ok pkfb s \<longleftrightarrow> pkfb (Market s) = Market s \<and> pkfb (Pipeline s) = Pipeline s \<and> pkfb (Mint s) = Mint s"

lemma nullable_id [simp]: "map_option word_of_int (nullableUint8 d) = d" "nullableFloat64 p = p"
  by (simp_all add: nullableUint8_def nullableFloat64_def split: option.split)


lemma row_for_fields [simp]: "account (row_for p) = Account (snd p)" "mint (row_for p) = Mint (snd p)" "time (row_for p) = Time (snd p)" "usd_price (row_for p) = USDPrice (snd p)"
  by (simp_all add: row_for_def split_beta)










text \<open>The bots that are listed are those that have reported, and the accounts of a bot those it has reported; with the keys of all bots together every account is listed.\<close>

lemma bots_cover_accounts:
  assumes "\<forall>s \<in> set ss. keys_ok id s"
  shows "\<exists>bots accs. Bots id (\<lambda>_. False) (inserted ss) = Inr bots \<and> Accounts id (\<lambda>_. False) (inserted ss) = Inr accs \<and> set bots = (\<lambda>s. (Market s, Pipeline s)) ` set ss \<and>
    set accs = (\<Union>b \<in> set bots. case AccountsForBot id (\<lambda>_. False) b (inserted ss) of Inl err \<Rightarrow> {} | Inr xs \<Rightarrow> set xs)"
proof -
  have rows: "set (inserted ss) = row_for ` set (enumerate 0 ss)" by (simp add: inserted_rows)
  have snds: "snd ` set (enumerate 0 ss) = set ss" by (metis list.set_map map_snd_enumerate)
  have "(\<lambda>s. (Market s, Pipeline s)) ` set ss = (\<lambda>p. (Market (snd p), Pipeline (snd p))) ` set (enumerate 0 ss)" unfolding snds [symmetric] image_image by simp
  then have bs: "(\<lambda>r. (market r, pipeline r)) ` set (inserted ss) = (\<lambda>s. (Market s, Pipeline s)) ` set ss"
    unfolding rows by (simp add: row_for_def image_image split_beta)
  have "set (map account (inserted ss)) = (\<Union>b \<in> (\<lambda>r. (market r, pipeline r)) ` set (inserted ss). account ` {r \<in> set (inserted ss). market r = fst b \<and> pipeline r = snd b})" by auto
  then show ?thesis unfolding bs using bs by (simp add: Bots_def Accounts_def AccountsForBot_def split_beta)
qed

end
