(* ===== verification/Spec2Isabelle.thy ===== *)
theory Spec2Isabelle
  imports PriceGraph Treasury Obligation Pnl Wire Bundler Cpmm Amm Clmm FileStream Ledger Charts PriceHub Board Pumpswap Pumpfun Orca Kamino Jet Drift Marginfi Solend Sanctum LstYield LookupTable Portfolio
begin

text \<open>
  The optimizer is a Go program that watches Solana accounts, keeps what it learns in SQL tables, looks for
  arbitrage between pools, manages a treasury of wallets for bots, and keeps books about it. This
  development models its own logic, theory by theory; what the program only calls (the chain stream,
  the SQL engine, gRPC, the key and number formats of libraries) are parameters, with what the code relies
  on as hypotheses of the theorems that need it.

  \<^bold>\<open>How the parts interact.\<close> The prefetchers (\<open>src/prefetch\<close>) subscribe to accounts through a tracker that
  limits the requests in flight (\<open>src/util/subscribe.go\<close>), decode what arrives and store it in tables.
  The price graph is built from the pool tables and searched for negative cycles. The harness
  (\<open>src/harness\<close>) follows the wallets of a treasury from account events, funds, sweeps and closes them, and
  edits and reads the files of coding machines over streams. Bots report by messages of fixed layout
  (\<open>src/brain\<close>). Tips of bundlers are polled, stored and broadcast (\<open>src/bundler\<close>). Snapshots of
  balances and lending positions are kept as histories of changes (\<open>src/prefetch/pnl\<close>,
  \<open>src/prefetch/obligation\<close>), and the ledger client (\<open>src/wiki/ledger\<close>) books treasury snapshots and
  computes profits.

  \<^bold>\<open>Theories.\<close>
  \<^item> \<open>Prelude\<close>: Go's byte slices, integers, maps with default values, little-endian encodings, loops with an
    error exit, decimal printing, slices of a fixed size; the collections \<open>go_reads\<close>, \<open>go_sizes\<close> and
    \<open>wire_fields\<close> that carry the parsers' proofs.
  \<^item> \<open>PriceGraph\<close> (\<open>prefetch/graph.go\<close>, \<open>prefetch/liquidity\<close>): the graph over pools and the Bellman-Ford search. A cycle that is
    returned is a real arbitrage, a negative cycle is always found, the predecessor walk ends, and consistent
    prices give no cycle. The order in which Go walks its maps is a parameter of the search.
  \<^item> \<open>Subscribe\<close> (\<open>util/subscribe.go\<close>): the tracker as a step relation; exact counters in every reachable state and
    progress towards an empty tracker.
  \<^item> \<open>Treasury\<close> (\<open>harness/treasury.go\<close>, \<open>treasuryevent.go\<close>, \<open>harness.go\<close>): wallets from account events; balances are the
    sums over live accounts; transfers, sweeps and closing.
  \<^item> \<open>Snapshots\<close>, \<open>Obligation\<close>, \<open>Pnl\<close>: the locale of a table that records changes, and its two uses with their
    parsers and queries.
  \<^item> \<open>Wire\<close>: the parsers and builders of the bots' messages: total on all bytes, and inverse to the layout.
  \<^item> \<open>Bundler\<close>: polling, fall-back, storage and broadcast of tips.
  \<^item> \<open>Accounts\<close>, \<open>Cpmm\<close>, \<open>Amm\<close>, \<open>Clmm\<close>: what the pool prefetchers share (readers, mint decimals, the locale
    \<open>event_handler\<close> of a handler that keeps an invariant, the locale \<open>handler_history\<close> of a handler whose tables are determined by
    the accounts it has seen) and the three Raydium prefetchers, each from the bytes of
    an account to its row and the queries over the table.
  \<^item> \<open>Pumpswap\<close>, \<open>Pumpfun\<close>, \<open>Orca\<close> (\<open>prefetch/pumpswap\<close>, \<open>prefetch/pumpfun\<close>, \<open>prefetch/orca\<close>): three more prefetchers. Whatever the order of
    pools, curves, vaults and mints in the stream, the table ends with what a reader of the whole stream would write; loading, ranking, and the
    inputs on which these fail.
  \<^item> \<open>Markets\<close>, \<open>Kamino\<close>, \<open>Jet\<close>, \<open>Drift\<close>, \<open>Marginfi\<close>, \<open>Solend\<close> (\<open>prefetch/kamino\<close> and so on): the lending prefetchers, over the tracker of \<open>Subscribe\<close>. The locale \<open>market_walk\<close> is a handler that
    asks for the markets it sees and keeps the records it sees, \<open>market_store\<close> a table that loads back what was saved; both are interpreted for each program. A fetch asks for exactly the markets
    of the stream and keeps exactly its records; \<open>Kamino\<close> also has the scan for open obligations.
  \<^item> \<open>Sanctum\<close>, \<open>LstYield\<close> (\<open>prefetch/sanctum\<close>, \<open>prefetch/lst-yield\<close>, \<open>cmd/watchlstyield.go\<close>): the prefetcher of staking tokens, from the list account to the table, and the yields that are
    estimated from polled rates.
  \<^item> \<open>LookupTable\<close> (\<open>prefetch/alt\<close>, \<open>cmd/alt.go\<close>): reports of used accounts and the command that puts them into a lookup table on the chain. The stored positions are those of the chain, except after a
    resumed run.
  \<^item> \<open>Portfolio\<close> (\<open>portfolio\<close>): snapshots of the bots' balances and the positions over them.
  \<^item> \<open>FileStream\<close> (\<open>harness/fs.go\<close>, \<open>cmd/localdevserver/server.go\<close>): the streams of the remote file system; the locale
    \<open>ack_loop\<close> is interpreted for the write and the edit loop.
  \<^item> \<open>Ledger\<close> (\<open>wiki/ledger\<close>): transactions, snapshots, the split table, profits and prices.
  \<^item> \<open>Charts\<close> (\<open>brain/marketwatchv1/store.go\<close>, \<open>cmd/braillechart.go\<close>, \<open>taindicators.go\<close>, \<open>marketwatchchart.go\<close>, \<open>throughputchart.go\<close>): the bounded histories behind the terminal charts,
    the indicators over them, and the drawing of lines into cells of dots.
  \<^item> \<open>PriceHub\<close> (\<open>prefetch/pyth\<close>, \<open>prefetch/price-feed\<close>): polling of oracle accounts, decoding, and the hub that publishes prices to subscribers with bounded
    buffers, as a step relation.
  \<^item> \<open>Board\<close> (\<open>brain/xstockshealthv1\<close>): the stores of the health board, the loop that fills them from messages of \<open>Wire\<close>, and the rows, pages and
    numbers of the page.

  \<^bold>\<open>Conventions.\<close> A Go struct is a record with the source's field names, an error or panic a value. A panic of a
  slice expression is \<open>None\<close> of the reader, so totality theorems say that no input panics. Machine integers
  are words; \<open>int32\<close> counters that only count are words of the same width. Floating point values are
  reals where the code adds and compares them, and opaque bit patterns where it only moves them;
  the one place where rounding decides (\<open>big.Float\<close> division in \<open>Obligation\<close>) has it written out. Concurrency is
  explicit: a goroutine is a function on the events its \<open>select\<close> takes, and the theorems quantify over their
  order. SQL tables are lists of rows with the statements' conditions; failing statements are inputs.

  \<^bold>\<open>Bounds and fuel.\<close> The search of \<open>PriceGraph\<close> is total: rounds are counted by the number of nodes, and the walk over
  predecessors is shown to reach a repeated node within that number. Parsers recurse on counts read
  from the data, bounded by the length. Slices of a fixed size end because the offset grows. No theorem
  depends on fuel.

  \<^bold>\<open>Not modelled.\<close> Stores with one insert and one select, prompt and source generation, the wiki client and
  its terminal interface, the compiler driver, commands, the HTML and HTTP side of the dashboards, process and network
  utilities, interfaces and generated code. Of the file streams, the archive transfer (gzip and tar) and the
  calls that forward one request are left out. Rounding of \<open>float64\<close> is not modelled.
\<close>

end
